(* ===== verification/Prelude.thy ===== *)
theory Prelude
  imports
    Complex_Main
    "HOL-Library.AList"
    "HOL-Library.Sublist"
    "HOL-Library.Word"
begin

text \<open>
  Shared vocabulary of the development: the names of the Go types the components use, the Go
  map as an association list with distinct keys, and the list lemmas that more than one
  component needs.

  \<^item> A Go \<^verbatim>\<open>string\<close> or \<^verbatim>\<open>[]byte\<close> is a list of bytes (\<open>char\<close> has 256 values), so
    \<open>length\<close> is Go's \<^verbatim>\<open>len\<close>.
  \<^item> A \<^verbatim>\<open>time.Time\<close> is its distance in nanoseconds from the zero time, so \<open>0\<close> is
    \<^verbatim>\<open>time.Time{}\<close>; a \<^verbatim>\<open>time.Duration\<close> is its \<^verbatim>\<open>int64\<close> count of nanoseconds.
  \<^item> Go's \<^verbatim>\<open>uint64\<close> counters are \<open>64 word\<close>, which wrap around as they do in Go.
  \<^item> Go's \<^verbatim>\<open>int\<close> and \<^verbatim>\<open>int64\<close> sizes are \<open>int\<close>; the components prove the bounds that
    keep them inside 64 bits.
\<close>

type_synonym bytes = "char list"
type_synonym time = int
type_synonym duration = int
type_synonym u64 = "64 word"
type_synonym u32 = "32 word"

named_theorems inv_intros \<open>introduction rules that establish a component invariant\<close>
named_theorems go_defs \<open>definitions that the component proofs unfold together\<close>

section \<open>Go time\<close>

text \<open>\<^verbatim>\<open>t.Sub(u)\<close> saturates at the bounds of \<^verbatim>\<open>int64\<close>.\<close>

definition maxDuration :: duration where
  "maxDuration = 2 ^ 63 - 1"

definition minDuration :: duration where
  "minDuration = - (2 ^ 63)"

definition time_sub :: "time \<Rightarrow> time \<Rightarrow> duration" where
  "time_sub t u = max minDuration (min maxDuration (t - u))"

definition second :: duration where
  "second = 1000000000"

definition millisecond :: duration where
  "millisecond = 1000000"

lemma time_sub_exact: "minDuration \<le> t - u \<Longrightarrow> t - u \<le> maxDuration \<Longrightarrow> time_sub t u = t - u"
  by (simp add: time_sub_def)

lemma time_sub_nonneg: "u \<le> t \<Longrightarrow> 0 \<le> time_sub t u"
  by (simp add: time_sub_def maxDuration_def)

lemma time_sub_le: "minDuration \<le> t - u \<Longrightarrow> time_sub t u \<le> t - u"
  by (simp add: time_sub_def)

lemma time_sub_mono: "t \<le> t' \<Longrightarrow> time_sub t u \<le> time_sub t' u"
  by (auto simp: time_sub_def)

section \<open>Go maps as association lists\<close>

text \<open>
  \<^verbatim>\<open>m[k] = v\<close> is \<^const>\<open>AList.update\<close>, \<^verbatim>\<open>delete(m, k)\<close> is \<^const>\<open>AList.delete\<close>,
  \<^verbatim>\<open>m[k]\<close> is \<^const>\<open>map_of\<close> and \<^verbatim>\<open>len(m)\<close> is \<^const>\<open>length\<close> on a list whose keys are
  distinct.
\<close>

abbreviation dict :: "('k \<times> 'v) list \<Rightarrow> bool" where
  "dict m \<equiv> distinct (map fst m)"

lemma dict_update [simp, intro]: "dict m \<Longrightarrow> dict (AList.update k v m)"
  by (rule distinct_update)

lemma dict_delete [simp, intro]: "dict m \<Longrightarrow> dict (AList.delete k m)"
  by (rule distinct_delete)

lemma map_of_update [simp]: "map_of (AList.update k v m) = (map_of m)(k \<mapsto> v)"
  by (rule update_conv')

lemma map_of_delete [simp]: "map_of (AList.delete k m) = (map_of m)(k := None)"
  by (rule delete_conv')

lemma delete_id [simp]: "k \<notin> fst ` set m \<Longrightarrow> AList.delete k m = m"
  by (rule delete_id)

lemma length_delete_less:
  "k \<in> fst ` set m \<Longrightarrow> length (AList.delete k m) < length m"
  by (induction m) (force simp: less_Suc_eq_le length_delete_le)+

lemma length_delete_dict:
  "dict m \<Longrightarrow> k \<in> fst ` set m \<Longrightarrow> length (AList.delete k m) = length m - 1"
proof (induction m)
  case Nil
  then show ?case by simp
next
  case (Cons p m)
  show ?case
  proof (cases "fst p = k")
    case True
    with Cons.prems have "k \<notin> fst ` set m" by auto
    with True show ?thesis by simp
  next
    case False
    with Cons.prems have "k \<in> fst ` set m" by auto
    moreover from this have "m \<noteq> []" by auto
    ultimately show ?thesis using Cons False by simp
  qed
qed

lemma length_update_dict:
  "length (AList.update k v m) = (if k \<in> fst ` set m then length m else Suc (length m))"
  by (induction m) auto

lemma update_new: "map_of m k = None \<Longrightarrow> AList.update k v m = m @ [(k, v)]"
  by (induction m) (auto split: if_splits)

section \<open>Lists\<close>

lemma sum_list_delete:
  fixes f :: "'v \<Rightarrow> int"
  assumes "dict m" and "map_of m k = Some v"
  shows "(\<Sum>p \<leftarrow> AList.delete k m. f (snd p)) = (\<Sum>p \<leftarrow> m. f (snd p)) - f v"
  using assms
proof (induction m)
  case Nil
  then show ?case by simp
next
  case (Cons p m)
  then show ?case
  proof (cases "fst p = k")
    case True
    with Cons.prems have "k \<notin> fst ` set m" and "v = snd p" by auto
    with True show ?thesis by simp
  qed auto
qed

lemma filter_key_delete:
  "map snd (AList.delete k m) = map snd (filter (\<lambda>p. fst p \<noteq> k) m)"
  by (induction m) auto

end
