(* ===== verification/CachePolicy.thy ===== *)
theory CachePolicy
  imports Prelude
begin

text \<open>
  The per-prefix cache policy of \<^verbatim>\<open>internal/cachepolicy/matcher.go\<close>: modes, decisions, and
  the immutable matcher that resolves a key by literal longest-prefix matching. The reference
  definition \<open>longest_match\<close> scans the rules once and keeps the longest matching prefix, the
  later rule winning a tie; \<open>Match\<close> on a matcher built by \<open>New_matcher\<close> agrees with it.
\<close>

section \<open>Model\<close>

datatype mode = ModeDeny | ModeObserve | ModeCache

definition ParseMode :: "bytes \<Rightarrow> mode \<times> bool" where
  "ParseMode value =
     (if value = ''deny'' then (ModeDeny, True)
      else if value = ''observe'' then (ModeObserve, True)
      else if value = ''cache'' then (ModeCache, True)
      else (ModeDeny, False))"

record decision =
  d_Mode :: mode
  d_MaxItemBytes :: int
  d_MaxLocalTTL :: duration

record rule =
  r_Prefix :: bytes
  r_Decision :: decision

record matcher =
  m_fallback :: decision
  m_rules :: "(bytes \<times> decision) list"
  m_lengths :: "nat list"

text \<open>The loop of \<^verbatim>\<open>New\<close>: \<open>byPrefix\<close>, \<open>seenLengths\<close> and \<open>lengths\<close> are its variables.\<close>

fun New_loop ::
  "rule list \<Rightarrow> (bytes \<times> decision) list \<Rightarrow> nat list \<Rightarrow> nat list \<Rightarrow> (bytes \<times> decision) list \<times> nat list"
where
  "New_loop [] byPrefix seenLengths lengths = (byPrefix, lengths)"
| "New_loop (rule # rules) byPrefix seenLengths lengths =
     (let prefix = r_Prefix rule;
          byPrefix = AList.update prefix (r_Decision rule) byPrefix
      in if length prefix \<in> set seenLengths then New_loop rules byPrefix seenLengths lengths
         else New_loop rules byPrefix (length prefix # seenLengths) (lengths @ [length prefix]))"

definition New_matcher :: "decision \<Rightarrow> rule list \<Rightarrow> matcher" where
  "New_matcher fallback rules =
     (let (byPrefix, lengths) = New_loop rules [] [] []
      in \<lparr>m_fallback = fallback, m_rules = byPrefix, m_lengths = rev (sort lengths)\<rparr>)"

fun Match_loop :: "(bytes \<times> decision) list \<Rightarrow> nat list \<Rightarrow> bytes \<Rightarrow> decision option" where
  "Match_loop rules [] key = None"
| "Match_loop rules (len # lengths) key =
     (if len > length key then Match_loop rules lengths key
      else case map_of rules (take len key) of
             Some d \<Rightarrow> Some d
           | None \<Rightarrow> Match_loop rules lengths key)"

definition Match :: "matcher \<Rightarrow> bytes \<Rightarrow> decision" where
  "Match m key =
     (case Match_loop (m_rules m) (m_lengths m) key of Some d \<Rightarrow> d | None \<Rightarrow> m_fallback m)"

section \<open>Specification\<close>

fun longest_match :: "bytes \<Rightarrow> rule option \<Rightarrow> rule list \<Rightarrow> rule option" where
  "longest_match key best [] = best"
| "longest_match key best (r # rs) =
     longest_match key
       (if prefix (r_Prefix r) key \<and>
           (case best of None \<Rightarrow> True | Some b \<Rightarrow> length (r_Prefix b) \<le> length (r_Prefix r))
        then Some r else best) rs"

section \<open>Correctness\<close>

lemma New_loop_rules:
  "map_of (fst (New_loop rules bp seen ls)) =
     map_of bp ++ map_of (map (\<lambda>r. (r_Prefix r, r_Decision r)) (rev rules))"
  by (induction rules arbitrary: bp seen ls) (auto simp: Let_def map_add_def fun_eq_iff split: option.splits)

lemma New_loop_lengths:
  "set seen = set ls \<Longrightarrow>
   set (snd (New_loop rules bp seen ls)) = set ls \<union> (\<lambda>r. length (r_Prefix r)) ` set rules"
  by (induction rules arbitrary: bp seen ls) (auto simp: Let_def)

text \<open>The loop of \<^verbatim>\<open>Match\<close> over descending lengths finds the longest prefix in the map.\<close>

lemma Match_loop_None:
  "Match_loop rules ls key = None \<longleftrightarrow>
     (\<forall>n \<in> set ls. n \<le> length key \<longrightarrow> map_of rules (take n key) = None)"
  by (induction ls) (auto split: option.splits)

lemma Match_loop_Some:
  "Match_loop rules ls key = Some d \<Longrightarrow> sorted_wrt (\<ge>) ls \<Longrightarrow>
   \<exists>n \<in> set ls. n \<le> length key \<and> map_of rules (take n key) = Some d \<and>
     (\<forall>k \<in> set ls. n < k \<longrightarrow> k \<le> length key \<longrightarrow> map_of rules (take k key) = None)"
  by (induction ls) (fastforce split: if_splits option.splits)+

lemma sorted_wrt_rev_sort: "sorted_wrt (\<ge>) (rev (sort (ls :: nat list)))"
  by (simp add: sorted_wrt_rev)

text \<open>The reference scan, characterised the same way.\<close>

definition rule_map :: "rule list \<Rightarrow> bytes \<rightharpoonup> decision" where
  "rule_map rules = map_of (map (\<lambda>r. (r_Prefix r, r_Decision r)) (rev rules))"

lemma rule_map_snoc: "rule_map (rs @ [r]) = (rule_map rs)(r_Prefix r \<mapsto> r_Decision r)"
  by (simp add: rule_map_def)

lemma dom_rule_map: "dom (rule_map rs) = r_Prefix ` set rs"
  by (simp add: rule_map_def dom_map_of_conv_image_fst image_image)

lemma longest_match_snoc:
  "longest_match key best (rs @ [r]) =
     (let b = longest_match key best rs in
      if prefix (r_Prefix r) key \<and>
         (case b of None \<Rightarrow> True | Some b \<Rightarrow> length (r_Prefix b) \<le> length (r_Prefix r))
      then Some r else b)"
  by (induction rs arbitrary: best) (simp_all add: Let_def)

lemma longest_match_None:
  "longest_match key None rs = None \<longleftrightarrow> (\<forall>r \<in> set rs. \<not> prefix (r_Prefix r) key)"
  by (induction rs rule: rev_induct)
    (auto simp: longest_match_snoc Let_def split: option.splits if_splits)

lemma longest_match_Some:
  "longest_match key None rs = Some r \<Longrightarrow>
   prefix (r_Prefix r) key \<and> rule_map rs (r_Prefix r) = Some (r_Decision r) \<and>
   (\<forall>q \<in> set rs. prefix (r_Prefix q) key \<longrightarrow> length (r_Prefix q) \<le> length (r_Prefix r))"
proof (induction rs arbitrary: r rule: rev_induct)
  case Nil
  then show ?case by simp
next
  case (snoc q rs)
  show ?case
  proof (cases "longest_match key None rs")
    case None
    with snoc.prems show ?thesis
      by (auto simp: longest_match_snoc rule_map_snoc longest_match_None split: if_splits)
  next
    case (Some b)
    note IH = snoc.IH [OF Some]
    show ?thesis
    proof (cases "prefix (r_Prefix q) key \<and> length (r_Prefix b) \<le> length (r_Prefix q)")
      case True
      with Some snoc.prems have "r = q" by (simp add: longest_match_snoc)
      with True IH show ?thesis by (auto simp: rule_map_snoc)
    next
      case False
      with Some snoc.prems have [simp]: "r = b" by (simp add: longest_match_snoc split: if_splits)
      from False IH have "r_Prefix q \<noteq> r_Prefix b" by auto
      with False IH show ?thesis by (auto simp: rule_map_snoc)
    qed
  qed
qed

lemma New_matcher_sel:
  "m_fallback (New_matcher fb rules) = fb"
  "map_of (m_rules (New_matcher fb rules)) = rule_map rules"
  "set (m_lengths (New_matcher fb rules)) = (\<lambda>r. length (r_Prefix r)) ` set rules"
  "sorted_wrt (\<ge>) (m_lengths (New_matcher fb rules))"
  using New_loop_rules [of rules "[]" "[]" "[]"] New_loop_lengths [of "[]" "[]" rules "[]"]
  by (simp_all add: New_matcher_def rule_map_def case_prod_beta sorted_wrt_rev)

lemma rule_map_take:
  assumes "n \<le> length key" and "rule_map rules (take n key) = Some d"
  shows "\<exists>r \<in> set rules. r_Prefix r = take n key \<and> prefix (r_Prefix r) key \<and> length (r_Prefix r) = n"
proof -
  from assms(2) have "take n key \<in> r_Prefix ` set rules" by (metis domI dom_rule_map)
  then obtain r where "r \<in> set rules" and "r_Prefix r = take n key" by auto
  with assms(1) show ?thesis by (auto simp: take_is_prefix)
qed

text \<open>
  C14: \<^verbatim>\<open>Match\<close> on a matcher built by \<^verbatim>\<open>New\<close> from any rule list resolves a key by literal
  longest-prefix matching: it returns the decision of the longest rule prefix of the key, the
  later of two rules with the same prefix, and the fallback when no rule prefix matches.
\<close>

theorem Match_longest_prefix:
  "Match (New_matcher fb rules) key =
     (case longest_match key None rules of Some r \<Rightarrow> r_Decision r | None \<Rightarrow> fb)"
proof (cases "longest_match key None rules")
  case None
  then have "\<forall>r \<in> set rules. \<not> prefix (r_Prefix r) key" by (simp add: longest_match_None)
  then have "Match_loop (m_rules (New_matcher fb rules)) (m_lengths (New_matcher fb rules)) key = None"
    unfolding Match_loop_None New_matcher_sel by (metis not_None_eq rule_map_take)
  with None show ?thesis by (simp add: Match_def New_matcher_sel)
next
  case (Some r)
  let ?m = "New_matcher fb rules"
  note best = longest_match_Some [OF Some]
  then have r: "take (length (r_Prefix r)) key = r_Prefix r" "length (r_Prefix r) \<le> length key"
    by (auto simp: prefix_def)
  from best have "r_Prefix r \<in> r_Prefix ` set rules" by (metis domI dom_rule_map)
  then have rl: "length (r_Prefix r) \<in> set (m_lengths ?m)" by (auto simp: New_matcher_sel)
  have "Match_loop (m_rules ?m) (m_lengths ?m) key \<noteq> None"
    unfolding Match_loop_None New_matcher_sel(2) using r rl best by (metis option.distinct(1))
  then obtain d where d: "Match_loop (m_rules ?m) (m_lengths ?m) key = Some d" by blast
  from Match_loop_Some [OF d New_matcher_sel(4)] obtain n where
    n: "n \<le> length key" "rule_map rules (take n key) = Some d"
      "\<forall>k \<in> set (m_lengths ?m). n < k \<longrightarrow> k \<le> length key \<longrightarrow> rule_map rules (take k key) = None"
    unfolding New_matcher_sel(2) by blast
  from n(3) rl r best have "length (r_Prefix r) \<le> n" by (metis leI option.distinct(1))
  moreover from rule_map_take [OF n(1,2)] best have "n \<le> length (r_Prefix r)" by auto
  ultimately have "n = length (r_Prefix r)" by simp
  with n(2) r best have "d = r_Decision r" by simp
  with Some d show ?thesis by (simp add: Match_def)
qed

end
