(* ===== verification/LruCache.thy ===== *)
theory LruCache
  imports Prelude
begin

text \<open>
  The bounded LRU cache of \<^verbatim>\<open>internal/cache/cache.go\<close>.

  The Go structure is a map from keys to list elements and a doubly linked list of entries.
  The model keeps both: an element has an address (a \<open>nat\<close>), \<open>c_items\<close> maps keys to addresses
  and \<open>c_lru\<close> is the list of addressed entries, front (most recently used) first. Each method
  runs under \<^verbatim>\<open>c.mu\<close>, so it is one function on the state; the clock reading a method makes is
  its argument \<open>now\<close>.

  The invariant \<open>cache_inv\<close> says that the map and the list agree, that the byte counter is the
  sum of the entry sizes and that both limits hold. The abstract view is the list of entries in
  recency order; every operation refines a function on that list.
\<close>

section \<open>Model\<close>

definition entryOverheadBytes :: int where
  "entryOverheadBytes = 128"

record entry_snapshot =
  sn_Key :: bytes
  sn_Value :: bytes
  sn_InsertedAt :: time
  sn_ExpiresAt :: time
  sn_LastAccess :: time
  sn_EstimatedSize :: int
  sn_Age :: duration
  sn_TTL :: duration

record stats =
  st_Entries :: int
  st_Bytes :: int
  st_MaxBytes :: int
  st_Evictions :: u64

record cache_entry =
  e_key :: bytes
  e_value :: bytes
  e_insertedAt :: time
  e_expiresAt :: time
  e_lastAccess :: time
  e_estimatedSize :: int

record cache =
  c_maxBytes :: int
  c_maxEntries :: int
  c_items :: "(bytes \<times> nat) list"
  c_lru :: "(nat \<times> cache_entry) list"
  c_bytes :: int
  c_evictions :: u64
  c_closed :: bool
  c_nextElement :: nat

definition New_cache :: "int \<Rightarrow> int \<Rightarrow> cache" where
  "New_cache maxBytes maxEntries =
     \<lparr>c_maxBytes = (if maxBytes < 0 then 0 else maxBytes), c_maxEntries = maxEntries,
      c_items = [], c_lru = [], c_bytes = 0, c_evictions = 0, c_closed = False,
      c_nextElement = 0\<rparr>"

definition EstimateSize :: "bytes \<Rightarrow> bytes \<Rightarrow> int" where
  "EstimateSize key value = int (length key + length value) + entryOverheadBytes"

text \<open>\<open>list.List\<close>: \<open>MoveToFront\<close> with the entry that the element now holds.\<close>

definition moveToFront :: "nat \<Rightarrow> cache_entry \<Rightarrow> (nat \<times> cache_entry) list \<Rightarrow> (nat \<times> cache_entry) list" where
  "moveToFront el ent lru = (el, ent) # AList.delete el lru"

definition removeElementLocked :: "cache \<Rightarrow> nat \<Rightarrow> cache" where
  "removeElementLocked c el =
     (case map_of (c_lru c) el of
        None \<Rightarrow> c
      | Some ent \<Rightarrow>
          c\<lparr>c_items := AList.delete (e_key ent) (c_items c),
            c_bytes := c_bytes c - e_estimatedSize ent,
            c_lru := AList.delete el (c_lru c)\<rparr>)"

definition removeLocked :: "cache \<Rightarrow> bytes \<Rightarrow> bool \<times> cache" where
  "removeLocked c key =
     (case map_of (c_items c) key of
        None \<Rightarrow> (False, c)
      | Some el \<Rightarrow> (True, removeElementLocked c el))"

definition overLimits :: "cache \<Rightarrow> bool" where
  "overLimits c \<longleftrightarrow>
     c_bytes c > c_maxBytes c \<or>
     (c_maxEntries c > 0 \<and> int (length (c_items c)) > c_maxEntries c)"

function enforceLimitsLocked :: "cache \<Rightarrow> cache" where
  "enforceLimitsLocked c =
     (if overLimits c then
        (if c_lru c = [] then c
         else let c' = removeElementLocked c (fst (last (c_lru c)))
              in enforceLimitsLocked (c'\<lparr>c_evictions := c_evictions c' + 1\<rparr>))
      else c)"
  by pat_completeness auto
termination
proof (relation "measure (\<lambda>c. length (c_lru c))", goal_cases)
  case 1
  show ?case by simp
next
  case (2 c c')
  then have "last (c_lru c) \<in> set (c_lru c)" by simp
  then have "fst (last (c_lru c)) \<in> fst ` set (c_lru c)" by (rule imageI)
  moreover from this obtain ent where "map_of (c_lru c) (fst (last (c_lru c))) = Some ent"
    by (metis domD dom_map_of_conv_image_fst)
  ultimately show ?case using 2 by (simp add: removeElementLocked_def length_delete_less)
qed

declare enforceLimitsLocked.simps [simp del]

definition put :: "cache \<Rightarrow> bytes \<Rightarrow> bytes \<Rightarrow> time \<Rightarrow> time \<Rightarrow> bool \<times> cache" where
  "put c key value now expiresAt =
     (let size = EstimateSize key value in
      if c_closed c \<or> c_maxBytes c \<le> 0 \<or> size > c_maxBytes c
      then (False, snd (removeLocked c key))
      else
        let c1 =
          (case map_of (c_items c) key of
             Some existing \<Rightarrow>
               (case map_of (c_lru c) existing of
                  None \<Rightarrow> c
                | Some ent \<Rightarrow>
                    let ent' = ent\<lparr>e_value := value, e_insertedAt := now, e_expiresAt := expiresAt,
                                   e_lastAccess := now, e_estimatedSize := size\<rparr>
                    in c\<lparr>c_bytes := c_bytes c - e_estimatedSize ent + size,
                         c_lru := moveToFront existing ent' (c_lru c)\<rparr>)
           | None \<Rightarrow>
               let ent = \<lparr>e_key = key, e_value = value, e_insertedAt = now, e_expiresAt = expiresAt,
                          e_lastAccess = now, e_estimatedSize = size\<rparr>;
                   el = c_nextElement c
               in c\<lparr>c_items := AList.update key el (c_items c),
                    c_lru := (el, ent) # c_lru c,
                    c_bytes := c_bytes c + size,
                    c_nextElement := Suc el\<rparr>)
        in (True, enforceLimitsLocked c1))"

definition Delete :: "cache \<Rightarrow> bytes \<Rightarrow> bool \<times> cache" where
  "Delete c key = removeLocked c key"

definition Put :: "cache \<Rightarrow> time \<Rightarrow> bytes \<Rightarrow> bytes \<Rightarrow> duration \<Rightarrow> bool \<times> cache" where
  "Put c now key value ttl =
     (if ttl \<le> 0 \<or> key = [] then (False, c) else put c key value now (now + ttl))"

definition PutUntil :: "cache \<Rightarrow> time \<Rightarrow> bytes \<Rightarrow> bytes \<Rightarrow> time \<Rightarrow> bool \<times> cache" where
  "PutUntil c now key value expiresAt =
     (if key = [] then (False, c)
      else if \<not> now < expiresAt then (False, snd (Delete c key))
      else put c key value now expiresAt)"

definition snapshot :: "cache_entry \<Rightarrow> time \<Rightarrow> entry_snapshot" where
  "snapshot e now =
     (let ttl = time_sub (e_expiresAt e) now;
          ttl = (if ttl < 0 then 0 else ttl)
      in \<lparr>sn_Key = e_key e, sn_Value = e_value e, sn_InsertedAt = e_insertedAt e,
          sn_ExpiresAt = e_expiresAt e, sn_LastAccess = e_lastAccess e,
          sn_EstimatedSize = e_estimatedSize e, sn_Age = time_sub now (e_insertedAt e),
          sn_TTL = ttl\<rparr>)"

definition get :: "cache \<Rightarrow> time \<Rightarrow> bytes \<Rightarrow> duration \<Rightarrow> bool \<Rightarrow> entry_snapshot option \<times> cache" where
  "get c now key grace allowStale =
     (case map_of (c_items c) key of
        None \<Rightarrow> (None, c)
      | Some el \<Rightarrow>
          (case map_of (c_lru c) el of
             None \<Rightarrow> (None, c)
           | Some ent \<Rightarrow>
               let expiryLimit = e_expiresAt ent;
                   expiryLimit = (if allowStale \<and> grace > 0 then expiryLimit + grace else expiryLimit)
               in if \<not> now < expiryLimit
                  then (None, if \<not> allowStale \<or> grace \<noteq> 0 then removeElementLocked c el else c)
                  else let ent' = ent\<lparr>e_lastAccess := now\<rparr>
                       in (Some (snapshot ent' now), c\<lparr>c_lru := moveToFront el ent' (c_lru c)\<rparr>)))"

definition Get :: "cache \<Rightarrow> time \<Rightarrow> bytes \<Rightarrow> entry_snapshot option \<times> cache" where
  "Get c now key = get c now key 0 False"

definition GetStale :: "cache \<Rightarrow> time \<Rightarrow> bytes \<Rightarrow> duration \<Rightarrow> entry_snapshot option \<times> cache" where
  "GetStale c now key grace = get c now key grace True"

definition Purge :: "cache \<Rightarrow> cache" where
  "Purge c = c\<lparr>c_items := [], c_lru := [], c_bytes := 0\<rparr>"

definition Close_cache :: "cache \<Rightarrow> cache" where
  "Close_cache c = c\<lparr>c_closed := True, c_items := [], c_lru := [], c_bytes := 0\<rparr>"

definition Stats :: "cache \<Rightarrow> stats" where
  "Stats c =
     \<lparr>st_Entries = int (length (c_items c)), st_Bytes = c_bytes c, st_MaxBytes = c_maxBytes c,
      st_Evictions = c_evictions c\<rparr>"

definition Inspect :: "cache \<Rightarrow> time \<Rightarrow> bytes \<Rightarrow> entry_snapshot option" where
  "Inspect c now key =
     (case map_of (c_items c) key of
        None \<Rightarrow> None
      | Some el \<Rightarrow>
          (case map_of (c_lru c) el of
             None \<Rightarrow> None
           | Some ent \<Rightarrow> if \<not> now < e_expiresAt ent then None else Some (snapshot ent now)))"

section \<open>Invariant and abstract view\<close>

definition entries :: "cache \<Rightarrow> cache_entry list" where
  "entries c = map snd (c_lru c)"

definition total_size :: "cache_entry list \<Rightarrow> int" where
  "total_size es = (\<Sum>e \<leftarrow> es. e_estimatedSize e)"

definition entry_ok :: "cache_entry \<Rightarrow> bool" where
  "entry_ok e \<longleftrightarrow> e_key e \<noteq> [] \<and> e_estimatedSize e = EstimateSize (e_key e) (e_value e)"

definition index_inv :: "cache \<Rightarrow> bool" where
  "index_inv c \<longleftrightarrow>
     dict (c_items c) \<and> dict (c_lru c) \<and>
     set (c_items c) = (\<lambda>p. (e_key (snd p), fst p)) ` set (c_lru c) \<and>
     (\<forall>el \<in> fst ` set (c_lru c). el < c_nextElement c)"

definition core_inv :: "cache \<Rightarrow> bool" where
  "core_inv c \<longleftrightarrow>
     index_inv c \<and> (\<forall>e \<in> set (entries c). entry_ok e) \<and> c_bytes c = total_size (entries c) \<and>
     0 \<le> c_maxBytes c \<and> (c_closed c \<longrightarrow> c_lru c = [])"

definition cache_inv :: "cache \<Rightarrow> bool" where
  "cache_inv c \<longleftrightarrow> core_inv c \<and> \<not> overLimits c"

text \<open>The abstract operations on the recency list.\<close>

definition find_key :: "bytes \<Rightarrow> cache_entry list \<Rightarrow> cache_entry option" where
  "find_key k es = find (\<lambda>e. e_key e = k) es"

definition drop_key :: "bytes \<Rightarrow> cache_entry list \<Rightarrow> cache_entry list" where
  "drop_key k es = filter (\<lambda>e. e_key e \<noteq> k) es"

definition fits :: "int \<Rightarrow> int \<Rightarrow> cache_entry list \<Rightarrow> bool" where
  "fits maxB maxE es \<longleftrightarrow> total_size es \<le> maxB \<and> (maxE > 0 \<longrightarrow> int (length es) \<le> maxE)"

fun lru_trim :: "int \<Rightarrow> int \<Rightarrow> cache_entry list \<Rightarrow> cache_entry list" where
  "lru_trim maxB maxE es =
     (if fits maxB maxE es \<or> es = [] then es else lru_trim maxB maxE (butlast es))"

declare lru_trim.simps [simp del]

lemma entries_update [simp]:
  "entries (c\<lparr>c_lru := l\<rparr>) = map snd l"
  "entries (c\<lparr>c_items := i\<rparr>) = entries c"
  "entries (c\<lparr>c_bytes := b\<rparr>) = entries c"
  "entries (c\<lparr>c_evictions := n\<rparr>) = entries c"
  "entries (c\<lparr>c_nextElement := m\<rparr>) = entries c"
  by (simp_all add: entries_def)

lemma entry_size_pos: "entry_ok e \<Longrightarrow> 128 < e_estimatedSize e"
  by (cases "e_key e") (simp_all add: entry_ok_def EstimateSize_def entryOverheadBytes_def)

lemma total_size_simps [simp]:
  "total_size [] = 0" "total_size (e # es) = e_estimatedSize e + total_size es"
  "total_size (xs @ ys) = total_size xs + total_size ys"
  by (simp_all add: total_size_def)

lemma total_size_nonneg: "\<forall>e \<in> set es. entry_ok e \<Longrightarrow> 0 \<le> total_size es"
proof (induction es)
  case (Cons e es)
  then show ?case using entry_size_pos [of e] by simp
qed simp

subsection \<open>The index agrees with the list\<close>

lemma mem_index_image:
  "(k, el) \<in> (\<lambda>p. (e_key (snd p), fst p)) ` A \<longleftrightarrow> (\<exists>e. (el, e) \<in> A \<and> e_key e = k)"
  by force

lemma index_mem:
  assumes "index_inv c"
  shows "(k, el) \<in> set (c_items c) \<longleftrightarrow> (\<exists>e. (el, e) \<in> set (c_lru c) \<and> e_key e = k)"
proof -
  from assms have "set (c_items c) = (\<lambda>p. (e_key (snd p), fst p)) ` set (c_lru c)"
    unfolding index_inv_def by blast
  then show ?thesis by (simp only: mem_index_image)
qed

lemma index_dicts: "index_inv c \<Longrightarrow> dict (c_items c)" "index_inv c \<Longrightarrow> dict (c_lru c)"
  unfolding index_inv_def by blast+

lemma index_lookup:
  assumes "index_inv c"
  shows "map_of (c_items c) k = Some el \<longleftrightarrow> (\<exists>e. map_of (c_lru c) el = Some e \<and> e_key e = k)"
  using index_mem [OF assms] by (simp add: index_dicts [OF assms])

lemma index_length:
  assumes "index_inv c"
  shows "length (c_items c) = length (c_lru c)"
proof -
  have inj: "inj_on (\<lambda>p. (e_key (snd p), fst p)) (set (c_lru c))"
  proof (rule inj_onI)
    fix p q
    assume "p \<in> set (c_lru c)" "q \<in> set (c_lru c)" "(e_key (snd p), fst p) = (e_key (snd q), fst q)"
    then show "p = q" using index_dicts(2) [OF assms]
      by (metis eq_key_imp_eq_value prod.collapse prod.inject)
  qed
  have "length (c_items c) = card (set (c_items c))"
    using index_dicts(1) [OF assms] by (simp add: distinct_card distinct_map)
  also have "\<dots> = card ((\<lambda>p. (e_key (snd p), fst p)) ` set (c_lru c))"
    using assms unfolding index_inv_def by metis
  also have "\<dots> = card (set (c_lru c))" by (rule card_image [OF inj])
  also have "\<dots> = length (c_lru c)"
    using index_dicts(2) [OF assms] by (simp add: distinct_card distinct_map)
  finally show ?thesis .
qed

lemma index_same_key:
  assumes "index_inv c" "(a, x) \<in> set (c_lru c)" "(b, y) \<in> set (c_lru c)" "e_key x = e_key y"
  shows "a = b" "x = y"
proof -
  from assms have "map_of (c_items c) (e_key x) = Some a" "map_of (c_items c) (e_key x) = Some b"
    by (auto simp: index_mem index_dicts)
  then show "a = b" by simp
  with assms(2,3) show "x = y" using index_dicts(2) [OF assms(1)] by (metis eq_key_imp_eq_value)
qed

lemma entries_distinct:
  assumes "index_inv c"
  shows "distinct (map e_key (entries c))"
proof -
  have "distinct (c_lru c)" using index_dicts(2) [OF assms] by (simp add: distinct_map)
  moreover have "inj_on (e_key \<circ> snd) (set (c_lru c))"
    by (rule inj_onI) (metis assms comp_apply index_same_key prod.collapse)
  ultimately show ?thesis by (simp add: entries_def distinct_map flip: comp_def)
qed

lemma delete_drop_key:
  assumes "index_inv c" "map_of (c_lru c) el = Some e"
  shows "map snd (AList.delete el (c_lru c)) = drop_key (e_key e) (entries c)"
proof -
  from assms have e: "(el, e) \<in> set (c_lru c)" by (simp add: map_of_SomeD)
  have "map snd (AList.delete el (c_lru c)) = map snd (filter (\<lambda>p. fst p \<noteq> el) (c_lru c))"
    by (rule filter_key_delete)
  also have "filter (\<lambda>p. fst p \<noteq> el) (c_lru c) = filter (\<lambda>p. e_key (snd p) \<noteq> e_key e) (c_lru c)"
  proof (rule filter_cong [OF refl])
    fix p assume "p \<in> set (c_lru c)"
    then show "(fst p \<noteq> el) = (e_key (snd p) \<noteq> e_key e)"
      using e index_same_key(1) [OF assms(1)] index_dicts(2) [OF assms(1)]
      by (metis eq_key_imp_eq_value prod.collapse)
  qed
  finally show ?thesis by (simp add: drop_key_def entries_def filter_map comp_def)
qed

lemma peek_find_key:
  assumes "index_inv c"
  shows "(case map_of (c_items c) k of None \<Rightarrow> None | Some el \<Rightarrow> map_of (c_lru c) el) =
    find_key k (entries c)"
proof (cases "map_of (c_items c) k")
  case None
  have "find_key k (entries c) = None"
  proof (rule ccontr)
    assume "find_key k (entries c) \<noteq> None"
    then obtain el e where "(el, e) \<in> set (c_lru c)" "e_key e = k"
      by (auto simp: find_key_def entries_def find_None_iff)
    with assms have "(k, el) \<in> set (c_items c)" by (auto simp: index_mem)
    with None show False by (metis map_of_eq_None_iff fst_conv image_eqI)
  qed
  with None show ?thesis by simp
next
  case (Some el)
  then obtain e where e: "map_of (c_lru c) el = Some e" "e_key e = k"
    using index_lookup [OF assms] by blast
  then have mem: "e \<in> set (entries c)" by (force simp: entries_def dest: map_of_SomeD)
  then have "find_key k (entries c) \<noteq> None" using e(2) by (auto simp: find_key_def find_None_iff)
  then obtain e' where e': "find_key k (entries c) = Some e'" by blast
  then have "e' \<in> set (entries c)" "e_key e' = k"
    by (auto simp: find_key_def find_Some_iff)
  with mem e(2) entries_distinct [OF assms] have "e' = e"
    by (metis distinct_map inj_onD)
  with Some e e' show ?thesis by simp
qed

lemma lru_mem: "map_of (c_lru c) el = Some e \<Longrightarrow> e \<in> set (entries c)"
  by (force simp: entries_def dest: map_of_SomeD)

subsection \<open>Removing an element\<close>

lemma removeElement_sel [simp]:
  "c_maxBytes (removeElementLocked c el) = c_maxBytes c"
  "c_maxEntries (removeElementLocked c el) = c_maxEntries c"
  "c_closed (removeElementLocked c el) = c_closed c"
  "c_evictions (removeElementLocked c el) = c_evictions c"
  "c_nextElement (removeElementLocked c el) = c_nextElement c"
  by (simp_all add: removeElementLocked_def split: option.splits)

lemma removeElement_entries:
  "index_inv c \<Longrightarrow> map_of (c_lru c) el = Some e \<Longrightarrow>
   entries (removeElementLocked c el) = drop_key (e_key e) (entries c)"
  by (simp add: removeElementLocked_def entries_def delete_drop_key)

lemma removeElement_index:
  assumes "index_inv c"
  shows "index_inv (removeElementLocked c el)"
proof (cases "map_of (c_lru c) el")
  case None
  with assms show ?thesis by (simp add: removeElementLocked_def)
next
  case (Some e)
  have "set (AList.delete (e_key e) (c_items c)) =
    (\<lambda>p. (e_key (snd p), fst p)) ` set (AList.delete el (c_lru c))" (is "?A = ?B")
  proof (rule set_eqI)
    fix q :: "bytes \<times> nat"
    obtain k a where q: "q = (k, a)" by (cases q)
    have "q \<in> ?A \<longleftrightarrow> (\<exists>x. (a, x) \<in> set (c_lru c) \<and> e_key x = k) \<and> k \<noteq> e_key e"
      using index_mem [OF assms] by (auto simp: q AList.delete_eq)
    also have "\<dots> \<longleftrightarrow> (\<exists>x. (a, x) \<in> set (c_lru c) \<and> e_key x = k \<and> a \<noteq> el)"
      using index_same_key(1) [OF assms] map_of_SomeD [OF Some] index_dicts(2) [OF assms]
      by (metis eq_key_imp_eq_value)
    also have "\<dots> \<longleftrightarrow> q \<in> ?B" by (auto simp: q mem_index_image AList.delete_eq)
    finally show "q \<in> ?A \<longleftrightarrow> q \<in> ?B" .
  qed
  moreover have "\<forall>a \<in> fst ` set (AList.delete el (c_lru c)). a < c_nextElement c"
    using assms by (auto simp: index_inv_def AList.delete_eq)
  ultimately show ?thesis
    using index_dicts [OF assms] Some by (simp add: index_inv_def removeElementLocked_def)
qed

lemma total_size_drop_key:
  assumes "distinct (map e_key es)" "e \<in> set es"
  shows "total_size (drop_key (e_key e) es) = total_size es - e_estimatedSize e"
  using assms
proof (induction es)
  case (Cons x es)
  show ?case
  proof (cases "e_key x = e_key e")
    case True
    with Cons.prems have "x = e" by auto
    moreover have "drop_key (e_key e) es = es"
      unfolding drop_key_def filter_id_conv using Cons.prems True by (metis distinct.simps(2) image_eqI list.map(2) set_map)
    ultimately show ?thesis by (simp add: drop_key_def)
  next
    case False
    with Cons show ?thesis by (auto simp: drop_key_def)
  qed
qed simp

lemma set_drop_key: "set (drop_key k es) = {e \<in> set es. e_key e \<noteq> k}"
  by (simp add: drop_key_def)

lemma removeElement_core [inv_intros]:
  assumes "core_inv c"
  shows "core_inv (removeElementLocked c el)"
proof (cases "map_of (c_lru c) el")
  case None
  with assms show ?thesis by (simp add: removeElementLocked_def)
next
  case (Some e)
  from assms have idx: "index_inv c" by (simp add: core_inv_def)
  from Some have e: "e \<in> set (entries c)" by (rule lru_mem)
  have ent: "entries (removeElementLocked c el) = drop_key (e_key e) (entries c)"
    using idx Some by (rule removeElement_entries)
  have "c_bytes (removeElementLocked c el) = c_bytes c - e_estimatedSize e"
    using Some by (simp add: removeElementLocked_def)
  moreover have "c_closed c \<longrightarrow> c_lru (removeElementLocked c el) = []"
    using assms Some by (auto simp: core_inv_def)
  ultimately show ?thesis
    using assms removeElement_index [OF idx] total_size_drop_key [OF entries_distinct [OF idx] e]
    by (simp add: core_inv_def ent set_drop_key)
qed

subsection \<open>Eviction keeps the longest recent prefix that fits\<close>

lemma removeElement_last:
  assumes "index_inv c" "c_lru c \<noteq> []"
  shows "entries (removeElementLocked c (fst (last (c_lru c)))) = butlast (entries c)"
proof -
  obtain es el e where lru: "c_lru c = es @ [(el, e)]"
    using assms(2) by (metis append_butlast_last_id surj_pair)
  have "el \<notin> fst ` set es" using index_dicts(2) [OF assms(1)] lru by auto
  then have "map_of (c_lru c) el = Some e" and "AList.delete el (c_lru c) = es"
    by (simp_all add: lru map_add_def map_of_eq_None_iff [THEN iffD2] AList.delete_eq split: option.split)
      (auto simp: filter_id_conv rev_image_eqI)
  then show ?thesis by (simp add: removeElementLocked_def entries_def lru)
qed

lemma overLimits_fits:
  "core_inv c \<Longrightarrow> overLimits c \<longleftrightarrow> \<not> fits (c_maxBytes c) (c_maxEntries c) (entries c)"
  by (auto simp: overLimits_def fits_def core_inv_def index_length entries_def)

lemma evictions_irrelevant [simp]:
  "core_inv (c\<lparr>c_evictions := n\<rparr>) = core_inv c"
  by (simp add: core_inv_def index_inv_def)

lemma enforce_sel:
  "c_maxBytes (enforceLimitsLocked c) = c_maxBytes c \<and>
   c_maxEntries (enforceLimitsLocked c) = c_maxEntries c \<and>
   c_closed (enforceLimitsLocked c) = c_closed c"
proof (induction c rule: enforceLimitsLocked.induct)
  case (1 c)
  then show ?case by (subst (1 2 3) enforceLimitsLocked.simps) (simp add: Let_def)
qed

lemma enforce_spec:
  assumes "core_inv c"
  shows "core_inv (enforceLimitsLocked c) \<and> \<not> overLimits (enforceLimitsLocked c) \<and>
    entries (enforceLimitsLocked c) = lru_trim (c_maxBytes c) (c_maxEntries c) (entries c)"
  using assms
proof (induction c rule: enforceLimitsLocked.induct)
  case (1 c)
  show ?case
  proof (cases "overLimits c")
    case False
    with 1 overLimits_fits show ?thesis
      by (simp add: enforceLimitsLocked.simps [of c] lru_trim.simps [of _ _ "entries c"])
  next
    case over: True
    have ne: "c_lru c \<noteq> []"
    proof
      assume "c_lru c = []"
      with "1.prems" have "fits (c_maxBytes c) (c_maxEntries c) (entries c)"
        by (simp add: core_inv_def fits_def entries_def)
      with over overLimits_fits [OF "1.prems"] show False by simp
    qed
    let ?r = "removeElementLocked c (fst (last (c_lru c)))"
    let ?d = "?r\<lparr>c_evictions := c_evictions ?r + 1\<rparr>"
    have eq: "enforceLimitsLocked c = enforceLimitsLocked ?d"
      using over ne by (subst enforceLimitsLocked.simps) (simp add: Let_def)
    have ent: "entries ?r = butlast (entries c)"
      using removeElement_last [OF _ ne] "1.prems" by (simp add: core_inv_def)
    have trim: "lru_trim (c_maxBytes c) (c_maxEntries c) (entries c) =
        lru_trim (c_maxBytes c) (c_maxEntries c) (butlast (entries c))"
      using over ne overLimits_fits [OF "1.prems"]
      by (subst lru_trim.simps) (auto simp: entries_def)
    have "core_inv ?d" using removeElement_core [OF "1.prems"] by simp
    from "1.IH" [OF over ne refl this] show ?thesis
      unfolding eq trim by (simp add: ent)
  qed
qed

text \<open>The trimmed list is the longest prefix, in recency order, that fits both limits.\<close>

lemma lru_trim_prefix: "prefix (lru_trim b n es) es"
proof (induction b n es rule: lru_trim.induct)
  case (1 b n es)
  then show ?case
    by (subst lru_trim.simps) (auto intro: prefix_order.trans [OF _ prefixI [OF append_butlast_last_id [symmetric]]])
qed

lemma lru_trim_fits: "0 \<le> b \<Longrightarrow> fits b n (lru_trim b n es)"
proof (induction b n es rule: lru_trim.induct)
  case (1 b n es)
  then show ?case by (subst lru_trim.simps) (auto simp: fits_def)
qed

lemma lru_trim_longest: "prefix p es \<Longrightarrow> fits b n p \<Longrightarrow> prefix p (lru_trim b n es)"
proof (induction b n es rule: lru_trim.induct)
  case (1 b n es)
  show ?case
  proof (cases "fits b n es \<or> es = []")
    case True
    with "1.prems" show ?thesis by (subst lru_trim.simps) simp
  next
    case False
    with "1.prems" have "p \<noteq> es" by auto
    with "1.prems" False have "prefix p (butlast es)"
      by (metis append_butlast_last_id prefix_snoc)
    with "1.IH" [OF False this "1.prems"(2)] False show ?thesis by (subst lru_trim.simps) simp
  qed
qed

lemma lru_trim_Cons: "fits b n [e] \<Longrightarrow> \<exists>es'. lru_trim b n (e # es) = e # es' \<and> prefix es' es"
  using lru_trim_longest [of "[e]" "e # es" b n] lru_trim_prefix [of b n "e # es"]
  by (auto simp: prefix_def)

subsection \<open>The operations preserve the invariant and act on the recency list\<close>

lemma drop_key_absent: "find_key k es = None \<Longrightarrow> drop_key k es = es"
  by (simp add: find_key_def drop_key_def find_None_iff filter_id_conv)

lemma find_key_index_None:
  "index_inv c \<Longrightarrow> map_of (c_items c) k = None \<Longrightarrow> find_key k (entries c) = None"
  using peek_find_key [of c k] by simp

lemma cache_inv_core: "cache_inv c \<Longrightarrow> core_inv c" "cache_inv c \<Longrightarrow> index_inv c"
  by (simp_all add: cache_inv_def core_inv_def)

lemma cache_inv_fits:
  "cache_inv c \<longleftrightarrow> core_inv c \<and> fits (c_maxBytes c) (c_maxEntries c) (entries c)"
  using overLimits_fits by (auto simp: cache_inv_def)

lemma fits_drop_key:
  assumes "fits b n es" "\<forall>e \<in> set es. entry_ok e"
  shows "fits b n (drop_key k es)"
proof -
  have "total_size (drop_key k es) \<le> total_size es" using assms(2)
  proof (induction es)
    case (Cons e es)
    then show ?case using entry_size_pos [of e] by (simp add: drop_key_def)
  qed (simp add: drop_key_def)
  moreover have "length (drop_key k es) \<le> length es" by (simp add: drop_key_def)
  ultimately show ?thesis using assms(1) by (auto simp: fits_def)
qed

lemma removeElement_inv [inv_intros]:
  assumes "cache_inv c" shows "cache_inv (removeElementLocked c el)"
proof (cases "map_of (c_lru c) el")
  case None
  with assms show ?thesis by (simp add: removeElementLocked_def)
next
  case (Some e)
  then have "entries (removeElementLocked c el) = drop_key (e_key e) (entries c)"
    using cache_inv_core(2) [OF assms] by (rule removeElement_entries [rotated])
  moreover have "\<forall>e \<in> set (entries c). entry_ok e" using assms by (simp add: cache_inv_def core_inv_def)
  ultimately show ?thesis
    using assms removeElement_core [of c el] by (simp add: cache_inv_fits fits_drop_key)
qed

lemma removeLocked_entries:
  assumes "index_inv c"
  shows "entries (snd (removeLocked c k)) = drop_key k (entries c)"
    and "fst (removeLocked c k) \<longleftrightarrow> find_key k (entries c) \<noteq> None"
proof -
  show "entries (snd (removeLocked c k)) = drop_key k (entries c)"
  proof (cases "map_of (c_items c) k")
    case None
    with find_key_index_None [OF assms] show ?thesis by (simp add: removeLocked_def drop_key_absent)
  next
    case (Some el)
    then obtain e where "map_of (c_lru c) el = Some e" "e_key e = k"
      using index_lookup [OF assms] by blast
    with Some show ?thesis using removeElement_entries [OF assms] by (auto simp: removeLocked_def)
  qed
  show "fst (removeLocked c k) \<longleftrightarrow> find_key k (entries c) \<noteq> None"
  proof (cases "map_of (c_items c) k")
    case None
    with peek_find_key [OF assms, of k] show ?thesis by (simp add: removeLocked_def)
  next
    case (Some el)
    then obtain e where "map_of (c_lru c) el = Some e" using index_lookup [OF assms] by blast
    with Some peek_find_key [OF assms, of k] have "find_key k (entries c) = Some e" by simp
    with Some show ?thesis by (simp add: removeLocked_def)
  qed
qed

lemma removeLocked_inv [inv_intros]: "cache_inv c \<Longrightarrow> cache_inv (snd (removeLocked c k))"
  by (auto simp: removeLocked_def intro: inv_intros split: option.splits)

lemma removeLocked_sel [simp]:
  "c_maxBytes (snd (removeLocked c k)) = c_maxBytes c"
  "c_maxEntries (snd (removeLocked c k)) = c_maxEntries c"
  "c_closed (snd (removeLocked c k)) = c_closed c"
  by (simp_all add: removeLocked_def split: option.splits)

text \<open>Rewriting an element in place and moving it to the front, with the key unchanged.\<close>

lemma moveToFront_index:
  assumes "index_inv c" "map_of (c_lru c) el = Some e" "e_key e' = e_key e"
  shows "index_inv (c\<lparr>c_bytes := b, c_lru := moveToFront el e' (c_lru c)\<rparr>)"
proof -
  have mem: "(el, e) \<in> set (c_lru c)" using assms(2) by (rule map_of_SomeD)
  have "set (c_items c) = (\<lambda>p. (e_key (snd p), fst p)) ` set (moveToFront el e' (c_lru c))"
  proof (rule set_eqI)
    fix q :: "bytes \<times> nat"
    obtain k a where q: "q = (k, a)" by (cases q)
    have "q \<in> set (c_items c) \<longleftrightarrow> (\<exists>x. (a, x) \<in> set (c_lru c) \<and> e_key x = k)"
      by (simp add: q index_mem [OF assms(1)])
    also have "\<dots> \<longleftrightarrow> (\<exists>x. (a, x) \<in> set (moveToFront el e' (c_lru c)) \<and> e_key x = k)"
      using mem assms(3) index_dicts(2) [OF assms(1)]
      by (auto simp: moveToFront_def AList.delete_eq) (metis eq_key_imp_eq_value)+
    also have "\<dots> \<longleftrightarrow> q \<in> (\<lambda>p. (e_key (snd p), fst p)) ` set (moveToFront el e' (c_lru c))"
      by (simp add: q mem_index_image)
    finally show "q \<in> set (c_items c) \<longleftrightarrow>
      q \<in> (\<lambda>p. (e_key (snd p), fst p)) ` set (moveToFront el e' (c_lru c))" .
  qed
  moreover have "dict (moveToFront el e' (c_lru c))"
    using index_dicts(2) [OF assms(1)] by (auto simp: moveToFront_def AList.delete_eq distinct_map_filter)
  moreover have "\<forall>a \<in> fst ` set (moveToFront el e' (c_lru c)). a < c_nextElement c"
    using assms(1) mem by (force simp: index_inv_def moveToFront_def AList.delete_eq)
  ultimately show ?thesis using index_dicts(1) [OF assms(1)] by (simp add: index_inv_def)
qed

lemma moveToFront_entries:
  assumes "index_inv c" "map_of (c_lru c) el = Some e"
  shows "map snd (moveToFront el e' (c_lru c)) = e' # drop_key (e_key e) (entries c)"
  using delete_drop_key [OF assms] by (simp add: moveToFront_def)

lemma moveToFront_core:
  assumes "core_inv c" "map_of (c_lru c) el = Some e" "e_key e' = e_key e" "entry_ok e'"
  shows "core_inv (c\<lparr>c_bytes := c_bytes c - e_estimatedSize e + e_estimatedSize e',
                    c_lru := moveToFront el e' (c_lru c)\<rparr>)"
    (is "core_inv ?c")
proof -
  have idx: "index_inv c" using assms(1) by (simp add: core_inv_def)
  have e: "e \<in> set (entries c)" using assms(2) by (rule lru_mem)
  have "index_inv ?c" using idx assms(2,3) by (rule moveToFront_index)
  moreover have "\<not> c_closed c" using assms(1,2) by (auto simp: core_inv_def)
  ultimately show ?thesis
    using assms(1,4) total_size_drop_key [OF entries_distinct [OF idx] e]
      moveToFront_entries [OF idx assms(2)]
    by (simp add: core_inv_def set_drop_key)
qed

lemma insert_core:
  assumes "core_inv c" "map_of (c_items c) key = None" "e_key e = key" "entry_ok e" "\<not> c_closed c"
  shows "core_inv (c\<lparr>c_items := AList.update key (c_nextElement c) (c_items c),
                    c_lru := (c_nextElement c, e) # c_lru c,
                    c_bytes := c_bytes c + e_estimatedSize e,
                    c_nextElement := Suc (c_nextElement c)\<rparr>)" (is "core_inv ?c")
proof -
  have idx: "index_inv c" using assms(1) by (simp add: core_inv_def)
  have fresh: "c_nextElement c \<notin> fst ` set (c_lru c)" using idx by (auto simp: index_inv_def)
  have "set (AList.update key (c_nextElement c) (c_items c)) =
    insert (key, c_nextElement c) (set (c_items c))"
    using assms(2) by (simp add: update_new)
  then have "set (c_items ?c) = (\<lambda>p. (e_key (snd p), fst p)) ` set (c_lru ?c)"
    using idx assms(3) by (simp add: index_inv_def)
  then have "index_inv ?c"
    using idx fresh unfolding index_inv_def by (auto intro: less_SucI)
  then show ?thesis using assms by (simp add: core_inv_def) (simp add: entries_def)
qed

definition new_entry :: "bytes \<Rightarrow> bytes \<Rightarrow> time \<Rightarrow> time \<Rightarrow> cache_entry" where
  "new_entry key value now expiresAt =
     \<lparr>e_key = key, e_value = value, e_insertedAt = now, e_expiresAt = expiresAt,
      e_lastAccess = now, e_estimatedSize = EstimateSize key value\<rparr>"

lemma new_entry_ok [simp]: "entry_ok (new_entry key value now ex) \<longleftrightarrow> key \<noteq> []"
  by (simp add: entry_ok_def new_entry_def)

lemma new_entry_sel [simp]:
  "e_key (new_entry key value now ex) = key" "e_value (new_entry key value now ex) = value"
  "e_expiresAt (new_entry key value now ex) = ex" "e_insertedAt (new_entry key value now ex) = now"
  "e_lastAccess (new_entry key value now ex) = now"
  "e_estimatedSize (new_entry key value now ex) = EstimateSize key value"
  by (simp_all add: new_entry_def)

definition put_accepts :: "cache \<Rightarrow> bytes \<Rightarrow> bytes \<Rightarrow> bool" where
  "put_accepts c key value \<longleftrightarrow>
     \<not> (c_closed c \<or> c_maxBytes c \<le> 0 \<or> EstimateSize key value > c_maxBytes c)"

text \<open>The state \<open>put\<close> hands to the eviction loop.\<close>

lemma put_accepted:
  assumes inv: "core_inv c" and key: "key \<noteq> []" and acc: "put_accepts c key value"
  obtains c1 where "put c key value now ex = (True, enforceLimitsLocked c1)"
    and "core_inv c1" and "entries c1 = new_entry key value now ex # drop_key key (entries c)"
    and "c_maxBytes c1 = c_maxBytes c" and "c_maxEntries c1 = c_maxEntries c"
    and "c_closed c1 = c_closed c"
proof (cases "map_of (c_items c) key")
  case None
  let ?c1 = "c\<lparr>c_items := AList.update key (c_nextElement c) (c_items c),
      c_lru := (c_nextElement c, new_entry key value now ex) # c_lru c,
      c_bytes := c_bytes c + EstimateSize key value, c_nextElement := Suc (c_nextElement c)\<rparr>"
  have idx: "index_inv c" using inv by (simp add: core_inv_def)
  have "core_inv ?c1"
    using insert_core [OF inv None, of "new_entry key value now ex"] key acc
    by (simp add: put_accepts_def)
  moreover have "drop_key key (entries c) = entries c"
    using find_key_index_None [OF idx None] by (rule drop_key_absent)
  ultimately show ?thesis
    using None acc by (intro that [of ?c1]) (simp_all add: put_def Let_def new_entry_def put_accepts_def, simp add: entries_def)
next
  case (Some el)
  have idx: "index_inv c" using inv by (simp add: core_inv_def)
  obtain e where e: "map_of (c_lru c) el = Some e" "e_key e = key"
    using Some index_lookup [OF idx] by blast
  let ?c1 = "c\<lparr>c_bytes := c_bytes c - e_estimatedSize e + EstimateSize key value,
      c_lru := moveToFront el (new_entry key value now ex) (c_lru c)\<rparr>"
  have ne: "e\<lparr>e_value := value, e_insertedAt := now, e_expiresAt := ex, e_lastAccess := now,
      e_estimatedSize := EstimateSize key value\<rparr> = new_entry key value now ex"
    using e(2) by (cases e) (simp add: new_entry_def)
  have "put c key value now ex = (True, enforceLimitsLocked ?c1)"
    using Some e acc by (simp add: put_def Let_def put_accepts_def ne)
  moreover have "core_inv ?c1"
    using moveToFront_core [OF inv e(1), of "new_entry key value now ex"] e(2) key by simp
  ultimately show ?thesis
    using moveToFront_entries [OF idx e(1)] e(2) by (intro that [of ?c1]) simp_all
qed

lemma put_all:
  assumes inv: "cache_inv c" and key: "key \<noteq> []"
  shows "fst (put c key value now ex) = put_accepts c key value \<and>
    cache_inv (snd (put c key value now ex)) \<and>
    entries (snd (put c key value now ex)) =
      (if put_accepts c key value
       then lru_trim (c_maxBytes c) (c_maxEntries c) (new_entry key value now ex # drop_key key (entries c))
       else drop_key key (entries c)) \<and>
    c_maxBytes (snd (put c key value now ex)) = c_maxBytes c \<and>
    c_maxEntries (snd (put c key value now ex)) = c_maxEntries c \<and>
    c_closed (snd (put c key value now ex)) = c_closed c"
proof (cases "put_accepts c key value")
  case True
  obtain c1 where c1: "put c key value now ex = (True, enforceLimitsLocked c1)" "core_inv c1"
    "entries c1 = new_entry key value now ex # drop_key key (entries c)"
    "c_maxBytes c1 = c_maxBytes c" "c_maxEntries c1 = c_maxEntries c" "c_closed c1 = c_closed c"
    using put_accepted [OF cache_inv_core(1) [OF inv] key True] by metis
  with enforce_spec [OF c1(2)] enforce_sel [of c1] True show ?thesis by (simp add: cache_inv_def)
next
  case False
  then have "put c key value now ex = (False, snd (removeLocked c key))"
    by (auto simp: put_def put_accepts_def Let_def)
  with False removeLocked_inv [OF inv] removeLocked_entries(1) [OF cache_inv_core(2) [OF inv]]
  show ?thesis by simp
qed

lemmas put_accepts_result = put_all [THEN conjunct1]
lemmas put_inv = put_all [THEN conjunct2, THEN conjunct1]
lemmas put_entries = put_all [THEN conjunct2, THEN conjunct2, THEN conjunct1]
lemmas put_frame = put_all [THEN conjunct2, THEN conjunct2, THEN conjunct2]

section \<open>The abstract LRU cache and the refinement\<close>

text \<open>
  The abstract cache is a list of entries in recency order with the two limits. Its operations
  use the list only: no index, no byte counter, no element addresses.
\<close>

record lru_spec =
  l_maxBytes :: int
  l_maxEntries :: int
  l_closed :: bool
  l_entries :: "cache_entry list"

datatype cache_op =
    OpPut time bytes bytes duration
  | OpPutUntil time bytes bytes time
  | OpGet time bytes
  | OpGetStale time bytes duration
  | OpInspect time bytes
  | OpDelete bytes
  | OpPurge
  | OpClose

datatype cache_result = RBool bool | RSnapshot "entry_snapshot option" | RUnit

definition cache_step :: "cache \<Rightarrow> cache_op \<Rightarrow> cache_result \<times> cache" where
  "cache_step c op =
     (case op of
        OpPut now key value ttl \<Rightarrow> map_prod RBool id (Put c now key value ttl)
      | OpPutUntil now key value ex \<Rightarrow> map_prod RBool id (PutUntil c now key value ex)
      | OpGet now key \<Rightarrow> map_prod RSnapshot id (Get c now key)
      | OpGetStale now key grace \<Rightarrow> map_prod RSnapshot id (GetStale c now key grace)
      | OpInspect now key \<Rightarrow> (RSnapshot (Inspect c now key), c)
      | OpDelete key \<Rightarrow> map_prod RBool id (Delete c key)
      | OpPurge \<Rightarrow> (RUnit, Purge c)
      | OpClose \<Rightarrow> (RUnit, Close_cache c))"

fun cache_run :: "cache \<Rightarrow> cache_op list \<Rightarrow> cache_result list \<times> cache" where
  "cache_run c [] = ([], c)"
| "cache_run c (op # ops) =
     (let (r, c1) = cache_step c op; (rs, c2) = cache_run c1 ops in (r # rs, c2))"

definition spec_new :: "int \<Rightarrow> int \<Rightarrow> lru_spec" where
  "spec_new maxBytes maxEntries =
     \<lparr>l_maxBytes = max 0 maxBytes, l_maxEntries = maxEntries, l_closed = False, l_entries = []\<rparr>"

definition spec_put :: "lru_spec \<Rightarrow> bytes \<Rightarrow> bytes \<Rightarrow> time \<Rightarrow> time \<Rightarrow> bool \<times> lru_spec" where
  "spec_put l key value now ex =
     (let rest = drop_key key (l_entries l);
          ok = (\<not> l_closed l \<and> 0 < l_maxBytes l \<and> EstimateSize key value \<le> l_maxBytes l)
      in (ok, l\<lparr>l_entries :=
            if ok then lru_trim (l_maxBytes l) (l_maxEntries l) (new_entry key value now ex # rest)
            else rest\<rparr>))"

definition spec_get :: "lru_spec \<Rightarrow> time \<Rightarrow> bytes \<Rightarrow> duration \<Rightarrow> bool \<Rightarrow> entry_snapshot option \<times> lru_spec" where
  "spec_get l now key grace allowStale =
     (case find_key key (l_entries l) of
        None \<Rightarrow> (None, l)
      | Some e \<Rightarrow>
          if now < e_expiresAt e + (if allowStale then max 0 grace else 0)
          then (Some (snapshot (e\<lparr>e_lastAccess := now\<rparr>) now),
                l\<lparr>l_entries := e\<lparr>e_lastAccess := now\<rparr> # drop_key key (l_entries l)\<rparr>)
          else if allowStale \<and> grace = 0 then (None, l)
          else (None, l\<lparr>l_entries := drop_key key (l_entries l)\<rparr>))"

definition spec_step :: "lru_spec \<Rightarrow> cache_op \<Rightarrow> cache_result \<times> lru_spec" where
  "spec_step l op =
     (case op of
        OpPut now key value ttl \<Rightarrow>
          if 0 < ttl \<and> key \<noteq> [] then map_prod RBool id (spec_put l key value now (now + ttl))
          else (RBool False, l)
      | OpPutUntil now key value ex \<Rightarrow>
          if key = [] then (RBool False, l)
          else if now < ex then map_prod RBool id (spec_put l key value now ex)
          else (RBool False, l\<lparr>l_entries := drop_key key (l_entries l)\<rparr>)
      | OpGet now key \<Rightarrow> map_prod RSnapshot id (spec_get l now key 0 False)
      | OpGetStale now key grace \<Rightarrow> map_prod RSnapshot id (spec_get l now key grace True)
      | OpInspect now key \<Rightarrow>
          (RSnapshot (case find_key key (l_entries l) of
                        None \<Rightarrow> None
                      | Some e \<Rightarrow> if now < e_expiresAt e then Some (snapshot e now) else None), l)
      | OpDelete key \<Rightarrow>
          (RBool (find_key key (l_entries l) \<noteq> None), l\<lparr>l_entries := drop_key key (l_entries l)\<rparr>)
      | OpPurge \<Rightarrow> (RUnit, l\<lparr>l_entries := []\<rparr>)
      | OpClose \<Rightarrow> (RUnit, l\<lparr>l_closed := True, l_entries := []\<rparr>))"

fun spec_run :: "lru_spec \<Rightarrow> cache_op list \<Rightarrow> cache_result list \<times> lru_spec" where
  "spec_run l [] = ([], l)"
| "spec_run l (op # ops) =
     (let (r, l1) = spec_step l op; (rs, l2) = spec_run l1 ops in (r # rs, l2))"

definition cache_abs :: "cache \<Rightarrow> lru_spec" where
  "cache_abs c =
     \<lparr>l_maxBytes = c_maxBytes c, l_maxEntries = c_maxEntries c, l_closed = c_closed c,
      l_entries = entries c\<rparr>"

lemma cache_abs_sel [simp]:
  "l_maxBytes (cache_abs c) = c_maxBytes c" "l_maxEntries (cache_abs c) = c_maxEntries c"
  "l_closed (cache_abs c) = c_closed c" "l_entries (cache_abs c) = entries c"
  by (simp_all add: cache_abs_def)

lemma cache_abs_eqI:
  "c_maxBytes c = l_maxBytes l \<Longrightarrow> c_maxEntries c = l_maxEntries l \<Longrightarrow> c_closed c = l_closed l \<Longrightarrow>
   entries c = l_entries l \<Longrightarrow> cache_abs c = (l :: lru_spec)"
  by (simp add: cache_abs_def)

lemma put_refines:
  "cache_inv c \<Longrightarrow> key \<noteq> [] \<Longrightarrow>
   map_prod RBool cache_abs (put c key value now ex) = map_prod RBool id (spec_put (cache_abs c) key value now ex)"
  by (auto simp: spec_put_def Let_def put_accepts_def prod_eq_iff put_entries put_frame put_accepts_result
      intro!: cache_abs_eqI)

lemma removeLocked_refines:
  "index_inv c \<Longrightarrow>
   cache_abs (snd (removeLocked c key)) = (cache_abs c)\<lparr>l_entries := drop_key key (entries c)\<rparr>"
  by (rule cache_abs_eqI) (simp_all add: removeLocked_entries)

text \<open>\<open>get\<close> by the outcome of the lookup.\<close>

lemma get_cases:
  assumes "index_inv c"
  obtains (absent) "find_key key (entries c) = None" "get c now key grace stale = (None, c)"
    "Inspect c now key = None"
  | (found) el e where "find_key key (entries c) = Some e" "map_of (c_lru c) el = Some e" "e_key e = key"
    "get c now key grace stale =
      (if now < e_expiresAt e + (if stale then max 0 grace else 0)
       then (Some (snapshot (e\<lparr>e_lastAccess := now\<rparr>) now),
             c\<lparr>c_lru := moveToFront el (e\<lparr>e_lastAccess := now\<rparr>) (c_lru c)\<rparr>)
       else if stale \<and> grace = 0 then (None, c) else (None, removeElementLocked c el))"
    "Inspect c now key = (if now < e_expiresAt e then Some (snapshot e now) else None)"
proof (cases "map_of (c_items c) key")
  case None
  then show ?thesis using find_key_index_None [OF assms None]
    by (intro absent) (simp_all add: get_def Inspect_def)
next
  case (Some el)
  then obtain e where e: "map_of (c_lru c) el = Some e" "e_key e = key"
    using index_lookup [OF assms] by blast
  with Some have "find_key key (entries c) = Some e" using peek_find_key [OF assms, of key] by simp
  with Some e show ?thesis
    by (intro found [of e el]) (auto simp: get_def Inspect_def Let_def max_def)
qed

lemma lastAccess_ok [simp]: "entry_ok (e\<lparr>e_lastAccess := t\<rparr>) = entry_ok e"
  by (simp add: entry_ok_def)

lemma touch_core:
  assumes "core_inv c" "map_of (c_lru c) el = Some e"
  shows "core_inv (c\<lparr>c_lru := moveToFront el (e\<lparr>e_lastAccess := now\<rparr>) (c_lru c)\<rparr>)"
proof -
  have "entry_ok e" using assms(1) lru_mem [OF assms(2)] unfolding core_inv_def by blast
  then show ?thesis using moveToFront_core [OF assms, of "e\<lparr>e_lastAccess := now\<rparr>"] by simp
qed

lemma touch_fits:
  assumes "core_inv c" "map_of (c_lru c) el = Some e" "fits b n (entries c)"
  shows "fits b n (e\<lparr>e_lastAccess := now\<rparr> # drop_key (e_key e) (entries c))"
proof -
  have idx: "index_inv c" using assms(1) by (simp add: core_inv_def)
  have e: "e \<in> set (entries c)" using assms(2) by (rule lru_mem)
  have "length (drop_key (e_key e) (entries c)) < length (entries c)"
    using length_filter_less [OF e, of "\<lambda>x. e_key x \<noteq> e_key e"] by (simp add: drop_key_def)
  with assms(3) total_size_drop_key [OF entries_distinct [OF idx] e] show ?thesis
    by (auto simp: fits_def)
qed

lemma get_all:
  assumes inv: "cache_inv c"
  shows "cache_inv (snd (get c now key grace stale)) \<and>
    map_prod RSnapshot cache_abs (get c now key grace stale) =
      map_prod RSnapshot id (spec_get (cache_abs c) now key grace stale)"
proof (rule get_cases [OF cache_inv_core(2) [OF inv], of key now grace stale])
  assume "find_key key (entries c) = None" "get c now key grace stale = (None, c)"
  with inv show ?thesis by (simp add: spec_get_def)
next
  fix el e
  assume h: "find_key key (entries c) = Some e" "map_of (c_lru c) el = Some e" "e_key e = key"
    "get c now key grace stale =
      (if now < e_expiresAt e + (if stale then max 0 grace else 0)
       then (Some (snapshot (e\<lparr>e_lastAccess := now\<rparr>) now),
             c\<lparr>c_lru := moveToFront el (e\<lparr>e_lastAccess := now\<rparr>) (c_lru c)\<rparr>)
       else if stale \<and> grace = 0 then (None, c) else (None, removeElementLocked c el))"
  note idx = cache_inv_core(2) [OF inv] and core = cache_inv_core(1) [OF inv]
  let ?t = "c\<lparr>c_lru := moveToFront el (e\<lparr>e_lastAccess := now\<rparr>) (c_lru c)\<rparr>"
  have t: "entries ?t = e\<lparr>e_lastAccess := now\<rparr> # drop_key key (entries c)"
    using moveToFront_entries [OF idx h(2)] h(3) by simp
  have "cache_inv ?t"
    using touch_core [OF core h(2)] touch_fits [OF core h(2)] inv t h(3) by (simp add: cache_inv_fits)
  moreover have "cache_inv (removeElementLocked c el)" using inv by (rule removeElement_inv)
  moreover have "entries (removeElementLocked c el) = drop_key key (entries c)"
    using removeElement_entries [OF idx h(2)] h(3) by simp
  ultimately show ?thesis
    using inv h(1,4) t by (auto simp: spec_get_def intro!: cache_abs_eqI)
qed

lemma Inspect_refines:
  assumes "index_inv c"
  shows "Inspect c now key =
    (case find_key key (entries c) of
       None \<Rightarrow> None
     | Some e \<Rightarrow> if now < e_expiresAt e then Some (snapshot e now) else None)"
  by (rule get_cases [OF assms, of key now 0 False]) simp_all

lemma Purge_inv [inv_intros]: "cache_inv c \<Longrightarrow> cache_inv (Purge c)"
  by (simp add: cache_inv_def core_inv_def index_inv_def Purge_def overLimits_def entries_def)

lemma Close_inv [inv_intros]: "cache_inv c \<Longrightarrow> cache_inv (Close_cache c)"
  by (simp add: cache_inv_def core_inv_def index_inv_def Close_cache_def overLimits_def entries_def)

lemma New_inv [inv_intros]: "cache_inv (New_cache b n)"
  by (simp add: cache_inv_def core_inv_def index_inv_def New_cache_def overLimits_def entries_def)

lemma cache_step_sim:
  assumes "cache_inv c"
  shows "cache_inv (snd (cache_step c op)) \<and>
    map_prod id cache_abs (cache_step c op) = spec_step (cache_abs c) op"
proof -
  note idx = cache_inv_core(2) [OF assms]
  have get: "map_prod id cache_abs (map_prod RSnapshot id (get c now key g st)) =
      map_prod RSnapshot id (spec_get (cache_abs c) now key g st)" for now key g st
    using get_all [OF assms, of now key g st] by (simp add: map_prod_compose [symmetric] prod_eq_iff)
  have put: "map_prod id cache_abs (map_prod RBool id (put c key v now ex)) =
      map_prod RBool id (spec_put (cache_abs c) key v now ex)" if "key \<noteq> []" for now key v ex
    using put_refines [OF assms that, of v now ex] by (simp add: prod_eq_iff)
  show ?thesis
  proof (cases op)
    case (OpPut now key v ttl)
    then show ?thesis using assms put put_inv
      by (simp add: cache_step_def spec_step_def Put_def)
  next
    case (OpPutUntil now key v ex)
    then show ?thesis
      using assms put put_inv removeLocked_inv [OF assms] removeLocked_refines [OF idx]
      by (simp add: cache_step_def spec_step_def PutUntil_def Delete_def)
  next
    case (OpGet now key)
    then show ?thesis using get_all [OF assms] get by (simp add: cache_step_def spec_step_def Get_def)
  next
    case (OpGetStale now key grace)
    then show ?thesis using get_all [OF assms] get by (simp add: cache_step_def spec_step_def GetStale_def)
  next
    case (OpInspect now key)
    then show ?thesis using assms Inspect_refines [OF idx] by (simp add: cache_step_def spec_step_def)
  next
    case (OpDelete key)
    then show ?thesis
      using removeLocked_inv [OF assms] removeLocked_refines [OF idx] removeLocked_entries(2) [OF idx]
      by (simp add: cache_step_def spec_step_def Delete_def prod_eq_iff)
  next
    case OpPurge
    then show ?thesis using Purge_inv [OF assms]
      by (simp add: cache_step_def spec_step_def Purge_def cache_abs_def entries_def)
  next
    case OpClose
    then show ?thesis using Close_inv [OF assms]
      by (simp add: cache_step_def spec_step_def Close_cache_def cache_abs_def entries_def)
  qed
qed

lemma cache_run_sim:
  "cache_inv c \<Longrightarrow> cache_inv (snd (cache_run c ops)) \<and>
    map_prod id cache_abs (cache_run c ops) = spec_run (cache_abs c) ops"
proof (induction ops arbitrary: c)
  case Nil
  then show ?case by simp
next
  case (Cons op ops)
  obtain r c1 where step: "cache_step c op = (r, c1)" by (cases "cache_step c op")
  with cache_step_sim [OF Cons.prems, of op] have "cache_inv c1"
    and s: "spec_step (cache_abs c) op = (r, cache_abs c1)" by simp_all
  from Cons.IH [OF this(1)] step s show ?case
    by (auto simp: case_prod_beta prod_eq_iff)
qed

section \<open>The interface the service relies on\<close>

text \<open>
  What a client sees of a store: for each key, at most one value with an absolute expiry. A
  \<open>put\<close> binds its own key and may drop other bindings, never changes them; a \<open>fetch\<close> returns
  only what is bound and fresh.
\<close>

definition contents :: "cache \<Rightarrow> bytes \<Rightarrow> (bytes \<times> time) option" where
  "contents c k = map_option (\<lambda>e. (e_value e, e_expiresAt e)) (find_key k (entries c))"

locale cache_store =
  fixes inv :: "'c \<Rightarrow> bool"
    and lookup :: "'c \<Rightarrow> bytes \<Rightarrow> (bytes \<times> time) option"
    and store :: "'c \<Rightarrow> bytes \<Rightarrow> bytes \<Rightarrow> time \<Rightarrow> time \<Rightarrow> bool \<times> 'c"
    and remove :: "'c \<Rightarrow> bytes \<Rightarrow> bool \<times> 'c"
    and fetch :: "'c \<Rightarrow> time \<Rightarrow> bytes \<Rightarrow> duration \<Rightarrow> bool \<Rightarrow> entry_snapshot option \<times> 'c"
  assumes inv_store: "inv c \<Longrightarrow> k \<noteq> [] \<Longrightarrow> inv (snd (store c k v now ex))"
    and inv_remove: "inv c \<Longrightarrow> inv (snd (remove c k))"
    and inv_fetch: "inv c \<Longrightarrow> inv (snd (fetch c now k grace stale))"
    and store_self: "inv c \<Longrightarrow> k \<noteq> [] \<Longrightarrow>
      lookup (snd (store c k v now ex)) k = (if fst (store c k v now ex) then Some (v, ex) else None)"
    and store_other: "inv c \<Longrightarrow> k \<noteq> [] \<Longrightarrow> k' \<noteq> k \<Longrightarrow>
      lookup (snd (store c k v now ex)) k' \<in> {None, lookup c k'}"
    and remove_lookup: "inv c \<Longrightarrow> lookup (snd (remove c k)) = (lookup c)(k := None)"
    and remove_result: "inv c \<Longrightarrow> fst (remove c k) \<longleftrightarrow> lookup c k \<noteq> None"
    and fetch_lookup: "inv c \<Longrightarrow> k' \<noteq> k \<Longrightarrow> lookup (snd (fetch c now k grace stale)) k' = lookup c k'"
    and fetch_self: "inv c \<Longrightarrow> lookup (snd (fetch c now k grace stale)) k \<in> {None, lookup c k}"
    and fetch_Some: "inv c \<Longrightarrow> fst (fetch c now k grace stale) = Some s \<Longrightarrow>
      lookup c k = Some (sn_Value s, sn_ExpiresAt s) \<and>
      lookup (snd (fetch c now k grace stale)) k = lookup c k \<and>
      now < sn_ExpiresAt s + (if stale then max 0 grace else 0)"
    and fetch_fresh: "inv c \<Longrightarrow> lookup c k = Some (v, ex) \<Longrightarrow> now < ex \<Longrightarrow>
      \<exists>s. fst (fetch c now k grace stale) = Some s"
begin

text \<open>Nothing but \<open>store\<close> makes a binding, and it makes only its own.\<close>

lemma fetch_shrinks: "inv c \<Longrightarrow> lookup (snd (fetch c now k grace stale)) k' \<in> {None, lookup c k'}"
  using fetch_self fetch_lookup by (cases "k' = k") auto

lemma remove_shrinks: "inv c \<Longrightarrow> lookup (snd (remove c k)) k' \<in> {None, lookup c k'}"
  by (simp add: remove_lookup)

lemma store_bound:
  "inv c \<Longrightarrow> k \<noteq> [] \<Longrightarrow> lookup (snd (store c k v now ex)) k' = Some b \<Longrightarrow>
   (k' = k \<and> b = (v, ex)) \<or> (k' \<noteq> k \<and> lookup c k' = Some b)"
  using store_self [of c k v now ex] store_other [of c k k' v now ex]
  by (cases "k' = k") (auto split: if_splits)

lemma store_then_fetch:
  assumes "inv c" "k \<noteq> []" "fst (store c k v now ex)" "t < ex"
  shows "\<exists>s. fst (fetch (snd (store c k v now ex)) t k grace stale) = Some s \<and>
    sn_Value s = v \<and> sn_ExpiresAt s = ex"
proof -
  let ?c = "snd (store c k v now ex)"
  have i: "inv ?c" and l: "lookup ?c k = Some (v, ex)"
    using assms inv_store store_self by simp_all
  from fetch_fresh [OF i l assms(4)] obtain s where "fst (fetch ?c t k grace stale) = Some s" by blast
  with fetch_Some [OF i this] l show ?thesis by auto
qed

lemma remove_then_fetch: "inv c \<Longrightarrow> fst (fetch (snd (remove c k)) t k grace stale) = None"
  using fetch_Some [OF inv_remove] remove_lookup
  by (metis fun_upd_same not_None_eq option.distinct(1))

end

lemma find_key_Cons: "find_key k (e # es) = (if e_key e = k then Some e else find_key k es)"
  by (simp add: find_key_def)

lemma find_key_drop_key: "find_key k (drop_key k' es) = (if k = k' then None else find_key k es)"
  by (induction es) (auto simp: find_key_def drop_key_def)

lemma find_key_append:
  "find_key k (xs @ ys) = (case find_key k xs of None \<Rightarrow> find_key k ys | Some e \<Rightarrow> Some e)"
  by (induction xs) (simp_all add: find_key_def)

lemma find_key_prefix: "prefix p es \<Longrightarrow> find_key k p \<in> {None, find_key k es}"
  by (auto simp: prefix_def find_key_append split: option.splits)

lemma find_key_SomeD: "find_key k es = Some e \<Longrightarrow> e_key e = k"
  by (auto simp: find_key_def find_Some_iff)

lemma accepted_fits: "put_accepts c key value \<Longrightarrow> fits (c_maxBytes c) (c_maxEntries c) [new_entry key value now ex]"
  by (auto simp: put_accepts_def fits_def)

lemma contents_put:
  assumes inv: "cache_inv c" and key: "key \<noteq> []"
  shows "contents (snd (put c key value now ex)) key =
      (if fst (put c key value now ex) then Some (value, ex) else None)"
    and "k' \<noteq> key \<Longrightarrow> contents (snd (put c key value now ex)) k' \<in> {None, contents c k'}"
proof -
  let ?e = "new_entry key value now ex" and ?r = "drop_key key (entries c)"
  have acc: "fst (put c key value now ex) = put_accepts c key value"
    by (rule put_accepts_result [OF assms])
  have ent: "entries (snd (put c key value now ex)) =
      (if put_accepts c key value then lru_trim (c_maxBytes c) (c_maxEntries c) (?e # ?r) else ?r)"
    by (rule put_entries [OF assms])
  obtain es' where es': "put_accepts c key value \<Longrightarrow>
      lru_trim (c_maxBytes c) (c_maxEntries c) (?e # ?r) = ?e # es' \<and> prefix es' ?r"
    using lru_trim_Cons [OF accepted_fits] by metis
  show "contents (snd (put c key value now ex)) key =
      (if fst (put c key value now ex) then Some (value, ex) else None)"
    using es' by (auto simp: contents_def ent acc find_key_Cons find_key_drop_key)
  assume "k' \<noteq> key"
  moreover have "find_key k' es' \<in> {None, find_key k' ?r}" if "put_accepts c key value"
    using es' that find_key_prefix by blast
  ultimately show "contents (snd (put c key value now ex)) k' \<in> {None, contents c k'}"
    using es' by (auto simp: contents_def ent find_key_Cons find_key_drop_key split: if_splits)
qed

lemma get_via_spec:
  assumes "cache_inv c"
  shows "entries (snd (get c now key grace stale)) =
      l_entries (snd (spec_get (cache_abs c) now key grace stale))"
    and "fst (get c now key grace stale) = fst (spec_get (cache_abs c) now key grace stale)"
  using get_all [OF assms, of now key grace stale]
  by (metis cache_abs_sel(4) id_apply snd_map_prod) (metis cache_result.inject(2) fst_map_prod get_all [OF assms])

lemma contents_get:
  assumes inv: "cache_inv c"
  shows "k' \<noteq> key \<Longrightarrow> contents (snd (get c now key grace stale)) k' = contents c k'"
    and "contents (snd (get c now key grace stale)) key \<in> {None, contents c key}"
    and "fst (get c now key grace stale) = Some s \<Longrightarrow>
      contents c key = Some (sn_Value s, sn_ExpiresAt s) \<and>
      contents (snd (get c now key grace stale)) key = contents c key \<and>
      now < sn_ExpiresAt s + (if stale then max 0 grace else 0)"
    and "contents c key = Some (v, ex) \<Longrightarrow> now < ex \<Longrightarrow> \<exists>s. fst (get c now key grace stale) = Some s"
proof -
  note simps = get_via_spec [OF inv] spec_get_def contents_def find_key_Cons find_key_drop_key
    snapshot_def Let_def
  show "k' \<noteq> key \<Longrightarrow> contents (snd (get c now key grace stale)) k' = contents c k'"
    by (cases "find_key key (entries c)") (simp_all add: simps find_key_SomeD)
  show "contents (snd (get c now key grace stale)) key \<in> {None, contents c key}"
    by (cases "find_key key (entries c)") (simp_all add: simps find_key_SomeD)
  show "contents c key = Some (sn_Value s, sn_ExpiresAt s) \<and>
      contents (snd (get c now key grace stale)) key = contents c key \<and>
      now < sn_ExpiresAt s + (if stale then max 0 grace else 0)"
    if "fst (get c now key grace stale) = Some s"
    using that by (cases "find_key key (entries c)") (auto simp: simps find_key_SomeD split: if_splits)
  show "\<exists>s. fst (get c now key grace stale) = Some s" if "contents c key = Some (v, ex)" "now < ex"
    using that by (cases "find_key key (entries c)") (auto simp: simps split: if_splits)
qed

lemma contents_delete:
  assumes "cache_inv c"
  shows "contents (snd (Delete c k)) = (contents c)(k := None)"
    and "fst (Delete c k) \<longleftrightarrow> contents c k \<noteq> None"
  using removeLocked_entries [OF cache_inv_core(2) [OF assms], of k]
  by (auto simp: contents_def Delete_def find_key_drop_key fun_eq_iff)

interpretation lru: cache_store cache_inv contents put Delete get
proof
  fix c :: cache and k k' v :: bytes and now ex :: time and grace :: duration and stale s
  assume inv: "cache_inv c"
  show "k \<noteq> [] \<Longrightarrow> cache_inv (snd (put c k v now ex))" by (rule put_inv [OF inv])
  show "cache_inv (snd (Delete c k))" unfolding Delete_def by (rule removeLocked_inv [OF inv])
  show "cache_inv (snd (get c now k grace stale))" using get_all [OF inv] by blast
  show "k \<noteq> [] \<Longrightarrow> contents (snd (put c k v now ex)) k = (if fst (put c k v now ex) then Some (v, ex) else None)"
    by (rule contents_put [OF inv])
  show "k \<noteq> [] \<Longrightarrow> k' \<noteq> k \<Longrightarrow> contents (snd (put c k v now ex)) k' \<in> {None, contents c k'}"
    by (rule contents_put [OF inv])
  show "contents (snd (Delete c k)) = (contents c)(k := None)" "fst (Delete c k) = (contents c k \<noteq> None)"
    by (rule contents_delete [OF inv])+
  show "k' \<noteq> k \<Longrightarrow> contents (snd (get c now k grace stale)) k' = contents c k'"
    "contents (snd (get c now k grace stale)) k \<in> {None, contents c k}"
    "contents c k = Some (v, ex) \<Longrightarrow> now < ex \<Longrightarrow> \<exists>s. fst (get c now k grace stale) = Some s"
    by (rule contents_get [OF inv]; assumption?)+
  show "fst (get c now k grace stale) = Some s \<Longrightarrow>
      contents c k = Some (sn_Value s, sn_ExpiresAt s) \<and>
      contents (snd (get c now k grace stale)) k = contents c k \<and>
      now < sn_ExpiresAt s + (if stale then max 0 grace else 0)"
    by (rule contents_get(3) [OF inv])
qed

section \<open>Properties\<close>

text \<open>
  C8: From \<^verbatim>\<open>New\<close>, every sequence of cache operations behaves as the abstract LRU cache: the same
  results (hits, misses, acceptance of a put) and the same entries in the same recency order.
\<close>

theorem cache_refines_lru:
  "fst (cache_run (New_cache b n) ops) = fst (spec_run (spec_new b n) ops) \<and>
   cache_abs (snd (cache_run (New_cache b n) ops)) = snd (spec_run (spec_new b n) ops)"
proof -
  have "cache_abs (New_cache b n) = spec_new b n"
    by (simp add: cache_abs_def New_cache_def spec_new_def entries_def max_def)
  then show ?thesis using cache_run_sim [OF New_inv, of b n ops] by (metis fst_map_prod id_apply snd_map_prod)
qed

lemma cache_step_limits:
  assumes "cache_inv c"
  shows "c_maxBytes (snd (cache_step c op)) = c_maxBytes c" "c_maxEntries (snd (cache_step c op)) = c_maxEntries c"
proof -
  have "cache_abs (snd (cache_step c op)) = snd (spec_step (cache_abs c) op)"
    using cache_step_sim [OF assms, of op] by (metis snd_map_prod)
  moreover have "l_maxBytes (snd (spec_step l op)) = l_maxBytes l \<and> l_maxEntries (snd (spec_step l op)) = l_maxEntries l" for l
    by (cases op) (auto simp: spec_step_def spec_put_def spec_get_def Let_def split: option.splits)
  ultimately show "c_maxBytes (snd (cache_step c op)) = c_maxBytes c"
    "c_maxEntries (snd (cache_step c op)) = c_maxEntries c"
    by (metis cache_abs_sel(1), metis cache_abs_sel(2))
qed

lemma cache_run_limits:
  "cache_inv c \<Longrightarrow> c_maxBytes (snd (cache_run c ops)) = c_maxBytes c \<and>
    c_maxEntries (snd (cache_run c ops)) = c_maxEntries c"
proof (induction ops arbitrary: c)
  case (Cons op ops)
  then show ?case using cache_step_sim [of c op] cache_step_limits [of c op]
    by (simp add: case_prod_beta)
qed simp

lemma overhead_le_total: "\<forall>e \<in> set es. entry_ok e \<Longrightarrow> 128 * int (length es) \<le> total_size es"
proof (induction es)
  case (Cons e es)
  then show ?case using entry_size_pos [of e] by simp
qed simp

text \<open>
  C18: In every state the cache reaches from \<^verbatim>\<open>New\<close>, the byte counter that \<^verbatim>\<open>Stats\<close> reports is the
  sum of the retained entries' estimated sizes, it never exceeds the configured bytes, the entry
  count never exceeds a positive configured entry limit, and the fixed per-entry overhead bounds
  the entry count even without such a limit.
\<close>

theorem cache_capacity_bounds:
  fixes b n ops
  defines "c \<equiv> snd (cache_run (New_cache b n) ops)"
  shows "st_Bytes (Stats c) = (\<Sum>e \<leftarrow> entries c. EstimateSize (e_key e) (e_value e)) \<and>
    st_Entries (Stats c) = int (length (entries c)) \<and>
    0 \<le> st_Bytes (Stats c) \<and> st_Bytes (Stats c) \<le> max 0 b \<and>
    (n > 0 \<longrightarrow> st_Entries (Stats c) \<le> n) \<and>
    entryOverheadBytes * st_Entries (Stats c) \<le> max 0 b"
proof -
  have inv: "cache_inv c" unfolding c_def using cache_run_sim [OF New_inv] by blast
  then have ok: "\<forall>e \<in> set (entries c). entry_ok e" and bytes: "c_bytes c = total_size (entries c)"
    and idx: "index_inv c" and fit: "fits (c_maxBytes c) (c_maxEntries c) (entries c)"
    by (auto simp: cache_inv_fits core_inv_def)
  have len: "length (c_items c) = length (entries c)"
    using index_length [OF idx] by (simp add: entries_def)
  have lim: "c_maxBytes c = max 0 b" "c_maxEntries c = n"
    unfolding c_def using cache_run_limits [OF New_inv, of b n ops] by (auto simp: New_cache_def)
  have "total_size (entries c) = (\<Sum>e \<leftarrow> entries c. EstimateSize (e_key e) (e_value e))"
    unfolding total_size_def using ok by (intro arg_cong [of _ _ sum_list] map_cong) (auto simp: entry_ok_def)
  moreover have "entryOverheadBytes * int (length (entries c)) \<le> total_size (entries c)"
    using overhead_le_total [OF ok] by (simp add: entryOverheadBytes_def)
  ultimately show ?thesis
    using total_size_nonneg [OF ok] fit lim bytes len by (auto simp: Stats_def fits_def)
qed

theorem cache_capacity_bounds_witness:
  "(2 :: int) > 0 \<and>
   st_Entries (Stats (snd (cache_run (New_cache 300 2) [OpPut 5 ''a'' ''x'' 10, OpPut 6 ''b'' ''y'' 10, OpPut 7 ''c'' ''z'' 10]))) \<le> 2"
  using cache_capacity_bounds [of 300 2 "[OpPut 5 ''a'' ''x'' 10, OpPut 6 ''b'' ''y'' 10, OpPut 7 ''c'' ''z'' 10]"]
  by simp

text \<open>
  C19: After an accepted \<^verbatim>\<open>Put\<close> the cache holds the new entry at the front, then its other entries
  in their previous recency order, cut to the longest prefix that fits both limits: the entries
  evicted are the least recently used ones and no more of them than the limits require.
\<close>

theorem Put_evicts_least_recent:
  assumes "cache_inv c" and "Put c now key value ttl = (True, c')"
  shows "prefix (entries c') (new_entry key value now (now + ttl) # drop_key key (entries c)) \<and>
    new_entry key value now (now + ttl) \<in> set (entries c') \<and>
    fits (c_maxBytes c) (c_maxEntries c) (entries c') \<and>
    (\<forall>p. prefix p (new_entry key value now (now + ttl) # drop_key key (entries c)) \<longrightarrow>
       fits (c_maxBytes c) (c_maxEntries c) p \<longrightarrow> length p \<le> length (entries c'))"
proof -
  from assms(2) have key: "key \<noteq> []" and p: "put c key value now (now + ttl) = (True, c')"
    by (auto simp: Put_def split: if_splits)
  have acc: "put_accepts c key value" using put_accepts_result [OF assms(1) key] p by (metis fst_conv)
  let ?es = "new_entry key value now (now + ttl) # drop_key key (entries c)"
  have ent: "entries c' = lru_trim (c_maxBytes c) (c_maxEntries c) ?es"
    using put_entries [OF assms(1) key, of "value" now "now + ttl"] p acc by simp
  have "new_entry key value now (now + ttl) \<in> set (entries c')"
    unfolding ent using lru_trim_Cons [OF accepted_fits [OF acc, of now "now + ttl"], of "drop_key key (entries c)"]
    by auto
  moreover have "0 \<le> c_maxBytes c" using assms(1) by (simp add: cache_inv_def core_inv_def)
  ultimately show ?thesis
    using lru_trim_prefix lru_trim_fits lru_trim_longest ent by (metis prefix_length_le)
qed

theorem Put_evicts_least_recent_witness:
  defines "c \<equiv> snd (cache_run (New_cache 1000 1) [OpPut 5 ''a'' ''x'' 10])"
  shows "cache_inv c \<and> fst (Put c 6 ''b'' ''y'' 10) \<and>
    fits (c_maxBytes c) (c_maxEntries c) (entries (snd (Put c 6 ''b'' ''y'' 10)))"
proof -
  have inv: "cache_inv c" unfolding c_def using cache_run_sim [OF New_inv] by blast
  have "Put c 6 ''b'' ''y'' 10 = (True, snd (Put c 6 ''b'' ''y'' 10))" unfolding c_def by code_simp
  from inv Put_evicts_least_recent [OF inv this] this show ?thesis by (metis fst_conv)
qed

text \<open>
  C20: A value accepted by \<^verbatim>\<open>Put\<close> is returned by \<^verbatim>\<open>Get\<close> at every later reading of the clock before
  its expiry, with the lifetime that is left, and is neither returned nor kept at or after it.
\<close>

theorem Put_then_Get:
  assumes "cache_inv c" and "Put c now key value ttl = (True, c')" and "now \<le> t"
  shows "if t < now + ttl
    then \<exists>s. fst (Get c' t key) = Some s \<and> sn_Value s = value \<and> sn_ExpiresAt s = now + ttl \<and>
      sn_TTL s = time_sub (now + ttl) t
    else fst (Get c' t key) = None \<and> contents (snd (Get c' t key)) key = None"
proof -
  from assms(2) have key: "key \<noteq> []" and p: "put c key value now (now + ttl) = (True, c')"
    by (auto simp: Put_def split: if_splits)
  have inv': "cache_inv c'" using lru.inv_store [OF assms(1) key, of "value" now "now + ttl"] p by simp
  have lk: "contents c' key = Some (value, now + ttl)"
    using lru.store_self [OF assms(1) key, of "value" now "now + ttl"] p by simp
  show ?thesis
    using lk time_sub_nonneg [of t "now + ttl"]
    by (auto simp: Get_def get_via_spec [OF inv'] contents_def spec_get_def snapshot_def Let_def
        find_key_drop_key split: option.splits)
qed

theorem Put_then_Get_witness:
  defines "c \<equiv> New_cache 1000 2"
  shows "cache_inv c \<and> fst (Put c 5 ''k'' ''v'' 10) \<and> (5 :: int) \<le> 9 \<and>
    (\<exists>s. fst (Get (snd (Put c 5 ''k'' ''v'' 10)) 9 ''k'') = Some s \<and> sn_Value s = ''v'')"
proof -
  have inv: "cache_inv c" unfolding c_def by (rule New_inv)
  have p: "Put c 5 ''k'' ''v'' 10 = (True, snd (Put c 5 ''k'' ''v'' 10))" unfolding c_def by code_simp
  have "(5 :: int) \<le> 9" by simp
  from Put_then_Get [OF inv p this] inv p show ?thesis by (auto simp: prod_eq_iff)
qed

text \<open>
  C21: Moving an entry with \<^verbatim>\<open>PutUntil\<close> never extends its lifetime: a stored copy carries exactly
  the absolute expiry it was given, at or after that instant nothing is stored and the key is
  removed, and no other key gains or changes a binding.
\<close>

theorem PutUntil_preserves_expiry:
  fixes key v :: bytes
  assumes "cache_inv c" and "key \<noteq> []"
  shows "(case PutUntil c now key v ex of (ok, c') \<Rightarrow>
    cache_inv c' \<and> (ok \<longrightarrow> now < ex) \<and>
    contents c' key = (if ok then Some (v, ex) else None) \<and>
    (\<forall>k'. k' \<noteq> key \<longrightarrow> contents c' k' \<in> {None, contents c k'}))"
  using lru.store_self [OF assms, of v now ex] lru.store_other [OF assms, of _ v now ex]
    lru.inv_store [OF assms, of v now ex] lru.inv_remove [OF assms(1), of key]
    lru.remove_lookup [OF assms(1), of key] assms(2)
  by (cases "put c key v now ex") (auto simp: PutUntil_def)

theorem PutUntil_preserves_expiry_witness:
  defines "c \<equiv> New_cache 1000 2"
  shows "cache_inv c \<and> ''k'' \<noteq> [] \<and> fst (PutUntil c 5 ''k'' ''v'' 9) \<and>
    contents (snd (PutUntil c 5 ''k'' ''v'' 9)) ''k'' = Some (''v'', 9)"
proof -
  have inv: "cache_inv c" unfolding c_def by (rule New_inv)
  have p: "fst (PutUntil c 5 ''k'' ''v'' 9)" unfolding c_def by code_simp
  have k: "''k'' \<noteq> []" by simp
  from PutUntil_preserves_expiry [OF inv k, where now = 5 and v = "''v''" and ex = 9] inv p show ?thesis
    by (auto simp: case_prod_beta)
qed

text \<open>
  C22: With stale fallback enabled, the fresh-read probe \<^verbatim>\<open>GetStale(key, 0)\<close> returns a value only
  before its expiry and never destroys an expired one; a probe with a positive grace returns it
  until the expiry plus the grace and removes it from then on.
\<close>

theorem GetStale_semantics:
  assumes "cache_inv c" and "contents c key = Some (v, ex)" and "0 \<le> grace"
  shows "map_option sn_Value (fst (GetStale c now key grace)) = (if now < ex + grace then Some v else None) \<and>
    contents (snd (GetStale c now key grace)) key =
      (if now < ex + grace \<or> grace = 0 then Some (v, ex) else None)"
  using assms(2,3) get_via_spec [OF assms(1), of now key grace True]
  by (auto simp: GetStale_def contents_def spec_get_def snapshot_def Let_def find_key_Cons
      find_key_drop_key max_def dest: find_key_SomeD split: option.splits if_splits)

theorem GetStale_semantics_witness:
  defines "c \<equiv> snd (Put (New_cache 1000 2) 5 ''k'' ''v'' 10)"
  shows "cache_inv c \<and> contents c ''k'' = Some (''v'', 15) \<and>
    map_option sn_Value (fst (GetStale c 17 ''k'' 4)) = Some ''v'' \<and>
    fst (GetStale c 17 ''k'' 0) = None"
proof -
  have inv: "cache_inv c"
    unfolding c_def Put_def using lru.inv_store [OF New_inv] New_inv by simp
  have k: "contents c ''k'' = Some (''v'', 15)" unfolding c_def by code_simp
  have g: "(0 :: int) \<le> 4" "(0 :: int) \<le> 0" by simp_all
  from GetStale_semantics [OF inv k g(1), of 17] GetStale_semantics [OF inv k g(2), of 17] inv k
  show ?thesis by simp
qed

end
