(* ===== verification/Float64.thy ===== *)
theory Float64
  imports
    Prelude
    "HOL-Library.Log_Nat"
begin

text \<open>
  Go's \<^verbatim>\<open>float64\<close> arithmetic, as far as the hotness tracker uses it: finite values, represented
  by the rational they denote. The operations of the tracker take the arithmetic as a record:
  \<open>rnd\<close> rounds the exact result of an operation to a representable value, \<open>powf\<close> is
  \<^verbatim>\<open>math.Pow\<close> and \<open>logf\<close> is \<^verbatim>\<open>math.Log\<close>.

  \<open>round64\<close> is the IEEE 754 rounding (nearest, ties to even, 53-bit significand, gradual
  underflow); \<open>go_pow\<close> follows the repeated-squaring loop of Go's \<^verbatim>\<open>math.Pow\<close> for integral
  exponents. Overflow to infinity is not modelled: the largest value the tracker forms is a
  64-bit count divided by at least one nanosecond, below \<open>2 ^ 93\<close>.

  The locale \<open>rounding\<close> states what the tracker relies on: rounding is monotone on
  non-negative values and exact on 0 and 1. It is interpreted for \<open>round64\<close> and for exact
  arithmetic.
\<close>

section \<open>Arithmetic records\<close>

record arith =
  rnd :: "rat \<Rightarrow> rat"
  powf :: "rat \<Rightarrow> rat \<Rightarrow> rat"
  logf :: "rat \<Rightarrow> rat"

definition fadd :: "arith \<Rightarrow> rat \<Rightarrow> rat \<Rightarrow> rat" where
  "fadd a x y = rnd a (x + y)"

definition fsub :: "arith \<Rightarrow> rat \<Rightarrow> rat \<Rightarrow> rat" where
  "fsub a x y = rnd a (x - y)"

definition fmul :: "arith \<Rightarrow> rat \<Rightarrow> rat \<Rightarrow> rat" where
  "fmul a x y = rnd a (x * y)"

definition fdiv :: "arith \<Rightarrow> rat \<Rightarrow> rat \<Rightarrow> rat" where
  "fdiv a x y = rnd a (x / y)"

definition of_i64 :: "arith \<Rightarrow> int \<Rightarrow> rat" where
  "of_i64 a n = rnd a (of_int n)"

text \<open>\<^verbatim>\<open>time.Duration.Seconds\<close>: whole seconds plus the fraction, each rounded.\<close>

definition seconds :: "arith \<Rightarrow> duration \<Rightarrow> rat" where
  "seconds a d =
     fadd a (of_i64 a (d div second)) (fdiv a (of_i64 a (d mod second)) (rnd a 1000000000))"

text \<open>\<^verbatim>\<open>math.Round\<close>: half away from zero.\<close>

definition fround :: "rat \<Rightarrow> rat" where
  "fround x = (if x < 0 then - of_int \<lfloor>- x + 1 / 2\<rfloor> else of_int \<lfloor>x + 1 / 2\<rfloor>)"

section \<open>IEEE 754 rounding\<close>

definition pow2 :: "int \<Rightarrow> rat" where
  "pow2 e = 2 powi e"

definition ilog2 :: "rat \<Rightarrow> int" where
  "ilog2 x =
     (let (p, q) = quotient_of x; e = bitlen p - bitlen q
      in if pow2 e \<le> x then e else e - 1)"

definition round_half_even :: "rat \<Rightarrow> int" where
  "round_half_even y =
     (let f = \<lfloor>y\<rfloor>; d = y - of_int f
      in if d < 1 / 2 then f else if 1 / 2 < d then f + 1 else if even f then f else f + 1)"

definition ulp_exp :: "rat \<Rightarrow> int" where
  "ulp_exp x = max (ilog2 \<bar>x\<bar> - 52) (- 1074)"

definition round64 :: "rat \<Rightarrow> rat" where
  "round64 x =
     (if x = 0 then 0 else of_int (round_half_even (x / pow2 (ulp_exp x))) * pow2 (ulp_exp x))"

section \<open>The loop of \<^verbatim>\<open>math.Pow\<close> for an integral exponent\<close>

text \<open>
  The answer is \<open>a1 * 2 powi ae\<close> and \<open>x1 * 2 powi xe\<close> is the current power of the base, with
  \<open>x1\<close> kept in \<open>[1/2, 1)\<close>. Multiplications round.
\<close>

function go_pow_loop :: "(rat \<Rightarrow> rat) \<Rightarrow> nat \<Rightarrow> rat \<Rightarrow> int \<Rightarrow> rat \<Rightarrow> int \<Rightarrow> rat \<times> int" where
  "go_pow_loop r i a1 ae x1 xe =
     (if i = 0 then (a1, ae)
      else if xe < - (2 ^ 12) \<or> 2 ^ 12 < xe then (a1, ae + xe)
      else
        let (a1, ae) = (if odd i then (r (a1 * x1), ae + xe) else (a1, ae));
            x1 = r (x1 * x1); xe = 2 * xe;
            (x1, xe) = (if x1 < 1 / 2 then (r (x1 + x1), xe - 1) else (x1, xe))
        in go_pow_loop r (i div 2) a1 ae x1 xe)"
  by pat_completeness auto
termination
  by (relation "measure (\<lambda>(r, i, a1, ae, x1, xe). i)") auto

definition go_pow :: "rat \<Rightarrow> rat \<Rightarrow> rat" where
  "go_pow x y =
     (if y = 0 \<or> x = 1 then 1
      else if y = 1 then x
      else if x = 0 then 0
      else let xe = ilog2 x + 1;
               (a1, ae) = go_pow_loop round64 (nat \<lfloor>y\<rfloor>) 1 0 (x / pow2 xe) xe
           in round64 (a1 * pow2 ae))"

definition f64 :: "(rat \<Rightarrow> rat) \<Rightarrow> arith" where
  "f64 lg = \<lparr>rnd = round64, powf = go_pow, logf = lg\<rparr>"

text \<open>Exact rational arithmetic, the ideal the closed forms are compared against.\<close>

definition exact :: "(rat \<Rightarrow> rat) \<Rightarrow> arith" where
  "exact lg = \<lparr>rnd = id, powf = (\<lambda>x y. x ^ nat \<lfloor>y\<rfloor>), logf = lg\<rparr>"

section \<open>What the tracker relies on\<close>

locale rounding =
  fixes r :: "rat \<Rightarrow> rat"
  assumes r_mono: "0 \<le> x \<Longrightarrow> x \<le> y \<Longrightarrow> r x \<le> r y"
    and r_0: "r 0 = 0"
    and r_1: "r 1 = 1"
begin

lemma r_nonneg: "0 \<le> x \<Longrightarrow> 0 \<le> r x"
  using r_mono [of 0 x] by (simp add: r_0)

lemma r_le_1: "0 \<le> x \<Longrightarrow> x \<le> 1 \<Longrightarrow> r x \<le> 1"
  using r_mono [of x 1] by (simp add: r_1)

text \<open>A rounded EWMA step is monotone in the rate.\<close>

lemma ewma_mono:
  assumes "0 \<le> alpha" "0 \<le> rate" "rate \<le> rate'" "0 \<le> b" "0 \<le> score"
  shows "r (r (alpha * rate) + r (b * score)) \<le> r (r (alpha * rate') + r (b * score))"
  using assms by (intro r_mono add_nonneg_nonneg add_mono r_nonneg mult_left_mono order_refl) simp_all

lemma ewma_nonneg:
  assumes "0 \<le> alpha" "0 \<le> rate" "0 \<le> b" "0 \<le> score"
  shows "0 \<le> r (r (alpha * rate) + r (b * score))"
  using assms by (intro r_nonneg add_nonneg_nonneg) simp_all

end

interpretation exact: rounding "id :: rat \<Rightarrow> rat"
  by unfold_locales simp_all

subsection \<open>IEEE rounding satisfies it\<close>

lemma pow2_pos [simp]: "0 < pow2 e" "0 \<le> pow2 e"
  by (simp_all add: pow2_def)

lemma pow2_add: "pow2 (a + b) = pow2 a * pow2 b"
  by (simp add: pow2_def power_int_add)

lemma pow2_mono: "a \<le> b \<Longrightarrow> pow2 a \<le> pow2 b"
  by (simp add: pow2_def power_int_increasing)

lemma pow2_diff: "pow2 (a - b) = pow2 a / pow2 b"
  by (simp add: pow2_def power_int_diff)

lemma pow2_int: "0 \<le> e \<Longrightarrow> pow2 e = of_int (2 ^ nat e)"
  by (simp add: pow2_def power_int_def)

lemma bitlen_pow2_bounds:
  assumes "0 < n"
  shows "pow2 (bitlen n - 1) \<le> of_int n \<and> of_int n < pow2 (bitlen n)"
proof -
  note b = bitlen_bounds [OF assms]
  have "1 \<le> bitlen n"
  proof (rule ccontr)
    assume "\<not> 1 \<le> bitlen n"
    with b have "n < 2 ^ 0" by simp
    with assms show False by simp
  qed
  then have "pow2 (bitlen n - 1) = of_int (2 ^ nat (bitlen n - 1))" "pow2 (bitlen n) = of_int (2 ^ nat (bitlen n))"
    by (simp_all add: pow2_int)
  with b show ?thesis by (metis of_int_le_iff of_int_less_iff)
qed

lemma ilog2_bounds:
  assumes "0 < x"
  shows "pow2 (ilog2 x) \<le> x" "x < pow2 (ilog2 x + 1)"
proof -
  obtain p q where pq: "quotient_of x = (p, q)" by (cases "quotient_of x")
  then have q: "0 < q" by (rule quotient_of_denom_pos)
  have x: "x = of_int p / of_int q" using pq by (rule quotient_of_div)
  with assms q have p: "0 < p" by (simp add: zero_less_divide_iff)
  let ?e = "bitlen p - bitlen q"
  note bp = bitlen_pow2_bounds [OF p] and bq = bitlen_pow2_bounds [OF q]
  have "pow2 (bitlen p - 1) / pow2 (bitlen q) \<le> x"
    unfolding x using bp bq q p by (intro frac_le) simp_all
  then have lo: "pow2 (?e - 1) \<le> x" by (simp add: pow2_diff mult.commute divide_divide_eq_left)
  have "x < pow2 (bitlen p) / pow2 (bitlen q - 1)"
    unfolding x using bp bq q p by (intro frac_less) simp_all
  then have hi: "x < pow2 (?e + 1)" by (simp add: pow2_diff pow2_add divide_divide_eq_right mult.commute)
  show "pow2 (ilog2 x) \<le> x" "x < pow2 (ilog2 x + 1)"
    using lo hi pq by (simp_all add: ilog2_def Let_def)
qed

lemma ilog2_mono: "0 < x \<Longrightarrow> x \<le> y \<Longrightarrow> ilog2 x \<le> ilog2 y"
proof (rule ccontr)
  assume h: "0 < x" "x \<le> y" "\<not> ilog2 x \<le> ilog2 y"
  then have "pow2 (ilog2 y + 1) \<le> pow2 (ilog2 x)" by (intro pow2_mono) simp
  also have "\<dots> \<le> x" using h(1) by (rule ilog2_bounds)
  also have "\<dots> \<le> y" by fact
  also have "\<dots> < pow2 (ilog2 y + 1)" using h by (intro ilog2_bounds) simp
  finally show False by simp
qed

lemma round_half_even_of_int [simp]: "round_half_even (of_int n) = n" "round_half_even 0 = 0"
  by (simp_all add: round_half_even_def)

lemma round_half_even_mono:
  assumes "x \<le> y" shows "round_half_even x \<le> round_half_even y"
proof (cases "\<lfloor>x\<rfloor> = \<lfloor>y\<rfloor>")
  case True
  with assms show ?thesis by (auto simp: round_half_even_def Let_def)
next
  case False
  with floor_mono [OF assms] have "\<lfloor>x\<rfloor> + 1 \<le> \<lfloor>y\<rfloor>" by simp
  then show ?thesis by (auto simp: round_half_even_def Let_def)
qed

lemma round64_mono:
  assumes "0 \<le> x" "x \<le> y" shows "round64 x \<le> round64 y"
proof (cases "x = 0")
  case True
  have "0 \<le> y / pow2 (ulp_exp y)" using assms by (simp add: divide_nonneg_pos)
  then have "0 \<le> round_half_even (y / pow2 (ulp_exp y))"
    using round_half_even_mono [of 0 "y / pow2 (ulp_exp y)"] by simp
  with True show ?thesis by (simp add: round64_def)
next
  case False
  with assms have pos: "0 < x" "0 < y" by simp_all
  let ?a = "ulp_exp x" and ?b = "ulp_exp y" and ?l = "ilog2 y"
  have ab: "?a \<le> ?b" using ilog2_mono [OF pos(1) assms(2)] pos by (simp add: ulp_exp_def)
  show ?thesis
  proof (cases "?a = ?b")
    case True
    then show ?thesis using assms pos
      by (auto simp: round64_def intro!: mult_right_mono round_half_even_mono divide_right_mono)
  next
    case False
    with ab have lt: "?a < ?b" by simp
    then have l: "?b = ?l - 52" "ilog2 x + 1 \<le> ?l" "?a \<le> ?l" using pos by (auto simp: ulp_exp_def)
    have "x < pow2 ?l"
      using ilog2_bounds(2) [OF pos(1)] pow2_mono [OF l(2)] by (rule less_le_trans)
    then have "x / pow2 ?a \<le> pow2 ?l / pow2 ?a" by (intro divide_right_mono) simp_all
    also have "\<dots> = of_int (2 ^ nat (?l - ?a))"
      using l(3) pow2_int [of "?l - ?a"] by (simp add: pow2_diff)
    finally have "x / pow2 ?a \<le> of_int (2 ^ nat (?l - ?a))" .
    then have "round_half_even (x / pow2 ?a) \<le> 2 ^ nat (?l - ?a)"
      using round_half_even_mono by (metis round_half_even_of_int(1))
    then have "of_int (round_half_even (x / pow2 ?a)) \<le> pow2 (?l - ?a)"
      using l(3) pow2_int [of "?l - ?a"] by (metis diff_ge_0_iff_ge of_int_le_iff)
    then have "of_int (round_half_even (x / pow2 ?a)) * pow2 ?a \<le> pow2 ?l"
      by (simp add: pow2_diff pos_le_divide_eq)
    moreover have "pow2 ?l \<le> of_int (round_half_even (y / pow2 ?b)) * pow2 ?b"
    proof -
      have "of_int (2 ^ 52) = pow2 52" by (simp add: pow2_int)
      also have "\<dots> = pow2 ?l / pow2 ?b" by (simp add: l(1) flip: pow2_diff)
      also have "\<dots> \<le> y / pow2 ?b" using ilog2_bounds(1) [OF pos(2)] by (simp add: divide_right_mono)
      finally have "2 ^ 52 \<le> round_half_even (y / pow2 ?b)"
        using round_half_even_mono by (metis round_half_even_of_int(1))
      then have "pow2 52 \<le> of_int (round_half_even (y / pow2 ?b))"
        using pow2_int [of 52] by (metis nat_numeral of_int_le_iff zero_le_numeral)
      then have "pow2 52 * pow2 ?b \<le> of_int (round_half_even (y / pow2 ?b)) * pow2 ?b"
        by (simp add: mult_right_mono)
      then show ?thesis by (simp add: l(1) flip: pow2_add)
    qed
    ultimately show ?thesis using pos by (simp add: round64_def)
  qed
qed

lemma round64_1: "round64 1 = 1"
  by code_simp

interpretation ieee: rounding round64
  by unfold_locales (simp_all add: round64_mono round64_1, simp add: round64_def)

end
