(* ===== verification/Hotness.thy ===== *)
theory Hotness
  imports
    Float64
    "HOL-Library.Signed_Division"
begin

text \<open>
  The hotness tracker of \<^verbatim>\<open>internal/hotness/tracker.go\<close> and \<^verbatim>\<open>state.go\<close>.

  The Go code shares \<^verbatim>\<open>*entry\<close> pointers between the map \<^verbatim>\<open>items\<close> and the slice
  \<^verbatim>\<open>admissionRing\<close>. Every entry is allocated into the ring, so the model uses the ring position
  as the address: \<open>t_items\<close> maps a key to a position and \<open>t_admissionRing\<close> holds the entries.
  The exported methods run under \<^verbatim>\<open>t.mu\<close>; each is one function on the state that takes the
  clock reading it makes as \<open>now\<close> and the float arithmetic as \<open>a\<close>. The model visits the map in
  the order of its association list.
\<close>

section \<open>Model\<close>

subsection \<open>Types\<close>

text \<open>\<open>StateUnset\<close> is the zero value of Go's string type \<^verbatim>\<open>State\<close>.\<close>

datatype hstate = StateUnset | StateCold | StateWarm | StateHot | StateCooling

definition state_string :: "hstate \<Rightarrow> bytes" where
  "state_string s =
     (case s of StateUnset \<Rightarrow> [] | StateCold \<Rightarrow> ''COLD'' | StateWarm \<Rightarrow> ''WARM''
      | StateHot \<Rightarrow> ''HOT'' | StateCooling \<Rightarrow> ''COOLING'')"

record transition =
  tr_Key :: bytes
  tr_From :: hstate
  tr_To :: hstate

definition MaxTrackedKeyBytes :: nat where
  "MaxTrackedKeyBytes = 1024"

record hconfig =
  h_Window :: duration
  h_EWMAAlpha :: rat
  h_PromotionThreshold :: rat
  h_DemotionThreshold :: rat
  h_MinimumHotWindows :: int
  h_Cooldown :: duration
  h_MaxTrackedKeys :: int

record hsnapshot =
  hs_Key :: bytes
  hs_State :: hstate
  hs_Score :: rat
  hs_RequestRate :: rat
  hs_LastSeen :: time
  hs_Age :: duration

record hot_entry =
  he_key :: bytes
  he_state :: hstate
  he_score :: rat
  he_count :: int
  he_lastRate :: rat
  he_lastSeen :: time
  he_createdAt :: time
  he_hotWindows :: int
  he_coolingAt :: time

record tracker =
  t_cfg :: hconfig
  t_window :: time
  t_items :: "(bytes \<times> nat) list"
  t_admissionRing :: "hot_entry list"
  t_nextVictim :: nat
  t_hot :: int
  t_evictions :: u64
  t_capacityDrops :: u64
  t_oversizedObservationsDropped :: u64

record observation =
  o_Transitions :: "transition list"
  o_State :: hstate
  o_Hot :: int
  o_CapacityObservationDropped :: bool
  o_CapacityDrops :: u64
  o_OversizedObservationDropped :: bool
  o_OversizedObservationsDropped :: u64

subsection \<open>Construction\<close>

definition New_tracker :: "hconfig \<Rightarrow> time \<Rightarrow> tracker" where
  "New_tracker cfg now =
     (let cfg = (if h_Window cfg \<le> 0 then cfg\<lparr>h_Window := second\<rparr> else cfg);
          cfg = (if h_EWMAAlpha cfg \<le> 0 \<or> h_EWMAAlpha cfg > 1 then cfg\<lparr>h_EWMAAlpha := 1 / 2\<rparr> else cfg);
          cfg = (if h_MinimumHotWindows cfg \<le> 0 then cfg\<lparr>h_MinimumHotWindows := 2\<rparr> else cfg);
          cfg = (if h_MaxTrackedKeys cfg \<le> 0 then cfg\<lparr>h_MaxTrackedKeys := 1\<rparr> else cfg)
      in \<lparr>t_cfg = cfg, t_window = now, t_items = [], t_admissionRing = [], t_nextVictim = 0,
          t_hot = 0, t_evictions = 0, t_capacityDrops = 0, t_oversizedObservationsDropped = 0\<rparr>)"

definition fresh_entry :: "bytes \<Rightarrow> time \<Rightarrow> hot_entry" where
  "fresh_entry key now =
     \<lparr>he_key = key, he_state = StateCold, he_score = 0, he_count = 0, he_lastRate = 0,
      he_lastSeen = now, he_createdAt = now, he_hotWindows = 0, he_coolingAt = 0\<rparr>"

definition adjustHotCount :: "int \<Rightarrow> hstate \<Rightarrow> hstate \<Rightarrow> int" where
  "adjustHotCount hot before' after =
     (let hot = (if before' = StateHot \<and> after \<noteq> StateHot then hot - 1 else hot)
      in if before' \<noteq> StateHot \<and> after = StateHot then hot + 1 else hot)"

subsection \<open>Window catch-up\<close>

text \<open>The two correction loops of \<^verbatim>\<open>decayWindowsAtLeast\<close> around the logarithmic estimate.\<close>

function decay_down :: "(int \<Rightarrow> bool) \<Rightarrow> int \<Rightarrow> int" where
  "decay_down reaches estimate =
     (if estimate > 0 \<and> \<not> reaches estimate then decay_down reaches (estimate - 1) else estimate)"
  by pat_completeness auto
termination
  by (relation "measure (\<lambda>(p, e). nat e)") auto

function decay_up :: "(int \<Rightarrow> bool) \<Rightarrow> int \<Rightarrow> int \<Rightarrow> int" where
  "decay_up reaches maxWindows estimate =
     (if estimate < maxWindows \<and> reaches (estimate + 1)
      then decay_up reaches maxWindows (estimate + 1) else estimate)"
  by pat_completeness auto
termination
  by (relation "measure (\<lambda>(p, m, e). nat (m - e))") auto

declare decay_down.simps [simp del] decay_up.simps [simp del]

definition decayWindowsAtLeast :: "arith \<Rightarrow> rat \<Rightarrow> rat \<Rightarrow> rat \<Rightarrow> int \<Rightarrow> int" where
  "decayWindowsAtLeast a initial decay threshold maxWindows =
     (let reaches = (\<lambda>n. fmul a initial (powf a decay (of_i64 a n)) \<ge> threshold) in
      if maxWindows \<le> 0 \<or> initial \<le> 0 \<or> threshold \<le> 0 \<or> decay \<le> 0 \<or> fmul a initial decay < threshold
      then 0
      else if decay \<ge> 1 \<or> reaches maxWindows then maxWindows
      else
        let estimate = \<lfloor>fdiv a (logf a (fdiv a threshold initial)) (logf a decay)\<rfloor>;
            estimate = (if estimate < 0 then 0 else estimate);
            estimate = (if estimate > maxWindows then maxWindows else estimate)
        in decay_up reaches maxWindows (decay_down reaches estimate))"

definition state_change :: "bytes \<Rightarrow> hstate \<Rightarrow> hstate \<Rightarrow> transition list" where
  "state_change key before' after =
     (if before' = after then [] else [\<lparr>tr_Key = key, tr_From = before', tr_To = after\<rparr>])"

definition applyStateLocked :: "hconfig \<Rightarrow> hot_entry \<Rightarrow> time \<Rightarrow> transition list \<times> hot_entry" where
  "applyStateLocked cfg ent now =
     (let before' = he_state ent; score = he_score ent;
          ent' =
            (if score \<ge> h_PromotionThreshold cfg then
               let ent = ent\<lparr>he_hotWindows := he_hotWindows ent + 1\<rparr>
               in if he_state ent = StateCooling then ent\<lparr>he_state := StateHot, he_coolingAt := 0\<rparr>
                  else if he_hotWindows ent \<ge> h_MinimumHotWindows cfg then ent\<lparr>he_state := StateHot\<rparr>
                  else if he_state ent = StateCold then ent\<lparr>he_state := StateWarm\<rparr>
                  else ent
             else if score \<ge> h_DemotionThreshold cfg then
               let ent = ent\<lparr>he_hotWindows := 0\<rparr>
               in if he_state ent = StateCold then ent\<lparr>he_state := StateWarm\<rparr> else ent
             else
               let ent = ent\<lparr>he_hotWindows := 0\<rparr>
               in if he_state ent = StateHot then ent\<lparr>he_state := StateCooling, he_coolingAt := now\<rparr>
                  else if he_state ent = StateCooling \<and> time_sub now (he_coolingAt ent) \<ge> h_Cooldown cfg
                    then ent\<lparr>he_state := StateCold, he_coolingAt := 0\<rparr>
                  else if he_state ent = StateWarm \<and> score = 0 then ent\<lparr>he_state := StateCold\<rparr>
                  else ent)
      in (state_change (he_key ent) before' (he_state ent'), ent'))"

text \<open>
  The three segments of the closed-form catch-up, in the order of the code: the skipped windows
  whose decayed score still reaches the promotion threshold, those that reach only the demotion
  threshold, and the low ones.
\<close>

definition catchup_high :: "hconfig \<Rightarrow> int \<Rightarrow> hot_entry \<Rightarrow> transition list \<times> hot_entry" where
  "catchup_high cfg highWindows ent =
     (if highWindows > 0 then
        let before' = he_state ent;
            ent = (if he_state ent = StateCooling then ent\<lparr>he_state := StateHot, he_coolingAt := 0\<rparr> else ent);
            needed = h_MinimumHotWindows cfg - he_hotWindows ent;
            needed = (if needed < 0 then 0 else needed);
            ent = (if he_state ent \<noteq> StateHot \<and> highWindows \<ge> needed then ent\<lparr>he_state := StateHot\<rparr> else ent);
            ent = (if highWindows \<ge> h_MinimumHotWindows cfg \<or>
                      he_hotWindows ent + highWindows \<ge> h_MinimumHotWindows cfg
                   then ent\<lparr>he_hotWindows := h_MinimumHotWindows cfg\<rparr>
                   else ent\<lparr>he_hotWindows := he_hotWindows ent + highWindows\<rparr>)
        in (state_change (he_key ent) before' (he_state ent), ent)
      else ([], ent))"

definition catchup_mid :: "int \<Rightarrow> hot_entry \<Rightarrow> transition list \<times> hot_entry" where
  "catchup_mid midWindows ent =
     (if midWindows > 0 then
        let before' = he_state ent;
            ent = ent\<lparr>he_hotWindows := 0\<rparr>;
            ent = (if he_state ent = StateCold then ent\<lparr>he_state := StateWarm\<rparr> else ent)
        in (state_change (he_key ent) before' (he_state ent), ent)
      else ([], ent))"

definition catchup_low ::
  "hconfig \<Rightarrow> int \<Rightarrow> int \<Rightarrow> int \<Rightarrow> int \<Rightarrow> time \<Rightarrow> rat \<Rightarrow> hot_entry \<Rightarrow> transition list \<times> hot_entry"
where
  "catchup_low cfg highWindows midWindows lowWindows remaining firstBoundary finalScore ent =
     (if lowWindows > 0 then
        let ent = ent\<lparr>he_hotWindows := 0\<rparr>;
            lowStartOffset = highWindows + midWindows + 1;
            lowStart = firstBoundary + lowStartOffset * h_Window cfg;
            (trs, ent) =
              (if he_state ent = StateHot
               then ([\<lparr>tr_Key = he_key ent, tr_From = StateHot, tr_To = StateCooling\<rparr>],
                     ent\<lparr>he_state := StateCooling, he_coolingAt := lowStart\<rparr>)
               else ([], ent));
            finalBoundary = firstBoundary + remaining * h_Window cfg
        in if he_state ent = StateCooling \<and> time_sub finalBoundary (he_coolingAt ent) \<ge> h_Cooldown cfg
           then (trs @ [\<lparr>tr_Key = he_key ent, tr_From = StateCooling, tr_To = StateCold\<rparr>],
                 ent\<lparr>he_state := StateCold, he_coolingAt := 0\<rparr>)
           else if he_state ent = StateWarm \<and> finalScore = 0
           then (trs @ [\<lparr>tr_Key = he_key ent, tr_From = StateWarm, tr_To = StateCold\<rparr>],
                 ent\<lparr>he_state := StateCold\<rparr>)
           else (trs, ent)
      else ([], ent))"

definition advanceEntryLocked ::
  "arith \<Rightarrow> hconfig \<Rightarrow> hot_entry \<Rightarrow> rat \<Rightarrow> int \<Rightarrow> time \<Rightarrow> transition list \<times> hot_entry"
where
  "advanceEntryLocked a cfg ent rate elapsedWindows firstBoundary =
     (let beta = fsub a 1 (h_EWMAAlpha cfg);
          firstScore = fadd a (fmul a (h_EWMAAlpha cfg) rate) (fmul a beta (he_score ent));
          ent = ent\<lparr>he_score := firstScore, he_lastRate := rate\<rparr>;
          (transitions, ent) = applyStateLocked cfg ent firstBoundary
      in if elapsedWindows = 1 then (transitions, ent)
         else
           let remaining = elapsedWindows - 1;
               ent = ent\<lparr>he_lastRate := 0\<rparr>;
               highWindows = decayWindowsAtLeast a firstScore beta (h_PromotionThreshold cfg) remaining;
               atLeastDemotion = decayWindowsAtLeast a firstScore beta (h_DemotionThreshold cfg) remaining;
               midWindows = atLeastDemotion - highWindows;
               lowWindows = remaining - atLeastDemotion;
               (t1, ent) = catchup_high cfg highWindows ent;
               (t2, ent) = catchup_mid midWindows ent;
               finalScore = fmul a firstScore (powf a beta (of_i64 a remaining));
               (t3, ent) = catchup_low cfg highWindows midWindows lowWindows remaining firstBoundary finalScore ent
           in (transitions @ t1 @ t2 @ t3, ent\<lparr>he_score := finalScore\<rparr>))"

text \<open>The loop of \<^verbatim>\<open>advanceLocked\<close> over the tracked entries.\<close>

fun advance_items ::
  "arith \<Rightarrow> hconfig \<Rightarrow> int \<Rightarrow> time \<Rightarrow> (bytes \<times> nat) list \<Rightarrow> hot_entry list \<Rightarrow> int \<Rightarrow>
     transition list \<times> hot_entry list \<times> int"
where
  "advance_items a cfg elapsed firstBoundary [] ring hot = ([], ring, hot)"
| "advance_items a cfg elapsed firstBoundary ((k, i) # items) ring hot =
     (let ent = ring ! i;
          rate = fdiv a (of_i64 a (he_count ent)) (seconds a (h_Window cfg));
          before' = he_state ent;
          (trs, ent) = advanceEntryLocked a cfg ent rate elapsed firstBoundary;
          hot = adjustHotCount hot before' (he_state ent);
          (trs', ring, hot) =
            advance_items a cfg elapsed firstBoundary items (ring[i := ent\<lparr>he_count := 0\<rparr>]) hot
      in (trs @ trs', ring, hot))"

definition advanceLocked :: "arith \<Rightarrow> tracker \<Rightarrow> time \<Rightarrow> transition list \<times> tracker" where
  "advanceLocked a t now =
     (if now < t_window t + h_Window (t_cfg t) then ([], t)
      else
        let elapsed = time_sub now (t_window t) sdiv h_Window (t_cfg t);
            elapsed = (if elapsed < 1 then 1 else elapsed);
            firstBoundary = t_window t + h_Window (t_cfg t);
            (trs, ring, hot) =
              advance_items a (t_cfg t) elapsed firstBoundary (t_items t) (t_admissionRing t) (t_hot t)
        in (trs, t\<lparr>t_admissionRing := ring, t_hot := hot,
                    t_window := t_window t + elapsed * h_Window (t_cfg t)\<rparr>))"

subsection \<open>Admission\<close>

text \<open>
  The result is the ring position of the entry (\<open>None\<close> when the observation was dropped) and
  the transition of an evicted key.
\<close>

definition getOrCreateLocked ::
  "tracker \<Rightarrow> bytes \<Rightarrow> time \<Rightarrow> nat option \<times> transition option \<times> tracker"
where
  "getOrCreateLocked t key now =
     (case map_of (t_items t) key of
        Some i \<Rightarrow> (Some i, None, t)
      | None \<Rightarrow>
          if int (length (t_admissionRing t)) < h_MaxTrackedKeys (t_cfg t)
          then (Some (length (t_admissionRing t)), None,
                t\<lparr>t_admissionRing := t_admissionRing t @ [fresh_entry key now],
                  t_items := AList.update key (length (t_admissionRing t)) (t_items t)\<rparr>)
          else
            let v = t_nextVictim t;
                victim = t_admissionRing t ! v;
                next = Suc v;
                next = (if next = length (t_admissionRing t) then 0 else next);
                t = t\<lparr>t_nextVictim := next\<rparr>
            in if he_state victim = StateHot
               then (None, None, t\<lparr>t_capacityDrops := t_capacityDrops t + 1\<rparr>)
               else
                 (Some v,
                  (if he_state victim = StateCold then None
                   else Some \<lparr>tr_Key = he_key victim, tr_From = he_state victim, tr_To = StateCold\<rparr>),
                  t\<lparr>t_hot := adjustHotCount (t_hot t) (he_state victim) StateCold,
                    t_evictions := t_evictions t + 1,
                    t_admissionRing := (t_admissionRing t)[v := fresh_entry key now],
                    t_items := AList.update key v (AList.delete (he_key victim) (t_items t))\<rparr>))"

definition commitGuaranteedPromotionLocked ::
  "arith \<Rightarrow> tracker \<Rightarrow> nat \<Rightarrow> transition list \<times> tracker"
where
  "commitGuaranteedPromotionLocked a t i =
     (let ent = t_admissionRing t ! i; cfg = t_cfg t in
      if he_state ent \<noteq> StateWarm \<or> he_hotWindows ent \<le> 0 \<or>
         he_hotWindows ent + 1 < h_MinimumHotWindows cfg
      then ([], t)
      else
        let currentRateFloor = fdiv a (of_i64 a (he_count ent)) (seconds a (h_Window cfg));
            nextScoreFloor = fadd a (fmul a (h_EWMAAlpha cfg) currentRateFloor)
                                    (fmul a (fsub a 1 (h_EWMAAlpha cfg)) (he_score ent))
        in if nextScoreFloor < h_PromotionThreshold cfg then ([], t)
           else
             let before' = he_state ent;
                 ent = ent\<lparr>he_state := StateHot, he_hotWindows := he_hotWindows ent + 1\<rparr>
             in ([\<lparr>tr_Key = he_key ent, tr_From = before', tr_To = StateHot\<rparr>],
                 t\<lparr>t_admissionRing := (t_admissionRing t)[i := ent],
                   t_hot := adjustHotCount (t_hot t) before' StateHot\<rparr>))"

definition ObserveWithState :: "arith \<Rightarrow> tracker \<Rightarrow> time \<Rightarrow> bytes \<Rightarrow> observation \<times> tracker" where
  "ObserveWithState a t now key =
     (let (transitions, t) = advanceLocked a t now in
      if key = [] \<or> length key > MaxTrackedKeyBytes then
        let t = (if length key > MaxTrackedKeyBytes
                 then t\<lparr>t_oversizedObservationsDropped := t_oversizedObservationsDropped t + 1\<rparr> else t)
        in (\<lparr>o_Transitions = transitions, o_State = StateUnset, o_Hot = t_hot t,
             o_CapacityObservationDropped = False, o_CapacityDrops = t_capacityDrops t,
             o_OversizedObservationDropped = (length key > MaxTrackedKeyBytes),
             o_OversizedObservationsDropped = t_oversizedObservationsDropped t\<rparr>, t)
      else
        case getOrCreateLocked t key now of
          (None, _, t) \<Rightarrow>
            (\<lparr>o_Transitions = transitions, o_State = StateUnset, o_Hot = t_hot t,
              o_CapacityObservationDropped = True, o_CapacityDrops = t_capacityDrops t,
              o_OversizedObservationDropped = False,
              o_OversizedObservationsDropped = t_oversizedObservationsDropped t\<rparr>, t)
        | (Some i, evictionTransition, t) \<Rightarrow>
            let transitions = transitions @ (case evictionTransition of None \<Rightarrow> [] | Some tr \<Rightarrow> [tr]);
                ent = t_admissionRing t ! i;
                t = t\<lparr>t_admissionRing :=
                        (t_admissionRing t)[i := ent\<lparr>he_count := he_count ent + 1, he_lastSeen := now\<rparr>]\<rparr>;
                (promoted, t) = commitGuaranteedPromotionLocked a t i
            in (\<lparr>o_Transitions = transitions @ promoted, o_State = he_state (t_admissionRing t ! i),
                 o_Hot = t_hot t, o_CapacityObservationDropped = False,
                 o_CapacityDrops = t_capacityDrops t, o_OversizedObservationDropped = False,
                 o_OversizedObservationsDropped = t_oversizedObservationsDropped t\<rparr>, t))"

definition Observe :: "arith \<Rightarrow> tracker \<Rightarrow> time \<Rightarrow> bytes \<Rightarrow> transition list \<times> tracker" where
  "Observe a t now key = map_prod o_Transitions id (ObserveWithState a t now key)"

definition Admit :: "arith \<Rightarrow> tracker \<Rightarrow> time \<Rightarrow> bytes \<Rightarrow> observation \<times> tracker" where
  "Admit a t now key =
     (let (transitions, t) = advanceLocked a t now in
      case map_of (t_items t) key of
        None \<Rightarrow>
          (\<lparr>o_Transitions = transitions, o_State = StateUnset, o_Hot = t_hot t,
            o_CapacityObservationDropped = False, o_CapacityDrops = t_capacityDrops t,
            o_OversizedObservationDropped = False,
            o_OversizedObservationsDropped = t_oversizedObservationsDropped t\<rparr>, t)
      | Some i \<Rightarrow>
          let ent = t_admissionRing t ! i;
              (transitions, t) =
                (if he_state ent \<noteq> StateHot then
                   (transitions @ [\<lparr>tr_Key = he_key ent, tr_From = he_state ent, tr_To = StateHot\<rparr>],
                    t\<lparr>t_admissionRing := (t_admissionRing t)[i :=
                         ent\<lparr>he_state := StateHot, he_hotWindows := 0, he_coolingAt := 0\<rparr>],
                      t_hot := adjustHotCount (t_hot t) (he_state ent) StateHot\<rparr>)
                 else (transitions, t))
          in (\<lparr>o_Transitions = transitions, o_State = he_state (t_admissionRing t ! i), o_Hot = t_hot t,
               o_CapacityObservationDropped = False, o_CapacityDrops = t_capacityDrops t,
               o_OversizedObservationDropped = False,
               o_OversizedObservationsDropped = t_oversizedObservationsDropped t\<rparr>, t))"

subsection \<open>Queries\<close>

definition IsHot :: "tracker \<Rightarrow> bytes \<Rightarrow> bool" where
  "IsHot t key =
     (case map_of (t_items t) key of
        None \<Rightarrow> False
      | Some i \<Rightarrow> he_state (t_admissionRing t ! i) = StateHot)"

definition IsTracked :: "tracker \<Rightarrow> bytes \<Rightarrow> bool" where
  "IsTracked t key \<longleftrightarrow> map_of (t_items t) key \<noteq> None"

definition Stats_tracker :: "tracker \<Rightarrow> int \<times> int" where
  "Stats_tracker t = (int (length (t_items t)), t_hot t)"

definition Evictions :: "tracker \<Rightarrow> u64" where
  "Evictions t = t_evictions t"

definition CapacityDrops :: "tracker \<Rightarrow> u64" where
  "CapacityDrops t = t_capacityDrops t"

definition OversizedObservationsDropped :: "tracker \<Rightarrow> u64" where
  "OversizedObservationsDropped t = t_oversizedObservationsDropped t"

definition Advance :: "arith \<Rightarrow> tracker \<Rightarrow> time \<Rightarrow> transition list \<times> tracker" where
  "Advance a t now = advanceLocked a t now"

definition hot_snapshot :: "arith \<Rightarrow> hot_entry \<Rightarrow> time \<Rightarrow> hsnapshot" where
  "hot_snapshot a e now =
     \<lparr>hs_Key = he_key e, hs_State = he_state e,
      hs_Score = fdiv a (fround (fmul a (he_score e) 100)) 100,
      hs_RequestRate = fdiv a (fround (fmul a (he_lastRate e) 100)) 100,
      hs_LastSeen = he_lastSeen e, hs_Age = time_sub now (he_createdAt e)\<rparr>"

end
