(* ===== verification/HotnessInv.thy ===== *)
theory HotnessInv
  imports Hotness
begin

text \<open>
  The structural invariant of the tracker and what its operations do to it: the map and the ring
  hold the same entries, capacity is bounded, the HOT counter counts, and the transitions an
  operation reports replay exactly to the states it leaves. All of it holds for every float
  arithmetic.
\<close>

section \<open>Invariant\<close>

definition hot_count :: "hot_entry list \<Rightarrow> int" where
  "hot_count es = int (length (filter (\<lambda>e. he_state e = StateHot) es))"

definition config_ok :: "hconfig \<Rightarrow> bool" where
  "config_ok cfg \<longleftrightarrow> 0 < h_Window cfg \<and> 0 < h_EWMAAlpha cfg \<and> h_EWMAAlpha cfg \<le> 1 \<and>
     0 < h_MinimumHotWindows cfg \<and> 0 < h_MaxTrackedKeys cfg"

definition hot_entry_ok :: "hot_entry \<Rightarrow> bool" where
  "hot_entry_ok e \<longleftrightarrow> he_key e \<noteq> [] \<and> length (he_key e) \<le> MaxTrackedKeyBytes \<and>
     he_state e \<noteq> StateUnset \<and> 0 \<le> he_count e \<and> 0 \<le> he_hotWindows e"

definition ring_index :: "hot_entry list \<Rightarrow> (bytes \<times> nat) set" where
  "ring_index ring = {(he_key (ring ! i), i) | i. i < length ring}"

definition tracker_inv :: "tracker \<Rightarrow> bool" where
  "tracker_inv t \<longleftrightarrow>
     config_ok (t_cfg t) \<and>
     dict (t_items t) \<and> set (t_items t) = ring_index (t_admissionRing t) \<and>
     int (length (t_admissionRing t)) \<le> h_MaxTrackedKeys (t_cfg t) \<and>
     t_nextVictim t < max 1 (length (t_admissionRing t)) \<and>
     t_hot t = hot_count (t_admissionRing t) \<and>
     (\<forall>e \<in> set (t_admissionRing t). hot_entry_ok e)"

text \<open>The entry a key has, read through the map.\<close>

definition tracked :: "tracker \<Rightarrow> bytes \<Rightarrow> hot_entry option" where
  "tracked t key = map_option (\<lambda>i. t_admissionRing t ! i) (map_of (t_items t) key)"

section \<open>Index lemmas\<close>

lemma ring_index_iff [simp]: "(k, i) \<in> ring_index ring \<longleftrightarrow> i < length ring \<and> k = he_key (ring ! i)"
  by (auto simp: ring_index_def)

lemma inv_index:
  assumes "tracker_inv t"
  shows "map_of (t_items t) k = Some i \<longleftrightarrow> i < length (t_admissionRing t) \<and> k = he_key (t_admissionRing t ! i)"
proof -
  have "map_of (t_items t) k = Some i \<longleftrightarrow> (k, i) \<in> set (t_items t)"
    using assms by (simp add: tracker_inv_def)
  also have "set (t_items t) = ring_index (t_admissionRing t)" using assms by (simp add: tracker_inv_def)
  finally show ?thesis by simp
qed

lemma inv_keys_distinct:
  assumes "tracker_inv t" shows "distinct (map he_key (t_admissionRing t))"
  unfolding distinct_conv_nth
  by (metis assms inv_index length_map nth_map option.inject)

lemma inv_indices:
  assumes "tracker_inv t"
  shows "distinct (map snd (t_items t))" and "snd ` set (t_items t) = {..<length (t_admissionRing t)}"
proof -
  have set: "set (t_items t) = ring_index (t_admissionRing t)" and d: "dict (t_items t)"
    using assms by (simp_all add: tracker_inv_def)
  have "inj_on snd (set (t_items t))" unfolding set by (auto simp: inj_on_def)
  with d show "distinct (map snd (t_items t))" by (simp add: distinct_map)
  show "snd ` set (t_items t) = {..<length (t_admissionRing t)}" unfolding set by (auto simp: ring_index_def image_iff)
qed

lemma inv_length:
  assumes "tracker_inv t" shows "length (t_items t) = length (t_admissionRing t)"
proof -
  have "length (t_items t) = card (snd ` set (t_items t))"
    using inv_indices(1) [OF assms] by (metis distinct_card length_map list.set_map)
  then show ?thesis using inv_indices(2) [OF assms] by simp
qed

lemma tracked_Some:
  assumes "tracker_inv t"
  shows "tracked t k = Some e \<longleftrightarrow> e \<in> set (t_admissionRing t) \<and> he_key e = k"
proof
  assume "tracked t k = Some e"
  then show "e \<in> set (t_admissionRing t) \<and> he_key e = k"
    using inv_index [OF assms] by (auto simp: tracked_def)
next
  assume "e \<in> set (t_admissionRing t) \<and> he_key e = k"
  then obtain i where "i < length (t_admissionRing t)" "t_admissionRing t ! i = e" "he_key e = k"
    by (metis in_set_conv_nth)
  then show "tracked t k = Some e" using inv_index [OF assms, of k i] by (auto simp: tracked_def)
qed

lemma IsHot_tracked: "IsHot t k \<longleftrightarrow> (\<exists>e. tracked t k = Some e \<and> he_state e = StateHot)"
  by (auto simp: IsHot_def tracked_def split: option.splits)

lemma IsTracked_tracked: "IsTracked t k \<longleftrightarrow> tracked t k \<noteq> None"
  by (simp add: IsTracked_def tracked_def)

section \<open>Counting\<close>

lemma hot_count_simps [simp]:
  "hot_count [] = 0" "hot_count (xs @ ys) = hot_count xs + hot_count ys"
  "hot_count (e # es) = (if he_state e = StateHot then 1 else 0) + hot_count es"
  by (simp_all add: hot_count_def)

lemma hot_count_update:
  "i < length es \<Longrightarrow>
   hot_count (es[i := e]) = adjustHotCount (hot_count es) (he_state (es ! i)) (he_state e)"
proof (induction es arbitrary: i)
  case (Cons x es)
  then show ?case by (cases i) (auto simp: adjustHotCount_def Let_def)
qed simp

lemma hot_count_nonneg: "0 \<le> hot_count es" and hot_count_le: "hot_count es \<le> int (length es)"
  by (simp_all add: hot_count_def)

section \<open>Replacing one ring entry by one with the same key\<close>

lemma ring_index_update: "i < length ring \<Longrightarrow> he_key e = he_key (ring ! i) \<Longrightarrow> ring_index (ring[i := e]) = ring_index ring"
  by (auto simp: ring_index_def nth_list_update)

lemma inv_update_entry:
  assumes "tracker_inv t" "i < length (t_admissionRing t)" "he_key e = he_key (t_admissionRing t ! i)"
    "hot_entry_ok e"
  shows "tracker_inv (t\<lparr>t_admissionRing := (t_admissionRing t)[i := e],
    t_hot := adjustHotCount (t_hot t) (he_state (t_admissionRing t ! i)) (he_state e)\<rparr>)"
  using assms set_update_subset_insert [of "t_admissionRing t" i e]
  by (auto simp: tracker_inv_def ring_index_update hot_count_update)

lemma inv_touch_entry:
  assumes "tracker_inv t" "i < length (t_admissionRing t)" "he_key e = he_key (t_admissionRing t ! i)"
    "he_state e = he_state (t_admissionRing t ! i)" "hot_entry_ok e"
  shows "tracker_inv (t\<lparr>t_admissionRing := (t_admissionRing t)[i := e]\<rparr>)"
  using assms set_update_subset_insert [of "t_admissionRing t" i e]
  by (auto simp: tracker_inv_def ring_index_update hot_count_update adjustHotCount_def)

section \<open>Transition chains\<close>

text \<open>A list of transitions of one key that leads from one state to another without a self loop.\<close>

fun chain :: "bytes \<Rightarrow> hstate \<Rightarrow> transition list \<Rightarrow> hstate \<Rightarrow> bool" where
  "chain k s [] s' \<longleftrightarrow> s = s'"
| "chain k s (tr # trs) s' \<longleftrightarrow>
     tr_Key tr = k \<and> tr_From tr = s \<and> tr_To tr \<noteq> s \<and> chain k (tr_To tr) trs s'"

lemma chain_append: "chain k s (xs @ ys) s' \<longleftrightarrow> (\<exists>m. chain k s xs m \<and> chain k m ys s')"
  by (induction xs arbitrary: s) auto

lemma chain_state_change [simp]: "chain k s (state_change k s s') s'"
  by (simp add: state_change_def)

text \<open>
  The edges of the state machine that window advancement may take: HOT is left only through
  COOLING, and COLD is entered only from WARM or COOLING.
\<close>

definition window_edge :: "hstate \<Rightarrow> hstate \<Rightarrow> bool" where
  "window_edge s s' \<longleftrightarrow> (s, s') \<in>
     {(StateCold, StateWarm), (StateCold, StateHot), (StateWarm, StateHot), (StateWarm, StateCold),
      (StateHot, StateCooling), (StateCooling, StateHot), (StateCooling, StateCold)}"

definition edges_ok :: "transition list \<Rightarrow> bool" where
  "edges_ok trs \<longleftrightarrow> (\<forall>tr \<in> set trs. window_edge (tr_From tr) (tr_To tr))"

lemma edges_ok_simps [simp]:
  "edges_ok []" "edges_ok (xs @ ys) \<longleftrightarrow> edges_ok xs \<and> edges_ok ys"
  "edges_ok (state_change k s s') \<longleftrightarrow> s = s' \<or> window_edge s s'"
  "edges_ok (tr # trs) \<longleftrightarrow> window_edge (tr_From tr) (tr_To tr) \<and> edges_ok trs"
  by (auto simp: edges_ok_def state_change_def)

text \<open>
  One contract for every piece of the catch-up: it keeps the identity fields of the entry and
  its well-formedness, and reports a chain of legal transitions.
\<close>

definition entry_step_ok :: "hot_entry \<Rightarrow> transition list \<times> hot_entry \<Rightarrow> bool" where
  "entry_step_ok e r \<longleftrightarrow>
     he_key (snd r) = he_key e \<and> he_count (snd r) = he_count e \<and>
     he_lastSeen (snd r) = he_lastSeen e \<and> he_createdAt (snd r) = he_createdAt e \<and>
     (hot_entry_ok e \<longrightarrow> hot_entry_ok (snd r)) \<and>
     chain (he_key e) (he_state e) (fst r) (he_state (snd r)) \<and>
     (he_state e \<noteq> StateUnset \<longrightarrow> edges_ok (fst r))"

lemma entry_step_ok_trans:
  assumes "entry_step_ok e (t1, e1)" "entry_step_ok e1 (t2, e2)" "hot_entry_ok e"
  shows "entry_step_ok e (t1 @ t2, e2)"
  using assms by (auto simp: entry_step_ok_def chain_append hot_entry_ok_def)

lemma applyState_ok: "hot_entry_ok e \<Longrightarrow> entry_step_ok e (applyStateLocked cfg e now)"
  by (auto simp: entry_step_ok_def applyStateLocked_def Let_def hot_entry_ok_def window_edge_def)
    (cases "he_state e"; simp)+

lemma catchup_high_ok:
  "hot_entry_ok e \<Longrightarrow> 0 < h_MinimumHotWindows cfg \<Longrightarrow> entry_step_ok e (catchup_high cfg n e)"
  by (cases "he_state e")
    (auto simp: entry_step_ok_def catchup_high_def Let_def hot_entry_ok_def window_edge_def)

lemma catchup_mid_ok: "hot_entry_ok e \<Longrightarrow> entry_step_ok e (catchup_mid n e)"
  by (auto simp: entry_step_ok_def catchup_mid_def Let_def hot_entry_ok_def window_edge_def)

lemma catchup_low_ok: "hot_entry_ok e \<Longrightarrow> entry_step_ok e (catchup_low cfg h m l rem fb fs e)"
  by (auto simp: entry_step_ok_def catchup_low_def Let_def hot_entry_ok_def window_edge_def chain_append)

lemma entry_step_ok_score [simp]:
  "entry_step_ok (e\<lparr>he_score := s, he_lastRate := l\<rparr>) r \<longleftrightarrow> entry_step_ok e r"
  "entry_step_ok e (trs, e'\<lparr>he_score := s\<rparr>) \<longleftrightarrow> entry_step_ok e (trs, e')"
  "entry_step_ok e (trs, e'\<lparr>he_lastRate := l\<rparr>) \<longleftrightarrow> entry_step_ok e (trs, e')"
  by (simp_all add: entry_step_ok_def hot_entry_ok_def)

lemma hot_entry_ok_score [simp]:
  "hot_entry_ok (e\<lparr>he_score := s\<rparr>) = hot_entry_ok e" "hot_entry_ok (e\<lparr>he_lastRate := l\<rparr>) = hot_entry_ok e"
  "hot_entry_ok (e\<lparr>he_lastSeen := n\<rparr>) = hot_entry_ok e"
  by (simp_all add: hot_entry_ok_def)

lemma advanceEntry_ok:
  assumes e: "hot_entry_ok e" and cfg: "0 < h_MinimumHotWindows cfg"
  shows "entry_step_ok e (advanceEntryLocked a cfg e rate n fb)"
proof -
  define beta where "beta = fsub a 1 (h_EWMAAlpha cfg)"
  define fs where "fs = fadd a (fmul a (h_EWMAAlpha cfg) rate) (fmul a beta (he_score e))"
  obtain t0 e0 where 0: "applyStateLocked cfg (e\<lparr>he_score := fs, he_lastRate := rate\<rparr>) fb = (t0, e0)"
    by (cases "applyStateLocked cfg (e\<lparr>he_score := fs, he_lastRate := rate\<rparr>) fb")
  then have s0: "entry_step_ok e (t0, e0)"
    using applyState_ok [of "e\<lparr>he_score := fs, he_lastRate := rate\<rparr>" cfg fb] e by simp
  define r where "r = n - 1"
  define h where "h = decayWindowsAtLeast a fs beta (h_PromotionThreshold cfg) r"
  define d where "d = decayWindowsAtLeast a fs beta (h_DemotionThreshold cfg) r"
  define fin where "fin = fmul a fs (powf a beta (of_i64 a r))"
  obtain t1 e1 where 1: "catchup_high cfg h (e0\<lparr>he_lastRate := 0\<rparr>) = (t1, e1)"
    by (cases "catchup_high cfg h (e0\<lparr>he_lastRate := 0\<rparr>)")
  obtain t2 e2 where 2: "catchup_mid (d - h) e1 = (t2, e2)" by (cases "catchup_mid (d - h) e1")
  obtain t3 e3 where 3: "catchup_low cfg h (d - h) (r - d) r fb fin e2 = (t3, e3)"
    by (cases "catchup_low cfg h (d - h) (r - d) r fb fin e2")
  have eq: "advanceEntryLocked a cfg e rate n fb =
      (if n = 1 then (t0, e0) else (t0 @ t1 @ t2 @ t3, e3\<lparr>he_score := fin\<rparr>))"
    using 0 1 2 3 unfolding beta_def fs_def r_def h_def d_def fin_def
    by (simp add: advanceEntryLocked_def Let_def)
  have ok0: "hot_entry_ok e0" using s0 e by (simp add: entry_step_ok_def)
  then have s1: "entry_step_ok e0 (t1, e1)"
    using catchup_high_ok [OF _ cfg, of "e0\<lparr>he_lastRate := 0\<rparr>" h] 1
    by (simp add: entry_step_ok_def hot_entry_ok_def)
  then have ok1: "hot_entry_ok e1" using ok0 by (simp add: entry_step_ok_def)
  then have s2: "entry_step_ok e1 (t2, e2)" using catchup_mid_ok 2 by metis
  then have ok2: "hot_entry_ok e2" using ok1 by (simp add: entry_step_ok_def)
  then have s3: "entry_step_ok e2 (t3, e3)" using catchup_low_ok 3 by metis
  have "entry_step_ok e (((t0 @ t1) @ t2) @ t3, e3)"
    using s0 s1 s2 s3 e entry_step_ok_trans by blast
  with s0 eq show ?thesis by simp
qed

section \<open>Advancing every entry\<close>

text \<open>What the loop does to one entry: the catch-up and the reset of the open-window count.\<close>

definition advance_one :: "arith \<Rightarrow> hconfig \<Rightarrow> int \<Rightarrow> time \<Rightarrow> hot_entry \<Rightarrow> transition list \<times> hot_entry" where
  "advance_one a cfg n fb e =
     (case advanceEntryLocked a cfg e (fdiv a (of_i64 a (he_count e)) (seconds a (h_Window cfg))) n fb of
        (trs, e') \<Rightarrow> (trs, e'\<lparr>he_count := 0\<rparr>))"

lemma advance_one_ok:
  assumes "hot_entry_ok e" "0 < h_MinimumHotWindows cfg"
  shows "he_key (snd (advance_one a cfg n fb e)) = he_key e"
    and "hot_entry_ok (snd (advance_one a cfg n fb e))"
    and "chain (he_key e) (he_state e) (fst (advance_one a cfg n fb e)) (he_state (snd (advance_one a cfg n fb e)))"
    and "edges_ok (fst (advance_one a cfg n fb e))"
    and "he_createdAt (snd (advance_one a cfg n fb e)) = he_createdAt e"
    and "he_lastSeen (snd (advance_one a cfg n fb e)) = he_lastSeen e"
  using advanceEntry_ok [OF assms, of a "fdiv a (of_i64 a (he_count e)) (seconds a (h_Window cfg))" n fb] assms
  by (auto simp: advance_one_def entry_step_ok_def hot_entry_ok_def split: prod.splits)

text \<open>Visiting distinct positions in any order maps \<open>advance_one\<close> over them.\<close>

lemma advance_items_spec:
  assumes "distinct (map snd items)" "snd ` set items \<subseteq> {..<length ring}" "hot = hot_count ring"
  shows "advance_items a cfg n fb items ring hot =
    (let ring' = map (\<lambda>i. if i \<in> snd ` set items then snd (advance_one a cfg n fb (ring ! i)) else ring ! i)
                     [0..<length ring]
     in (concat (map (\<lambda>p. fst (advance_one a cfg n fb (ring ! snd p))) items), ring', hot_count ring'))"
  using assms
proof (induction items arbitrary: ring hot)
  case Nil
  then show ?case by (simp add: map_nth)
next
  case (Cons p items)
  obtain k i where p: "p = (k, i)" by (cases p)
  obtain trs e where adv: "advanceEntryLocked a cfg (ring ! i)
      (fdiv a (of_i64 a (he_count (ring ! i))) (seconds a (h_Window cfg))) n fb = (trs, e)"
    by (cases "advanceEntryLocked a cfg (ring ! i)
      (fdiv a (of_i64 a (he_count (ring ! i))) (seconds a (h_Window cfg))) n fb")
  then have one: "advance_one a cfg n fb (ring ! i) = (trs, e\<lparr>he_count := 0\<rparr>)"
    by (simp add: advance_one_def)
  let ?ring = "ring[i := e\<lparr>he_count := 0\<rparr>]"
  from Cons.prems p have i: "i < length ring" "i \<notin> snd ` set items" by auto
  have hot: "adjustHotCount hot (he_state (ring ! i)) (he_state e) = hot_count ?ring"
    using Cons.prems(3) i by (simp add: hot_count_update)
  have other: "?ring ! snd q = ring ! snd q" if "q \<in> set items" for q
    using i that by (metis imageI nth_list_update_neq)
  have "advance_items a cfg n fb items ?ring (hot_count ?ring) =
    (let ring' = map (\<lambda>j. if j \<in> snd ` set items then snd (advance_one a cfg n fb (?ring ! j)) else ?ring ! j)
                     [0..<length ?ring]
     in (concat (map (\<lambda>q. fst (advance_one a cfg n fb (?ring ! snd q))) items), ring', hot_count ring'))"
    using Cons.prems by (intro Cons.IH) auto
  also have "map (\<lambda>q. fst (advance_one a cfg n fb (?ring ! snd q))) items =
      map (\<lambda>q. fst (advance_one a cfg n fb (ring ! snd q))) items"
    using other by simp
  also have "map (\<lambda>j. if j \<in> snd ` set items then snd (advance_one a cfg n fb (?ring ! j)) else ?ring ! j) [0..<length ?ring]
    = map (\<lambda>j. if j \<in> snd ` set (p # items) then snd (advance_one a cfg n fb (ring ! j)) else ring ! j) [0..<length ring]"
    using i one p by (intro map_cong) (auto simp: nth_list_update)
  finally show ?case
    using adv one hot by (simp add: p Let_def)
qed

lemma advanceLocked_spec:
  assumes inv: "tracker_inv t"
  shows "advanceLocked a t now =
    (if now < t_window t + h_Window (t_cfg t) then ([], t)
     else
       let n = max 1 (time_sub now (t_window t) sdiv h_Window (t_cfg t));
           adv = advance_one a (t_cfg t) n (t_window t + h_Window (t_cfg t));
           ring = map (\<lambda>e. snd (adv e)) (t_admissionRing t)
       in (concat (map (\<lambda>p. fst (adv (t_admissionRing t ! snd p))) (t_items t)),
           t\<lparr>t_admissionRing := ring, t_hot := hot_count ring, t_window := t_window t + n * h_Window (t_cfg t)\<rparr>))"
proof -
  let ?r = "t_admissionRing t"
  have "map (\<lambda>i. if i \<in> snd ` set (t_items t) then snd (f (?r ! i)) else ?r ! i) [0..<length ?r] = map (\<lambda>e. snd (f e)) ?r"
    for f :: "hot_entry \<Rightarrow> transition list \<times> hot_entry"
    using inv_indices(2) [OF inv] by (auto intro!: nth_equalityI)
  moreover have "advance_items a (t_cfg t) n fb (t_items t) ?r (t_hot t) =
    (let ring' = map (\<lambda>i. if i \<in> snd ` set (t_items t) then snd (advance_one a (t_cfg t) n fb (?r ! i)) else ?r ! i)
                     [0..<length ?r]
     in (concat (map (\<lambda>p. fst (advance_one a (t_cfg t) n fb (?r ! snd p))) (t_items t)), ring', hot_count ring'))" for n fb
    using inv inv_indices [OF inv] by (intro advance_items_spec) (simp_all add: tracker_inv_def)
  ultimately show ?thesis by (auto simp: advanceLocked_def Let_def max_def)
qed

lemma advance_inv:
  assumes inv: "tracker_inv t"
  shows "tracker_inv (snd (advanceLocked a t now))"
proof (cases "now < t_window t + h_Window (t_cfg t)")
  case True
  with inv show ?thesis by (simp add: advanceLocked_spec)
next
  case False
  let ?n = "max 1 (time_sub now (t_window t) sdiv h_Window (t_cfg t))"
  let ?adv = "advance_one a (t_cfg t) ?n (t_window t + h_Window (t_cfg t))"
  have ok: "\<forall>e \<in> set (t_admissionRing t). hot_entry_ok e" and cfg: "0 < h_MinimumHotWindows (t_cfg t)"
    using inv by (auto simp: tracker_inv_def config_ok_def)
  have "ring_index (map (\<lambda>e. snd (?adv e)) (t_admissionRing t)) = ring_index (t_admissionRing t)"
    using ok advance_one_ok(1) [OF _ cfg] by (auto simp: ring_index_def)
  with False inv ok advance_one_ok(2) [OF _ cfg] show ?thesis
    by (simp add: advanceLocked_spec [OF inv] Let_def) (simp add: tracker_inv_def)
qed

section \<open>Admission preserves the invariant\<close>

lemma fresh_entry_sel [simp]:
  "he_key (fresh_entry k now) = k" "he_state (fresh_entry k now) = StateCold"
  "hot_entry_ok (fresh_entry k now) \<longleftrightarrow> k \<noteq> [] \<and> length k \<le> MaxTrackedKeyBytes"
  by (auto simp: fresh_entry_def hot_entry_ok_def)

lemma ring_index_append: "ring_index (ring @ [e]) = insert (he_key e, length ring) (ring_index ring)"
proof (rule set_eqI)
  fix p :: "bytes \<times> nat"
  show "p \<in> ring_index (ring @ [e]) \<longleftrightarrow> p \<in> insert (he_key e, length ring) (ring_index ring)"
    by (cases p) (auto simp: nth_append less_Suc_eq)
qed

text \<open>The victim slot exists whenever the ring is full.\<close>

lemma victim_in_range:
  "tracker_inv t \<Longrightarrow> \<not> int (length (t_admissionRing t)) < h_MaxTrackedKeys (t_cfg t) \<Longrightarrow>
   t_nextVictim t < length (t_admissionRing t)"
  unfolding tracker_inv_def config_ok_def by linarith

lemma items_replace:
  assumes inv: "tracker_inv t" and v: "v < length (t_admissionRing t)" and new: "map_of (t_items t) key = None"
  shows "dict (AList.update key v (AList.delete (he_key (t_admissionRing t ! v)) (t_items t)))"
    and "set (AList.update key v (AList.delete (he_key (t_admissionRing t ! v)) (t_items t))) =
      ring_index ((t_admissionRing t)[v := fresh_entry key now])"
proof -
  let ?r = "t_admissionRing t" and ?vk = "he_key (t_admissionRing t ! v)"
  have d: "dict (t_items t)" and set: "set (t_items t) = ring_index ?r"
    using inv by (simp_all add: tracker_inv_def)
  show "dict (AList.update key v (AList.delete ?vk (t_items t)))" using d by simp
  have "map_of (AList.delete ?vk (t_items t)) key = None" using new by simp
  then have "set (AList.update key v (AList.delete ?vk (t_items t))) =
      insert (key, v) {p \<in> ring_index ?r. fst p \<noteq> ?vk}"
    using set by (auto simp: update_new AList.delete_eq)
  also have "\<dots> = ring_index (?r[v := fresh_entry key now])"
  proof (rule set_eqI)
    fix p :: "bytes \<times> nat"
    obtain k i where p: "p = (k, i)" by (cases p)
    have "i < length ?r \<Longrightarrow> he_key (?r ! i) = ?vk \<longleftrightarrow> i = v"
      using inv_keys_distinct [OF inv] v by (metis distinct_conv_nth length_map nth_map)
    then show "p \<in> insert (key, v) {p \<in> ring_index ?r. fst p \<noteq> ?vk} \<longleftrightarrow>
        p \<in> ring_index (?r[v := fresh_entry key now])"
      using v by (auto simp: p nth_list_update)
  qed
  finally show "set (AList.update key v (AList.delete ?vk (t_items t))) = ring_index (?r[v := fresh_entry key now])" .
qed

lemma getOrCreate_cases:
  assumes inv: "tracker_inv t"
  obtains (existing) i where "map_of (t_items t) key = Some i" "getOrCreateLocked t key now = (Some i, None, t)"
  | (room) t' where "map_of (t_items t) key = None"
      "int (length (t_admissionRing t)) < h_MaxTrackedKeys (t_cfg t)"
      "getOrCreateLocked t key now = (Some (length (t_admissionRing t)), None, t')"
      "t' = t\<lparr>t_admissionRing := t_admissionRing t @ [fresh_entry key now],
             t_items := AList.update key (length (t_admissionRing t)) (t_items t)\<rparr>"
  | (dropped) t' where "map_of (t_items t) key = None"
      "int (length (t_admissionRing t)) \<ge> h_MaxTrackedKeys (t_cfg t)"
      "he_state (t_admissionRing t ! t_nextVictim t) = StateHot"
      "getOrCreateLocked t key now = (None, None, t')"
      "t' = t\<lparr>t_nextVictim := if Suc (t_nextVictim t) = length (t_admissionRing t) then 0 else Suc (t_nextVictim t),
             t_capacityDrops := t_capacityDrops t + 1\<rparr>"
  | (evict) v victim t' where "map_of (t_items t) key = None"
      "int (length (t_admissionRing t)) \<ge> h_MaxTrackedKeys (t_cfg t)"
      "v = t_nextVictim t" "victim = t_admissionRing t ! v" "he_state victim \<noteq> StateHot"
      "getOrCreateLocked t key now = (Some v,
         (if he_state victim = StateCold then None
          else Some \<lparr>tr_Key = he_key victim, tr_From = he_state victim, tr_To = StateCold\<rparr>), t')"
      "t' = t\<lparr>t_nextVictim := if Suc v = length (t_admissionRing t) then 0 else Suc v,
             t_hot := adjustHotCount (t_hot t) (he_state victim) StateCold,
             t_evictions := t_evictions t + 1,
             t_admissionRing := (t_admissionRing t)[v := fresh_entry key now],
             t_items := AList.update key v (AList.delete (he_key victim) (t_items t))\<rparr>"
proof (cases "map_of (t_items t) key")
  case (Some i)
  then show ?thesis by (intro existing) (simp_all add: getOrCreateLocked_def)
next
  case None
  show ?thesis
  proof (cases "int (length (t_admissionRing t)) < h_MaxTrackedKeys (t_cfg t)")
    case True
    with None show ?thesis by (intro room) (auto simp: getOrCreateLocked_def)
  next
    case False
    show ?thesis
    proof (cases "he_state (t_admissionRing t ! t_nextVictim t) = StateHot")
      case True
      with None False show ?thesis by (intro dropped) (auto simp: getOrCreateLocked_def Let_def)
    next
      case hot: False
      show ?thesis by (rule evict) (use None False hot in \<open>auto simp: getOrCreateLocked_def Let_def\<close>)
    qed
  qed
qed

lemma getOrCreate_inv:
  assumes inv: "tracker_inv t" and key: "key \<noteq> []" "length key \<le> MaxTrackedKeyBytes"
    and g: "getOrCreateLocked t key now = (r, tr, t')"
  shows "tracker_inv t'"
    and "r = Some i \<Longrightarrow> i < length (t_admissionRing t') \<and> he_key (t_admissionRing t' ! i) = key"
proof -
  have "tracker_inv t' \<and> (\<forall>i. r = Some i \<longrightarrow> i < length (t_admissionRing t') \<and> he_key (t_admissionRing t' ! i) = key)"
  proof (rule getOrCreate_cases [OF inv, of key now], goal_cases)
    case (1 j)
    with g inv inv_index [OF inv, of key j] show ?case by auto
  next
    case (2 u)
    have "dict (AList.update key (length (t_admissionRing t)) (t_items t))"
      using inv by (simp add: tracker_inv_def)
    moreover have "set (AList.update key (length (t_admissionRing t)) (t_items t)) =
        ring_index (t_admissionRing t @ [fresh_entry key now])"
      using inv 2(1) by (simp add: update_new ring_index_append tracker_inv_def)
    ultimately show ?case using g 2 inv key by (auto simp: tracker_inv_def)
  next
    case (3 u)
    with g inv victim_in_range [OF inv] show ?case by (auto simp: tracker_inv_def max_def)
  next
    case (4 v victim u)
    have v: "v < length (t_admissionRing t)" using 4 victim_in_range [OF inv] by simp
    have hc: "hot_count ((t_admissionRing t)[v := fresh_entry key now]) =
        adjustHotCount (hot_count (t_admissionRing t)) (he_state victim) StateCold"
      using v 4 by (simp add: hot_count_update)
    have "\<forall>e \<in> set ((t_admissionRing t)[v := fresh_entry key now]). hot_entry_ok e"
      using inv key set_update_subset_insert [of "t_admissionRing t" v "fresh_entry key now"]
      by (auto simp: tracker_inv_def)
    moreover have "t' = u" "r = Some v" "t_admissionRing t \<noteq> []" using g 4(6) v by auto
    ultimately show ?case
      using v hc inv items_replace(1) [OF inv v 4(1)] items_replace(2) [OF inv v 4(1), of now] 4(4) by (simp add: 4(7) tracker_inv_def max_def)
  qed
  then show "tracker_inv t'" "r = Some i \<Longrightarrow> i < length (t_admissionRing t') \<and> he_key (t_admissionRing t' ! i) = key"
    by simp_all
qed

end
