(* ===== verification/HotnessReplay.thy ===== *)
theory HotnessReplay
  imports HotnessInv
begin

text \<open>
  The transition log of the tracker. Clients of \<^verbatim>\<open>Observe\<close>, \<^verbatim>\<open>Admit\<close> and \<^verbatim>\<open>Advance\<close>
  never read the entries: they act on the returned transitions. The lemmas show that the log of
  every operation replays the states from those before to those after it, and that every logged
  edge is an edge of the state machine.
\<close>

section \<open>Replay\<close>

text \<open>An untracked key is COLD.\<close>

definition state_of :: "tracker \<Rightarrow> bytes \<Rightarrow> hstate" where
  "state_of t k = (case tracked t k of None \<Rightarrow> StateCold | Some e \<Rightarrow> he_state e)"

text \<open>A log is replayable when every transition starts in the current state of its key and changes it.\<close>

fun replay :: "(bytes \<Rightarrow> hstate) \<Rightarrow> transition list \<Rightarrow> (bytes \<Rightarrow> hstate) option" where
  "replay f [] = Some f"
| "replay f (tr # trs) =
     (if f (tr_Key tr) = tr_From tr \<and> tr_To tr \<noteq> tr_From tr
      then replay (f(tr_Key tr := tr_To tr)) trs else None)"

lemma replay_append: "replay f (xs @ ys) = Option.bind (replay f xs) (\<lambda>g. replay g ys)"
  by (induction xs arbitrary: f) auto

lemma chain_replay: "chain k (f k) trs s \<Longrightarrow> replay f trs = Some (f(k := s))"
proof (induction trs arbitrary: f)
  case (Cons tr trs)
  have "replay (f(k := tr_To tr)) trs = Some ((f(k := tr_To tr))(k := s))"
    using Cons.prems by (intro Cons.IH) simp
  with Cons.prems show ?case by auto
qed auto

lemma replay_concat:
  assumes "distinct (map fst items)" "\<forall>p \<in> set items. chain (fst p) (f (fst p)) (g p) (h p)"
  shows "replay f (concat (map g items)) =
    Some (\<lambda>k. case map_of (map (\<lambda>p. (fst p, h p)) items) k of None \<Rightarrow> f k | Some s \<Rightarrow> s)"
  using assms
proof (induction items arbitrary: f)
  case (Cons p items)
  have "replay f (g p) = Some (f(fst p := h p))" using Cons.prems by (intro chain_replay) simp
  moreover have "replay (f(fst p := h p)) (concat (map g items)) =
      Some (\<lambda>k. case map_of (map (\<lambda>p. (fst p, h p)) items) k of None \<Rightarrow> (f(fst p := h p)) k | Some s \<Rightarrow> s)"
    using Cons.prems by (intro Cons.IH) (auto simp: image_iff)
  moreover have "fst p \<notin> fst ` set items" using Cons.prems by simp
  then have "map_of (map (\<lambda>p. (fst p, h p)) items) (fst p) = None"
    by (auto simp: map_of_eq_None_iff image_iff)
  ultimately show ?case by (auto simp: replay_append fun_eq_iff split: option.splits)
qed simp

text \<open>The contract of every step of the tracker.\<close>

definition tracker_step :: "tracker \<Rightarrow> transition list \<times> tracker \<Rightarrow> bool" where
  "tracker_step t r \<longleftrightarrow> tracker_inv (snd r) \<and> t_cfg (snd r) = t_cfg t \<and> edges_ok (fst r) \<and>
     replay (state_of t) (fst r) = Some (state_of (snd r))"

lemma tracker_step_refl: "tracker_inv t \<Longrightarrow> tracker_step t ([], t)"
  by (simp add: tracker_step_def)

lemma tracker_step_trans:
  "tracker_step t (xs, u) \<Longrightarrow> tracker_step u (ys, v) \<Longrightarrow> tracker_step t (xs @ ys, v)"
  by (simp add: tracker_step_def replay_append)

lemma edges_ok_concat: "(\<And>p. p \<in> set ps \<Longrightarrow> edges_ok (g p)) \<Longrightarrow> edges_ok (concat (map g ps))"
  by (induction ps) simp_all

lemma map_of_map_snd: "map_of (map (\<lambda>p. (fst p, f (snd p))) xs) k = map_option f (map_of xs k)"
  by (induction xs) auto

lemma state_of_tracked: "tracked t k = Some e \<Longrightarrow> state_of t k = he_state e"
  by (simp add: state_of_def)

lemma tracked_advance:
  assumes inv: "tracker_inv t" and late: "\<not> now < t_window t + h_Window (t_cfg t)"
  shows "tracked (snd (advanceLocked a t now)) k = map_option
     (\<lambda>e. snd (advance_one a (t_cfg t) (max 1 (time_sub now (t_window t) sdiv h_Window (t_cfg t)))
            (t_window t + h_Window (t_cfg t)) e)) (tracked t k)"
proof (cases "map_of (t_items t) k")
  case (Some i)
  then have "i < length (t_admissionRing t)" using inv_index [OF inv] by auto
  with Some late show ?thesis by (simp add: advanceLocked_spec [OF inv] Let_def tracked_def)
qed (use late in \<open>simp add: advanceLocked_spec [OF inv] Let_def tracked_def\<close>)

lemma advance_step:
  assumes inv: "tracker_inv t"
  shows "tracker_step t (advanceLocked a t now)"
proof (cases "now < t_window t + h_Window (t_cfg t)")
  case True
  with inv show ?thesis by (simp add: advanceLocked_def tracker_step_refl)
next
  case late: False
  define adv where "adv = advance_one a (t_cfg t) (max 1 (time_sub now (t_window t) sdiv h_Window (t_cfg t)))
            (t_window t + h_Window (t_cfg t))"
  let ?r = "t_admissionRing t"
  define g where "g p = fst (adv (?r ! snd p))" for p :: "bytes \<times> nat"
  define h where "h p = he_state (snd (adv (?r ! snd p)))" for p :: "bytes \<times> nat"
  have mc: "0 < h_MinimumHotWindows (t_cfg t)" using inv by (simp add: tracker_inv_def config_ok_def)
  have "chain (fst p) (state_of t (fst p)) (g p) (h p)" if "p \<in> set (t_items t)" for p
  proof -
    have dict: "dict (t_items t)" using inv by (simp add: tracker_inv_def)
    with that have m: "map_of (t_items t) (fst p) = Some (snd p)" by simp
    then have i: "snd p < length ?r" and k: "fst p = he_key (?r ! snd p)" using inv_index [OF inv] by auto
    have ok: "hot_entry_ok (?r ! snd p)" using inv i by (simp add: tracker_inv_def)
    have "state_of t (fst p) = he_state (?r ! snd p)" using m by (simp add: state_of_def tracked_def)
    with advance_one_ok(3) [OF ok mc] k show ?thesis by (simp add: g_def h_def adv_def)
  qed
  then have "replay (state_of t) (concat (map g (t_items t))) =
    Some (\<lambda>k. case map_of (map (\<lambda>p. (fst p, h p)) (t_items t)) k of None \<Rightarrow> state_of t k | Some s \<Rightarrow> s)"
    using inv by (intro replay_concat) (simp_all add: tracker_inv_def)
  also have "(\<lambda>k. case map_of (map (\<lambda>p. (fst p, h p)) (t_items t)) k of None \<Rightarrow> state_of t k | Some s \<Rightarrow> s) =
      state_of (snd (advanceLocked a t now))"
  proof
    fix k
    have "map_of (map (\<lambda>p. (fst p, h p)) (t_items t)) k =
        map_option (\<lambda>i. he_state (snd (adv (?r ! i)))) (map_of (t_items t) k)"
      by (simp add: h_def map_of_map_snd [of "\<lambda>i. he_state (snd (adv (?r ! i)))"])
    then show "(case map_of (map (\<lambda>p. (fst p, h p)) (t_items t)) k of None \<Rightarrow> state_of t k | Some s \<Rightarrow> s) =
        state_of (snd (advanceLocked a t now)) k"
      using tracked_advance [OF inv late, of a k]
      by (cases "map_of (t_items t) k") (simp_all add: state_of_def tracked_def [of t] adv_def)
  qed
  finally have "replay (state_of t) (concat (map g (t_items t))) = Some (state_of (snd (advanceLocked a t now)))" .
  moreover have "fst (advanceLocked a t now) = concat (map g (t_items t))"
    using late by (simp add: advanceLocked_spec [OF inv] Let_def g_def [abs_def] adv_def)
  moreover have "t_cfg (snd (advanceLocked a t now)) = t_cfg t"
    using late by (simp add: advanceLocked_spec [OF inv] Let_def)
  moreover have "edges_ok (concat (map g (t_items t)))"
  proof (rule edges_ok_concat)
    fix p assume "p \<in> set (t_items t)"
    then have "snd p < length ?r" using inv_indices(2) [OF inv] by (metis imageI lessThan_iff)
    then have "hot_entry_ok (?r ! snd p)" using inv by (simp add: tracker_inv_def)
    then show "edges_ok (g p)" unfolding g_def adv_def by (rule advance_one_ok(4) [OF _ mc])
  qed
  ultimately show ?thesis using advance_inv [OF inv] by (simp add: tracker_step_def)
qed

section \<open>Single-entry updates\<close>

lemma tracked_update:
  assumes "tracker_inv t" "i < length (t_admissionRing t)" "he_key e = he_key (t_admissionRing t ! i)"
    "t_items u = t_items t" "t_admissionRing u = (t_admissionRing t)[i := e]"
  shows "tracked u = (tracked t)(he_key e \<mapsto> e)"
proof
  fix k
  show "tracked u k = ((tracked t)(he_key e \<mapsto> e)) k"
  proof (cases "map_of (t_items t) k")
    case None
    moreover have "map_of (t_items t) (he_key e) = Some i" using assms inv_index by metis
    ultimately show ?thesis using assms by (auto simp: tracked_def)
  next
    case (Some j)
    then have "j = i \<longleftrightarrow> k = he_key e"
      using assms inv_index [OF assms(1)] by (metis option.inject)
    with Some assms(2,4,5) show ?thesis by (auto simp: tracked_def nth_list_update)
  qed
qed

lemma state_of_update:
  assumes "tracked u = (tracked t)(k \<mapsto> e)"
  shows "state_of u = (state_of t)(k := he_state e)"
  using assms by (auto simp: state_of_def fun_eq_iff)

lemma tracked_nth:
  "tracker_inv t \<Longrightarrow> i < length (t_admissionRing t) \<Longrightarrow>
   tracked t (he_key (t_admissionRing t ! i)) = Some (t_admissionRing t ! i)"
  using tracked_Some by simp

text \<open>Writing an entry back with a new state logs exactly that state change.\<close>

lemma entry_update_step:
  assumes inv: "tracker_inv t" and i: "i < length (t_admissionRing t)"
    and e: "he_key e = he_key (t_admissionRing t ! i)" "hot_entry_ok e"
    and edge: "he_state (t_admissionRing t ! i) = he_state e \<or> window_edge (he_state (t_admissionRing t ! i)) (he_state e)"
  shows "tracker_step t (state_change (he_key e) (he_state (t_admissionRing t ! i)) (he_state e),
    t\<lparr>t_admissionRing := (t_admissionRing t)[i := e],
      t_hot := adjustHotCount (t_hot t) (he_state (t_admissionRing t ! i)) (he_state e)\<rparr>)"
    (is "tracker_step t (?trs, ?u)")
proof -
  have "tracked ?u = (tracked t)(he_key e \<mapsto> e)" using inv i e by (intro tracked_update) simp_all
  then have "state_of ?u = (state_of t)(he_key e := he_state e)" by (rule state_of_update)
  moreover have "state_of t (he_key e) = he_state (t_admissionRing t ! i)"
    using tracked_nth [OF inv i] e by (simp add: state_of_def)
  then have "chain (he_key e) (state_of t (he_key e)) ?trs (he_state e)" by simp
  then have "replay (state_of t) ?trs = Some ((state_of t)(he_key e := he_state e))" by (rule chain_replay)
  ultimately show ?thesis using inv_update_entry [OF inv i e] edge by (simp add: tracker_step_def)
qed

lemma entry_touch_step:
  assumes inv: "tracker_inv t" and i: "i < length (t_admissionRing t)"
    and e: "he_key e = he_key (t_admissionRing t ! i)" "he_state e = he_state (t_admissionRing t ! i)"
      "hot_entry_ok e"
  shows "tracker_step t ([], t\<lparr>t_admissionRing := (t_admissionRing t)[i := e]\<rparr>)"
  using entry_update_step [OF inv i e(1,3)] e(2) by (simp add: state_change_def adjustHotCount_def)

lemma getOrCreate_step:
  assumes inv: "tracker_inv t" and key: "key \<noteq> []" "length key \<le> MaxTrackedKeyBytes"
    and g: "getOrCreateLocked t key now = (r, tr, t')"
  shows "tracker_step t (case tr of None \<Rightarrow> [] | Some tr \<Rightarrow> [tr], t')"
proof -
  have inv': "tracker_inv t'" by (rule getOrCreate_inv(1) [OF inv key g])
  have "t_cfg t' = t_cfg t \<and> edges_ok (case tr of None \<Rightarrow> [] | Some tr \<Rightarrow> [tr]) \<and> replay (state_of t) (case tr of None \<Rightarrow> [] | Some tr \<Rightarrow> [tr]) = Some (state_of t')"
  proof (rule getOrCreate_cases [OF inv, of key now], goal_cases)
    case (1 j)
    with g show ?case by simp
  next
    case (2 u)
    have "j < length (t_admissionRing t)" if "map_of (t_items t) k = Some j" for j k
      using that inv_index [OF inv] by simp
    then have "tracked u k = (if k = key then Some (fresh_entry key now) else tracked t k)" for k
      by (cases "map_of (t_items t) k") (simp_all add: 2(4) tracked_def nth_append)
    then have "state_of u = state_of t" using 2(1) by (auto simp: state_of_def tracked_def)
    with g 2 show ?case by auto
  next
    case (3 u)
    have "state_of u = state_of t" by (simp add: 3(5) fun_eq_iff state_of_def tracked_def)
    with g 3 show ?case by auto
  next
    case (4 v victim u)
    have v: "v < length (t_admissionRing t)" using 4 victim_in_range [OF inv] by simp
    have vk: "map_of (t_items t) (he_key victim) = Some v" using inv_index [OF inv] v 4(4) by simp
    have "tracked u k = (if k = key then Some (fresh_entry key now) else if k = he_key victim then None else tracked t k)" for k
    proof (cases "k = key \<or> k = he_key victim")
      case False
      then have "map_of (t_items t) k \<noteq> Some v" using inv_index [OF inv, of k v] 4(4) by auto
      with False show ?thesis
        by (cases "map_of (t_items t) k") (auto simp: 4(7) tracked_def)
    qed (use v in \<open>auto simp: 4(7) tracked_def\<close>)
    moreover have "tracked t key = None" "tracked t (he_key victim) = Some victim"
      using 4(1,4) vk by (simp_all add: tracked_def)
    ultimately have "state_of u = (state_of t)(he_key victim := StateCold)" "state_of t (he_key victim) = he_state victim"
      by (auto simp: state_of_def)
    moreover have "he_state victim \<noteq> StateUnset"
      using inv v 4(4) by (simp add: tracker_inv_def hot_entry_ok_def)
    then have "he_state victim = StateCold \<or> window_edge (he_state victim) StateCold"
      using 4(5) by (cases "he_state victim") (simp_all add: window_edge_def)
    ultimately show ?case using g 4(6,7) by (auto simp: fun_eq_iff)
  qed
  with inv' show ?thesis by (simp add: tracker_step_def)
qed

lemma commit_step:
  assumes inv: "tracker_inv t" and i: "i < length (t_admissionRing t)"
  shows "tracker_step t (commitGuaranteedPromotionLocked a t i)"
proof -
  define ent where "ent = t_admissionRing t ! i"
  define ent' where "ent' = ent\<lparr>he_state := StateHot, he_hotWindows := he_hotWindows ent + 1\<rparr>"
  have ok: "hot_entry_ok ent" using inv i by (simp add: ent_def tracker_inv_def)
  have "tracker_step t (state_change (he_key ent') (he_state ent) StateHot,
    t\<lparr>t_admissionRing := (t_admissionRing t)[i := ent'],
      t_hot := adjustHotCount (t_hot t) (he_state ent) StateHot\<rparr>)"
    if "he_state ent = StateWarm"
    using entry_update_step [OF inv i, of ent'] ok that
    by (simp add: ent'_def ent_def hot_entry_ok_def window_edge_def)
  then show ?thesis
    using tracker_step_refl [OF inv]
    by (cases "he_state ent = StateWarm")
      (simp_all add: commitGuaranteedPromotionLocked_def Let_def ent'_def ent_def state_change_def)
qed

text \<open>Only the drop counter distinguishes an oversized observation from an advance.\<close>

lemma oversized_step:
  "tracker_inv t \<Longrightarrow> tracker_step t ([], t\<lparr>t_oversizedObservationsDropped := n\<rparr>)"
  by (simp add: tracker_step_def tracker_inv_def fun_eq_iff state_of_def tracked_def)

section \<open>The exported operations\<close>

lemma tracker_stepD: "tracker_step t r \<Longrightarrow> tracker_inv (snd r)"
  by (simp add: tracker_step_def)

definition observed :: "observation \<times> tracker \<Rightarrow> transition list \<times> tracker" where
  "observed r = (o_Transitions (fst r), snd r)"

lemma Observe_step:
  assumes inv: "tracker_inv t"
  shows "tracker_step t (observed (ObserveWithState a t now key))"
proof -
  obtain trs u where adv: "advanceLocked a t now = (trs, u)" by (cases "advanceLocked a t now")
  have s: "tracker_step t (trs, u)" using advance_step [OF inv, of a now] adv by simp
  then have u: "tracker_inv u" by (simp add: tracker_step_def)
  show ?thesis
  proof (cases "key = [] \<or> length key > MaxTrackedKeyBytes")
    case True
    with adv s tracker_step_trans [OF s oversized_step [OF u]] show ?thesis
      by (auto simp: ObserveWithState_def observed_def Let_def)
  next
    case False
    then have key: "key \<noteq> []" "length key \<le> MaxTrackedKeyBytes" by auto
    obtain r tr v where g: "getOrCreateLocked u key now = (r, tr, v)" by (cases "getOrCreateLocked u key now")
    let ?ev = "case tr of None \<Rightarrow> [] | Some tr \<Rightarrow> [tr]"
    have s2: "tracker_step t (trs @ ?ev, v)"
      using tracker_step_trans [OF s getOrCreate_step [OF u key g]] .
    have v: "tracker_inv v" by (rule getOrCreate_inv(1) [OF u key g])
    show ?thesis
    proof (cases r)
      case None
      have "tr = None"
        by (rule getOrCreate_cases [OF u, of key now]) (use g None in auto)
      with None False adv g s2 show ?thesis by (simp add: ObserveWithState_def observed_def)
    next
      case (Some i)
      have i: "i < length (t_admissionRing v)" using getOrCreate_inv(2) [OF u key g Some] by simp
      let ?e = "(t_admissionRing v ! i)\<lparr>he_count := he_count (t_admissionRing v ! i) + 1, he_lastSeen := now\<rparr>"
      let ?w = "v\<lparr>t_admissionRing := (t_admissionRing v)[i := ?e]\<rparr>"
      have "hot_entry_ok (t_admissionRing v ! i)" using v i by (simp add: tracker_inv_def)
      then have s3: "tracker_step v ([], ?w)"
        by (intro entry_touch_step [OF v i]) (simp_all add: hot_entry_ok_def)
      obtain pr x where c: "commitGuaranteedPromotionLocked a ?w i = (pr, x)"
        by (cases "commitGuaranteedPromotionLocked a ?w i")
      have "tracker_step ?w (pr, x)"
        using commit_step [of ?w i a] tracker_stepD [OF s3] i c by simp
      then have "tracker_step t ((trs @ ?ev) @ pr, x)"
        using tracker_step_trans [OF tracker_step_trans [OF s2 s3]] by simp
      with Some False adv g c show ?thesis by (simp add: ObserveWithState_def observed_def Let_def)
    qed
  qed
qed

lemma Admit_step:
  assumes inv: "tracker_inv t"
  shows "tracker_step t (observed (Admit a t now key))"
proof -
  obtain trs u where adv: "advanceLocked a t now = (trs, u)" by (cases "advanceLocked a t now")
  have s: "tracker_step t (trs, u)" using advance_step [OF inv, of a now] adv by simp
  then have u: "tracker_inv u" by (simp add: tracker_step_def)
  show ?thesis
  proof (cases "map_of (t_items u) key")
    case None
    with adv s show ?thesis by (simp add: Admit_def observed_def)
  next
    case (Some i)
    then have i: "i < length (t_admissionRing u)" using inv_index [OF u] by simp
    let ?e = "(t_admissionRing u ! i)\<lparr>he_state := StateHot, he_hotWindows := 0, he_coolingAt := 0\<rparr>"
    have "hot_entry_ok (t_admissionRing u ! i)" using u i by (simp add: tracker_inv_def)
    then have "hot_entry_ok ?e" by (simp add: hot_entry_ok_def)
    moreover have "he_state (t_admissionRing u ! i) = StateHot \<or> window_edge (he_state (t_admissionRing u ! i)) StateHot"
      using \<open>hot_entry_ok (t_admissionRing u ! i)\<close>
      by (cases "he_state (t_admissionRing u ! i)") (simp_all add: window_edge_def hot_entry_ok_def)
    ultimately
    have "tracker_step u (state_change (he_key ?e) (he_state (t_admissionRing u ! i)) StateHot,
       u\<lparr>t_admissionRing := (t_admissionRing u)[i := ?e],
         t_hot := adjustHotCount (t_hot u) (he_state (t_admissionRing u ! i)) StateHot\<rparr>)"
      using entry_update_step [OF u i, of ?e] by simp
    from tracker_step_trans [OF s this] s Some adv show ?thesis
      by (cases "he_state (t_admissionRing u ! i) = StateHot")
        (simp_all add: Admit_def observed_def Let_def state_change_def)
  qed
qed

lemma New_tracker_inv: "tracker_inv (New_tracker cfg now)"
  by (simp add: New_tracker_def tracker_inv_def config_ok_def Let_def second_def ring_index_def)

end
