(* ===== verification/GoHeap.thy ===== *)
theory GoHeap
  imports Prelude "HOL-Library.Multiset"
begin

text \<open>
  \<^verbatim>\<open>container/heap\<close> of the Go standard library on a slice, for a \<^verbatim>\<open>Less\<close> that compares elements:
  \<open>heap_up\<close>, \<open>heap_down\<close>, \<open>heap_Push\<close> and \<open>heap_Fix\<close>. The locale \<open>ranked_heap\<close> is the
  contract of a \<^verbatim>\<open>Less\<close> that is the strict order of some rank; in it the operations keep the heap
  order and the multiset, and the first element has the largest rank.
\<close>

section \<open>Operations\<close>

definition swap :: "'a list \<Rightarrow> nat \<Rightarrow> nat \<Rightarrow> 'a list" where
  "swap h i j = h[i := h ! j, j := h ! i]"

function heap_up :: "('a \<Rightarrow> 'a \<Rightarrow> bool) \<Rightarrow> 'a list \<Rightarrow> nat \<Rightarrow> 'a list" where
  "heap_up lt h j =
     (let i = (j - 1) div 2
      in if i = j \<or> \<not> lt (h ! j) (h ! i) then h else heap_up lt (swap h i j) i)"
  by pat_completeness auto
termination
  by (relation "measure (\<lambda>(lt, h, j). j)") auto

text \<open>The result carries the final position: \<^verbatim>\<open>down\<close> reports whether it is beyond the first.\<close>

definition pick_child :: "('a \<Rightarrow> 'a \<Rightarrow> bool) \<Rightarrow> 'a list \<Rightarrow> nat \<Rightarrow> nat \<Rightarrow> nat" where
  "pick_child lt h j1 n = (let j2 = j1 + 1 in if j2 < n \<and> lt (h ! j2) (h ! j1) then j2 else j1)"

lemma pick_child_cases: "pick_child lt h j1 n = j1 \<or> pick_child lt h j1 n = Suc j1 \<and> Suc j1 < n"
  by (simp add: pick_child_def Let_def)

function heap_down :: "('a \<Rightarrow> 'a \<Rightarrow> bool) \<Rightarrow> 'a list \<Rightarrow> nat \<Rightarrow> nat \<Rightarrow> 'a list \<times> nat" where
  "heap_down lt h i n =
     (let j1 = 2 * i + 1
      in if j1 \<ge> n then (h, i)
         else
           let j = pick_child lt h j1 n
           in if \<not> lt (h ! j) (h ! i) then (h, i) else heap_down lt (swap h i j) j n)"
  by pat_completeness auto
termination
proof (relation "measure (\<lambda>(lt, h, i, n). n - i)", goal_cases)
  case (2 lt h i n x xa)
  then show ?case using pick_child_cases [of lt h "2 * i + 1" n] by auto
qed simp

declare heap_up.simps [simp del] heap_down.simps [simp del]

definition heap_Push :: "('a \<Rightarrow> 'a \<Rightarrow> bool) \<Rightarrow> 'a list \<Rightarrow> 'a \<Rightarrow> 'a list" where
  "heap_Push lt h x = heap_up lt (h @ [x]) (length (h @ [x]) - 1)"

definition heap_Fix :: "('a \<Rightarrow> 'a \<Rightarrow> bool) \<Rightarrow> 'a list \<Rightarrow> nat \<Rightarrow> 'a list" where
  "heap_Fix lt h i =
     (case heap_down lt h i (length h) of (h, i') \<Rightarrow> if \<not> i' > i then heap_up lt h i else h)"

section \<open>Permutation\<close>

lemma length_swap [simp]: "length (swap h i j) = length h"
  by (simp add: swap_def)

lemma mset_swap_heap [simp]: "i < length h \<Longrightarrow> j < length h \<Longrightarrow> mset (swap h i j) = mset h"
  unfolding swap_def by (rule mset_swap)

lemma nth_swap:
  "i < length h \<Longrightarrow> j < length h \<Longrightarrow>
   swap h i j ! k = (if k = j then h ! i else if k = i then h ! j else h ! k)"
  by (auto simp: swap_def nth_list_update)

lemma heap_up_perm: "j < length h \<Longrightarrow> mset (heap_up lt h j) = mset h \<and> length (heap_up lt h j) = length h"
proof (induction lt h j rule: heap_up.induct)
  case (1 lt h j)
  have "(j - 1) div 2 < length h" using "1.prems" by auto
  with 1 show ?case by (subst (1 2) heap_up.simps) (simp add: Let_def)
qed

lemma heap_down_perm:
  "i < length h \<Longrightarrow> n \<le> length h \<Longrightarrow>
   mset (fst (heap_down lt h i n)) = mset h \<and> length (fst (heap_down lt h i n)) = length h"
proof (induction lt h i n rule: heap_down.induct)
  case (1 lt h i n)
  let ?j1 = "2 * i + 1"
  let ?j = "pick_child lt h ?j1 n"
  show ?case
  proof (cases "?j1 \<ge> n \<or> \<not> lt (h ! ?j) (h ! i)")
    case True
    then have "heap_down lt h i n = (h, i)" by (subst heap_down.simps) (auto simp: Let_def)
    then show ?thesis by simp
  next
    case False
    then have j: "?j < length h" using "1.prems" pick_child_cases [of lt h ?j1 n] by auto
    have "heap_down lt h i n = heap_down lt (swap h i ?j) ?j n"
      using False by (subst heap_down.simps) (simp add: Let_def)
    moreover have "mset (fst (heap_down lt (swap h i ?j) ?j n)) = mset (swap h i ?j) \<and>
        length (fst (heap_down lt (swap h i ?j) ?j n)) = length (swap h i ?j)"
      using False j "1.prems" by (intro "1.IH" [OF refl _ refl]) simp_all
    ultimately show ?thesis using j "1.prems" by simp
  qed
qed

section \<open>Heap order\<close>

locale ranked_heap =
  fixes lt :: "'a \<Rightarrow> 'a \<Rightarrow> bool" and f :: "'a \<Rightarrow> 'b::linorder"
  assumes lt_iff: "lt x y \<longleftrightarrow> f y < f x"
begin

definition ordered_at :: "'a list \<Rightarrow> nat \<Rightarrow> bool" where
  "ordered_at h c \<longleftrightarrow> f (h ! c) \<le> f (h ! ((c - 1) div 2))"

definition is_heap :: "'a list \<Rightarrow> bool" where
  "is_heap h \<longleftrightarrow> (\<forall>c. 0 < c \<and> c < length h \<longrightarrow> ordered_at h c)"

lemma heap_root:
  assumes "is_heap h" "c < length h" shows "f (h ! c) \<le> f (h ! 0)"
  using assms(2)
proof (induction c rule: less_induct)
  case (less c)
  show ?case
  proof (cases "c = 0")
    case False
    then have "f (h ! c) \<le> f (h ! ((c - 1) div 2))"
      using assms(1) less.prems by (simp add: is_heap_def ordered_at_def)
    also have "\<dots> \<le> f (h ! 0)" using False less.prems by (intro less.IH) auto
    finally show ?thesis .
  qed simp
qed

lemma is_heap_up:
  assumes "j < length h" "\<And>c. 0 < c \<Longrightarrow> c < length h \<Longrightarrow> c \<noteq> j \<Longrightarrow> ordered_at h c"
    "\<And>c. 0 < c \<Longrightarrow> c < length h \<Longrightarrow> (c - 1) div 2 = j \<Longrightarrow> 0 < j \<Longrightarrow> f (h ! c) \<le> f (h ! ((j - 1) div 2))"
  shows "is_heap (heap_up lt h j)"
  using assms
proof (induction j arbitrary: h rule: less_induct)
  case (less j)
  let ?i = "(j - 1) div 2"
  show ?case
  proof (cases "?i = j \<or> \<not> lt (h ! j) (h ! ?i)")
    case True
    then have "ordered_at h j" unfolding ordered_at_def lt_iff by (metis linorder_le_less_linear order_refl)
    then have "is_heap h" using less.prems(2) by (auto simp: is_heap_def)
    with True show ?thesis by (subst heap_up.simps) (simp add: Let_def)
  next
    case False
    then have ij: "?i < j" "0 < j" by (cases j; force)+
    let ?h = "swap h ?i j"
    have n: "?h ! k = (if k = j then h ! ?i else if k = ?i then h ! j else h ! k)" for k
      using ij less.prems(1) by (simp add: nth_swap)
    note n = n [unfolded One_nat_def]
    have gt: "f (h ! ?i) < f (h ! j)" using False by (simp add: lt_iff)
    have le: "f (h ! c) \<le> f (h ! ((c - 1) div 2))" if "0 < c" "c < length h" "c \<noteq> j" for c
      using less.prems(2) [OF that] by (simp add: ordered_at_def)
    have "is_heap (heap_up lt ?h ?i)"
    proof (rule less.IH [OF ij(1)])
      show "?i < length ?h" using ij less.prems(1) by simp
      show "ordered_at ?h c" if c: "0 < c" "c < length ?h" "c \<noteq> ?i" for c
      proof (cases "c = j")
        case True
        with gt ij show ?thesis by (simp add: ordered_at_def n)
      next
        case cj: False
        show ?thesis
        proof (cases "(c - 1) div 2 = j")
          case True
          with c cj less.prems(3) [of c] ij show ?thesis by (simp add: ordered_at_def n)
        next
          case pj: False
          from le [of c] c cj have *: "f (h ! c) \<le> f (h ! ((c - 1) div 2))" by simp
          show ?thesis
          proof (cases "(c - 1) div 2 = ?i")
            case True
            with * gt have "f (h ! c) \<le> f (h ! j)" by simp
            with True pj cj c show ?thesis by (simp add: ordered_at_def n)
          qed (use * pj cj c in \<open>simp add: ordered_at_def n\<close>)
        qed
      qed
      show "f (?h ! c) \<le> f (?h ! ((?i - 1) div 2))"
        if c: "0 < c" "c < length ?h" "(c - 1) div 2 = ?i" "0 < ?i" for c
      proof -
        have pi: "(?i - 1) div 2 \<noteq> ?i" "(?i - 1) div 2 \<noteq> j" using c(4) ij by linarith+
        have base: "f (h ! ?i) \<le> f (h ! ((?i - 1) div 2))" using le [of ?i] ij c(4) less.prems(1) by simp
        have "c \<noteq> ?i" using c by linarith
        show ?thesis
        proof (cases "c = j")
          case True
          with base pi show ?thesis by (simp add: n)
        next
          case False
          have "f (h ! c) \<le> f (h ! ?i)" using le [of c] c False by simp
          with base pi False \<open>c \<noteq> ?i\<close> show ?thesis by (simp add: n)
        qed
      qed
    qed
    with False show ?thesis by (subst heap_up.simps) (simp add: Let_def)
  qed
qed

lemma is_heap_Push: "is_heap h \<Longrightarrow> is_heap (heap_Push lt h x)"
  unfolding heap_Push_def
proof (rule is_heap_up)
  assume h: "is_heap h"
  show "length (h @ [x]) - 1 < length (h @ [x])" by simp
  show "ordered_at (h @ [x]) c" if "0 < c" "c < length (h @ [x])" "c \<noteq> length (h @ [x]) - 1" for c
  proof -
    from that have "c < length h" "(c - 1) div 2 < length h" by auto
    with h that(1) show ?thesis by (simp add: is_heap_def ordered_at_def nth_append)
  qed
  show "f ((h @ [x]) ! c) \<le> f ((h @ [x]) ! ((length (h @ [x]) - 1 - 1) div 2))"
    if "0 < c" "c < length (h @ [x])" "(c - 1) div 2 = length (h @ [x]) - 1" for c
    using that by auto
qed

lemma is_heap_down:
  assumes "i < length h" "\<And>c. 0 < c \<Longrightarrow> c < length h \<Longrightarrow> (c - 1) div 2 \<noteq> i \<Longrightarrow> ordered_at h c"
    "\<And>c. 0 < c \<Longrightarrow> c < length h \<Longrightarrow> (c - 1) div 2 = i \<Longrightarrow> 0 < i \<Longrightarrow> f (h ! c) \<le> f (h ! ((i - 1) div 2))"
  shows "is_heap (fst (heap_down lt h i (length h)))"
  using assms
proof (induction "length h - i" arbitrary: h i rule: less_induct)
  case less
  let ?j1 = "2 * i + 1" and ?n = "length h"
  let ?j = "pick_child lt h ?j1 ?n"
  have child: "c = ?j1 \<or> c = Suc ?j1" if "(c - 1) div 2 = i" "0 < c" for c using that by linarith
  show ?case
  proof (cases "?j1 \<ge> ?n")
    case True
    then have "is_heap h" using less.prems(2) unfolding is_heap_def by (metis child le_SucI not_less)
    with True show ?thesis by (subst heap_down.simps) simp
  next
    case in_range: False
    have max: "f (h ! c) \<le> f (h ! ?j)" if "(c - 1) div 2 = i" "0 < c" "c < ?n" for c
      using child [OF that(1,2)] that(3) by (auto simp: pick_child_def Let_def lt_iff)
    have j: "?j < ?n" "i < ?j" "0 < ?j" "(?j - 1) div 2 = i"
      using pick_child_cases [of lt h ?j1 ?n] in_range by auto
    show ?thesis
    proof (cases "lt (h ! ?j) (h ! i)")
      case False
      then have "f (h ! ?j) \<le> f (h ! i)" by (simp add: lt_iff)
      with max have "ordered_at h c" if "(c - 1) div 2 = i" "0 < c" "c < ?n" for c
        using that unfolding ordered_at_def by (metis order_trans)
      then have "is_heap h" using less.prems(2) unfolding is_heap_def by blast
      moreover have "heap_down lt h i ?n = (h, i)" using in_range False by (subst heap_down.simps) (simp add: Let_def)
      ultimately show ?thesis by simp
    next
      case True
      let ?h = "swap h i ?j"
      have n: "?h ! k = (if k = ?j then h ! i else if k = i then h ! ?j else h ! k)" for k
        using j less.prems(1) by (simp add: nth_swap)
      note n = n [unfolded One_nat_def add_Suc_right add_0_right]
      have gt: "f (h ! i) < f (h ! ?j)" using True by (simp add: lt_iff)
      have "is_heap (fst (heap_down lt ?h ?j (length ?h)))"
      proof (rule less.hyps)
        show "length ?h - ?j < length h - i" using j by simp
        show "?j < length ?h" using j by simp
        show "ordered_at ?h c" if c: "0 < c" "c < length ?h" "(c - 1) div 2 \<noteq> ?j" for c
        proof (cases "(c - 1) div 2 = i")
          case True
          then have "c \<noteq> i" using c(1) by linarith
          with True max [of c] c less_imp_le [OF gt] j show ?thesis by (simp add: ordered_at_def n)
        next
          case False
          then have "c \<noteq> ?j" using j(4) by metis
          have le: "f (h ! c) \<le> f (h ! ((c - 1) div 2))"
            using less.prems(2) [of c] False c by (simp add: ordered_at_def)
          show ?thesis
          proof (cases "c = i")
            case ci: True
            have "f (h ! ?j) \<le> f (h ! ((i - 1) div 2))" using less.prems(3) [of ?j] j ci c by simp
            with ci \<open>c \<noteq> ?j\<close> False c(3) show ?thesis by (simp add: ordered_at_def n)
          qed (use le \<open>c \<noteq> ?j\<close> False c(3) in \<open>simp add: ordered_at_def n\<close>)
        qed
        show "f (?h ! c) \<le> f (?h ! ((?j - 1) div 2))"
          if c: "0 < c" "c < length ?h" "(c - 1) div 2 = ?j" for c
        proof -
          have "c \<noteq> ?j" "c \<noteq> i" using c(1,3) j(2) by linarith+
          moreover have "ordered_at h c" using less.prems(2) [of c] c j by simp
          ultimately show ?thesis using j c by (simp add: n ordered_at_def)
        qed
      qed
      moreover have "heap_down lt h i ?n = heap_down lt ?h ?j ?n"
        using in_range True by (subst heap_down.simps) (simp add: Let_def)
      ultimately show ?thesis by simp
    qed
  qed
qed

text \<open>Replacing the root and fixing it, the way the bounded selection uses the heap.\<close>

lemma Fix_root:
  assumes h: "is_heap h" "h \<noteq> []"
  shows "is_heap (heap_Fix lt (h[0 := x]) 0)"
    and "mset (heap_Fix lt (h[0 := x]) 0) = mset (h[0 := x])"
    and "length (heap_Fix lt (h[0 := x]) 0) = length h"
proof -
  let ?h = "h[0 := x]"
  obtain d i where d: "heap_down lt ?h 0 (length ?h) = (d, i)" by (cases "heap_down lt ?h 0 (length ?h)")
  have up: "heap_up lt d 0 = d" by (subst heap_up.simps) simp
  have "is_heap (fst (heap_down lt ?h 0 (length ?h)))"
  proof (rule is_heap_down)
    show "ordered_at ?h c" if "0 < c" "c < length ?h" "(c - 1) div 2 \<noteq> 0" for c
      using h that by (simp add: is_heap_def ordered_at_def)
  qed (use h in simp_all)
  moreover have "mset (fst (heap_down lt ?h 0 (length ?h))) = mset ?h \<and>
      length (fst (heap_down lt ?h 0 (length ?h))) = length ?h"
    using h by (intro heap_down_perm) simp_all
  ultimately show "is_heap (heap_Fix lt ?h 0)" "mset (heap_Fix lt ?h 0) = mset ?h" "length (heap_Fix lt ?h 0) = length h"
    using d up by (simp_all add: heap_Fix_def)
qed

end

lemma heap_Push_perm: "mset (heap_Push lt h x) = add_mset x (mset h)" "length (heap_Push lt h x) = Suc (length h)"
  using heap_up_perm [of "length (h @ [x]) - 1" "h @ [x]" lt] by (simp_all add: heap_Push_def)

end
