(* ===== verification/Scorer.thy ===== *)
theory Scorer
  imports
    HotnessInv
    GoHeap
    "HOL-Library.Char_ord"
    "HOL-Library.List_Lexorder"
    "HOL-Library.Product_Lexorder"
begin

text \<open>
  The snapshot ranking of \<^verbatim>\<open>internal/hotness/scorer.go\<close>: the bounded heap selection of
  \<^verbatim>\<open>topSnapshots\<close> and the tracker queries built on it. \<^verbatim>\<open>sort.Slice\<close> is insertion sort by the
  same comparison: the compared snapshots have distinct keys, so the sorted slice is unique.
\<close>

section \<open>Model\<close>

definition snapshotBetter :: "hsnapshot \<Rightarrow> hsnapshot \<Rightarrow> bool" where
  "snapshotBetter left right =
     (if hs_State left = StateHot \<and> hs_State right \<noteq> StateHot then True
      else if hs_State left \<noteq> StateHot \<and> hs_State right = StateHot then False
      else if hs_Score left = hs_Score right then hs_Key left < hs_Key right
      else hs_Score left > hs_Score right)"

text \<open>\<^verbatim>\<open>worstSnapshotHeap.Less\<close> on the compared elements.\<close>

definition worst_less :: "hsnapshot \<Rightarrow> hsnapshot \<Rightarrow> bool" where
  "worst_less x y = snapshotBetter y x"

fun insert_snapshot :: "hsnapshot \<Rightarrow> hsnapshot list \<Rightarrow> hsnapshot list" where
  "insert_snapshot x [] = [x]"
| "insert_snapshot x (y # ys) = (if snapshotBetter y x then y # insert_snapshot x ys else x # y # ys)"

definition sortSnapshots :: "hsnapshot list \<Rightarrow> hsnapshot list" where
  "sortSnapshots xs = foldr insert_snapshot xs []"

definition select_step :: "int \<Rightarrow> hsnapshot list \<Rightarrow> hsnapshot \<Rightarrow> hsnapshot list" where
  "select_step limit selected snapshot =
     (if int (length selected) < limit then heap_Push worst_less selected snapshot
      else if snapshotBetter snapshot (selected ! 0)
      then heap_Fix worst_less (selected[0 := snapshot]) 0
      else selected)"

definition topSnapshots :: "arith \<Rightarrow> hot_entry list \<Rightarrow> time \<Rightarrow> int \<Rightarrow> hsnapshot list" where
  "topSnapshots a items now limit =
     (if limit \<le> 0 \<or> limit \<ge> int (length items)
      then sortSnapshots (map (\<lambda>e. hot_snapshot a e now) items)
      else sortSnapshots (foldl (\<lambda>selected e. select_step limit selected (hot_snapshot a e now)) [] items))"

record view =
  vw_Transitions :: "transition list"
  vw_Snapshots :: "hsnapshot list"
  vw_Tracked :: int
  vw_Hot :: int
  vw_Evictions :: u64
  vw_CapacityDrops :: u64
  vw_OversizedObservationsDropped :: u64

text \<open>The entries the map ranges over.\<close>

definition item_entries :: "tracker \<Rightarrow> hot_entry list" where
  "item_entries t = map (\<lambda>p. t_admissionRing t ! snd p) (t_items t)"

definition AdvanceAndSnapshot :: "arith \<Rightarrow> tracker \<Rightarrow> time \<Rightarrow> int \<Rightarrow> view \<times> tracker" where
  "AdvanceAndSnapshot a t now limit =
     (let (transitions, t) = advanceLocked a t now
      in (\<lparr>vw_Transitions = transitions, vw_Snapshots = topSnapshots a (item_entries t) now limit,
           vw_Tracked = int (length (t_items t)), vw_Hot = t_hot t, vw_Evictions = t_evictions t,
           vw_CapacityDrops = t_capacityDrops t,
           vw_OversizedObservationsDropped = t_oversizedObservationsDropped t\<rparr>, t))"

definition Snapshots :: "arith \<Rightarrow> tracker \<Rightarrow> time \<Rightarrow> int \<Rightarrow> hsnapshot list" where
  "Snapshots a t now limit = topSnapshots a (item_entries t) now limit"

section \<open>The ranking is a linear order on keys\<close>

definition rank :: "hsnapshot \<Rightarrow> bool \<times> rat \<times> bytes" where
  "rank s = (hs_State s \<noteq> StateHot, - hs_Score s, hs_Key s)"

lemma snapshotBetter_rank: "snapshotBetter x y \<longleftrightarrow> rank x < rank y"
  by (auto simp: snapshotBetter_def rank_def less_prod_def less_eq_prod_def)

interpretation worst: ranked_heap worst_less rank
  by unfold_locales (simp add: worst_less_def snapshotBetter_rank)

lemma insert_snapshot_rank: "insert_snapshot x ys = insort_key rank x ys"
  by (induction ys) (simp_all add: snapshotBetter_rank not_le [symmetric])

lemma sortSnapshots_rank: "sortSnapshots xs = sort_key rank xs"
  by (simp add: sortSnapshots_def sort_key_def insert_snapshot_rank [abs_def] fun_eq_iff)

lemma rank_inj: "distinct (map hs_Key xs) \<Longrightarrow> inj_on rank (set xs)"
  unfolding inj_on_def rank_def by (metis Pair_inject distinct_map inj_onD)

lemma distinct_mapI: "distinct (map f xs) \<Longrightarrow> distinct xs"
  by (simp add: distinct_map)

section \<open>Bounded selection\<close>

lemma take_insort_small:
  fixes f :: "'a \<Rightarrow> 'b::linorder"
  assumes "f x < f (S ! n)" "n < length S"
  shows "take (Suc n) (insort_key f x S) = insort_key f x (take n S)"
  using assms
proof (induction S arbitrary: n)
  case (Cons y S)
  then show ?case by (cases n) auto
qed simp

lemma take_insort_large:
  fixes f :: "'a \<Rightarrow> 'b::linorder"
  assumes "sorted (map f S)" "f (S ! n) < f x" "n < length S"
  shows "take (Suc n) (insort_key f x S) = take (Suc n) S"
  using assms
proof (induction S arbitrary: n)
  case (Cons y S)
  have "f y \<le> f ((y # S) ! n)" using Cons.prems by (cases n) auto
  then have "\<not> f x \<le> f y" using Cons.prems by simp
  with Cons show ?case by (cases n) auto
qed simp

text \<open>Sorting is determined by the multiset when ranks are distinct.\<close>

lemma sort_rank_cong:
  assumes "mset xs = mset ys" "distinct xs" "inj_on rank (set xs)"
  shows "sort_key rank xs = sort_key rank ys"
proof (rule map_sorted_distinct_set_unique)
  have "set xs = set ys" "distinct ys" using assms mset_eq_setD mset_eq_imp_distinct_iff by blast+
  then show "inj_on rank (set (sort_key rank xs) \<union> set (sort_key rank ys))"
    "distinct (map rank (sort_key rank xs))" "distinct (map rank (sort_key rank ys))"
    "set (sort_key rank xs) = set (sort_key rank ys)"
    using assms by (simp_all add: distinct_map)
qed simp_all

text \<open>
  What the selection loop keeps: a heap whose sorted content is the best \<open>limit\<close> of the
  snapshots seen.
\<close>

definition selected_ok :: "int \<Rightarrow> hsnapshot list \<Rightarrow> hsnapshot list \<Rightarrow> bool" where
  "selected_ok limit selected seen \<longleftrightarrow>
     worst.is_heap selected \<and> distinct selected \<and> set selected \<subseteq> set seen \<and>
     sort_key rank selected = take (nat limit) (sort_key rank seen)"

lemma sort_key_snoc: "distinct (xs @ [x]) \<Longrightarrow> inj_on rank (set (xs @ [x])) \<Longrightarrow>
  sort_key rank (xs @ [x]) = insort_key rank x (sort_key rank xs)"
  using sort_rank_cong [of "xs @ [x]" "x # xs"] by simp

lemma select_step_ok:
  assumes ok: "selected_ok limit sel seen" and pos: "0 < limit"
    and d: "distinct (seen @ [x])" and inj: "inj_on rank (set (seen @ [x]))"
  shows "selected_ok limit (select_step limit sel x) (seen @ [x])"
proof -
  from ok have heap: "worst.is_heap sel" and dsel: "distinct sel" and sub: "set sel \<subseteq> set seen"
    and srt: "sort_key rank sel = take (nat limit) (sort_key rank seen)" by (simp_all add: selected_ok_def)
  have len: "length sel = min (nat limit) (length seen)"
    using arg_cong [OF srt, of length] by (simp add: min.commute)
  have xs: "x \<notin> set sel" using d sub by auto
  have inj': "inj_on rank (set ys)" if "set ys \<subseteq> set (seen @ [x])" for ys
    using inj that by (rule inj_on_subset)
  note snoc = sort_key_snoc [OF d inj]
  show ?thesis
  proof (cases "int (length sel) < limit")
    case True
    let ?h = "heap_Push worst_less sel x"
    have m: "mset ?h = mset (sel @ [x])" by (simp add: heap_Push_perm)
    have set: "set ?h = insert x (set sel)" using mset_eq_setD [OF m] by simp
    have dh: "distinct ?h" using m dsel xs mset_eq_imp_distinct_iff [of ?h "sel @ [x]"] by simp
    have "sort_key rank ?h = sort_key rank (sel @ [x])"
      using dh inj' [of ?h] set sub by (intro sort_rank_cong [OF m]) auto
    also have "\<dots> = insort_key rank x (sort_key rank sel)"
      using dsel xs inj' [of "sel @ [x]"] sub by (intro sort_key_snoc) auto
    also have "\<dots> = take (nat limit) (sort_key rank (seen @ [x]))"
      using True len srt by (simp add: snoc)
    finally show ?thesis
      using True heap dh set sub by (auto simp: selected_ok_def select_step_def worst.is_heap_Push)
  next
    case False
    define S where "S = sort_key rank seen"
    obtain n where n: "nat limit = Suc n" using pos by (cases "nat limit") auto
    have full: "length sel = Suc n" "n < length S" using False len n pos by (auto simp: S_def)
    then have ne: "sel \<noteq> []" by auto
    have sortS: "sorted (map rank S)" by (simp add: S_def)
    have T: "sort_key rank sel = take (Suc n) S" using srt n by (simp add: S_def)
    let ?w = "sel ! 0"
    have max: "rank (S ! n) = rank ?w"
    proof (rule antisym)
      have "S ! n \<in> set (take (Suc n) S)" using full(2) by (simp add: take_Suc_conv_app_nth)
      then have "S ! n \<in> set sel" using T by (metis set_sort)
      then show "rank (S ! n) \<le> rank ?w" by (metis in_set_conv_nth worst.heap_root [OF heap])
      have "?w \<in> set sel" using ne by simp
      then have "?w \<in> set (take (Suc n) S)" using T by (metis set_sort)
      then obtain i where "i < length (take (Suc n) S)" "take (Suc n) S ! i = ?w" unfolding in_set_conv_nth by blast
      then have "i \<le> n" "?w = S ! i" by simp_all
      with sorted_nth_mono [OF sortS, of i n] full(2) show "rank ?w \<le> rank (S ! n)" by simp
    qed
    have w: "S ! n = ?w"
    proof (rule inj_onD [OF inj' [of seen] max])
      show "S ! n \<in> set seen" using full(2) by (metis S_def nth_mem set_sort)
      show "?w \<in> set seen" using sub ne by (auto intro: nth_mem)
    qed auto
    show ?thesis
    proof (cases "snapshotBetter x ?w")
      case True
      let ?h = "heap_Fix worst_less (sel[0 := x]) 0"
      obtain tl where sel: "sel = ?w # tl" using ne by (cases sel) auto
      have m: "mset ?h = mset (tl @ [x])"
        using worst.Fix_root(2) [OF heap ne, of x] by (subst (asm) (2) sel) simp
      have set: "set ?h = insert x (set tl)" using mset_eq_setD [OF m] by simp
      have tl: "set tl \<subseteq> set sel" "distinct tl" "?w \<notin> set tl" using sel dsel by (metis distinct.simps(2) set_subset_Cons)+
      have dh: "distinct ?h" using m tl xs mset_eq_imp_distinct_iff [of ?h "tl @ [x]"] by auto
      have "sort_key rank tl = take n S"
      proof (rule map_sorted_distinct_set_unique)
        have dS: "distinct S" using d by (simp add: S_def)
        have "set (take (Suc n) S) = set sel" using T by (metis set_sort)
        then have "insert ?w (set (take n S)) = insert ?w (set tl)"
          using full(2) w arg_cong [OF sel, of set] by (simp add: take_Suc_conv_app_nth)
        moreover have "?w \<notin> set (take n S)"
          using dS full(2) w by (metis distinct_take id_take_nth_drop not_distinct_conv_prefix order_refl
              take_Suc_conv_app_nth)
        ultimately show eq: "set (sort_key rank tl) = set (take n S)" using tl(3) by (metis insert_ident set_sort)
        have "set S \<subseteq> set (seen @ [x])" by (auto simp: S_def)
        then have "set (take n S) \<subseteq> set (seen @ [x])" using set_take_subset by (rule order_trans [rotated])
        then show "inj_on rank (set (sort_key rank tl) \<union> set (take n S))"
          unfolding eq using inj' by simp
        then show "distinct (map rank (sort_key rank tl))" "distinct (map rank (take n S))"
          using tl(2) dS by (simp_all add: distinct_map inj_on_Un)
        show "sorted (map rank (take n S))" using sortS by (simp add: sorted_wrt_take flip: take_map)
      qed simp
      moreover have "sort_key rank ?h = sort_key rank (tl @ [x])"
        using dh inj' [of ?h] set sub tl by (intro sort_rank_cong [OF m]) auto
      moreover have "sort_key rank (tl @ [x]) = insort_key rank x (sort_key rank tl)"
        using tl xs inj' [of "tl @ [x]"] sub by (intro sort_key_snoc) auto
      moreover have "rank x < rank (S ! n)" using True w by (simp add: snapshotBetter_rank)
      ultimately have "sort_key rank ?h = take (nat limit) (sort_key rank (seen @ [x]))"
        using full(2) n by (simp add: snoc take_insort_small flip: S_def)
      with True False dh set tl sub worst.Fix_root(1) [OF heap ne, of x] show ?thesis
        by (auto simp: selected_ok_def select_step_def)
    next
      case worse: False
      have "S ! n \<in> set seen" using full(2) by (metis S_def nth_mem set_sort)
      then have "S ! n \<noteq> x" "rank (S ! n) \<noteq> rank x"
        using d inj_onD [OF inj, of "S ! n" x] by auto
      then have "rank (S ! n) < rank x" using worse w by (simp add: snapshotBetter_rank)
      then have "take (nat limit) (sort_key rank (seen @ [x])) = take (nat limit) S"
        using full(2) n sortS by (simp add: snoc take_insort_large flip: S_def)
      with worse False heap dsel sub srt show ?thesis
        by (auto simp: selected_ok_def select_step_def S_def)
    qed
  qed
qed

lemma select_ok:
  assumes "distinct xs" "inj_on rank (set xs)" "0 < limit"
  shows "selected_ok limit (foldl (select_step limit) [] xs) xs"
  using assms
proof (induction xs rule: rev_induct)
  case Nil
  then show ?case by (simp add: selected_ok_def worst.is_heap_def)
next
  case (snoc x xs)
  have "selected_ok limit (foldl (select_step limit) [] xs) xs"
    using snoc.prems by (intro snoc.IH) (auto simp: inj_on_def)
  then show ?case using select_step_ok snoc.prems by simp
qed

lemma topSnapshots_sorted:
  assumes "distinct (map he_key items)"
  shows "topSnapshots a items now limit =
    (let all = sortSnapshots (map (\<lambda>e. hot_snapshot a e now) items)
     in if limit \<le> 0 then all else take (nat limit) all)"
proof -
  let ?xs = "map (\<lambda>e. hot_snapshot a e now) items"
  have key: "hs_Key (hot_snapshot a e now) = he_key e" for e by (simp add: hot_snapshot_def)
  then have k: "distinct (map hs_Key ?xs)" using assms by (simp add: comp_def)
  have "selected_ok limit (foldl (select_step limit) [] ?xs) ?xs" if "0 < limit"
    using rank_inj [OF k] distinct_mapI [OF k] that by (intro select_ok)
  then show ?thesis
    by (auto simp: topSnapshots_def Let_def sortSnapshots_rank selected_ok_def foldl_map)
qed

lemma sortSnapshots_strict:
  assumes "distinct (map hs_Key xs)" shows "sorted_wrt snapshotBetter (sortSnapshots xs)"
proof -
  have "distinct (map rank xs)" using assms rank_inj [OF assms] distinct_mapI [OF assms] by (simp add: distinct_map)
  then have "distinct (map rank (sort_key rank xs))" by (simp add: distinct_map)
  then have "sorted_wrt (<) (map rank (sort_key rank xs))" by (simp add: strict_sorted_iff)
  then show ?thesis by (simp add: sortSnapshots_rank sorted_wrt_map snapshotBetter_rank [abs_def])
qed

end
