(* ===== verification/HotnessProps.thy ===== *)
theory HotnessProps
  imports HotnessReplay Scorer
begin

text \<open>
  Properties of the tracker over every sequence of its exported operations, starting from
  \<^verbatim>\<open>hotness.New\<close> with any configuration, any clock readings and any float arithmetic.
\<close>

section \<open>Runs\<close>

datatype tracker_op =
  OpObserve time bytes
| OpAdmit time bytes
| OpAdvance time
| OpAdvanceAndSnapshot time int

fun tracker_apply :: "arith \<Rightarrow> tracker \<Rightarrow> tracker_op \<Rightarrow> transition list \<times> tracker" where
  "tracker_apply a t (OpObserve now key) = observed (ObserveWithState a t now key)"
| "tracker_apply a t (OpAdmit now key) = observed (Admit a t now key)"
| "tracker_apply a t (OpAdvance now) = Advance a t now"
| "tracker_apply a t (OpAdvanceAndSnapshot now limit) =
     map_prod vw_Transitions id (AdvanceAndSnapshot a t now limit)"

fun tracker_run :: "arith \<Rightarrow> tracker \<Rightarrow> tracker_op list \<Rightarrow> transition list \<times> tracker" where
  "tracker_run a t [] = ([], t)"
| "tracker_run a t (op # ops) =
     (let (trs, u) = tracker_apply a t op; (trs', v) = tracker_run a u ops in (trs @ trs', v))"

lemma AdvanceAndSnapshot_advance:
  "map_prod vw_Transitions id (AdvanceAndSnapshot a t now limit) = advanceLocked a t now"
  by (simp add: AdvanceAndSnapshot_def split: prod.splits)

lemma apply_step: "tracker_inv t \<Longrightarrow> tracker_step t (tracker_apply a t op)"
  by (cases op)
    (simp_all add: Observe_step Admit_step advance_step Advance_def AdvanceAndSnapshot_advance)

lemma run_step: "tracker_inv t \<Longrightarrow> tracker_step t (tracker_run a t ops)"
proof (induction ops arbitrary: t)
  case Nil
  then show ?case by (simp add: tracker_step_refl)
next
  case (Cons op ops)
  obtain trs u where u: "tracker_apply a t op = (trs, u)" by (cases "tracker_apply a t op")
  obtain trs' v where v: "tracker_run a u ops = (trs', v)" by (cases "tracker_run a u ops")
  have s: "tracker_step t (trs, u)" using apply_step [OF Cons.prems, of a op] u by simp
  then have "tracker_step u (trs', v)"
    using Cons.IH [of u] v by (simp add: tracker_step_def)
  from tracker_step_trans [OF s this] show ?case using u v by simp
qed

lemma run_New: "tracker_step (New_tracker cfg now) (tracker_run a (New_tracker cfg now) ops)"
  by (rule run_step [OF New_tracker_inv])

lemma state_of_New: "state_of (New_tracker cfg now) = (\<lambda>_. StateCold)"
  by (simp add: fun_eq_iff state_of_def tracked_def New_tracker_def Let_def)

section \<open>Properties\<close>

text \<open>
  C12: The transitions returned by \<^verbatim>\<open>Observe\<close>, \<^verbatim>\<open>Admit\<close>, \<^verbatim>\<open>Advance\<close> and \<^verbatim>\<open>AdvanceAndSnapshot\<close>
  are a complete and consistent log. Starting with every key COLD, applying the log of any
  sequence of operations in order never meets a transition whose \<^verbatim>\<open>From\<close> is not the key's current
  state or that changes nothing, and it ends in exactly the states the tracker holds, an
  untracked (also an evicted) key being COLD.
\<close>

theorem tracker_log_replays:
  "replay (\<lambda>_. StateCold) (fst (tracker_run a (New_tracker cfg start) ops)) =
   Some (state_of (snd (tracker_run a (New_tracker cfg start) ops)))"
  using run_New [of cfg start a ops] by (simp add: tracker_step_def state_of_New)

text \<open>
  Every transition ever reported is an edge of the state machine: a HOT key leaves that state
  only to COOLING, COLD is entered only from WARM or COOLING, COOLING only from HOT, WARM only from COLD.
\<close>

theorem tracker_edges:
  "list_all (\<lambda>tr. window_edge (tr_From tr) (tr_To tr)) (fst (tracker_run a (New_tracker cfg start) ops))"
  using run_New [of cfg start a ops] by (simp add: tracker_step_def edges_ok_def list_all_iff)

lemma card_tracked:
  assumes inv: "tracker_inv t"
  shows "{k. IsTracked t k} = he_key ` set (t_admissionRing t)"
    and "{k. IsHot t k} = he_key ` {e \<in> set (t_admissionRing t). he_state e = StateHot}"
  by (auto simp: IsTracked_tracked IsHot_tracked tracked_Some [OF inv])

lemma Stats_counts:
  assumes inv: "tracker_inv t"
  shows "Stats_tracker t = (int (card {k. IsTracked t k}), int (card {k. IsHot t k}))"
proof -
  let ?r = "t_admissionRing t"
  have d: "distinct (map he_key ?r)" by (rule inv_keys_distinct [OF inv])
  then have inj: "inj_on he_key (set ?r)" and dr: "distinct ?r" by (simp_all add: distinct_map)
  have "card (he_key ` set ?r) = length ?r" using inj dr by (simp add: card_image distinct_card)
  moreover have "inj_on he_key {e \<in> set ?r. he_state e = StateHot}" using inj by (rule inj_on_subset) auto
  then have "card (he_key ` {e \<in> set ?r. he_state e = StateHot}) = length (filter (\<lambda>e. he_state e = StateHot) ?r)"
    using dr by (simp add: card_image distinct_card flip: set_filter)
  ultimately show ?thesis
    using inv inv_length [OF inv]
    by (simp add: Stats_tracker_def card_tracked [OF inv] tracker_inv_def hot_count_def)
qed

text \<open>
  C24: After any sequence of operations the tracker holds at most \<^verbatim>\<open>MaxTrackedKeys\<close> keys (one when
  the configured bound is not positive), none empty or longer than 1024 bytes, and \<^verbatim>\<open>Stats\<close> returns the number of tracked keys
  and the number of keys for which \<^verbatim>\<open>IsHot\<close> holds: the incrementally maintained counter never drifts.
\<close>

theorem tracker_bounded:
  "let t = snd (tracker_run a (New_tracker cfg start) ops) in
   fst (Stats_tracker t) \<le> max 1 (h_MaxTrackedKeys cfg) \<and>
   {k. IsTracked t k} \<subseteq> {k. k \<noteq> [] \<and> length k \<le> 1024} \<and>
   Stats_tracker t = (int (card {k. IsTracked t k}), int (card {k. IsHot t k}))"
proof -
  let ?t = "snd (tracker_run a (New_tracker cfg start) ops)"
  have inv: "tracker_inv ?t" and cfg: "t_cfg ?t = t_cfg (New_tracker cfg start)"
    using run_New [of cfg start a ops] by (simp_all add: tracker_step_def)
  have "h_MaxTrackedKeys (t_cfg ?t) \<le> max 1 (h_MaxTrackedKeys cfg)"
    unfolding cfg by (simp add: New_tracker_def Let_def)
  moreover have "{k. IsTracked ?t k} \<subseteq> {k. k \<noteq> [] \<and> length k \<le> 1024}"
    unfolding card_tracked [OF inv] using inv
    by (auto simp: tracker_inv_def hot_entry_ok_def MaxTrackedKeyBytes_def)
  ultimately show ?thesis
    using inv inv_length [OF inv] Stats_counts [OF inv]
    by (simp add: Let_def) (simp add: Stats_tracker_def tracker_inv_def)
qed

lemma distinct_item_keys:
  assumes inv: "tracker_inv t" shows "distinct (map he_key (item_entries t))"
proof -
  have "map he_key (item_entries t) = map fst (t_items t)"
    using inv by (auto simp: item_entries_def tracker_inv_def)
  with inv show ?thesis by (simp add: tracker_inv_def)
qed

text \<open>
  C25: \<^verbatim>\<open>Snapshots\<close> with a positive limit, which keeps only a bounded heap of the worst selected
  snapshot, returns exactly the first \<open>limit\<close> entries of the full ranking, and the whole ranking for
  a limit of zero or below. The full ranking is a permutation of the snapshots of all tracked
  entries, strictly ordered: HOT keys first, then higher score, then smaller key.
\<close>

theorem Snapshots_top:
  "let t = snd (tracker_run a (New_tracker cfg start) ops);
       all = sortSnapshots (map (\<lambda>e. hot_snapshot a e now) (item_entries t))
   in mset all = mset (map (\<lambda>e. hot_snapshot a e now) (item_entries t)) \<and>
      sorted_wrt snapshotBetter all \<and>
      Snapshots a t now limit = (if limit \<le> 0 then all else take (nat limit) all)"
proof -
  define t where "t = snd (tracker_run a (New_tracker cfg start) ops)"
  have inv: "tracker_inv t" using run_New [of cfg start a ops] by (simp add: t_def tracker_step_def)
  let ?xs = "map (\<lambda>e. hot_snapshot a e now) (item_entries t)"
  have "map hs_Key ?xs = map he_key (item_entries t)" by (simp add: hot_snapshot_def)
  then have "distinct (map hs_Key ?xs)" using distinct_item_keys [OF inv] by metis
  then have "sorted_wrt snapshotBetter (sortSnapshots ?xs)" by (rule sortSnapshots_strict)
  then show ?thesis
    using topSnapshots_sorted [OF distinct_item_keys [OF inv], of a now limit]
    by (simp add: Let_def Snapshots_def sortSnapshots_rank flip: t_def)
qed

text \<open>An unseen key at full capacity, inside an open window.\<close>

lemma observe_unseen_full:
  fixes a :: arith
  assumes inv: "tracker_inv t" and now: "now < t_window t + h_Window (t_cfg t)"
    and key: "key \<noteq> []" "length key \<le> MaxTrackedKeyBytes" and unseen: "\<not> IsTracked t key"
    and full: "h_MaxTrackedKeys (t_cfg t) \<le> int (length (t_items t))"
  defines "victim \<equiv> t_admissionRing t ! t_nextVictim t"
    and "r \<equiv> ObserveWithState a t now key"
  shows "tracked t (he_key victim) = Some victim"
    and "he_state victim = StateHot \<Longrightarrow> tracked (snd r) = tracked t \<and> o_CapacityObservationDropped (fst r) \<and>
      CapacityDrops (snd r) = CapacityDrops t + 1 \<and> Evictions (snd r) = Evictions t"
    and "he_state victim \<noteq> StateHot \<Longrightarrow>
      (\<exists>e. he_state e = StateCold \<and> tracked (snd r) = (tracked t)(he_key victim := None, key \<mapsto> e)) \<and>
      \<not> o_CapacityObservationDropped (fst r) \<and>
      CapacityDrops (snd r) = CapacityDrops t \<and> Evictions (snd r) = Evictions t + 1"
proof -
  let ?v = "t_nextVictim t"
  have full': "\<not> int (length (t_admissionRing t)) < h_MaxTrackedKeys (t_cfg t)" using full inv_length [OF inv] by simp
  have none: "map_of (t_items t) key = None" using unseen by (simp add: IsTracked_def)
  have v: "?v < length (t_admissionRing t)" using victim_in_range [OF inv full'] .
  show tv: "tracked t (he_key victim) = Some victim" unfolding victim_def by (rule tracked_nth [OF inv v])
  note obs = r_def ObserveWithState_def advanceLocked_def getOrCreateLocked_def
  show "tracked (snd r) = tracked t \<and> o_CapacityObservationDropped (fst r) \<and>
      CapacityDrops (snd r) = CapacityDrops t + 1 \<and> Evictions (snd r) = Evictions t" if "he_state victim = StateHot"
    using that now key none full'
    by (simp add: obs Let_def victim_def CapacityDrops_def Evictions_def tracked_def fun_eq_iff)
  show "(\<exists>e. he_state e = StateCold \<and> tracked (snd r) = (tracked t)(he_key victim := None, key \<mapsto> e)) \<and>
      \<not> o_CapacityObservationDropped (fst r) \<and>
      CapacityDrops (snd r) = CapacityDrops t \<and> Evictions (snd r) = Evictions t + 1" if nh: "he_state victim \<noteq> StateHot"
  proof -
    define e where "e = (fresh_entry key now)\<lparr>he_count := 1, he_lastSeen := now\<rparr>"
    have e: "he_state e = StateCold" by (simp add: e_def)
    have r: "t_items (snd r) = AList.update key ?v (AList.delete (he_key victim) (t_items t))"
      "t_admissionRing (snd r) = (t_admissionRing t)[?v := e]"
      "\<not> o_CapacityObservationDropped (fst r)" "CapacityDrops (snd r) = CapacityDrops t" "Evictions (snd r) = Evictions t + 1"
      using nh now key none full' v
      by (simp_all add: obs Let_def victim_def CapacityDrops_def Evictions_def
          commitGuaranteedPromotionLocked_def e_def fresh_entry_def)
    have "tracked (snd r) = (tracked t)(he_key victim := None, key \<mapsto> e)"
    proof
      fix k
      show "tracked (snd r) k = ((tracked t)(he_key victim := None, key \<mapsto> e)) k"
      proof (cases "k = key \<or> k = he_key victim")
        case False
        then have "map_of (t_items t) k \<noteq> Some ?v" using inv_index [OF inv, of k ?v] by (simp add: victim_def)
        with False show ?thesis by (cases "map_of (t_items t) k") (auto simp: tracked_def r)
      qed (use v in \<open>auto simp: tracked_def r\<close>)
    qed
    with e r show ?thesis by blast
  qed
qed

text \<open>
  C23: At full capacity an unseen key never displaces a HOT key. Inside an open window exactly one
  slot is inspected: if its key is HOT the observation is dropped, counted, and the tracked keys and
  their states are unchanged; otherwise that key alone is replaced by the new one, which starts COLD. In
  both cases the set of HOT keys is unchanged.
\<close>

theorem observe_at_capacity:
  assumes "t = snd (tracker_run a (New_tracker cfg start) ops)"
    and "now < t_window t + h_Window (t_cfg t)" "key \<noteq> []" "length key \<le> MaxTrackedKeyBytes"
    and "\<not> IsTracked t key" "h_MaxTrackedKeys (t_cfg t) \<le> fst (Stats_tracker t)"
  shows "let r = ObserveWithState a t now key; victim = he_key (t_admissionRing t ! t_nextVictim t) in
    IsTracked t victim \<and> {k. IsHot (snd r) k} = {k. IsHot t k} \<and>
    (if IsHot t victim
     then o_CapacityObservationDropped (fst r) \<and> CapacityDrops (snd r) = CapacityDrops t + 1 \<and>
       {k. IsTracked (snd r) k} = {k. IsTracked t k}
     else \<not> o_CapacityObservationDropped (fst r) \<and> Evictions (snd r) = Evictions t + 1 \<and>
       {k. IsTracked (snd r) k} = insert key ({k. IsTracked t k} - {victim}))"
proof -
  have inv: "tracker_inv t" using run_New [of cfg start a ops] assms(1) by (simp add: tracker_step_def)
  have full: "h_MaxTrackedKeys (t_cfg t) \<le> int (length (t_items t))" using assms(6) by (simp add: Stats_tracker_def)
  note u = observe_unseen_full(1) [OF inv assms(2-5) full]
    observe_unseen_full(2,3) [OF inv assms(2-5) full, where a = a]
  show ?thesis
  proof (cases "he_state (t_admissionRing t ! t_nextVictim t) = StateHot")
    case True
    with u(1) u(2) show ?thesis by (auto simp: Let_def IsHot_tracked IsTracked_tracked)
  next
    case False
    with u(3) obtain e where e: "he_state e = StateCold"
      "tracked (snd (ObserveWithState a t now key)) = (tracked t)(he_key (t_admissionRing t ! t_nextVictim t) := None, key \<mapsto> e)"
      by blast
    have "tracked t key = None" using assms(5) by (simp add: IsTracked_tracked)
    moreover have "\<not> o_CapacityObservationDropped (fst (ObserveWithState a t now key))"
      "Evictions (snd (ObserveWithState a t now key)) = Evictions t + 1" using u(3) False by blast+
    ultimately show ?thesis
      using False e u(1) by (auto simp: Let_def IsHot_tracked IsTracked_tracked split: if_splits)
  qed
qed

theorem observe_at_capacity_witness:
  "let cfg = \<lparr>h_Window = 10, h_EWMAAlpha = 1 / 2, h_PromotionThreshold = 2, h_DemotionThreshold = 1,
       h_MinimumHotWindows = 2, h_Cooldown = 10, h_MaxTrackedKeys = 1\<rparr>;
     t = snd (tracker_run (exact id) (New_tracker cfg 0) [OpObserve 1 ''a'', OpAdmit 2 ''a'']);
     r = ObserveWithState (exact id) t 3 ''b''
   in IsHot t ''a'' \<and> o_CapacityObservationDropped (fst r) \<and> {k. IsHot (snd r) k} = {k. IsHot t k}"
proof -
  define cfg where "cfg = \<lparr>h_Window = 10, h_EWMAAlpha = 1 / 2, h_PromotionThreshold = 2, h_DemotionThreshold = 1,
       h_MinimumHotWindows = 2, h_Cooldown = 10, h_MaxTrackedKeys = 1\<rparr>"
  define t where "t = snd (tracker_run (exact id) (New_tracker cfg 0) [OpObserve 1 ''a'', OpAdmit 2 ''a''])"
  have "t_window t = 0" "h_Window (t_cfg t) = 10" "\<not> IsTracked t ''b''" "h_MaxTrackedKeys (t_cfg t) \<le> fst (Stats_tracker t)"
    "IsHot t ''a''" "he_key (t_admissionRing t ! t_nextVictim t) = ''a''"
    unfolding t_def cfg_def by code_simp+
  with observe_at_capacity [OF t_def, of 3 "''b''"] show ?thesis
    unfolding Let_def cfg_def [symmetric] t_def [symmetric] by (simp add: MaxTrackedKeyBytes_def)
qed

end
