(* ===== verification/Catchup.thy ===== *)
theory Catchup
  imports HotnessInv
begin

text \<open>
  The closed-form window catch-up of \<^verbatim>\<open>advanceEntryLocked\<close> against its reference: advancing one
  window at a time. The equivalence is proved in exact arithmetic, for every logarithm; for
  \<^verbatim>\<open>float64\<close> the threshold counts are shown to be crossing points of the decayed score whatever
  error \<^verbatim>\<open>math.Log\<close> makes.
\<close>

section \<open>The correction loops\<close>

lemma decay_down_spec:
  assumes "0 \<le> e"
  shows "0 \<le> decay_down p e" "decay_down p e \<le> e" "0 < decay_down p e \<Longrightarrow> p (decay_down p e)"
    "decay_down p e < k \<Longrightarrow> k \<le> e \<Longrightarrow> \<not> p k"
proof -
  have "0 \<le> decay_down p e \<and> decay_down p e \<le> e \<and> (0 < decay_down p e \<longrightarrow> p (decay_down p e)) \<and>
      (\<forall>k. decay_down p e < k \<and> k \<le> e \<longrightarrow> \<not> p k)"
    using assms
  proof (induction p e rule: decay_down.induct)
    case (1 p e)
    show ?case
    proof (cases "e > 0 \<and> \<not> p e")
      case True
      then have "decay_down p e = decay_down p (e - 1)" by (simp add: decay_down.simps)
      moreover have "\<not> p k" if "decay_down p (e - 1) < k" "k \<le> e" for k
        using 1 True that by (cases "k = e") auto
      ultimately show ?thesis using 1 True by auto
    next
      case False
      then have "decay_down p e = e" by (auto simp: decay_down.simps)
      with False 1 show ?thesis by auto
    qed
  qed
  then show "0 \<le> decay_down p e" "decay_down p e \<le> e" "0 < decay_down p e \<Longrightarrow> p (decay_down p e)"
    "decay_down p e < k \<Longrightarrow> k \<le> e \<Longrightarrow> \<not> p k" by auto
qed

lemma decay_up_spec:
  assumes "e \<le> m" "0 < e \<Longrightarrow> p e" "0 \<le> e"
  shows "0 \<le> decay_up p m e \<and> decay_up p m e \<le> m \<and> (0 < decay_up p m e \<longrightarrow> p (decay_up p m e)) \<and>
    (decay_up p m e < m \<longrightarrow> \<not> p (decay_up p m e + 1))"
  using assms
proof (induction p m e rule: decay_up.induct)
  case (1 p m e)
  show ?case
  proof (cases "e < m \<and> p (e + 1)")
    case True
    then have "decay_up p m e = decay_up p m (e + 1)" by (simp add: decay_up.simps)
    with 1 True show ?thesis by auto
  next
    case False
    then have "decay_up p m e = e" by (auto simp: decay_up.simps)
    with False 1 show ?thesis by auto
  qed
qed

definition reaches :: "arith \<Rightarrow> rat \<Rightarrow> rat \<Rightarrow> rat \<Rightarrow> int \<Rightarrow> bool" where
  "reaches a initial decay threshold n \<longleftrightarrow> fmul a initial (powf a decay (of_i64 a n)) \<ge> threshold"

text \<open>
  Whatever the estimate, the result is a crossing of the decayed score: it reaches the threshold
  there and not one window later. The hypotheses on the power function hold for \<^verbatim>\<open>math.Pow\<close>.
\<close>

lemma decayWindows_crossing:
  assumes max: "0 < maxWindows" and pos: "0 < initial" "0 < threshold" "0 < decay" "decay \<le> 1"
    and one: "powf a decay (of_i64 a 1) = decay"
    and unit: "powf a 1 (of_i64 a maxWindows) = 1" "rnd a 1 = 1"
  defines "r \<equiv> decayWindowsAtLeast a initial decay threshold maxWindows"
  shows "0 \<le> r \<and> r \<le> maxWindows \<and> (0 < r \<longrightarrow> reaches a initial decay threshold r) \<and>
    (r < maxWindows \<longrightarrow> \<not> reaches a initial decay threshold (r + 1))"
proof -
  define p where "p = reaches a initial decay threshold"
  have first: "p 1 \<longleftrightarrow> fmul a initial decay \<ge> threshold" by (simp add: p_def reaches_def one)
  have reach: "(\<lambda>n. fmul a initial (powf a decay (of_i64 a n)) \<ge> threshold) = p"
    by (simp add: p_def reaches_def fun_eq_iff)
  show ?thesis
  proof (cases "fmul a initial decay < threshold")
    case True
    then have "r = 0" by (simp add: r_def decayWindowsAtLeast_def)
    moreover have "\<not> p 1" using True first by simp
    ultimately show ?thesis using max by (simp add: p_def)
  next
    case f: False
    have unit': "decay = 1 \<Longrightarrow> p maxWindows" using f by (simp add: p_def reaches_def unit)
    define e where "e = \<lfloor>fdiv a (logf a (fdiv a threshold initial)) (logf a decay)\<rfloor>"
    define e' where "e' = (let x = (if e < 0 then 0 else e) in if x > maxWindows then maxWindows else x)"
    have r: "r = (if decay \<ge> 1 \<or> p maxWindows then maxWindows else decay_up p maxWindows (decay_down p e'))"
      using max pos f unfolding r_def decayWindowsAtLeast_def reach Let_def e'_def e_def
      by (simp add: p_def reaches_def)
    have "0 \<le> e'" "e' \<le> maxWindows" using max by (auto simp: e'_def Let_def)
    then have "0 \<le> decay_down p e'" "decay_down p e' \<le> maxWindows" "0 < decay_down p e' \<Longrightarrow> p (decay_down p e')"
      using decay_down_spec [of e' p] by auto
    note decay_up_spec [where p = p, OF this(2,3,1)]
    then show ?thesis
      unfolding p_def [symmetric] using unit' r max pos(4) by (auto split: if_splits)
  qed
qed

text \<open>In exact arithmetic the crossing is unique, so the count is the number of high windows.\<close>

lemma exact_simps [simp]:
  "rnd (exact lg) = id" "powf (exact lg) x y = x ^ nat \<lfloor>y\<rfloor>" "fadd (exact lg) x y = x + y"
  "fsub (exact lg) x y = x - y" "fmul (exact lg) x y = x * y" "fdiv (exact lg) x y = x / y"
  "of_i64 (exact lg) n = of_int n"
  by (simp_all add: exact_def fadd_def fsub_def fmul_def fdiv_def of_i64_def)

lemma decayWindows_exact:
  fixes lg :: "rat \<Rightarrow> rat"
  assumes max: "0 \<le> maxWindows" and pos: "0 \<le> initial" "0 < threshold" "0 \<le> decay" "decay \<le> 1"
  defines "r \<equiv> decayWindowsAtLeast (exact lg) initial decay threshold maxWindows"
  shows "0 \<le> r" "r \<le> maxWindows"
    and "1 \<le> k \<Longrightarrow> int k \<le> maxWindows \<Longrightarrow> initial * decay ^ k \<ge> threshold \<longleftrightarrow> int k \<le> r"
proof -
  have "0 \<le> r \<and> r \<le> maxWindows \<and>
    (\<forall>k. 1 \<le> k \<and> int k \<le> maxWindows \<longrightarrow> (initial * decay ^ k \<ge> threshold \<longleftrightarrow> int k \<le> r))"
  proof (cases "maxWindows = 0 \<or> initial = 0 \<or> decay = 0")
    case True
    then have "r = 0" using pos by (auto simp: r_def decayWindowsAtLeast_def)
    with True pos max show ?thesis by (auto simp: power_0_left)
  next
    case False
    have c: "0 \<le> r \<and> r \<le> maxWindows \<and> (0 < r \<longrightarrow> reaches (exact lg) initial decay threshold r) \<and>
      (r < maxWindows \<longrightarrow> \<not> reaches (exact lg) initial decay threshold (r + 1))"
      unfolding r_def using False max pos by (intro decayWindows_crossing) simp_all
    have anti: "initial * decay ^ j \<le> initial * decay ^ i" if "i \<le> j" for i j
      using pos that by (intro mult_left_mono power_decreasing) simp_all
    have "initial * decay ^ k \<ge> threshold \<longleftrightarrow> int k \<le> r" if k: "1 \<le> k" "int k \<le> maxWindows" for k
    proof (cases "int k \<le> r")
      case True
      then have "initial * decay ^ nat r \<ge> threshold" "k \<le> nat r" using c k by (auto simp: reaches_def)
      with anti True show ?thesis by (metis order_trans)
    next
      case False
      then have "\<not> initial * decay ^ nat (r + 1) \<ge> threshold" "nat (r + 1) \<le> k" using c k by (auto simp: reaches_def)
      with anti False show ?thesis by (metis order_trans)
    qed
    with c show ?thesis by simp
  qed
  then show "0 \<le> r" "r \<le> maxWindows"
    "1 \<le> k \<Longrightarrow> int k \<le> maxWindows \<Longrightarrow> initial * decay ^ k \<ge> threshold \<longleftrightarrow> int k \<le> r"
    by simp_all
qed

section \<open>One window at a time\<close>

text \<open>\<open>n\<close> empty windows after the boundary \<open>fb\<close>, each advanced on its own.\<close>

fun empty_windows :: "arith \<Rightarrow> hconfig \<Rightarrow> hot_entry \<Rightarrow> time \<Rightarrow> nat \<Rightarrow> transition list \<times> hot_entry" where
  "empty_windows a cfg ent fb 0 = ([], ent)"
| "empty_windows a cfg ent fb (Suc n) =
     (let (t1, ent) = advanceEntryLocked a cfg ent 0 1 (fb + h_Window cfg);
          (t2, ent) = empty_windows a cfg ent (fb + h_Window cfg) n
      in (t1 @ t2, ent))"

definition window_by_window ::
  "arith \<Rightarrow> hconfig \<Rightarrow> hot_entry \<Rightarrow> rat \<Rightarrow> int \<Rightarrow> time \<Rightarrow> transition list \<times> hot_entry"
where
  "window_by_window a cfg ent rate n fb =
     (let (t1, ent) = advanceEntryLocked a cfg ent rate 1 fb;
          (t2, ent) = empty_windows a cfg ent fb (nat (n - 1))
      in (t1 @ t2, ent))"

text \<open>
  The two agree except that the closed form does not count hot windows beyond the required
  number; \<open>cap_hot\<close> identifies such counts.
\<close>

definition cap_hot :: "hconfig \<Rightarrow> hot_entry \<Rightarrow> hot_entry" where
  "cap_hot cfg e = e\<lparr>he_hotWindows := min (he_hotWindows e) (h_MinimumHotWindows cfg)\<rparr>"

definition beta_of :: "hconfig \<Rightarrow> rat" where
  "beta_of cfg = 1 - h_EWMAAlpha cfg"

text \<open>One empty window in exact arithmetic.\<close>

lemma empty_window_exact:
  "advanceEntryLocked (exact lg) cfg e 0 1 now =
   applyStateLocked cfg (e\<lparr>he_score := he_score e * beta_of cfg, he_lastRate := 0\<rparr>) now"
  by (simp add: advanceEntryLocked_def Let_def beta_of_def mult.commute split: prod.splits)

lemma applyState_score: "he_score (snd (applyStateLocked cfg e now)) = he_score e"
  by (simp add: applyStateLocked_def Let_def)

lemma empty_windows_score:
  "he_score (snd (empty_windows (exact lg) cfg e fb n)) = he_score e * beta_of cfg ^ n"
proof (induction n arbitrary: e fb)
  case (Suc n)
  obtain t1 e1 where 1: "advanceEntryLocked (exact lg) cfg e 0 1 (fb + h_Window cfg) = (t1, e1)" by fastforce
  then have "he_score e1 = he_score e * beta_of cfg"
    using applyState_score [of cfg "e\<lparr>he_score := he_score e * beta_of cfg, he_lastRate := 0\<rparr>" "fb + h_Window cfg"]
    by (simp add: empty_window_exact)
  with Suc 1 show ?case by (simp add: split_def Let_def mult.assoc)
qed simp

lemma empty_windows_add:
  "empty_windows a cfg e fb (m + n) =
   (let (t1, e1) = empty_windows a cfg e fb m;
        (t2, e2) = empty_windows a cfg e1 (fb + int m * h_Window cfg) n
    in (t1 @ t2, e2))"
  by (induction m arbitrary: e fb) (simp_all add: Let_def algebra_simps split: prod.splits)

text \<open>Segment 1: the score stays at or above the promotion threshold.\<close>

definition high_end :: "hconfig \<Rightarrow> nat \<Rightarrow> hot_entry \<Rightarrow> hot_entry" where
  "high_end cfg n e =
     e\<lparr>he_state := (if he_state e = StateHot \<or> he_hotWindows e + int n \<ge> h_MinimumHotWindows cfg
                     then StateHot else StateWarm),
       he_score := he_score e * beta_of cfg ^ n,
       he_hotWindows := he_hotWindows e + int n\<rparr>"

lemma high_windows:
  assumes "\<And>k. 1 \<le> k \<Longrightarrow> k \<le> n \<Longrightarrow> he_score e * beta_of cfg ^ k \<ge> h_PromotionThreshold cfg"
    "he_state e = StateHot \<or> he_state e = StateWarm \<and> he_hotWindows e < h_MinimumHotWindows cfg"
    "he_lastRate e = 0"
  shows "empty_windows (exact lg) cfg e fb n =
    (state_change (he_key e) (he_state e) (he_state (high_end cfg n e)), high_end cfg n e)"
  using assms
proof (induction n arbitrary: e fb)
  case 0
  then show ?case by (auto simp: high_end_def state_change_def)
next
  case (Suc n)
  have 1: "he_score e * beta_of cfg \<ge> h_PromotionThreshold cfg" using Suc.prems(1) [of 1] by simp
  have "advanceEntryLocked (exact lg) cfg e 0 1 (fb + h_Window cfg) =
      (state_change (he_key e) (he_state e) (he_state (high_end cfg 1 e)), high_end cfg 1 e)"
    using 1 Suc.prems(2,3)
    by (cases e) (auto simp: empty_window_exact applyStateLocked_def Let_def high_end_def)
  moreover have "empty_windows (exact lg) cfg (high_end cfg 1 e) (fb + h_Window cfg) n =
      (state_change (he_key e) (he_state (high_end cfg 1 e)) (he_state (high_end cfg n (high_end cfg 1 e))),
       high_end cfg n (high_end cfg 1 e))"
  proof -
    have "he_score (high_end cfg 1 e) * beta_of cfg ^ k \<ge> h_PromotionThreshold cfg" if "1 \<le> k" "k \<le> n" for k
      using Suc.prems(1) [of "Suc k"] that by (simp add: high_end_def mult.assoc)
    then show ?thesis
      using Suc.prems(2,3) Suc.IH [of "high_end cfg 1 e" "fb + h_Window cfg"] by (auto simp: high_end_def)
  qed
  moreover have "high_end cfg n (high_end cfg 1 e) = high_end cfg (Suc n) e"
    using Suc.prems(2) by (simp add: high_end_def mult.assoc)
  moreover have "state_change k s s1 @ state_change k s1 s2 = state_change k s s2"
    if "s = s1 \<or> s1 = s2" for k s s1 s2 using that by (auto simp: state_change_def)
  moreover have "he_state e = he_state (high_end cfg 1 e) \<or> he_state (high_end cfg 1 e) = he_state (high_end cfg (Suc n) e)"
    using Suc.prems(2) by (auto simp: high_end_def)
  ultimately show ?case by simp
qed

text \<open>Segment 2: at or above the demotion threshold, below the promotion threshold.\<close>

lemma mid_windows:
  assumes "\<And>k. 1 \<le> k \<Longrightarrow> k \<le> n \<Longrightarrow>
      he_score e * beta_of cfg ^ k \<ge> h_DemotionThreshold cfg \<and> he_score e * beta_of cfg ^ k < h_PromotionThreshold cfg"
    "he_state e \<noteq> StateCold" "he_lastRate e = 0"
  shows "empty_windows (exact lg) cfg e fb n =
    ([], e\<lparr>he_score := he_score e * beta_of cfg ^ n,
           he_hotWindows := (if n = 0 then he_hotWindows e else 0)\<rparr>)"
  using assms
proof (induction n arbitrary: e fb)
  case (Suc n)
  let ?e = "e\<lparr>he_score := he_score e * beta_of cfg, he_hotWindows := 0\<rparr>"
  have "advanceEntryLocked (exact lg) cfg e 0 1 (fb + h_Window cfg) = ([], ?e)"
    using Suc.prems(1) [of 1] Suc.prems(2,3)
    by (simp add: empty_window_exact applyStateLocked_def Let_def state_change_def not_le)
  moreover have "empty_windows (exact lg) cfg ?e (fb + h_Window cfg) n =
      ([], ?e\<lparr>he_score := he_score ?e * beta_of cfg ^ n, he_hotWindows := (if n = 0 then he_hotWindows ?e else 0)\<rparr>)"
  proof (rule Suc.IH)
    fix k assume "1 \<le> k" "k \<le> n"
    then show "he_score ?e * beta_of cfg ^ k \<ge> h_DemotionThreshold cfg \<and> he_score ?e * beta_of cfg ^ k < h_PromotionThreshold cfg"
      using Suc.prems(1) [of "Suc k"] by (simp add: mult.assoc)
  qed (use Suc.prems in simp_all)
  ultimately show ?case by (simp add: mult.assoc)
qed simp

text \<open>Segment 3: below the demotion threshold.\<close>

definition low_windows :: "hconfig \<Rightarrow> hot_entry \<Rightarrow> nat \<Rightarrow> bool" where
  "low_windows cfg e n \<longleftrightarrow> h_DemotionThreshold cfg < h_PromotionThreshold cfg \<and> he_lastRate e = 0 \<and>
     (\<forall>k \<in> {1..n}. he_score e * beta_of cfg ^ k < h_DemotionThreshold cfg)"

lemma low_windows_Suc:
  assumes "low_windows cfg e (Suc n)"
  shows "he_score e * beta_of cfg < h_DemotionThreshold cfg" "\<not> h_PromotionThreshold cfg \<le> he_score e * beta_of cfg"
    "\<not> h_DemotionThreshold cfg \<le> he_score e * beta_of cfg" "he_lastRate e = 0"
    "he_score e' = he_score e * beta_of cfg \<Longrightarrow> he_lastRate e' = 0 \<Longrightarrow> low_windows cfg e' n"
proof -
  have "he_score e * beta_of cfg ^ k < h_DemotionThreshold cfg" if "1 \<le> k" "k \<le> Suc n" for k
    using assms that by (simp add: low_windows_def)
  note k = this
  have lt: "h_DemotionThreshold cfg < h_PromotionThreshold cfg" and "he_lastRate e = 0"
    using assms by (simp_all add: low_windows_def)
  with k [of 1] show "he_score e * beta_of cfg < h_DemotionThreshold cfg"
    "\<not> h_PromotionThreshold cfg \<le> he_score e * beta_of cfg"
    "\<not> h_DemotionThreshold cfg \<le> he_score e * beta_of cfg" "he_lastRate e = 0" by simp_all
  show "low_windows cfg e' n" if "he_score e' = he_score e * beta_of cfg" "he_lastRate e' = 0"
    unfolding low_windows_def
  proof (intro conjI ballI lt that(2))
    fix j assume "j \<in> {1..n}"
    then show "he_score e' * beta_of cfg ^ j < h_DemotionThreshold cfg"
      using k [of "Suc j"] by (simp add: that(1) mult.assoc)
  qed
qed

definition low_end :: "hconfig \<Rightarrow> nat \<Rightarrow> hot_entry \<Rightarrow> hot_entry" where
  "low_end cfg n e =
     e\<lparr>he_score := he_score e * beta_of cfg ^ n, he_hotWindows := (if n = 0 then he_hotWindows e else 0)\<rparr>"

lemma low_end_sel [simp]:
  "he_state (low_end cfg n e) = he_state e" "he_key (low_end cfg n e) = he_key e"
  "he_lastRate (low_end cfg n e) = he_lastRate e" "he_coolingAt (low_end cfg n e) = he_coolingAt e"
  "he_score (low_end cfg n e) = he_score e * beta_of cfg ^ n" "low_end cfg 0 e = e"
  by (simp_all add: low_end_def)

lemma low_end_step:
  "low_end cfg n (low_end cfg (Suc 0) e) = low_end cfg (Suc n) e"
  "low_end cfg n ((low_end cfg (Suc 0) e)\<lparr>he_state := s, he_coolingAt := c\<rparr>) = (low_end cfg (Suc n) e)\<lparr>he_state := s, he_coolingAt := c\<rparr>"
  "low_end cfg n ((low_end cfg (Suc 0) e)\<lparr>he_state := s\<rparr>) = (low_end cfg (Suc n) e)\<lparr>he_state := s\<rparr>"
  by (simp_all add: low_end_def mult.assoc)

lemma low_window:
  assumes "low_windows cfg e (Suc n)"
  shows "advanceEntryLocked (exact lg) cfg e 0 1 now =
    (if he_state e = StateHot
     then ([\<lparr>tr_Key = he_key e, tr_From = StateHot, tr_To = StateCooling\<rparr>],
           (low_end cfg 1 e)\<lparr>he_state := StateCooling, he_coolingAt := now\<rparr>)
     else if he_state e = StateCooling \<and> time_sub now (he_coolingAt e) \<ge> h_Cooldown cfg
     then ([\<lparr>tr_Key = he_key e, tr_From = StateCooling, tr_To = StateCold\<rparr>],
           (low_end cfg 1 e)\<lparr>he_state := StateCold, he_coolingAt := 0\<rparr>)
     else if he_state e = StateWarm \<and> he_score e * beta_of cfg = 0
     then ([\<lparr>tr_Key = he_key e, tr_From = StateWarm, tr_To = StateCold\<rparr>],
           (low_end cfg 1 e)\<lparr>he_state := StateCold\<rparr>)
     else ([], low_end cfg 1 e))"
  using low_windows_Suc(2,3,4) [OF assms]
  by (cases e) (auto simp: empty_window_exact applyStateLocked_def Let_def low_end_def state_change_def)

lemma cold_low:
  assumes "low_windows cfg e n" "he_state e = StateCold"
  shows "empty_windows (exact lg) cfg e fb n = ([], low_end cfg n e)"
  using assms
proof (induction n arbitrary: e fb)
  case (Suc n)
  have "low_windows cfg (low_end cfg 1 e) n" using low_windows_Suc(4,5) [OF Suc.prems(1)] by simp
  with Suc low_window [OF Suc.prems(1), of lg "fb + h_Window cfg"] show ?case by (simp add: low_end_step)
qed simp

lemma cooling_low:
  assumes "low_windows cfg e n" "he_state e = StateCooling" "0 < h_Window cfg"
  shows "empty_windows (exact lg) cfg e fb n =
    (if 0 < n \<and> time_sub (fb + int n * h_Window cfg) (he_coolingAt e) \<ge> h_Cooldown cfg
     then ([\<lparr>tr_Key = he_key e, tr_From = StateCooling, tr_To = StateCold\<rparr>],
           (low_end cfg n e)\<lparr>he_state := StateCold, he_coolingAt := 0\<rparr>)
     else ([], low_end cfg n e))"
  using assms
proof (induction n arbitrary: e fb)
  case (Suc n)
  let ?fb = "fb + h_Window cfg" and ?c = "he_coolingAt e"
  have fb: "?fb + int n * h_Window cfg = fb + int (Suc n) * h_Window cfg" by (simp add: algebra_simps)
  show ?case
  proof (cases "time_sub ?fb ?c \<ge> h_Cooldown cfg")
    case True
    have "time_sub ?fb ?c \<le> time_sub (fb + int (Suc n) * h_Window cfg) ?c"
      unfolding fb [symmetric] using Suc.prems(3) by (intro time_sub_mono) simp
    with True have "time_sub (fb + int (Suc n) * h_Window cfg) ?c \<ge> h_Cooldown cfg" by simp
    moreover have "empty_windows (exact lg) cfg ((low_end cfg 1 e)\<lparr>he_state := StateCold, he_coolingAt := 0\<rparr>) ?fb n =
        ([], low_end cfg n ((low_end cfg 1 e)\<lparr>he_state := StateCold, he_coolingAt := 0\<rparr>))"
      using low_windows_Suc(4,5) [OF Suc.prems(1)] by (intro cold_low) simp_all
    ultimately show ?thesis
      using True Suc.prems low_window [OF Suc.prems(1), of lg ?fb] by (simp add: low_end_step)
  next
    case False
    have "low_windows cfg (low_end cfg 1 e) n" using low_windows_Suc(4,5) [OF Suc.prems(1)] by simp
    with Suc.IH [of "low_end cfg 1 e" ?fb] Suc.prems(2,3) have
      "empty_windows (exact lg) cfg (low_end cfg 1 e) ?fb n =
      (if 0 < n \<and> time_sub (?fb + int n * h_Window cfg) ?c \<ge> h_Cooldown cfg
       then ([\<lparr>tr_Key = he_key e, tr_From = StateCooling, tr_To = StateCold\<rparr>],
             (low_end cfg n (low_end cfg (Suc 0) e))\<lparr>he_state := StateCold, he_coolingAt := 0\<rparr>)
       else ([], low_end cfg n (low_end cfg (Suc 0) e)))" by simp
    then show ?thesis
      using False Suc.prems low_window [OF Suc.prems(1), of lg ?fb] unfolding fb low_end_step
      by (cases "n = 0") simp_all
  qed
qed simp

lemma warm_low:
  assumes "low_windows cfg e n" "he_state e = StateWarm" "0 < he_score e" "0 \<le> beta_of cfg"
  shows "empty_windows (exact lg) cfg e fb n =
    (if 0 < n \<and> he_score e * beta_of cfg ^ n = 0
     then ([\<lparr>tr_Key = he_key e, tr_From = StateWarm, tr_To = StateCold\<rparr>], (low_end cfg n e)\<lparr>he_state := StateCold\<rparr>)
     else ([], low_end cfg n e))"
  using assms
proof (induction n arbitrary: e fb)
  case (Suc n)
  let ?fb = "fb + h_Window cfg"
  show ?case
  proof (cases "beta_of cfg = 0")
    case True
    have "empty_windows (exact lg) cfg ((low_end cfg 1 e)\<lparr>he_state := StateCold\<rparr>) ?fb n =
        ([], low_end cfg n ((low_end cfg 1 e)\<lparr>he_state := StateCold\<rparr>))"
      using low_windows_Suc(4,5) [OF Suc.prems(1)] by (intro cold_low) simp_all
    with True Suc.prems low_window [OF Suc.prems(1), of lg ?fb] show ?thesis by (simp add: low_end_step)
  next
    case False
    have "empty_windows (exact lg) cfg (low_end cfg 1 e) ?fb n = ([], low_end cfg n (low_end cfg 1 e))"
      using low_windows_Suc(4,5) [OF Suc.prems(1)] Suc.prems False
      by (subst Suc.IH) simp_all
    with False Suc.prems low_window [OF Suc.prems(1), of lg ?fb] show ?thesis by (simp add: low_end_step)
  qed
qed simp

lemma hot_low:
  assumes low: "low_windows cfg e n" and n: "0 < n" and hot: "he_state e = StateHot"
    and cfg: "0 < h_Window cfg" "0 < h_Cooldown cfg"
  shows "empty_windows (exact lg) cfg e fb n =
    (if time_sub (fb + int n * h_Window cfg) (fb + h_Window cfg) \<ge> h_Cooldown cfg
     then ([\<lparr>tr_Key = he_key e, tr_From = StateHot, tr_To = StateCooling\<rparr>,
            \<lparr>tr_Key = he_key e, tr_From = StateCooling, tr_To = StateCold\<rparr>],
           (low_end cfg n e)\<lparr>he_state := StateCold, he_coolingAt := 0\<rparr>)
     else ([\<lparr>tr_Key = he_key e, tr_From = StateHot, tr_To = StateCooling\<rparr>],
           (low_end cfg n e)\<lparr>he_state := StateCooling, he_coolingAt := fb + h_Window cfg\<rparr>))"
proof -
  obtain m where m: "n = Suc m" using n by (cases n) auto
  note low' = low [unfolded m]
  let ?start = "fb + h_Window cfg"
  let ?e = "(low_end cfg 1 e)\<lparr>he_state := StateCooling, he_coolingAt := ?start\<rparr>"
  have "low_windows cfg ?e m" using low_windows_Suc(4,5) [OF low'] by simp
  note cool = cooling_low [OF this _ cfg(1), of lg ?start]
  have fb: "?start + int m * h_Window cfg = fb + int n * h_Window cfg" by (simp add: m algebra_simps)
  have "0 < m \<and> time_sub (fb + int n * h_Window cfg) ?start \<ge> h_Cooldown cfg \<longleftrightarrow>
      time_sub (fb + int n * h_Window cfg) ?start \<ge> h_Cooldown cfg"
    using cfg(2) by (cases "m = 0") (simp_all add: m time_sub_def maxDuration_def minDuration_def)
  with cool low_window [OF low', of lg ?start] hot show ?thesis unfolding fb by (simp add: m low_end_step)
qed

section \<open>The closed form against the segments\<close>

text \<open>The closed form keeps the first score until the end and caps the hot-window count.\<close>

definition shadow :: "hconfig \<Rightarrow> rat \<Rightarrow> hot_entry \<Rightarrow> hot_entry \<Rightarrow> bool" where
  "shadow cfg s e e' \<longleftrightarrow>
     min (he_hotWindows e) (h_MinimumHotWindows cfg) = min (he_hotWindows e') (h_MinimumHotWindows cfg) \<and>
     e = e'\<lparr>he_score := s, he_hotWindows := he_hotWindows e\<rparr>"

lemma shadow_cap:
  assumes "shadow cfg s e e'" shows "cap_hot cfg (e\<lparr>he_score := he_score e'\<rparr>) = cap_hot cfg e'"
  using assms by (cases e; cases e') (simp add: shadow_def cap_hot_def)

lemma shadow_intro:
  "min w (h_MinimumHotWindows cfg) = min (he_hotWindows e') (h_MinimumHotWindows cfg) \<Longrightarrow>
   shadow cfg s (e'\<lparr>he_score := s, he_hotWindows := w\<rparr>) e'"
  by (simp add: shadow_def)

lemma shadow_cases:
  assumes "shadow cfg s e e'"
  obtains w where "e = e'\<lparr>he_score := s, he_hotWindows := w\<rparr>"
    "min w (h_MinimumHotWindows cfg) = min (he_hotWindows e') (h_MinimumHotWindows cfg)"
  using assms unfolding shadow_def by blast

lemma shadow_fields:
  assumes "shadow cfg s e e'"
  shows "he_key e = he_key e'" "he_state e = he_state e'" "he_coolingAt e = he_coolingAt e'"
    "he_lastRate e = he_lastRate e'" "he_score e = s"
  using assms by (auto elim!: shadow_cases)

lemma catchup_high_shadow:
  assumes "0 < n" "he_state e = StateHot \<or> he_state e = StateWarm \<and> he_hotWindows e < h_MinimumHotWindows cfg"
    "0 \<le> he_hotWindows e"
  shows "fst (catchup_high cfg (int n) e) = state_change (he_key e) (he_state e) (he_state (high_end cfg n e)) \<and>
    shadow cfg (he_score e) (snd (catchup_high cfg (int n) e)) (high_end cfg n e)"
  using assms by (cases e) (auto simp: catchup_high_def Let_def high_end_def shadow_def)

lemma catchup_mid_shadow:
  assumes "shadow cfg s e e'" "he_state e' \<noteq> StateCold"
  shows "fst (catchup_mid (int n) e) = [] \<and> shadow cfg s (snd (catchup_mid (int n) e))
    (e'\<lparr>he_score := x, he_hotWindows := (if n = 0 then he_hotWindows e' else 0)\<rparr>)"
  using assms by (elim shadow_cases) (auto simp: catchup_mid_def Let_def state_change_def shadow_def)

lemma catchup_low_shadow:
  assumes sh: "shadow cfg s e e'" and low: "low_windows cfg e' n" and n: "0 < n"
    and st: "he_state e' \<noteq> StateUnset" "he_state e' = StateWarm \<Longrightarrow> 0 < he_score e'"
    and cfg: "0 < h_Window cfg" "0 < h_Cooldown cfg" "0 \<le> beta_of cfg"
    and fb: "fb = first + (hw + mw) * h_Window cfg" and r: "r = hw + mw + int n"
    and fin: "fin = he_score e' * beta_of cfg ^ n"
  shows "fst (catchup_low cfg hw mw (int n) r first fin e) = fst (empty_windows (exact lg) cfg e' fb n) \<and>
    shadow cfg s (snd (catchup_low cfg hw mw (int n) r first fin e)) (snd (empty_windows (exact lg) cfg e' fb n))"
proof -
  obtain w where e: "e = e'\<lparr>he_score := s, he_hotWindows := w\<rparr>" using sh by (rule shadow_cases)
  have final: "first + r * h_Window cfg = fb + int n * h_Window cfg" by (simp add: fb r algebra_simps)
  have start: "first + (hw + mw + 1) * h_Window cfg = fb + h_Window cfg" by (simp add: fb algebra_simps)
  show ?thesis
  proof (cases "he_state e'")
    case StateUnset
    with st show ?thesis by simp
  next
    case StateCold
    with n show ?thesis
      by (simp add: catchup_low_def Let_def e cold_low [OF low] shadow_def low_end_def)
  next
    case StateWarm
    with n show ?thesis
      by (simp add: catchup_low_def Let_def e warm_low [OF low _ st(2) cfg(3)] fin shadow_def low_end_def)
  next
    case StateHot
    with n show ?thesis
      by (simp add: catchup_low_def Let_def e hot_low [OF low n _ cfg(1,2)] final start shadow_def low_end_def)
  next
    case StateCooling
    with n show ?thesis
      by (simp add: catchup_low_def Let_def e cooling_low [OF low _ cfg(1)] final shadow_def low_end_def)
  qed
qed

text \<open>What the first window establishes for the later ones.\<close>

lemma first_window:
  assumes "hot_entry_ok e" "0 \<le> he_score e" "0 < h_DemotionThreshold cfg" "applyStateLocked cfg e now = (t0, e0)"
    "h_DemotionThreshold cfg < h_PromotionThreshold cfg"
  shows "he_score e0 = he_score e" "he_state e0 \<noteq> StateUnset" "0 \<le> he_hotWindows e0"
    and "he_score e \<ge> h_PromotionThreshold cfg \<Longrightarrow>
      he_state e0 = StateHot \<or> he_state e0 = StateWarm \<and> he_hotWindows e0 < h_MinimumHotWindows cfg"
    and "he_score e \<ge> h_DemotionThreshold cfg \<Longrightarrow> he_state e0 \<noteq> StateCold"
    and "he_state e0 = StateWarm \<Longrightarrow> 0 < he_score e"
proof -
  have e: "he_state e \<noteq> StateUnset" "0 \<le> he_hotWindows e" using assms(1) by (simp_all add: hot_entry_ok_def)
  note ap = assms(4) [unfolded applyStateLocked_def Let_def]
  show "he_score e0 = he_score e" "he_state e0 \<noteq> StateUnset" "0 \<le> he_hotWindows e0"
    using ap e by (auto split: if_splits)
  show "he_score e \<ge> h_PromotionThreshold cfg \<Longrightarrow>
      he_state e0 = StateHot \<or> he_state e0 = StateWarm \<and> he_hotWindows e0 < h_MinimumHotWindows cfg"
    using ap e by (cases "he_state e") (auto split: if_splits)
  show "he_score e \<ge> h_DemotionThreshold cfg \<Longrightarrow> he_state e0 \<noteq> StateCold"
    using ap e by (cases "he_state e") (auto split: if_splits)
  show "he_state e0 = StateWarm \<Longrightarrow> 0 < he_score e"
    using ap e assms(2,3,5) by (cases "he_state e"; cases "he_score e = 0") (auto split: if_splits)
qed

definition thresholds_ok :: "hconfig \<Rightarrow> bool" where
  "thresholds_ok cfg \<longleftrightarrow> 0 < h_Window cfg \<and> 0 < h_Cooldown cfg \<and> 0 < h_EWMAAlpha cfg \<and> h_EWMAAlpha cfg \<le> 1 \<and>
     0 < h_DemotionThreshold cfg \<and> h_DemotionThreshold cfg < h_PromotionThreshold cfg \<and> 0 < h_MinimumHotWindows cfg"

text \<open>The remaining windows: high, mid and low segment composed.\<close>

lemma segments_equiv:
  fixes lg :: "rat \<Rightarrow> rat"
  assumes cfg: "thresholds_ok cfg" and rem: "0 \<le> rem"
    and e: "he_state e \<noteq> StateUnset" "0 \<le> he_hotWindows e" "he_lastRate e = 0" "he_score e = s" "0 \<le> s"
    and hi: "s \<ge> h_PromotionThreshold cfg \<Longrightarrow>
      he_state e = StateHot \<or> he_state e = StateWarm \<and> he_hotWindows e < h_MinimumHotWindows cfg"
    and mid: "s \<ge> h_DemotionThreshold cfg \<Longrightarrow> he_state e \<noteq> StateCold"
    and warm: "he_state e = StateWarm \<Longrightarrow> 0 < s"
  defines "H \<equiv> decayWindowsAtLeast (exact lg) s (beta_of cfg) (h_PromotionThreshold cfg) rem"
    and "D \<equiv> decayWindowsAtLeast (exact lg) s (beta_of cfg) (h_DemotionThreshold cfg) rem"
    and "fin \<equiv> s * beta_of cfg ^ nat rem"
  assumes 1: "catchup_high cfg H e = (t1, e1)" and 2: "catchup_mid (D - H) e1 = (t2, e2)"
    and 3: "catchup_low cfg H (D - H) (rem - D) rem fb fin e2 = (t3, e3)"
  shows "fst (empty_windows (exact lg) cfg e fb (nat rem)) = t1 @ t2 @ t3 \<and>
    cap_hot cfg (e3\<lparr>he_score := fin\<rparr>) = cap_hot cfg (snd (empty_windows (exact lg) cfg e fb (nat rem)))"
proof -
  let ?b = "beta_of cfg"
  have b: "0 \<le> ?b" "?b \<le> 1" and th: "0 < h_DemotionThreshold cfg" "h_DemotionThreshold cfg < h_PromotionThreshold cfg"
    using cfg by (simp_all add: thresholds_ok_def beta_of_def)
  note H = decayWindows_exact [OF rem e(5) less_trans [OF th] b, where lg = lg, folded H_def]
  note D = decayWindows_exact [OF rem e(5) th(1) b, where lg = lg, folded D_def]
  have HD: "H \<le> D"
  proof (cases "H \<le> 0")
    case False
    then have "s * ?b ^ nat H \<ge> h_PromotionThreshold cfg" using H(3) [of "nat H"] H(2) by simp
    then have "s * ?b ^ nat H \<ge> h_DemotionThreshold cfg" using th by simp
    then show ?thesis using D(3) [of "nat H"] H False by simp
  qed (use D in simp)
  define h m l where "h = nat H" and "m = nat (D - H)" and "l = nat (rem - D)"
  have ints: "H = int h" "D - H = int m" "rem - D = int l" and n: "nat rem = h + m + l"
    using H(1) D(2) HD by (auto simp: h_def m_def l_def)
  have pow: "s * ?b ^ k \<le> s" for k using b e(5) by (simp add: mult_left_le power_le_one)
  define e1' where "e1' = (if h = 0 then e else high_end cfg h e)"
  define e2' where "e2' = e1'\<lparr>he_score := s * ?b ^ (h + m), he_hotWindows := (if m = 0 then he_hotWindows e1' else 0)\<rparr>"
  have high: "s \<ge> h_PromotionThreshold cfg" if "0 < h"
    using H(3) [of h] pow [of h] that H(2) ints(1) by simp
  have s1: "empty_windows (exact lg) cfg e fb h = (t1, e1')" "shadow cfg s e1 e1'" "he_score e1' = s * ?b ^ h"
  proof -
    have "empty_windows (exact lg) cfg e fb h = (t1, e1') \<and> shadow cfg s e1 e1' \<and> he_score e1' = s * ?b ^ h"
    proof (cases "h = 0")
      case True
      with 1 e(4) ints show ?thesis by (simp add: catchup_high_def e1'_def shadow_def)
    next
      case False
      have "empty_windows (exact lg) cfg e fb h =
          (state_change (he_key e) (he_state e) (he_state (high_end cfg h e)), high_end cfg h e)"
        using H(2,3) ints(1) hi high False e(3,4) by (intro high_windows) simp_all
      with False 1 catchup_high_shadow [of h e cfg] hi high e(2,4) ints(1) show ?thesis
        by (simp add: e1'_def high_end_def)
    qed
    then show "empty_windows (exact lg) cfg e fb h = (t1, e1')" "shadow cfg s e1 e1'" "he_score e1' = s * ?b ^ h" by simp_all
  qed
  have lr: "he_lastRate e1' = 0" "he_state e1' \<noteq> StateUnset" using e(1,3) by (simp_all add: e1'_def high_end_def)
  have s2: "empty_windows (exact lg) cfg e1' (fb + int h * h_Window cfg) m = (t2, e2')" "shadow cfg s e2 e2'"
  proof -
    have "empty_windows (exact lg) cfg e1' (fb + int h * h_Window cfg) m = (t2, e2') \<and> shadow cfg s e2 e2'"
    proof (cases "m = 0")
      case True
      then have "e2' = e1'" using s1(3) by (simp add: e2'_def)
      with True 2 ints s1(2) show ?thesis by (simp add: catchup_mid_def)
    next
      case False
      have seg: "he_score e1' * ?b ^ k \<ge> h_DemotionThreshold cfg \<and> he_score e1' * ?b ^ k < h_PromotionThreshold cfg"
        if "1 \<le> k" "k \<le> m" for k
      proof -
        have "int (h + k) \<le> D" "\<not> int (h + k) \<le> H" "int (h + k) \<le> rem" using that ints D(2) by auto
        with D(3) [of "h + k"] H(3) [of "h + k"] that show ?thesis by (simp add: s1(3) power_add mult.assoc not_le)
      qed
      have "s \<ge> h_DemotionThreshold cfg"
        using seg [of 1] False pow [of "h + 1"] by (simp add: s1(3) mult.assoc mult.commute [of ?b])
      then have nc: "he_state e1' \<noteq> StateCold" using mid by (simp add: e1'_def high_end_def)
      show ?thesis
        using mid_windows [OF seg nc lr(1), of m lg "fb + int h * h_Window cfg"]
          catchup_mid_shadow [OF s1(2) nc, of m "s * ?b ^ (h + m)"] 2 ints(2)
        by (simp add: e2'_def s1(3) power_add mult.assoc)
    qed
    then show "empty_windows (exact lg) cfg e1' (fb + int h * h_Window cfg) m = (t2, e2')" "shadow cfg s e2 e2'" by simp_all
  qed
  have s3: "fst (empty_windows (exact lg) cfg e2' (fb + int (h + m) * h_Window cfg) l) = t3 \<and>
    shadow cfg s e3 (snd (empty_windows (exact lg) cfg e2' (fb + int (h + m) * h_Window cfg) l)) \<and>
    he_score (snd (empty_windows (exact lg) cfg e2' (fb + int (h + m) * h_Window cfg) l)) = fin"
  proof (cases "l = 0")
    case True
    with 3 ints s2(2) n show ?thesis by (simp add: catchup_low_def e2'_def fin_def)
  next
    case False
    have low: "low_windows cfg e2' l"
      unfolding low_windows_def
    proof (intro conjI ballI)
      fix k assume k: "k \<in> {1..l}"
      then have "\<not> int (h + m + k) \<le> D" "int (h + m + k) \<le> rem" using ints by auto
      with D(3) [of "h + m + k"] k show "he_score e2' * ?b ^ k < h_DemotionThreshold cfg"
        by (simp add: e2'_def power_add mult.assoc not_le)
    qed (use th lr in \<open>simp_all add: e2'_def\<close>)
    have "0 < he_score e2'" if w: "he_state e2' = StateWarm"
    proof -
      have "0 < s" using w warm high th by (cases "h = 0") (auto simp: e2'_def e1'_def)
      moreover have "?b = 0 \<Longrightarrow> h + m = 0"
        using D(3) [of 1] D(2) th(1) ints by (cases "h + m = 0") auto
      then have "0 < ?b ^ (h + m)" using b(1) by (cases "?b = 0") auto
      ultimately show ?thesis by (simp add: e2'_def)
    qed
    moreover have "fin = he_score e2' * ?b ^ l" by (simp add: fin_def e2'_def n power_add mult.assoc)
    ultimately have "t3 = fst (empty_windows (exact lg) cfg e2' (fb + int (h + m) * h_Window cfg) l) \<and>
        shadow cfg s e3 (snd (empty_windows (exact lg) cfg e2' (fb + int (h + m) * h_Window cfg) l))"
      using catchup_low_shadow [OF s2(2) low, where hw = H and mw = "D - H" and r = rem and first = fb and fin = fin
          and lg = lg and fb = "fb + int (h + m) * h_Window cfg"]
        False lr(2) cfg b(1) 3 ints by (simp add: thresholds_ok_def e2'_def)
    then show ?thesis by (simp add: empty_windows_score e2'_def fin_def n power_add mult.assoc)
  qed
  obtain e3' where 4: "empty_windows (exact lg) cfg e2' (fb + int (h + m) * h_Window cfg) l = (t3, e3')"
    using s3 by (metis prod.collapse)
  have "empty_windows (exact lg) cfg e fb (nat rem) = (t1 @ t2 @ t3, e3')"
  proof -
    have "empty_windows (exact lg) cfg e fb (h + m) = (t1 @ t2, e2')"
      using s1(1) s2(1) by (simp add: empty_windows_add)
    with 4 show ?thesis by (simp add: n empty_windows_add [of _ _ _ _ "h + m"] del: of_nat_add)
  qed
  with s3 4 show ?thesis using shadow_cap [of cfg s e3 e3'] by simp
qed

lemma advanceEntry_exact:
  assumes cfg: "thresholds_ok cfg" and e: "hot_entry_ok e" "0 \<le> he_score e" and rate: "0 \<le> rate" and n: "1 \<le> n"
  shows "fst (advanceEntryLocked (exact lg) cfg e rate n fb) = fst (window_by_window (exact lg) cfg e rate n fb) \<and>
    cap_hot cfg (snd (advanceEntryLocked (exact lg) cfg e rate n fb)) =
    cap_hot cfg (snd (window_by_window (exact lg) cfg e rate n fb))"
proof -
  define s where "s = h_EWMAAlpha cfg * rate + beta_of cfg * he_score e"
  have b: "0 \<le> beta_of cfg" using cfg by (simp add: thresholds_ok_def beta_of_def)
  have th: "0 < h_DemotionThreshold cfg" "h_DemotionThreshold cfg < h_PromotionThreshold cfg"
    using cfg by (simp_all add: thresholds_ok_def)
  have s: "0 \<le> s" using cfg e(2) rate b by (simp add: s_def thresholds_ok_def)
  let ?e = "e\<lparr>he_score := s, he_lastRate := rate\<rparr>"
  obtain t0 e0 where 0: "applyStateLocked cfg ?e fb = (t0, e0)" by fastforce
  note f = first_window [OF _ _ th(1) 0 th(2)]
  have ok: "hot_entry_ok ?e" "0 \<le> he_score ?e" using e s by simp_all
  have first: "advanceEntryLocked (exact lg) cfg e rate 1 fb = (t0, e0)"
    using 0 by (simp add: advanceEntryLocked_def Let_def s_def beta_of_def)
  show ?thesis
  proof (cases "n = 1")
    case True
    with first show ?thesis by (simp add: window_by_window_def)
  next
    case False
    define r where "r = n - 1"
    have r: "0 < r" using n False by (simp add: r_def)
    let ?z = "e0\<lparr>he_lastRate := 0\<rparr>"
    let ?H = "decayWindowsAtLeast (exact lg) s (beta_of cfg) (h_PromotionThreshold cfg) r"
    let ?D = "decayWindowsAtLeast (exact lg) s (beta_of cfg) (h_DemotionThreshold cfg) r"
    let ?fin = "s * beta_of cfg ^ nat r"
    obtain t1 e1 where 1: "catchup_high cfg ?H ?z = (t1, e1)" by fastforce
    obtain t2 e2 where 2: "catchup_mid (?D - ?H) e1 = (t2, e2)" by fastforce
    obtain t3 e3 where 3: "catchup_low cfg ?H (?D - ?H) (r - ?D) r fb ?fin e2 = (t3, e3)" by fastforce
    have eq: "advanceEntryLocked (exact lg) cfg e rate n fb = (t0 @ t1 @ t2 @ t3, e3\<lparr>he_score := ?fin\<rparr>)"
      using 0 1 2 3 False by (simp add: advanceEntryLocked_def Let_def s_def beta_of_def r_def)
    have seg: "fst (empty_windows (exact lg) cfg ?z fb (nat r)) = t1 @ t2 @ t3 \<and>
        cap_hot cfg (e3\<lparr>he_score := ?fin\<rparr>) = cap_hot cfg (snd (empty_windows (exact lg) cfg ?z fb (nat r)))"
      using f [OF ok] s r by (intro segments_equiv [OF cfg _ _ _ _ _ _ _ _ _ 1 2 3]) simp_all
    have skip: "empty_windows (exact lg) cfg e0 fb (nat r) = empty_windows (exact lg) cfg ?z fb (nat r)"
    proof -
      obtain m where "nat r = Suc m" using r by (cases "nat r") auto
      then show ?thesis by (simp only: empty_windows.simps empty_window_exact) simp
    qed
    have "window_by_window (exact lg) cfg e rate n fb =
        (t0 @ fst (empty_windows (exact lg) cfg ?z fb (nat r)), snd (empty_windows (exact lg) cfg ?z fb (nat r)))"
      using first skip by (simp add: window_by_window_def r_def split_def Let_def)
    with eq seg show ?thesis by simp
  qed
qed

section \<open>Property\<close>

text \<open>
  C11: Catching up on any number of elapsed windows with the closed form (threshold counts from one
  logarithm each, then three segments) gives the same transitions in the same order and the same
  entry as advancing one window at a time, first with the observed rate and then with empty
  windows. Exact arithmetic, for every logarithm function; hot-window counts are compared up to
  the required minimum, beyond which the closed form stops counting.
\<close>

theorem catchup_window_by_window:
  assumes "thresholds_ok cfg" "hot_entry_ok e" "0 \<le> he_score e" "0 \<le> rate" "1 \<le> n"
  shows "fst (advanceEntryLocked (exact lg) cfg e rate n fb) = fst (window_by_window (exact lg) cfg e rate n fb) \<and>
    cap_hot cfg (snd (advanceEntryLocked (exact lg) cfg e rate n fb)) =
    cap_hot cfg (snd (window_by_window (exact lg) cfg e rate n fb))"
  by (rule advanceEntry_exact [OF assms])

definition sample_cfg :: hconfig where
  "sample_cfg = \<lparr>h_Window = second, h_EWMAAlpha = 1 / 2, h_PromotionThreshold = 10, h_DemotionThreshold = 4,
     h_MinimumHotWindows = 2, h_Cooldown = 3 * second, h_MaxTrackedKeys = 2\<rparr>"

theorem catchup_window_by_window_witness:
  "let e = (fresh_entry ''k'' 0)\<lparr>he_score := 8\<rparr>;
       r = advanceEntryLocked (exact (\<lambda>_. 1)) sample_cfg e 72 8 second
   in map tr_To (fst r) = [StateWarm, StateHot, StateCooling, StateCold] \<and>
     fst r = fst (window_by_window (exact (\<lambda>_. 1)) sample_cfg e 72 8 second)"
proof -
  have "thresholds_ok sample_cfg" "hot_entry_ok ((fresh_entry ''k'' 0)\<lparr>he_score := 8\<rparr>)"
    by (simp_all add: thresholds_ok_def sample_cfg_def second_def hot_entry_ok_def fresh_entry_def MaxTrackedKeyBytes_def)
  from catchup_window_by_window [OF this, of 72 8 "\<lambda>_. 1" second]
  have "fst (advanceEntryLocked (exact (\<lambda>_. 1)) sample_cfg ((fresh_entry ''k'' 0)\<lparr>he_score := 8\<rparr>) 72 8 second) =
     fst (window_by_window (exact (\<lambda>_. 1)) sample_cfg ((fresh_entry ''k'' 0)\<lparr>he_score := 8\<rparr>) 72 8 second)"
    by (simp add: fresh_entry_def)
  moreover have "map tr_To (fst (advanceEntryLocked (exact (\<lambda>_. 1)) sample_cfg
      ((fresh_entry ''k'' 0)\<lparr>he_score := 8\<rparr>) 72 8 second)) = [StateWarm, StateHot, StateCooling, StateCold]"
    by code_simp
  ultimately show ?thesis by (simp add: Let_def)
qed

end
