(* ===== verification/HotnessFloat.thy ===== *)
theory HotnessFloat
  imports HotnessProps Catchup
begin

text \<open>
  What the tracker computes with \<^verbatim>\<open>float64\<close>. The locale \<open>nonneg_arith\<close> extends \<open>rounding\<close> by
  the sign of \<^verbatim>\<open>math.Pow\<close>; it gives non-negative scores over every run and the soundness of the early
  promotion. It is interpreted for IEEE arithmetic and for exact arithmetic.
\<close>

section \<open>Scores under rounding\<close>

definition scores_ok :: "tracker \<Rightarrow> bool" where
  "scores_ok t \<longleftrightarrow> (\<forall>e \<in> set (t_admissionRing t). 0 \<le> he_score e)"

definition window_rate :: "arith \<Rightarrow> hconfig \<Rightarrow> int \<Rightarrow> rat" where
  "window_rate a cfg n = fdiv a (of_i64 a n) (seconds a (h_Window cfg))"

lemma advance_score:
  "he_score (snd (advanceEntryLocked a cfg e rate n fb)) =
   (let beta = fsub a 1 (h_EWMAAlpha cfg);
        fs = fadd a (fmul a (h_EWMAAlpha cfg) rate) (fmul a beta (he_score e))
    in if n = 1 then fs else fmul a fs (powf a beta (of_i64 a (n - 1))))"
  using applyState_score [of cfg "e\<lparr>he_score := fadd a (fmul a (h_EWMAAlpha cfg) rate)
      (fmul a (fsub a 1 (h_EWMAAlpha cfg)) (he_score e)), he_lastRate := rate\<rparr>" fb]
  by (simp add: advanceEntryLocked_def Let_def split_def)

locale nonneg_arith = rounding "rnd a" for a :: arith +
  assumes pow_nonneg: "0 \<le> x \<Longrightarrow> 0 \<le> powf a x y"
begin

lemma beta_nonneg: "alpha \<le> 1 \<Longrightarrow> 0 \<le> fsub a 1 alpha"
  by (simp add: fsub_def r_nonneg)

lemma seconds_nonneg: "0 \<le> d \<Longrightarrow> 0 \<le> seconds a d"
  unfolding seconds_def fadd_def fdiv_def of_i64_def
  by (intro r_nonneg add_nonneg_nonneg divide_nonneg_nonneg) (simp_all add: second_def pos_imp_zdiv_nonneg_iff)

lemma rate_mono:
  "0 \<le> c \<Longrightarrow> c \<le> c' \<Longrightarrow> 0 < h_Window cfg \<Longrightarrow>
   0 \<le> window_rate a cfg c \<and> window_rate a cfg c \<le> window_rate a cfg c'"
  using seconds_nonneg [of "h_Window cfg"]
  by (auto simp: window_rate_def fdiv_def of_i64_def intro!: r_nonneg r_mono divide_nonneg_nonneg divide_right_mono)

lemma advance_score_nonneg:
  assumes "0 < h_EWMAAlpha cfg" "h_EWMAAlpha cfg \<le> 1" "0 \<le> rate" "0 \<le> he_score e"
  shows "0 \<le> he_score (snd (advanceEntryLocked a cfg e rate n fb))"
proof -
  have b: "0 \<le> fsub a 1 (h_EWMAAlpha cfg)" using assms by (simp add: beta_nonneg)
  have fs: "0 \<le> fadd a (fmul a (h_EWMAAlpha cfg) rate) (fmul a (fsub a 1 (h_EWMAAlpha cfg)) (he_score e))"
    using assms b unfolding fadd_def fmul_def by (intro ewma_nonneg) simp_all
  then show ?thesis
    using pow_nonneg [OF b] by (simp add: advance_score Let_def) (simp add: fmul_def r_nonneg)
qed

lemma advance_scores:
  assumes inv: "tracker_inv t" and ok: "scores_ok t"
  shows "scores_ok (snd (advanceLocked a t now))"
proof -
  have cfg: "0 < h_EWMAAlpha (t_cfg t)" "h_EWMAAlpha (t_cfg t) \<le> 1" "0 < h_Window (t_cfg t)"
    using inv by (simp_all add: tracker_inv_def config_ok_def)
  have "0 \<le> he_score (snd (advance_one a (t_cfg t) n fb e))" if "e \<in> set (t_admissionRing t)" for e n fb
  proof -
    have "0 \<le> he_count e" using inv that by (simp add: tracker_inv_def hot_entry_ok_def)
    then have "0 \<le> fdiv a (of_i64 a (he_count e)) (seconds a (h_Window (t_cfg t)))"
      using rate_mono [of "he_count e" "he_count e" "t_cfg t"] cfg by (simp add: window_rate_def)
    then show ?thesis
      using advance_score_nonneg [OF cfg(1,2)] ok that by (simp add: advance_one_def scores_ok_def split_def)
  qed
  with ok show ?thesis by (simp add: advanceLocked_spec [OF inv] Let_def scores_ok_def)
qed

lemma scores_update:
  "scores_ok t \<Longrightarrow> 0 \<le> he_score e \<Longrightarrow> t_admissionRing u = (t_admissionRing t)[i := e] \<Longrightarrow> scores_ok u"
  using set_update_subset_insert [of "t_admissionRing t" i e] by (auto simp: scores_ok_def)

lemma getOrCreate_scores:
  assumes inv: "tracker_inv t" and ok: "scores_ok t" and g: "getOrCreateLocked t key now = (r, tr, t')"
  shows "scores_ok t'"
proof (rule getOrCreate_cases [OF inv, of key now], goal_cases)
  case (2 u)
  with g ok show ?case by (auto simp: scores_ok_def fresh_entry_def)
next
  case (4 v victim u)
  have "t' = u" using g 4(6) by simp
  then have "t_admissionRing t' = (t_admissionRing t)[v := fresh_entry key now]" by (simp add: 4(7))
  then show ?case by (intro scores_update [OF ok]) (simp_all add: fresh_entry_def)
qed (use g ok in \<open>auto simp: scores_ok_def\<close>)

lemma commit_scores:
  assumes ok: "scores_ok t" and i: "i < length (t_admissionRing t)"
  shows "scores_ok (snd (commitGuaranteedPromotionLocked b t i))"
proof -
  let ?e = "t_admissionRing t ! i"
  have "0 \<le> he_score (?e\<lparr>he_state := StateHot, he_hotWindows := he_hotWindows ?e + 1\<rparr>)"
    using ok i by (simp add: scores_ok_def)
  from scores_update [OF ok this] ok show ?thesis
    by (simp add: commitGuaranteedPromotionLocked_def Let_def)
qed

lemma Observe_scores:
  assumes inv: "tracker_inv t" and ok: "scores_ok t"
  shows "scores_ok (snd (ObserveWithState a t now key))"
proof -
  obtain trs u where adv: "advanceLocked a t now = (trs, u)" by fastforce
  have u: "tracker_inv u" "scores_ok u"
    using advance_inv [OF inv, of a now] advance_scores [OF inv ok, of now] adv by simp_all
  show ?thesis
  proof (cases "key = [] \<or> length key > MaxTrackedKeyBytes")
    case True
    with adv u show ?thesis by (auto simp: ObserveWithState_def Let_def scores_ok_def)
  next
    case False
    then have key: "key \<noteq> []" "length key \<le> MaxTrackedKeyBytes" by auto
    obtain r tr v where g: "getOrCreateLocked u key now = (r, tr, v)" by (metis prod_cases3)
    have v: "scores_ok v" by (rule getOrCreate_scores [OF u g])
    show ?thesis
    proof (cases r)
      case None
      with False adv g v show ?thesis by (simp add: ObserveWithState_def)
    next
      case (Some i)
      have i: "i < length (t_admissionRing v)" using getOrCreate_inv(2) [OF u(1) key g Some] by simp
      let ?e = "(t_admissionRing v ! i)\<lparr>he_count := he_count (t_admissionRing v ! i) + 1, he_lastSeen := now\<rparr>"
      have "0 \<le> he_score ?e" using v i by (simp add: scores_ok_def)
      then have "scores_ok (v\<lparr>t_admissionRing := (t_admissionRing v)[i := ?e]\<rparr>)"
        by (rule scores_update [OF v]) simp
      from commit_scores [OF this, of i a] i Some False adv g show ?thesis
        by (simp add: ObserveWithState_def Let_def split_def)
    qed
  qed
qed

lemma Admit_scores:
  assumes inv: "tracker_inv t" and ok: "scores_ok t"
  shows "scores_ok (snd (Admit a t now key))"
proof -
  obtain trs u where adv: "advanceLocked a t now = (trs, u)" by fastforce
  have u: "tracker_inv u" "scores_ok u"
    using advance_inv [OF inv, of a now] advance_scores [OF inv ok, of now] adv by simp_all
  show ?thesis
  proof (cases "map_of (t_items u) key")
    case (Some i)
    then have i: "i < length (t_admissionRing u)" using inv_index [OF u(1)] by simp
    let ?e = "(t_admissionRing u ! i)\<lparr>he_state := StateHot, he_hotWindows := 0, he_coolingAt := 0\<rparr>"
    have "0 \<le> he_score ?e" using u(2) i by (simp add: scores_ok_def)
    from scores_update [OF u(2) this] Some adv u(2) show ?thesis by (simp add: Admit_def Let_def)
  qed (use adv u in \<open>simp add: Admit_def\<close>)
qed

lemma apply_scores:
  assumes "tracker_inv t" "scores_ok t" shows "scores_ok (snd (tracker_apply a t op))"
  using Observe_scores [OF assms] Admit_scores [OF assms] advance_scores [OF assms]
  by (cases op) (simp_all add: observed_def Advance_def AdvanceAndSnapshot_advance)

lemma run_scores: "tracker_inv t \<Longrightarrow> scores_ok t \<Longrightarrow> scores_ok (snd (tracker_run a t ops))"
proof (induction ops arbitrary: t)
  case (Cons op ops)
  have "tracker_inv (snd (tracker_apply a t op))"
    using apply_step [OF Cons.prems(1), of a op] by (simp add: tracker_step_def)
  from Cons.IH [OF this apply_scores [OF Cons.prems]] show ?case by (simp add: split_def Let_def)
qed simp

text \<open>
  An entry that satisfies the condition of the early promotion with its current count becomes
  HOT at the boundary with every larger count.
\<close>

lemma promotion_guaranteed:
  assumes cfg: "config_ok cfg" and e: "0 \<le> he_score e" "0 \<le> he_count e" "he_count e \<le> c"
    and hw: "h_MinimumHotWindows cfg \<le> he_hotWindows e + 1"
    and floor: "h_PromotionThreshold cfg \<le> fadd a (fmul a (h_EWMAAlpha cfg) (window_rate a cfg (he_count e)))
        (fmul a (fsub a 1 (h_EWMAAlpha cfg)) (he_score e))"
  shows "he_state (snd (advanceEntryLocked a cfg e (window_rate a cfg c) 1 fb)) = StateHot"
proof -
  have c: "0 < h_EWMAAlpha cfg" "h_EWMAAlpha cfg \<le> 1" "0 < h_Window cfg" using cfg by (simp_all add: config_ok_def)
  note floor
  also have "fadd a (fmul a (h_EWMAAlpha cfg) (window_rate a cfg (he_count e)))
        (fmul a (fsub a 1 (h_EWMAAlpha cfg)) (he_score e)) \<le>
      fadd a (fmul a (h_EWMAAlpha cfg) (window_rate a cfg c)) (fmul a (fsub a 1 (h_EWMAAlpha cfg)) (he_score e))"
    unfolding fadd_def fmul_def using rate_mono [OF e(2,3) c(3)] beta_nonneg [OF c(2)] c e
    by (intro ewma_mono) simp_all
  finally have "h_PromotionThreshold cfg \<le> \<dots>" .
  with hw show ?thesis by (simp add: advanceEntryLocked_def applyStateLocked_def Let_def)
qed

end

subsection \<open>Interpretations\<close>

lemma go_pow_loop_nonneg:
  assumes "0 \<le> a1" "0 \<le> x1" shows "0 \<le> fst (go_pow_loop round64 i a1 ae x1 xe)"
  using assms
proof (induction i arbitrary: a1 ae x1 xe rule: less_induct)
  case (less i)
  let ?y = "round64 (x1 * x1)"
  let ?a = "if odd i then round64 (a1 * x1) else a1" and ?ae = "if odd i then ae + xe else ae"
  let ?x = "if ?y < 1 / 2 then round64 (?y + ?y) else ?y" and ?xe = "if ?y < 1 / 2 then 2 * xe - 1 else 2 * xe"
  show ?case
  proof (cases "i = 0 \<or> xe < - (2 ^ 12) \<or> 2 ^ 12 < xe")
    case True
    then have "go_pow_loop round64 i a1 ae x1 xe = (a1, if i = 0 then ae else ae + xe)"
      by (subst go_pow_loop.simps) (auto simp del: go_pow_loop.simps)
    with less.prems show ?thesis by (simp del: go_pow_loop.simps)
  next
    case False
    have "0 \<le> ?a" "0 \<le> ?x" using less.prems by (simp_all add: ieee.r_nonneg)
    moreover have "go_pow_loop round64 i a1 ae x1 xe = go_pow_loop round64 (i div 2) ?a ?ae ?x ?xe"
      using False by (subst go_pow_loop.simps) (simp add: Let_def del: go_pow_loop.simps)
    ultimately show ?thesis using less.IH [of "i div 2"] False by (simp del: go_pow_loop.simps)
  qed
qed

lemma go_pow_nonneg: "0 \<le> x \<Longrightarrow> 0 \<le> go_pow x y"
  using go_pow_loop_nonneg [of 1 "x / pow2 (ilog2 x + 1)" "nat \<lfloor>y\<rfloor>" 0 "ilog2 x + 1"]
  by (simp add: go_pow_def Let_def split_def ieee.r_nonneg del: go_pow_loop.simps)

interpretation f64: nonneg_arith "f64 lg" for lg
  by unfold_locales (simp_all add: f64_def ieee.r_mono ieee.r_0 ieee.r_1 go_pow_nonneg)

interpretation exact_arith: nonneg_arith "exact lg" for lg
  by unfold_locales simp_all

section \<open>Properties\<close>

text \<open>Observing a tracked key while the window is open.\<close>

lemma observe_open_window:
  assumes inv: "tracker_inv t" and now: "now < t_window t + h_Window (t_cfg t)"
    and e: "tracked t key = Some e"
  defines "e' \<equiv> e\<lparr>he_count := he_count e + 1, he_lastSeen := now\<rparr>"
  shows "o_State (fst (ObserveWithState a t now key)) =
    (if he_state e = StateWarm \<and> 0 < he_hotWindows e \<and> h_MinimumHotWindows (t_cfg t) \<le> he_hotWindows e + 1 \<and>
        h_PromotionThreshold (t_cfg t) \<le> fadd a (fmul a (h_EWMAAlpha (t_cfg t)) (window_rate a (t_cfg t) (he_count e')))
          (fmul a (fsub a 1 (h_EWMAAlpha (t_cfg t))) (he_score e'))
     then StateHot else he_state e)"
proof -
  obtain i where i: "map_of (t_items t) key = Some i" "e = t_admissionRing t ! i" using e by (auto simp: tracked_def)
  then have il: "i < length (t_admissionRing t)" "key = he_key e" using inv_index [OF inv] by auto
  then have "hot_entry_ok e" using inv i by (simp add: tracker_inv_def)
  with il have "key \<noteq> []" "length key \<le> MaxTrackedKeyBytes" by (simp_all add: hot_entry_ok_def)
  with i il now show ?thesis
    by (simp add: ObserveWithState_def advanceLocked_def getOrCreateLocked_def
        commitGuaranteedPromotionLocked_def Let_def window_rate_def e'_def not_le not_less split_def)
qed

text \<open>
  C13: The early promotion is sound under IEEE double rounding. When an observation inside an open
  window turns a WARM key HOT before the window has ended, the key would have become HOT at the end
  of that window anyway: for every final count of the window from the current one on, closing
  the window on the entry as it was before the promotion gives state HOT.
\<close>

theorem early_promotion_sound:
  assumes "t = snd (tracker_run (f64 lg) (New_tracker cfg start) ops)"
    and "now < t_window t + h_Window (t_cfg t)" "tracked t key = Some e" "he_state e = StateWarm"
    and "o_State (fst (ObserveWithState (f64 lg) t now key)) = StateHot" "he_count e + 1 \<le> c"
  shows "he_state (snd (advanceEntryLocked (f64 lg) (t_cfg t) e (window_rate (f64 lg) (t_cfg t) c) 1
    (t_window t + h_Window (t_cfg t)))) = StateHot"
proof -
  have inv: "tracker_inv t" using run_New [of cfg start "f64 lg" ops] assms(1) by (simp add: tracker_step_def)
  have "scores_ok t"
    unfolding assms(1) using New_tracker_inv
    by (intro f64.run_scores) (simp_all add: scores_ok_def New_tracker_def Let_def)
  moreover have mem: "e \<in> set (t_admissionRing t)" using assms(3) by (simp add: tracked_Some [OF inv])
  ultimately have score: "0 \<le> he_score e" by (simp add: scores_ok_def)
  have cfg: "config_ok (t_cfg t)" and e: "hot_entry_ok e" using inv mem by (simp_all add: tracker_inv_def)
  let ?e = "e\<lparr>he_count := he_count e + 1, he_lastSeen := now\<rparr>"
  have "he_state (snd (advanceEntryLocked (f64 lg) (t_cfg t) ?e (window_rate (f64 lg) (t_cfg t) c) 1
      (t_window t + h_Window (t_cfg t)))) = StateHot"
    using assms(4,5) observe_open_window [OF inv assms(2,3), of "f64 lg"] score e assms(6) cfg
    by (intro f64.promotion_guaranteed) (auto simp: hot_entry_ok_def split: if_splits)
  then show ?thesis by (simp add: advanceEntryLocked_def applyStateLocked_def Let_def split: if_splits)
qed

definition warm_cfg :: hconfig where
  "warm_cfg = sample_cfg\<lparr>h_PromotionThreshold := 1 / 2, h_DemotionThreshold := 1 / 4\<rparr>"

definition warm_ops :: "tracker_op list" where
  "warm_ops = [OpObserve 0 ''k'', OpAdvance second]"

definition warm_tracker :: tracker where
  "warm_tracker = snd (tracker_run (f64 (\<lambda>_. 0)) (New_tracker warm_cfg 0) warm_ops)"

lemma warm_tracker_facts:
  "second < t_window warm_tracker + h_Window (t_cfg warm_tracker)"
  "map_option (\<lambda>e. (he_state e, he_count e)) (tracked warm_tracker ''k'') = Some (StateWarm, 0)"
  "o_State (fst (ObserveWithState (f64 (\<lambda>_. 0)) warm_tracker second ''k'')) = StateHot"
  by code_simp+

theorem early_promotion_sound_witness:
  "\<exists>e. tracked warm_tracker ''k'' = Some e \<and> he_state e = StateWarm \<and>
     he_state (snd (advanceEntryLocked (f64 (\<lambda>_. 0)) (t_cfg warm_tracker) e
       (window_rate (f64 (\<lambda>_. 0)) (t_cfg warm_tracker) 5) 1
       (t_window warm_tracker + h_Window (t_cfg warm_tracker)))) = StateHot"
proof -
  obtain e where e: "tracked warm_tracker ''k'' = Some e" "he_state e = StateWarm" "he_count e = 0"
    using warm_tracker_facts(2) by auto
  with early_promotion_sound [OF warm_tracker_def warm_tracker_facts(1) e(1,2) warm_tracker_facts(3), of 5]
  show ?thesis by simp
qed

text \<open>
  C26: In \<^verbatim>\<open>float64\<close> arithmetic \<^verbatim>\<open>decayWindowsAtLeast\<close> returns a crossing point of the decayed
  score: between 0 and \<^verbatim>\<open>maxWindows\<close>, the computed score reaches the threshold there and no longer
  one window later. No accuracy of \<^verbatim>\<open>math.Log\<close> is assumed; the two correction loops repair
  any estimate.
\<close>

theorem decayWindows_float_crossing:
  assumes "0 < maxWindows" "0 < initial" "0 < threshold" "0 < decay" "decay \<le> 1"
  shows "let r = decayWindowsAtLeast (f64 lg) initial decay threshold maxWindows
    in 0 \<le> r \<and> r \<le> maxWindows \<and>
      (0 < r \<longrightarrow> reaches (f64 lg) initial decay threshold r) \<and>
      (r < maxWindows \<longrightarrow> \<not> reaches (f64 lg) initial decay threshold (r + 1))"
  using decayWindows_crossing [OF assms, of "f64 lg"]
  by (simp add: Let_def f64_def of_i64_def round64_1 go_pow_def)

lemma reaches_sample:
  "fmul (f64 (\<lambda>_. 1)) 8 (powf (f64 (\<lambda>_. 1)) (1 / 2) (of_i64 (f64 (\<lambda>_. 1)) 1)) = 4"
  "fmul (f64 (\<lambda>_. 1)) 8 (powf (f64 (\<lambda>_. 1)) (1 / 2) (of_i64 (f64 (\<lambda>_. 1)) 2)) = 2"
  "fmul (f64 (\<lambda>_. 1)) 8 (powf (f64 (\<lambda>_. 1)) (1 / 2) (of_i64 (f64 (\<lambda>_. 1)) 3)) = 1"
  "fmul (f64 (\<lambda>_. 1)) 8 (1 / 2) = 4" "fdiv (f64 (\<lambda>_. 1)) 1 1 = 1"
  by code_simp+

lemma decay_sample: "decayWindowsAtLeast (f64 (\<lambda>_. 1)) 8 (1 / 2) 3 3 = 1"
proof -
  have "logf (f64 (\<lambda>_. 1)) x = 1" for x by (simp add: f64_def)
  moreover have "decay_down (\<lambda>n. 3 \<le> fmul (f64 (\<lambda>_. 1)) 8 (powf (f64 (\<lambda>_. 1)) (1 / 2) (of_i64 (f64 (\<lambda>_. 1)) n))) 1 = 1"
    by (subst decay_down.simps) (simp add: reaches_sample)
  moreover have "decay_up (\<lambda>n. 3 \<le> fmul (f64 (\<lambda>_. 1)) 8 (powf (f64 (\<lambda>_. 1)) (1 / 2) (of_i64 (f64 (\<lambda>_. 1)) n))) 3 1 = 1"
    by (subst decay_up.simps) (simp add: reaches_sample)
  ultimately show ?thesis by (simp add: decayWindowsAtLeast_def Let_def reaches_sample)
qed

theorem decayWindows_float_crossing_witness:
  "decayWindowsAtLeast (f64 (\<lambda>_. 1)) 8 (1 / 2) 3 3 = 1 \<and>
   reaches (f64 (\<lambda>_. 1)) 8 (1 / 2) 3 1 \<and> \<not> reaches (f64 (\<lambda>_. 1)) 8 (1 / 2) 3 2"
  using decayWindows_float_crossing [of 3 8 3 "1 / 2" "\<lambda>_. 1"] by (simp add: Let_def decay_sample)

end
