(* ===== verification/GoStd.thy ===== *)
theory GoStd
  imports Float64
begin

text \<open>
  The parts of Go's standard library the configuration, the compatibility catalog and the proxy
  call: string case mapping and trimming (\<^verbatim>\<open>strings\<close>, \<^verbatim>\<open>bytes\<close>), \<^verbatim>\<open>strconv.Atoi\<close> and
  \<^verbatim>\<open>ParseBool\<close>, \<^verbatim>\<open>time.ParseDuration\<close> and \<^verbatim>\<open>net.SplitHostPort\<close>. Strings are byte lists. Case mapping
  is exact on ASCII strings; the Unicode tables that other strings need are the argument \<open>u\<close>.
\<close>

section \<open>Case mapping\<close>

record unicode =
  u_upper :: "bytes \<Rightarrow> bytes"
  u_lower :: "bytes \<Rightarrow> bytes"
  u_fold :: "bytes \<Rightarrow> bytes \<Rightarrow> bool"

definition code :: "char \<Rightarrow> nat" where
  "code c = of_char c"

definition ascii :: "bytes \<Rightarrow> bool" where
  "ascii s \<longleftrightarrow> list_all (\<lambda>c. code c < 128) s"

definition upper_char :: "char \<Rightarrow> char" where
  "upper_char c = (if 97 \<le> code c \<and> code c \<le> 122 then char_of (code c - 32) else c)"

definition lower_char :: "char \<Rightarrow> char" where
  "lower_char c = (if 65 \<le> code c \<and> code c \<le> 90 then char_of (code c + 32) else c)"

definition ToUpper :: "unicode \<Rightarrow> bytes \<Rightarrow> bytes" where
  "ToUpper u s = (if ascii s then map upper_char s else u_upper u s)"

definition ToLower :: "unicode \<Rightarrow> bytes \<Rightarrow> bytes" where
  "ToLower u s = (if ascii s then map lower_char s else u_lower u s)"

definition EqualFold :: "unicode \<Rightarrow> bytes \<Rightarrow> bytes \<Rightarrow> bool" where
  "EqualFold u s t =
     (if ascii s \<and> ascii t then map lower_char s = map lower_char t else u_fold u s t)"

section \<open>Trimming\<close>

text \<open>The UTF-8 encodings of the runes for which \<^verbatim>\<open>unicode.IsSpace\<close> holds.\<close>

definition go_spaces :: "bytes list" where
  "go_spaces =
     [[CHR 0x20], [CHR 0x09], [CHR 0x0A], [CHR 0x0B], [CHR 0x0C], [CHR 0x0D],
      [CHR 0xC2, CHR 0x85], [CHR 0xC2, CHR 0xA0], [CHR 0xE1, CHR 0x9A, CHR 0x80]] @
     map (\<lambda>c. [CHR 0xE2, CHR 0x80, c])
       [CHR 0x80, CHR 0x81, CHR 0x82, CHR 0x83, CHR 0x84, CHR 0x85, CHR 0x86, CHR 0x87, CHR 0x88,
        CHR 0x89, CHR 0x8A, CHR 0xA8, CHR 0xA9, CHR 0xAF] @
     [[CHR 0xE2, CHR 0x81, CHR 0x9F], [CHR 0xE3, CHR 0x80, CHR 0x80]]"

definition starts_with :: "bytes \<Rightarrow> bytes \<Rightarrow> bool" where
  "starts_with s p \<longleftrightarrow> take (length p) s = p"

function strip :: "bytes list \<Rightarrow> bytes \<Rightarrow> bytes" where
  "strip ps s =
     (case find (\<lambda>p. p \<noteq> [] \<and> starts_with s p) ps of
        None \<Rightarrow> s
      | Some p \<Rightarrow> strip ps (drop (length p) s))"
  by pat_completeness auto
termination
proof (relation "measure (\<lambda>(ps, s). length s)", goal_cases)
  case (2 ps s p)
  then have "p \<noteq> []" "starts_with s p" by (auto simp: find_Some_iff)
  then have "s \<noteq> []" by (cases s) (auto simp: starts_with_def)
  with \<open>p \<noteq> []\<close> show ?case by simp
qed simp

declare strip.simps [simp del]

definition TrimSpace :: "bytes \<Rightarrow> bytes" where
  "TrimSpace s = rev (strip (map rev go_spaces) (rev (strip go_spaces s)))"

section \<open>Numbers\<close>

definition is_digit :: "char \<Rightarrow> bool" where
  "is_digit c \<longleftrightarrow> 48 \<le> code c \<and> code c \<le> 57"

definition digit_val :: "char \<Rightarrow> int" where
  "digit_val c = int (code c) - 48"

definition decimal :: "bytes \<Rightarrow> int" where
  "decimal s = foldl (\<lambda>x c. 10 * x + digit_val c) 0 s"

definition minInt :: int where "minInt = - (2 ^ 63)"
definition maxInt :: int where "maxInt = 2 ^ 63 - 1"

definition Atoi :: "bytes \<Rightarrow> int option" where
  "Atoi s =
     (let (neg, ds) = (case s of [] \<Rightarrow> (False, []) | c # cs \<Rightarrow>
            if c = CHR ''-'' then (True, cs) else if c = CHR ''+'' then (False, cs) else (False, s))
      in if ds = [] \<or> \<not> list_all is_digit ds then None
         else let x = (if neg then - decimal ds else decimal ds)
              in if minInt \<le> x \<and> x \<le> maxInt then Some x else None)"

definition ParseBool :: "bytes \<Rightarrow> bool option" where
  "ParseBool s =
     (if s \<in> {''1'', ''t'', ''T'', ''TRUE'', ''true'', ''True''} then Some True
      else if s \<in> {''0'', ''f'', ''F'', ''FALSE'', ''false'', ''False''} then Some False
      else None)"

text \<open>Decimal printing, as \<^verbatim>\<open>fmt\<close> does for \<^verbatim>\<open>%d\<close>.\<close>

definition digit_char :: "nat \<Rightarrow> char" where
  "digit_char d = char_of (48 + d)"

fun show_nat :: "nat \<Rightarrow> bytes" where
  "show_nat n = (if n < 10 then [digit_char n] else show_nat (n div 10) @ [digit_char (n mod 10)])"

declare show_nat.simps [simp del]

definition show_int :: "int \<Rightarrow> bytes" where
  "show_int n = (if n < 0 then CHR ''-'' # show_nat (nat (- n)) else show_nat (nat n))"

section \<open>\<^verbatim>\<open>time.ParseDuration\<close>\<close>

text \<open>\<open>None\<close> is the overflow error of \<^verbatim>\<open>leadingInt\<close>; digits are consumed from the front.\<close>

fun leadingInt :: "int \<Rightarrow> bytes \<Rightarrow> (int \<times> bytes) option" where
  "leadingInt x [] = Some (x, [])"
| "leadingInt x (c # s) =
     (if \<not> is_digit c then Some (x, c # s)
      else if x > 2 ^ 63 div 10 then None
      else let x = x * 10 + digit_val c in if x > 2 ^ 63 then None else leadingInt x s)"

fun leadingFraction :: "bool \<Rightarrow> int \<Rightarrow> rat \<Rightarrow> bytes \<Rightarrow> int \<times> rat \<times> bytes" where
  "leadingFraction overflow x scale [] = (x, scale, [])"
| "leadingFraction overflow x scale (c # s) =
     (if \<not> is_digit c then (x, scale, c # s)
      else if overflow then leadingFraction True x scale s
      else if x > (2 ^ 63 - 1) div 10 then leadingFraction True x scale s
      else let y = x * 10 + digit_val c
           in if y > 2 ^ 63 then leadingFraction True x scale s
              else leadingFraction False y (round64 (scale * 10)) s)"

definition unit_of :: "bytes \<Rightarrow> int option" where
  "unit_of s = map_of
     [(''ns'', 1), (''us'', 1000), ([CHR 0xC2, CHR 0xB5, CHR ''s''], 1000),
      ([CHR 0xCE, CHR 0xBC, CHR ''s''], 1000), (''ms'', 1000000), (''s'', 1000000000),
      (''m'', 60 * 1000000000), (''h'', 3600 * 1000000000)] s"

text \<open>One component \<^verbatim>\<open>[0-9]*(\.[0-9]*)?[a-z]+\<close>: its value in nanoseconds and the rest.\<close>

definition parse_component :: "bytes \<Rightarrow> (int \<times> bytes) option" where
  "parse_component s =
     (case s of [] \<Rightarrow> None | c # _ \<Rightarrow>
        if \<not> (c = CHR ''.'' \<or> is_digit c) then None
        else case leadingInt 0 s of None \<Rightarrow> None | Some (v, s1) \<Rightarrow>
          let pre = (length s1 \<noteq> length s);
              (f, scale, s2, post) =
                (case s1 of [] \<Rightarrow> (0, 1, s1, False) | c1 # r \<Rightarrow>
                   if c1 = CHR ''.'' then
                     let (f, scale, r') = leadingFraction False 0 1 r in (f, scale, r', length r' \<noteq> length r)
                   else (0, 1, s1, False));
              u = takeWhile (\<lambda>c. \<not> (c = CHR ''.'' \<or> is_digit c)) s2
          in if \<not> pre \<and> \<not> post then None
             else if u = [] then None
             else case unit_of u of None \<Rightarrow> None | Some unit \<Rightarrow>
               if v > 2 ^ 63 div unit then None
               else
                 let v = v * unit;
                     v = (if f > 0 then v + \<lfloor>round64 (round64 (of_int f) * round64 (of_int unit / scale))\<rfloor> else v)
                 in if v > 2 ^ 63 then None else Some (v, drop (length u) s2))"

lemma leadingInt_length: "leadingInt x s = Some (v, r) \<Longrightarrow> length r \<le> length s"
  by (induction x s rule: leadingInt.induct) (auto simp: Let_def split: if_splits)

lemma leadingFraction_length: "length (snd (snd (leadingFraction b x sc s))) \<le> length s"
  by (induction s arbitrary: b x sc) (auto simp: Let_def intro: le_SucI)

lemma parse_component_less: "parse_component s = Some (v, r) \<Longrightarrow> length r < length s"
proof -
  assume h: "parse_component s = Some (v, r)"
  then obtain c s' where s: "s = c # s'" by (cases s) (auto simp: parse_component_def)
  with h obtain v1 s1 where li: "leadingInt 0 s = Some (v1, s1)"
    by (auto simp: parse_component_def split: if_splits option.splits)
  define q where "q = (case s1 of [] \<Rightarrow> (0, 1, s1, False) | c1 # r \<Rightarrow>
                   if c1 = CHR ''.'' then
                     let (f, scale, r') = leadingFraction False 0 1 r in (f, scale, r', length r' \<noteq> length r)
                   else (0, 1, s1, False))"
  obtain f scale s2 post where q: "q = (f, scale, s2, post)" by (metis prod_cases4)
  have "length s2 \<le> length s1"
    using q leadingFraction_length [of False 0 1 "tl s1"]
    by (cases s1) (auto simp: q_def Let_def split: if_splits prod.splits)
  moreover have "length s1 \<le> length s" using leadingInt_length [OF li] .
  moreover have "\<exists>u. u \<noteq> [] \<and> u = takeWhile (\<lambda>c. \<not> (c = CHR ''.'' \<or> is_digit c)) s2 \<and> r = drop (length u) s2"
    using h li q unfolding s parse_component_def q_def [symmetric]
    by (auto simp: Let_def q_def [symmetric] split: if_splits option.splits)
  moreover have "length (takeWhile (\<lambda>c. \<not> (c = CHR ''.'' \<or> is_digit c)) s2) \<le> length s2"
    by (rule length_takeWhile_le)
  ultimately show "length r < length s" by (auto simp: neq_Nil_conv)
qed

function parse_components :: "int \<Rightarrow> bytes \<Rightarrow> int option" where
  "parse_components d s =
     (if s = [] then Some d
      else case parse_component s of
        None \<Rightarrow> None
      | Some (v, r) \<Rightarrow> if d + v > 2 ^ 63 then None else parse_components (d + v) r)"
  by pat_completeness auto
termination
  by (relation "measure (\<lambda>(d, s). length s)") (auto dest: parse_component_less)

declare parse_components.simps [simp del]

definition ParseDuration :: "bytes \<Rightarrow> duration option" where
  "ParseDuration s =
     (let (neg, s) = (case s of [] \<Rightarrow> (False, []) | c # cs \<Rightarrow>
            if c = CHR ''-'' then (True, cs) else if c = CHR ''+'' then (False, cs) else (False, s))
      in if s = ''0'' then Some 0
         else if s = [] then None
         else case parse_components 0 s of
                None \<Rightarrow> None
              | Some d \<Rightarrow> if neg then Some (- d) else if d > 2 ^ 63 - 1 then None else Some d)"

section \<open>\<^verbatim>\<open>Duration.Round\<close> and \<^verbatim>\<open>Duration.String\<close>\<close>

definition duration_round :: "duration \<Rightarrow> duration \<Rightarrow> duration" where
  "duration_round d m =
     (if m \<le> 0 then d
      else if d < 0 then
        let r = (- d) mod m
        in if 2 * r < m then d + r
           else if minDuration \<le> d - m + r then d - m + r else minDuration
      else
        let r = d mod m
        in if 2 * r < m then d - r
           else if d + m - r \<le> maxDuration then d + m - r else maxDuration)"

text \<open>\<^verbatim>\<open>fmtFrac\<close>: the fraction digits without trailing zeros, and the integer part.\<close>

fun fmtFrac :: "nat \<Rightarrow> bool \<Rightarrow> nat \<Rightarrow> bytes \<Rightarrow> bytes \<times> nat" where
  "fmtFrac 0 print v buf = (if print then CHR ''.'' # buf else buf, v)"
| "fmtFrac (Suc prec) print v buf =
     (let digit = v mod 10; print = (print \<or> digit \<noteq> 0)
      in fmtFrac prec print (v div 10) (if print then digit_char digit # buf else buf))"

definition duration_string :: "duration \<Rightarrow> bytes" where
  "duration_string d =
     (let u = nat \<bar>d\<bar>;
          body =
            (if u < 1000000000 then
               if u = 0 then ''0s''
               else
                 let (prec, unit) =
                   (if u < 1000 then (0, ''ns'')
                    else if u < 1000000 then (3, [CHR 0xC2, CHR 0xB5, CHR ''s''])
                    else (6, ''ms''));
                   (frac, i) = fmtFrac prec False u []
                 in show_nat i @ frac @ unit
             else
               let (frac, secs) = fmtFrac 9 False u [];
                   out = show_nat (secs mod 60) @ frac @ ''s'';
                   mins = secs div 60
               in if mins > 0 then
                    let out = show_nat (mins mod 60) @ ''m'' @ out; hours = mins div 60
                    in if hours > 0 then show_nat hours @ ''h'' @ out else out
                  else out)
      in if d < 0 then CHR ''-'' # body else body)"

section \<open>\<^verbatim>\<open>net.SplitHostPort\<close>\<close>

fun index_byte :: "char \<Rightarrow> bytes \<Rightarrow> nat option" where
  "index_byte c [] = None"
| "index_byte c (x # xs) = (if x = c then Some 0 else map_option Suc (index_byte c xs))"

definition last_index_byte :: "char \<Rightarrow> bytes \<Rightarrow> nat option" where
  "last_index_byte c s = map_option (\<lambda>i. length s - 1 - i) (index_byte c (rev s))"

definition SplitHostPort :: "bytes \<Rightarrow> (bytes \<times> bytes) option" where
  "SplitHostPort s =
     (case last_index_byte (CHR '':'') s of None \<Rightarrow> None | Some i \<Rightarrow>
        let r =
          (if hd s = CHR ''['' then
             case index_byte (CHR '']'') s of None \<Rightarrow> None | Some e \<Rightarrow>
               if e + 1 = length s then None
               else if e + 1 = i then Some (take (e - 1) (drop 1 s), 1, e + 1)
               else None
           else
             let host = take i s
             in if index_byte (CHR '':'') host \<noteq> None then None else Some (host, 0, 0))
        in case r of None \<Rightarrow> None | Some (host, j, k) \<Rightarrow>
          if index_byte (CHR ''['') (drop j s) \<noteq> None then None
          else if index_byte (CHR '']'') (drop k s) \<noteq> None then None
          else Some (host, drop (i + 1) s))"

section \<open>Lemmas\<close>

text \<open>Nanosecond counts print and parse back.\<close>

lemma code_digit_char [simp]: "d < 10 \<Longrightarrow> code (digit_char d) = 48 + d"
  by (simp add: code_def digit_char_def)

lemma digit_char_digit [simp]: "d < 10 \<Longrightarrow> is_digit (digit_char d)" "d < 10 \<Longrightarrow> digit_val (digit_char d) = int d"
  by (simp_all add: is_digit_def digit_val_def)

lemma decimal_snoc: "decimal (s @ [c]) = 10 * decimal s + digit_val c"
  by (simp add: decimal_def)

lemma show_nat_digits: "list_all is_digit (show_nat n)" "show_nat n \<noteq> []" "decimal (show_nat n) = int n"
proof -
  have "list_all is_digit (show_nat n) \<and> show_nat n \<noteq> [] \<and> decimal (show_nat n) = int n"
  proof (induction n rule: show_nat.induct)
    case (1 n)
    show ?case
    proof (cases "n < 10")
      case True
      then show ?thesis by (subst (1 2 3) show_nat.simps) (simp add: decimal_def)
    next
      case False
      have "10 * int (n div 10) + int (n mod 10) = int n" by (metis mult_div_mod_eq of_nat_add of_nat_mult of_nat_numeral)
      with 1 False show ?thesis by (subst (1 2 3) show_nat.simps) (simp add: decimal_snoc)
    qed
  qed
  then show "list_all is_digit (show_nat n)" "show_nat n \<noteq> []" "decimal (show_nat n) = int n" by simp_all
qed

lemma decimal_nonneg: "list_all is_digit s \<Longrightarrow> 0 \<le> decimal s"
  by (induction s rule: rev_induct) (auto simp: decimal_def is_digit_def digit_val_def)

lemma Atoi_show_int:
  assumes "minInt \<le> n" "n \<le> maxInt" shows "Atoi (show_int n) = Some n"
proof -
  have sign: "\<not> is_digit (CHR ''-'')" "\<not> is_digit (CHR ''+'')" by (simp_all add: is_digit_def code_def)
  obtain c cs where c: "show_nat (nat n) = c # cs" using show_nat_digits(2) by (cases "show_nat (nat n)") auto
  have "is_digit c" using show_nat_digits(1) [of "nat n"] by (simp add: c)
  then have "c \<noteq> CHR ''-''" "c \<noteq> CHR ''+''" using sign by auto
  then show ?thesis
    using assms show_nat_digits [of "nat n"] show_nat_digits [of "nat (- n)"]
    by (cases "n < 0") (simp_all add: Atoi_def show_int_def c)
qed

lemma foldl_digits_ge:
  assumes "0 \<le> x" "list_all is_digit ds" shows "x \<le> foldl (\<lambda>x c. 10 * x + digit_val c) x ds"
  using assms
proof (induction ds arbitrary: x)
  case (Cons c ds)
  have d: "0 \<le> digit_val c" using Cons.prems by (simp add: is_digit_def digit_val_def)
  have "10 * x + digit_val c \<le> foldl (\<lambda>x c. 10 * x + digit_val c) (10 * x + digit_val c) ds"
    using Cons.prems d by (intro Cons.IH) simp_all
  with d Cons.prems show ?case by simp
qed simp

lemma leadingInt_digits:
  assumes "0 \<le> x" "list_all is_digit ds" "foldl (\<lambda>x c. 10 * x + digit_val c) x ds \<le> 2 ^ 63"
    "rest = [] \<or> \<not> is_digit (hd rest)"
  shows "leadingInt x (ds @ rest) = Some (foldl (\<lambda>x c. 10 * x + digit_val c) x ds, rest)"
  using assms
proof (induction ds arbitrary: x)
  case Nil
  then show ?case by (cases rest) auto
next
  case (Cons c ds)
  have d: "0 \<le> digit_val c" using Cons.prems by (simp add: is_digit_def digit_val_def)
  have "10 * x + digit_val c \<le> foldl (\<lambda>x c. 10 * x + digit_val c) (10 * x + digit_val c) ds"
    using Cons.prems d by (intro foldl_digits_ge) simp_all
  with Cons.prems have le: "10 * x + digit_val c \<le> 2 ^ 63" by simp
  then have "x \<le> 2 ^ 63 div 10" using d by simp
  moreover have "leadingInt (10 * x + digit_val c) (ds @ rest) =
      Some (foldl (\<lambda>x c. 10 * x + digit_val c) (10 * x + digit_val c) ds, rest)"
    using Cons.prems d by (intro Cons.IH) simp_all
  ultimately show ?case using Cons.prems le by (simp add: Let_def mult.commute)
qed

definition show_ns :: "duration \<Rightarrow> bytes" where
  "show_ns d = show_int d @ ''ns''"

lemma parse_component_ns:
  assumes "int n \<le> 2 ^ 63" shows "parse_component (show_nat n @ ''ns'') = Some (int n, [])"
proof -
  obtain c cs where c: "show_nat n = c # cs" using show_nat_digits(2) by (cases "show_nat n") auto
  have "leadingInt 0 (show_nat n @ ''ns'') = Some (decimal (show_nat n), ''ns'')"
    using show_nat_digits [of n] assms unfolding decimal_def
    by (intro leadingInt_digits) (simp_all add: is_digit_def code_def)
  then have "leadingInt 0 ((c # cs) @ ''ns'') = Some (int n, ''ns'')" unfolding c [symmetric] show_nat_digits(3) .
  moreover have "is_digit c" using show_nat_digits(1) [of n] by (simp add: c)
  ultimately show ?thesis using assms by (simp add: parse_component_def c unit_of_def is_digit_def code_def del: leadingInt.simps)
qed

lemma ParseDuration_show_ns:
  assumes "minDuration \<le> d" "d \<le> maxDuration" shows "ParseDuration (show_ns d) = Some d"
proof -
  have pc: "parse_components 0 (show_nat n @ ''ns'') = Some (int n)" if "int n \<le> 2 ^ 63" for n
    using parse_component_ns [OF that] that
    by (subst parse_components.simps) (simp add: parse_components.simps [of _ "[]"])
  obtain c cs where c: "show_nat (nat d) = c # cs" using show_nat_digits(2) by (cases "show_nat (nat d)") auto
  have "is_digit c" using show_nat_digits(1) [of "nat d"] by (simp add: c)
  then have "c \<noteq> CHR ''-''" "c \<noteq> CHR ''+''" by (auto simp: is_digit_def code_def)
  then show ?thesis
    using assms pc [of "nat d"] pc [of "nat (- d)"]
    by (cases "d < 0") (simp_all add: ParseDuration_def show_ns_def show_int_def c minDuration_def maxDuration_def)
qed

end
