(* ===== verification/Config.thy ===== *)
theory Config
  imports GoStd CachePolicy
begin

text \<open>
  \<^verbatim>\<open>internal/config/config.go\<close>: the configuration record, its defaults, the overlay of a TOML file
  and of the environment, and \<^verbatim>\<open>Validate\<close>. The TOML decoder, the file system and the environment
  are arguments of \<open>Load\<close>; the random secret of \<open>Default\<close> is an argument too.
\<close>

section \<open>Model\<close>

subsection \<open>Configuration records\<close>

datatype gofloat = Finite rat | PosInf | NegInf | NaN

record proxy_config =
  px_Listen :: bytes
  px_ReadTimeout :: duration
  px_WriteTimeout :: duration
  px_ShutdownTimeout :: duration
  px_MaxCommandBytes :: int
  px_MaxCommandArgs :: int
  px_MaxMGetKeys :: int
  px_MaxConnections :: int

record admin_config =
  ad_Listen :: bytes
  ad_ExposeRawKeys :: bool

record upstream_config =
  us_Address :: bytes
  us_Username :: bytes
  us_Password :: bytes
  us_Database :: int
  us_DialTimeout :: duration
  us_ReadTimeout :: duration
  us_WriteTimeout :: duration

record cache_policy_config =
  cp_Prefix :: bytes
  cp_Mode :: bytes
  cp_MaxItemBytes :: int
  cp_MaxLocalTTL :: duration

record cache_config =
  cc_MaxBytes :: int
  cc_MaxEntries :: int
  cc_MaxLocalTTL :: duration
  cc_AllowStaleOnUpstreamError :: bool
  cc_StaleGrace :: duration
  cc_NegativeTTL :: duration
  cc_Policies :: "cache_policy_config list"

record hotness_config =
  hc_Window :: duration
  hc_EWMAAlpha :: gofloat
  hc_PromotionThreshold :: gofloat
  hc_DemotionThreshold :: gofloat
  hc_MinimumHotWindows :: int
  hc_Cooldown :: duration
  hc_MaxTrackedKeys :: int

record privacy_config =
  pv_KeyVisibility :: bytes
  pv_KeyHashSecret :: bytes
  pv_KeyHashSalt :: bytes

record logging_config =
  lo_Level :: bytes
  lo_Format :: bytes

record config =
  cf_Mode :: bytes
  cf_Proxy :: proxy_config
  cf_Admin :: admin_config
  cf_Upstream :: upstream_config
  cf_Cache :: cache_config
  cf_Hotness :: hotness_config
  cf_Privacy :: privacy_config
  cf_Logging :: logging_config

definition minute :: duration where "minute = 60 * second"

definition Default :: "bytes \<Rightarrow> config" where
  "Default secret =
     \<lparr>cf_Mode = ''observe'',
      cf_Proxy = \<lparr>px_Listen = ''0.0.0.0:6380'', px_ReadTimeout = 5 * minute, px_WriteTimeout = 3 * second,
        px_ShutdownTimeout = 10 * second, px_MaxCommandBytes = 1 * 1024 * 1024, px_MaxCommandArgs = 1024,
        px_MaxMGetKeys = 512, px_MaxConnections = 1024\<rparr>,
      cf_Admin = \<lparr>ad_Listen = ''127.0.0.1:9090'', ad_ExposeRawKeys = False\<rparr>,
      cf_Upstream = \<lparr>us_Address = ''127.0.0.1:6379'', us_Username = [], us_Password = [], us_Database = 0,
        us_DialTimeout = 2 * second, us_ReadTimeout = 2 * second, us_WriteTimeout = 2 * second\<rparr>,
      cf_Cache = \<lparr>cc_MaxBytes = 64 * 1024 * 1024, cc_MaxEntries = 100000, cc_MaxLocalTTL = 30 * second,
        cc_AllowStaleOnUpstreamError = False, cc_StaleGrace = 0, cc_NegativeTTL = 0, cc_Policies = []\<rparr>,
      cf_Hotness = \<lparr>hc_Window = second, hc_EWMAAlpha = Finite (1 / 2), hc_PromotionThreshold = Finite 100,
        hc_DemotionThreshold = Finite 20, hc_MinimumHotWindows = 2, hc_Cooldown = 30 * second,
        hc_MaxTrackedKeys = 100000\<rparr>,
      cf_Privacy = \<lparr>pv_KeyVisibility = ''hash'', pv_KeyHashSecret = secret, pv_KeyHashSalt = []\<rparr>,
      cf_Logging = \<lparr>lo_Level = ''info'', lo_Format = ''json''\<rparr>\<rparr>"

subsection \<open>The decoded file\<close>

text \<open>Every pointer field is an option; a missing \<^verbatim>\<open>policies\<close> table is a nil slice.\<close>

record raw_proxy =
  rp_Listen :: "bytes option"
  rp_ReadTimeout :: "bytes option"
  rp_WriteTimeout :: "bytes option"
  rp_ShutdownTimeout :: "bytes option"
  rp_MaxCommandBytes :: "int option"
  rp_MaxCommandArgs :: "int option"
  rp_MaxMGetKeys :: "int option"
  rp_MaxConnections :: "int option"

record raw_admin =
  ra_Listen :: "bytes option"
  ra_ExposeRawKeys :: "bool option"

record raw_upstream =
  ru_Address :: "bytes option"
  ru_Username :: "bytes option"
  ru_Password :: "bytes option"
  ru_Database :: "int option"
  ru_DialTimeout :: "bytes option"
  ru_ReadTimeout :: "bytes option"
  ru_WriteTimeout :: "bytes option"

record raw_cache_policy =
  ry_Prefix :: "bytes option"
  ry_Mode :: "bytes option"
  ry_MaxItemBytes :: "int option"
  ry_MaxLocalTTL :: "bytes option"

record raw_cache =
  rc_MaxBytes :: "int option"
  rc_MaxEntries :: "int option"
  rc_MaxLocalTTL :: "bytes option"
  rc_AllowStaleOnUpstreamError :: "bool option"
  rc_StaleGrace :: "bytes option"
  rc_NegativeTTL :: "bytes option"
  rc_Policies :: "raw_cache_policy list option"

record raw_hotness =
  rh_Window :: "bytes option"
  rh_EWMAAlpha :: "gofloat option"
  rh_PromotionThreshold :: "gofloat option"
  rh_DemotionThreshold :: "gofloat option"
  rh_MinimumHotWindows :: "int option"
  rh_Cooldown :: "bytes option"
  rh_MaxTrackedKeys :: "int option"

record raw_privacy =
  rv_KeyVisibility :: "bytes option"
  rv_KeyHashSecret :: "bytes option"
  rv_KeyHashSalt :: "bytes option"

record raw_logging =
  rl_Level :: "bytes option"
  rl_Format :: "bytes option"

record raw_config =
  rw_Mode :: "bytes option"
  rw_Proxy :: raw_proxy
  rw_Admin :: raw_admin
  rw_Upstream :: raw_upstream
  rw_Cache :: raw_cache
  rw_Hotness :: raw_hotness
  rw_Privacy :: raw_privacy
  rw_Logging :: raw_logging

subsection \<open>Overlays\<close>

text \<open>
  Errors: \<open>Invalid name\<close> is \<^verbatim>\<open>"<name> is invalid: ..."\<close> around the parse error, \<open>Msg\<close> a
  literal message, \<open>Joined\<close> the result of \<^verbatim>\<open>errors.Join\<close>.
\<close>

datatype config_error = ReadConfig | ParseConfig | Invalid bytes | Msg bytes | Joined "bytes list"

type_synonym overlay = "config \<Rightarrow> config_error + config"

text \<open>The statements of the two overlay functions in order; the first error returns.\<close>

fun run_steps :: "overlay list \<Rightarrow> overlay" where
  "run_steps [] c = Inr c"
| "run_steps (f # fs) c = (case f c of Inl e \<Rightarrow> Inl e | Inr c' \<Rightarrow> run_steps fs c')"

definition set_opt :: "'a option \<Rightarrow> ('a \<Rightarrow> config \<Rightarrow> config) \<Rightarrow> overlay" where
  "set_opt raw upd c = Inr (case raw of None \<Rightarrow> c | Some v \<Rightarrow> upd v c)"

definition parse_duration_field :: "bytes option \<Rightarrow> duration \<Rightarrow> bytes \<Rightarrow> config_error + duration" where
  "parse_duration_field raw target name =
     (case raw of None \<Rightarrow> Inr target
      | Some s \<Rightarrow> (case ParseDuration s of None \<Rightarrow> Inl (Invalid name) | Some d \<Rightarrow> Inr d))"

definition setDuration ::
  "bytes option \<Rightarrow> (config \<Rightarrow> duration) \<Rightarrow> (duration \<Rightarrow> config \<Rightarrow> config) \<Rightarrow> bytes \<Rightarrow> overlay"
where
  "setDuration raw target upd name c =
     (case parse_duration_field raw (target c) name of Inl e \<Rightarrow> Inl e | Inr d \<Rightarrow> Inr (upd d c))"

definition on_proxy :: "(proxy_config \<Rightarrow> proxy_config) \<Rightarrow> config \<Rightarrow> config" where
  "on_proxy f c = c\<lparr>cf_Proxy := f (cf_Proxy c)\<rparr>"
definition on_admin :: "(admin_config \<Rightarrow> admin_config) \<Rightarrow> config \<Rightarrow> config" where
  "on_admin f c = c\<lparr>cf_Admin := f (cf_Admin c)\<rparr>"
definition on_upstream :: "(upstream_config \<Rightarrow> upstream_config) \<Rightarrow> config \<Rightarrow> config" where
  "on_upstream f c = c\<lparr>cf_Upstream := f (cf_Upstream c)\<rparr>"
definition on_cache :: "(cache_config \<Rightarrow> cache_config) \<Rightarrow> config \<Rightarrow> config" where
  "on_cache f c = c\<lparr>cf_Cache := f (cf_Cache c)\<rparr>"
definition on_hotness :: "(hotness_config \<Rightarrow> hotness_config) \<Rightarrow> config \<Rightarrow> config" where
  "on_hotness f c = c\<lparr>cf_Hotness := f (cf_Hotness c)\<rparr>"
definition on_privacy :: "(privacy_config \<Rightarrow> privacy_config) \<Rightarrow> config \<Rightarrow> config" where
  "on_privacy f c = c\<lparr>cf_Privacy := f (cf_Privacy c)\<rparr>"
definition on_logging :: "(logging_config \<Rightarrow> logging_config) \<Rightarrow> config \<Rightarrow> config" where
  "on_logging f c = c\<lparr>cf_Logging := f (cf_Logging c)\<rparr>"

definition maxCachePolicies :: int where "maxCachePolicies = 1024"
definition maxCachePolicyPrefixBytes :: int where "maxCachePolicyPrefixBytes = 1024"
definition maxCachePolicyTotalPrefixBytes :: int where "maxCachePolicyTotalPrefixBytes = 256 * 1024"
definition maxHotnessTrackedKeys :: int where "maxHotnessTrackedKeys = 100000"
definition maxProxyCommandBytes :: int where "maxProxyCommandBytes = 16 * 1024 * 1024"
definition maxProxyCommandArgs :: int where "maxProxyCommandArgs = 4096"
definition maxProxyMGetKeys :: int where "maxProxyMGetKeys = 2048"
definition maxProxyConnections :: int where "maxProxyConnections = 10000"

definition policy_path :: "nat \<Rightarrow> bytes" where
  "policy_path i = ''cache.policies['' @ show_nat i @ '']''"

definition raw_policy :: "nat \<Rightarrow> raw_cache_policy \<Rightarrow> config_error + cache_policy_config" where
  "raw_policy i r =
     (let path = policy_path i in
      case ry_Prefix r of None \<Rightarrow> Inl (Msg (path @ ''.prefix is required''))
      | Some pfx \<Rightarrow>
          (case ry_Mode r of None \<Rightarrow> Inl (Msg (path @ ''.mode is required''))
           | Some mode \<Rightarrow>
               (case parse_duration_field (ry_MaxLocalTTL r) 0 (path @ ''.max_local_ttl'') of
                  Inl e \<Rightarrow> Inl e
                | Inr ttl \<Rightarrow> Inr \<lparr>cp_Prefix = pfx, cp_Mode = mode,
                    cp_MaxItemBytes = (case ry_MaxItemBytes r of None \<Rightarrow> 0 | Some b \<Rightarrow> b),
                    cp_MaxLocalTTL = ttl\<rparr>)))"

fun raw_policies :: "nat \<Rightarrow> raw_cache_policy list \<Rightarrow> config_error + cache_policy_config list" where
  "raw_policies i [] = Inr []"
| "raw_policies i (r # rs) =
     (case raw_policy i r of Inl e \<Rightarrow> Inl e
      | Inr p \<Rightarrow> (case raw_policies (Suc i) rs of Inl e \<Rightarrow> Inl e | Inr ps \<Rightarrow> Inr (p # ps)))"

definition apply_policies :: "raw_cache_policy list option \<Rightarrow> overlay" where
  "apply_policies rs c =
     (case rs of None \<Rightarrow> Inr c
      | Some rs \<Rightarrow>
          if int (length rs) > maxCachePolicies
          then Inl (Msg (''cache.policies must contain at most '' @ show_int maxCachePolicies @ '' entries''))
          else (case raw_policies 0 rs of Inl e \<Rightarrow> Inl e
                | Inr ps \<Rightarrow> Inr (on_cache (\<lambda>x. x\<lparr>cc_Policies := ps\<rparr>) c)))"

definition raw_proxy_steps :: "raw_proxy \<Rightarrow> overlay list" where
  "raw_proxy_steps r =
     [set_opt (rp_Listen r) (\<lambda>v. on_proxy (\<lambda>x. x\<lparr>px_Listen := v\<rparr>)),
      setDuration (rp_ReadTimeout r) (\<lambda>c. px_ReadTimeout (cf_Proxy c)) (\<lambda>v. on_proxy (\<lambda>x. x\<lparr>px_ReadTimeout := v\<rparr>)) ''proxy.read_timeout'',
      setDuration (rp_WriteTimeout r) (\<lambda>c. px_WriteTimeout (cf_Proxy c)) (\<lambda>v. on_proxy (\<lambda>x. x\<lparr>px_WriteTimeout := v\<rparr>)) ''proxy.write_timeout'',
      setDuration (rp_ShutdownTimeout r) (\<lambda>c. px_ShutdownTimeout (cf_Proxy c)) (\<lambda>v. on_proxy (\<lambda>x. x\<lparr>px_ShutdownTimeout := v\<rparr>)) ''proxy.shutdown_timeout'',
      set_opt (rp_MaxCommandBytes r) (\<lambda>v. on_proxy (\<lambda>x. x\<lparr>px_MaxCommandBytes := v\<rparr>)),
      set_opt (rp_MaxCommandArgs r) (\<lambda>v. on_proxy (\<lambda>x. x\<lparr>px_MaxCommandArgs := v\<rparr>)),
      set_opt (rp_MaxMGetKeys r) (\<lambda>v. on_proxy (\<lambda>x. x\<lparr>px_MaxMGetKeys := v\<rparr>)),
      set_opt (rp_MaxConnections r) (\<lambda>v. on_proxy (\<lambda>x. x\<lparr>px_MaxConnections := v\<rparr>))]"

definition raw_upstream_steps :: "raw_upstream \<Rightarrow> overlay list" where
  "raw_upstream_steps r =
     [set_opt (ru_Address r) (\<lambda>v. on_upstream (\<lambda>x. x\<lparr>us_Address := v\<rparr>)),
      set_opt (ru_Username r) (\<lambda>v. on_upstream (\<lambda>x. x\<lparr>us_Username := v\<rparr>)),
      set_opt (ru_Password r) (\<lambda>v. on_upstream (\<lambda>x. x\<lparr>us_Password := v\<rparr>)),
      set_opt (ru_Database r) (\<lambda>v. on_upstream (\<lambda>x. x\<lparr>us_Database := v\<rparr>)),
      setDuration (ru_DialTimeout r) (\<lambda>c. us_DialTimeout (cf_Upstream c)) (\<lambda>v. on_upstream (\<lambda>x. x\<lparr>us_DialTimeout := v\<rparr>)) ''upstream.dial_timeout'',
      setDuration (ru_ReadTimeout r) (\<lambda>c. us_ReadTimeout (cf_Upstream c)) (\<lambda>v. on_upstream (\<lambda>x. x\<lparr>us_ReadTimeout := v\<rparr>)) ''upstream.read_timeout'',
      setDuration (ru_WriteTimeout r) (\<lambda>c. us_WriteTimeout (cf_Upstream c)) (\<lambda>v. on_upstream (\<lambda>x. x\<lparr>us_WriteTimeout := v\<rparr>)) ''upstream.write_timeout'']"

definition raw_cache_steps :: "raw_cache \<Rightarrow> overlay list" where
  "raw_cache_steps r =
     [set_opt (rc_MaxBytes r) (\<lambda>v. on_cache (\<lambda>x. x\<lparr>cc_MaxBytes := v\<rparr>)),
      set_opt (rc_MaxEntries r) (\<lambda>v. on_cache (\<lambda>x. x\<lparr>cc_MaxEntries := v\<rparr>)),
      set_opt (rc_AllowStaleOnUpstreamError r) (\<lambda>v. on_cache (\<lambda>x. x\<lparr>cc_AllowStaleOnUpstreamError := v\<rparr>)),
      setDuration (rc_MaxLocalTTL r) (\<lambda>c. cc_MaxLocalTTL (cf_Cache c)) (\<lambda>v. on_cache (\<lambda>x. x\<lparr>cc_MaxLocalTTL := v\<rparr>)) ''cache.max_local_ttl'',
      setDuration (rc_StaleGrace r) (\<lambda>c. cc_StaleGrace (cf_Cache c)) (\<lambda>v. on_cache (\<lambda>x. x\<lparr>cc_StaleGrace := v\<rparr>)) ''cache.stale_grace'',
      setDuration (rc_NegativeTTL r) (\<lambda>c. cc_NegativeTTL (cf_Cache c)) (\<lambda>v. on_cache (\<lambda>x. x\<lparr>cc_NegativeTTL := v\<rparr>)) ''cache.negative_ttl'',
      apply_policies (rc_Policies r)]"

definition raw_hotness_steps :: "raw_hotness \<Rightarrow> overlay list" where
  "raw_hotness_steps r =
     [setDuration (rh_Window r) (\<lambda>c. hc_Window (cf_Hotness c)) (\<lambda>v. on_hotness (\<lambda>x. x\<lparr>hc_Window := v\<rparr>)) ''hotness.window'',
      set_opt (rh_EWMAAlpha r) (\<lambda>v. on_hotness (\<lambda>x. x\<lparr>hc_EWMAAlpha := v\<rparr>)),
      set_opt (rh_PromotionThreshold r) (\<lambda>v. on_hotness (\<lambda>x. x\<lparr>hc_PromotionThreshold := v\<rparr>)),
      set_opt (rh_DemotionThreshold r) (\<lambda>v. on_hotness (\<lambda>x. x\<lparr>hc_DemotionThreshold := v\<rparr>)),
      set_opt (rh_MinimumHotWindows r) (\<lambda>v. on_hotness (\<lambda>x. x\<lparr>hc_MinimumHotWindows := v\<rparr>)),
      setDuration (rh_Cooldown r) (\<lambda>c. hc_Cooldown (cf_Hotness c)) (\<lambda>v. on_hotness (\<lambda>x. x\<lparr>hc_Cooldown := v\<rparr>)) ''hotness.cooldown'',
      set_opt (rh_MaxTrackedKeys r) (\<lambda>v. on_hotness (\<lambda>x. x\<lparr>hc_MaxTrackedKeys := v\<rparr>))]"

text \<open>The legacy salt stands in for a missing secret.\<close>

definition raw_privacy_steps :: "raw_privacy \<Rightarrow> overlay list" where
  "raw_privacy_steps r =
     [set_opt (rv_KeyVisibility r) (\<lambda>v. on_privacy (\<lambda>x. x\<lparr>pv_KeyVisibility := v\<rparr>)),
      set_opt (rv_KeyHashSecret r) (\<lambda>v. on_privacy (\<lambda>x. x\<lparr>pv_KeyHashSecret := v\<rparr>)),
      set_opt (rv_KeyHashSalt r) (\<lambda>v. on_privacy (\<lambda>x.
        (if rv_KeyHashSecret r = None then x\<lparr>pv_KeyHashSecret := v\<rparr> else x)\<lparr>pv_KeyHashSalt := v\<rparr>))]"

definition applyRaw :: "config \<Rightarrow> raw_config \<Rightarrow> config_error + config" where
  "applyRaw cfg raw = run_steps
     ([set_opt (rw_Mode raw) (\<lambda>v c. c\<lparr>cf_Mode := v\<rparr>)] @
      raw_proxy_steps (rw_Proxy raw) @
      [set_opt (ra_Listen (rw_Admin raw)) (\<lambda>v. on_admin (\<lambda>x. x\<lparr>ad_Listen := v\<rparr>)),
       set_opt (ra_ExposeRawKeys (rw_Admin raw)) (\<lambda>v. on_admin (\<lambda>x. x\<lparr>ad_ExposeRawKeys := v\<rparr>))] @
      raw_upstream_steps (rw_Upstream raw) @
      raw_cache_steps (rw_Cache raw) @
      raw_hotness_steps (rw_Hotness raw) @
      raw_privacy_steps (rw_Privacy raw) @
      [set_opt (rl_Level (rw_Logging raw)) (\<lambda>v. on_logging (\<lambda>x. x\<lparr>lo_Level := v\<rparr>)),
       set_opt (rl_Format (rw_Logging raw)) (\<lambda>v. on_logging (\<lambda>x. x\<lparr>lo_Format := v\<rparr>))]) cfg"

subsection \<open>Environment\<close>

type_synonym environment = "bytes \<Rightarrow> bytes option"

definition Getenv :: "environment \<Rightarrow> bytes \<Rightarrow> bytes" where
  "Getenv env name = (case env name of None \<Rightarrow> [] | Some v \<Rightarrow> v)"

text \<open>The four local closures of \<^verbatim>\<open>applyEnv\<close>.\<close>

definition env_string :: "environment \<Rightarrow> bytes \<Rightarrow> (bytes \<Rightarrow> config \<Rightarrow> config) \<Rightarrow> overlay" where
  "env_string env name upd c =
     (let v = TrimSpace (Getenv env name) in Inr (if v \<noteq> [] then upd v c else c))"

definition env_opaque :: "environment \<Rightarrow> bytes \<Rightarrow> (bytes \<Rightarrow> config \<Rightarrow> config) \<Rightarrow> overlay" where
  "env_opaque env name upd c = Inr (case env name of None \<Rightarrow> c | Some v \<Rightarrow> upd v c)"

definition env_parsed ::
  "(bytes \<Rightarrow> 'a option) \<Rightarrow> environment \<Rightarrow> bytes \<Rightarrow> ('a \<Rightarrow> config \<Rightarrow> config) \<Rightarrow> overlay"
where
  "env_parsed parse env name upd c =
     (let v = TrimSpace (Getenv env name)
      in if v \<noteq> [] then (case parse v of None \<Rightarrow> Inl (Invalid name) | Some x \<Rightarrow> Inr (upd x c)) else Inr c)"

definition applyEnv :: "environment \<Rightarrow> config \<Rightarrow> config_error + config" where
  "applyEnv env = run_steps
     [env_string env ''SLIZEN_PROXY_LISTEN'' (\<lambda>v. on_proxy (\<lambda>x. x\<lparr>px_Listen := v\<rparr>)),
      env_parsed Atoi env ''SLIZEN_PROXY_MAX_COMMAND_BYTES'' (\<lambda>v. on_proxy (\<lambda>x. x\<lparr>px_MaxCommandBytes := v\<rparr>)),
      env_parsed Atoi env ''SLIZEN_PROXY_MAX_COMMAND_ARGS'' (\<lambda>v. on_proxy (\<lambda>x. x\<lparr>px_MaxCommandArgs := v\<rparr>)),
      env_parsed Atoi env ''SLIZEN_PROXY_MAX_MGET_KEYS'' (\<lambda>v. on_proxy (\<lambda>x. x\<lparr>px_MaxMGetKeys := v\<rparr>)),
      env_parsed Atoi env ''SLIZEN_PROXY_MAX_CONNECTIONS'' (\<lambda>v. on_proxy (\<lambda>x. x\<lparr>px_MaxConnections := v\<rparr>)),
      env_string env ''SLIZEN_MODE'' (\<lambda>v c. c\<lparr>cf_Mode := v\<rparr>),
      env_string env ''SLIZEN_ADMIN_LISTEN'' (\<lambda>v. on_admin (\<lambda>x. x\<lparr>ad_Listen := v\<rparr>)),
      env_parsed ParseBool env ''SLIZEN_ADMIN_EXPOSE_RAW_KEYS'' (\<lambda>v. on_admin (\<lambda>x. x\<lparr>ad_ExposeRawKeys := v\<rparr>)),
      env_string env ''SLIZEN_UPSTREAM_ADDRESS'' (\<lambda>v. on_upstream (\<lambda>x. x\<lparr>us_Address := v\<rparr>)),
      env_opaque env ''SLIZEN_UPSTREAM_USERNAME'' (\<lambda>v. on_upstream (\<lambda>x. x\<lparr>us_Username := v\<rparr>)),
      env_opaque env ''SLIZEN_UPSTREAM_PASSWORD'' (\<lambda>v. on_upstream (\<lambda>x. x\<lparr>us_Password := v\<rparr>)),
      env_string env ''SLIZEN_KEY_VISIBILITY'' (\<lambda>v. on_privacy (\<lambda>x. x\<lparr>pv_KeyVisibility := v\<rparr>)),
      env_opaque env ''SLIZEN_KEY_HASH_SECRET'' (\<lambda>v. on_privacy (\<lambda>x. x\<lparr>pv_KeyHashSecret := v\<rparr>)),
      env_string env ''SLIZEN_LOG_LEVEL'' (\<lambda>v. on_logging (\<lambda>x. x\<lparr>lo_Level := v\<rparr>))]"

subsection \<open>Validation\<close>

definition checkAddress :: "bytes \<Rightarrow> bytes \<Rightarrow> bytes list" where
  "checkAddress name v =
     (if TrimSpace v = [] then [name @ '' address is required'']
      else case SplitHostPort v of
             None \<Rightarrow> [name @ '' must be host:port'']
           | Some (host, port) \<Rightarrow> if host = [] \<or> port = [] then [name @ '' must be host:port''] else [])"

definition positiveDuration :: "bytes \<Rightarrow> duration \<Rightarrow> bytes list" where
  "positiveDuration name d = (if d \<le> 0 then [name @ '' must be greater than zero''] else [])"

definition nonNegativeDuration :: "bytes \<Rightarrow> duration \<Rightarrow> bytes list" where
  "nonNegativeDuration name d = (if d < 0 then [name @ '' must be non-negative''] else [])"

definition positiveBoundedInt :: "bytes \<Rightarrow> int \<Rightarrow> int \<Rightarrow> bytes list" where
  "positiveBoundedInt name v maximum =
     (if v \<le> 0 then [name @ '' must be greater than zero'']
      else if v > maximum then [name @ '' must not exceed '' @ show_int maximum] else [])"

fun finiteFloat :: "gofloat \<Rightarrow> bool" where
  "finiteFloat (Finite q) = True"
| "finiteFloat _ = False"

text \<open>The comparisons of \<^verbatim>\<open>float64\<close> with a constant and with each other; any with NaN is false.\<close>

fun float_le :: "gofloat \<Rightarrow> gofloat \<Rightarrow> bool" where
  "float_le NaN _ = False"
| "float_le _ NaN = False"
| "float_le NegInf _ = True"
| "float_le _ PosInf = True"
| "float_le (Finite p) (Finite q) = (p \<le> q)"
| "float_le _ _ = False"

fun float_less :: "gofloat \<Rightarrow> gofloat \<Rightarrow> bool" where
  "float_less NaN _ = False"
| "float_less _ NaN = False"
| "float_less (Finite p) (Finite q) = (p < q)"
| "float_less NegInf y = (y \<noteq> NegInf)"
| "float_less x PosInf = (x \<noteq> PosInf)"
| "float_less _ _ = False"

text \<open>The body of the policy loop: its errors, the new total and the new set of seen prefixes.\<close>

definition next_total :: "int \<Rightarrow> int \<Rightarrow> int" where
  "next_total tot prefixBytes =
     (if tot \<le> maxCachePolicyTotalPrefixBytes then
        let remaining = maxCachePolicyTotalPrefixBytes - tot
        in if prefixBytes > remaining then maxCachePolicyTotalPrefixBytes + 1 else tot + prefixBytes
      else tot)"

definition policy_limit_errors :: "config \<Rightarrow> nat \<Rightarrow> cache_policy_config \<Rightarrow> bytes list" where
  "policy_limit_errors cfg i p =
     (let path = policy_path i in
      case ParseMode (cp_Mode p) of (m, valid) \<Rightarrow>
        if \<not> valid then [path @ ''.mode must be deny, observe, or cache'']
        else if m = ModeCache then
            (if cp_MaxItemBytes p \<le> 0 then [path @ ''.max_item_bytes must be greater than zero in cache mode'']
             else if cp_MaxItemBytes p > cc_MaxBytes (cf_Cache cfg)
             then [path @ ''.max_item_bytes must not exceed cache.max_bytes''] else []) @
            (if cp_MaxLocalTTL p \<le> 0 then [path @ ''.max_local_ttl must be greater than zero in cache mode'']
             else if cp_MaxLocalTTL p > cc_MaxLocalTTL (cf_Cache cfg)
             then [path @ ''.max_local_ttl must not exceed cache.max_local_ttl''] else [])
          else if cp_MaxItemBytes p \<noteq> 0 \<or> cp_MaxLocalTTL p \<noteq> 0
          then [path @ '' cache limits must be omitted outside cache mode''] else [])"

fun validate_policies ::
  "config \<Rightarrow> nat \<Rightarrow> int \<Rightarrow> bytes list \<Rightarrow> cache_policy_config list \<Rightarrow> bytes list \<times> int"
where
  "validate_policies cfg i tot seen [] = ([], tot)"
| "validate_policies cfg i tot seen (p # ps) =
     (let path = policy_path i;
          prefixBytes = int (length (cp_Prefix p));
          e1 = (if prefixBytes > maxCachePolicyPrefixBytes
                then [path @ ''.prefix must contain at most '' @ show_int maxCachePolicyPrefixBytes @ '' bytes''] else []);
          tot = next_total tot prefixBytes;
          (e2, seen) = (if cp_Prefix p \<in> set seen then ([path @ ''.prefix duplicates another policy''], seen)
                        else ([], cp_Prefix p # seen));
          e3 = policy_limit_errors cfg i p;
          (es, tot) = validate_policies cfg (Suc i) tot seen ps
      in (e1 @ e2 @ e3 @ es, tot))"

definition policy_errors :: "config \<Rightarrow> bytes list" where
  "policy_errors cfg =
     (let policies = cc_Policies (cf_Cache cfg);
          (e0, policies) =
            (if int (length policies) > maxCachePolicies
             then ([''cache.policies must contain at most '' @ show_int maxCachePolicies @ '' entries''],
                   take (nat maxCachePolicies) policies)
             else ([], policies));
          (es, tot) = validate_policies cfg 0 0 [] policies
      in e0 @ es @
         (if tot > maxCachePolicyTotalPrefixBytes
          then [''cache.policies prefixes must contain at most '' @ show_int maxCachePolicyTotalPrefixBytes @ '' bytes in total'']
          else []))"

definition hotness_errors :: "hotness_config \<Rightarrow> bytes list" where
  "hotness_errors h =
     (let promotionValid = (finiteFloat (hc_PromotionThreshold h) \<and> float_less (Finite 0) (hc_PromotionThreshold h));
          demotionValid = (finiteFloat (hc_DemotionThreshold h) \<and> float_less (Finite 0) (hc_DemotionThreshold h))
      in (if hc_MaxTrackedKeys h \<le> 0 then [''hotness.max_tracked_keys must be greater than zero'']
          else if hc_MaxTrackedKeys h > maxHotnessTrackedKeys
          then [''hotness.max_tracked_keys must not exceed '' @ show_int maxHotnessTrackedKeys] else []) @
         (if \<not> finiteFloat (hc_EWMAAlpha h) \<or> float_le (hc_EWMAAlpha h) (Finite 0) \<or> float_less (Finite 1) (hc_EWMAAlpha h)
          then [''hotness.ewma_alpha must be greater than 0 and at most 1''] else []) @
         (if \<not> promotionValid then [''hotness.promotion_threshold must be finite and greater than zero''] else []) @
         (if \<not> demotionValid then [''hotness.demotion_threshold must be finite and greater than zero''] else []) @
         (if promotionValid \<and> demotionValid \<and> float_le (hc_PromotionThreshold h) (hc_DemotionThreshold h)
          then [''hotness.promotion_threshold must be greater than demotion_threshold''] else []) @
         (if hc_MinimumHotWindows h \<le> 0 then [''hotness.minimum_hot_windows must be greater than zero''] else []))"

text \<open>The collected messages; no message is Go's nil error.\<close>

definition Validate :: "config \<Rightarrow> bytes list" where
  "Validate cfg =
     (let p = cf_Proxy cfg; u = cf_Upstream cfg; c = cf_Cache cfg; h = cf_Hotness cfg; v = cf_Privacy cfg; l = cf_Logging cfg in
      checkAddress ''proxy.listen'' (px_Listen p) @
      checkAddress ''admin.listen'' (ad_Listen (cf_Admin cfg)) @
      checkAddress ''upstream.address'' (us_Address u) @
      (if cf_Mode cfg = ''cache'' \<or> cf_Mode cfg = ''observe'' then [] else [''mode must be cache or observe'']) @
      positiveDuration ''proxy.read_timeout'' (px_ReadTimeout p) @
      positiveDuration ''proxy.write_timeout'' (px_WriteTimeout p) @
      positiveDuration ''proxy.shutdown_timeout'' (px_ShutdownTimeout p) @
      positiveDuration ''upstream.dial_timeout'' (us_DialTimeout u) @
      positiveDuration ''upstream.read_timeout'' (us_ReadTimeout u) @
      positiveDuration ''upstream.write_timeout'' (us_WriteTimeout u) @
      positiveDuration ''cache.max_local_ttl'' (cc_MaxLocalTTL c) @
      nonNegativeDuration ''cache.stale_grace'' (cc_StaleGrace c) @
      positiveDuration ''hotness.window'' (hc_Window h) @
      positiveDuration ''hotness.cooldown'' (hc_Cooldown h) @
      positiveBoundedInt ''proxy.max_command_bytes'' (px_MaxCommandBytes p) maxProxyCommandBytes @
      positiveBoundedInt ''proxy.max_command_args'' (px_MaxCommandArgs p) maxProxyCommandArgs @
      positiveBoundedInt ''proxy.max_mget_keys'' (px_MaxMGetKeys p) maxProxyMGetKeys @
      positiveBoundedInt ''proxy.max_connections'' (px_MaxConnections p) maxProxyConnections @
      (if px_MaxCommandArgs p > 0 \<and> px_MaxMGetKeys p \<ge> px_MaxCommandArgs p
       then [''proxy.max_mget_keys must be less than proxy.max_command_args''] else []) @
      (if us_Database u \<noteq> 0 then [''upstream.database must be 0''] else []) @
      (if cc_MaxBytes c \<le> 0 then [''cache.max_bytes must be greater than zero''] else []) @
      (if cc_MaxEntries c < 0 then [''cache.max_entries must be non-negative''] else []) @
      (if cc_NegativeTTL c \<noteq> 0 then [''cache.negative_ttl is reserved and must be zero''] else []) @
      policy_errors cfg @
      hotness_errors h @
      (if pv_KeyVisibility v = ''hash'' \<or> pv_KeyVisibility v = ''plain'' then []
       else [''privacy.key_visibility must be hash or plain'']) @
      (if pv_KeyVisibility v = ''hash'' \<and> TrimSpace (pv_KeyHashSecret v) = []
       then [''privacy.key_hash_secret is required when key_visibility is hash''] else []) @
      (if lo_Level l \<in> {''debug'', ''info'', ''warn'', ''error''} then []
       else [''logging.level must be debug, info, warn, or error'']) @
      (if lo_Format l = ''json'' \<or> lo_Format l = ''text'' then [] else [''logging.format must be json or text'']))"

definition Load ::
  "bytes \<Rightarrow> (bytes \<Rightarrow> bytes option) \<Rightarrow> (bytes \<Rightarrow> raw_config option) \<Rightarrow> environment \<Rightarrow> bytes \<Rightarrow> config_error + config"
where
  "Load secret readFile unmarshal env path =
     (let cfg = Default secret;
          r = (if path \<noteq> [] then
                 (case readFile path of None \<Rightarrow> Inl ReadConfig
                  | Some data \<Rightarrow> (case unmarshal data of None \<Rightarrow> Inl ParseConfig | Some raw \<Rightarrow> applyRaw cfg raw))
               else Inr cfg)
      in case r of Inl e \<Rightarrow> Inl e
         | Inr cfg \<Rightarrow> (case applyEnv env cfg of Inl e \<Rightarrow> Inl e
             | Inr cfg \<Rightarrow> let errs = Validate cfg in if errs \<noteq> [] then Inl (Joined errs) else Inr cfg))"

subsection \<open>Derived views\<close>

definition EffectiveKeyVisibility :: "config \<Rightarrow> bytes" where
  "EffectiveKeyVisibility cfg =
     (if ad_ExposeRawKeys (cf_Admin cfg) then ''plain'' else pv_KeyVisibility (cf_Privacy cfg))"

definition redactPresence :: "bytes \<Rightarrow> bytes" where
  "redactPresence v = (if v = [] then ''unset'' else ''set'')"

datatype any_field = AnyString bytes | AnyInt int

definition RedactedSummary :: "config \<Rightarrow> (bytes \<times> any_field) list" where
  "RedactedSummary cfg =
     [(''mode'', AnyString (cf_Mode cfg)),
      (''proxy_listen'', AnyString (px_Listen (cf_Proxy cfg))),
      (''proxy_max_command_bytes'', AnyInt (px_MaxCommandBytes (cf_Proxy cfg))),
      (''proxy_max_command_args'', AnyInt (px_MaxCommandArgs (cf_Proxy cfg))),
      (''proxy_max_mget_keys'', AnyInt (px_MaxMGetKeys (cf_Proxy cfg))),
      (''proxy_max_connections'', AnyInt (px_MaxConnections (cf_Proxy cfg))),
      (''admin_listen'', AnyString (ad_Listen (cf_Admin cfg))),
      (''upstream_address'', AnyString (us_Address (cf_Upstream cfg))),
      (''upstream_username'', AnyString (redactPresence (us_Username (cf_Upstream cfg)))),
      (''upstream_password'', AnyString (redactPresence (us_Password (cf_Upstream cfg)))),
      (''upstream_database'', AnyInt (us_Database (cf_Upstream cfg))),
      (''key_visibility'', AnyString (EffectiveKeyVisibility cfg)),
      (''key_hash_secret'', AnyString (redactPresence (pv_KeyHashSecret (cf_Privacy cfg)))),
      (''cache_max_bytes'', AnyInt (cc_MaxBytes (cf_Cache cfg))),
      (''cache_max_entries'', AnyInt (cc_MaxEntries (cf_Cache cfg))),
      (''cache_max_ttl'', AnyString (duration_string (cc_MaxLocalTTL (cf_Cache cfg)))),
      (''cache_policy_count'', AnyInt (int (length (cc_Policies (cf_Cache cfg))))),
      (''hotness_window'', AnyString (duration_string (hc_Window (cf_Hotness cfg)))),
      (''log_level'', AnyString (lo_Level (cf_Logging cfg)))]"

end
