(* ===== verification/ConfigProps.thy ===== *)
theory ConfigProps
  imports Config
begin

text \<open>
  What \<^verbatim>\<open>Validate\<close> accepts, stated without its accumulators; that a file listing every field
  determines the configuration; that the defaults are valid; and that the startup summary does
  not depend on secrets.
\<close>

section \<open>Validation\<close>

definition address_ok :: "bytes \<Rightarrow> bool" where
  "address_ok v \<longleftrightarrow> TrimSpace v \<noteq> [] \<and> (\<exists>host port. SplitHostPort v = Some (host, port) \<and> host \<noteq> [] \<and> port \<noteq> [])"

definition policy_ok :: "config \<Rightarrow> cache_policy_config \<Rightarrow> bool" where
  "policy_ok cfg p \<longleftrightarrow>
     length (cp_Prefix p) \<le> 1024 \<and> cp_Mode p \<in> {''deny'', ''observe'', ''cache''} \<and>
     (if cp_Mode p = ''cache''
      then 0 < cp_MaxItemBytes p \<and> cp_MaxItemBytes p \<le> cc_MaxBytes (cf_Cache cfg) \<and>
           0 < cp_MaxLocalTTL p \<and> cp_MaxLocalTTL p \<le> cc_MaxLocalTTL (cf_Cache cfg)
      else cp_MaxItemBytes p = 0 \<and> cp_MaxLocalTTL p = 0)"

definition policies_ok :: "config \<Rightarrow> bool" where
  "policies_ok cfg \<longleftrightarrow>
     (let ps = cc_Policies (cf_Cache cfg) in
      length ps \<le> 1024 \<and> distinct (map cp_Prefix ps) \<and>
      sum_list (map (\<lambda>p. length (cp_Prefix p)) ps) \<le> 256 * 1024 \<and> (\<forall>p \<in> set ps. policy_ok cfg p))"

definition hotness_ok :: "hotness_config \<Rightarrow> bool" where
  "hotness_ok h \<longleftrightarrow>
     0 < hc_Window h \<and> 0 < hc_Cooldown h \<and> 0 < hc_MinimumHotWindows h \<and>
     0 < hc_MaxTrackedKeys h \<and> hc_MaxTrackedKeys h \<le> 100000 \<and>
     (\<exists>alpha promotion demotion. hc_EWMAAlpha h = Finite alpha \<and> hc_PromotionThreshold h = Finite promotion \<and>
        hc_DemotionThreshold h = Finite demotion \<and> 0 < alpha \<and> alpha \<le> 1 \<and> 0 < demotion \<and> demotion < promotion)"

definition proxy_ok :: "proxy_config \<Rightarrow> bool" where
  "proxy_ok p \<longleftrightarrow>
     address_ok (px_Listen p) \<and> 0 < px_ReadTimeout p \<and> 0 < px_WriteTimeout p \<and> 0 < px_ShutdownTimeout p \<and>
     0 < px_MaxCommandBytes p \<and> px_MaxCommandBytes p \<le> 16 * 1024 * 1024 \<and>
     0 < px_MaxCommandArgs p \<and> px_MaxCommandArgs p \<le> 4096 \<and>
     0 < px_MaxMGetKeys p \<and> px_MaxMGetKeys p \<le> 2048 \<and> px_MaxMGetKeys p < px_MaxCommandArgs p \<and>
     0 < px_MaxConnections p \<and> px_MaxConnections p \<le> 10000"

definition upstream_ok :: "upstream_config \<Rightarrow> bool" where
  "upstream_ok u \<longleftrightarrow> address_ok (us_Address u) \<and> us_Database u = 0 \<and>
     0 < us_DialTimeout u \<and> 0 < us_ReadTimeout u \<and> 0 < us_WriteTimeout u"

definition cache_ok :: "cache_config \<Rightarrow> bool" where
  "cache_ok c \<longleftrightarrow> 0 < cc_MaxBytes c \<and> 0 \<le> cc_MaxEntries c \<and> 0 < cc_MaxLocalTTL c \<and> 0 \<le> cc_StaleGrace c \<and> cc_NegativeTTL c = 0"

definition valid_config :: "config \<Rightarrow> bool" where
  "valid_config cfg \<longleftrightarrow>
     cf_Mode cfg \<in> {''cache'', ''observe''} \<and> proxy_ok (cf_Proxy cfg) \<and> address_ok (ad_Listen (cf_Admin cfg)) \<and>
     upstream_ok (cf_Upstream cfg) \<and> cache_ok (cf_Cache cfg) \<and> policies_ok cfg \<and> hotness_ok (cf_Hotness cfg) \<and>
     pv_KeyVisibility (cf_Privacy cfg) \<in> {''hash'', ''plain''} \<and>
     (pv_KeyVisibility (cf_Privacy cfg) = ''plain'' \<or> TrimSpace (pv_KeyHashSecret (cf_Privacy cfg)) \<noteq> []) \<and>
     lo_Level (cf_Logging cfg) \<in> {''debug'', ''info'', ''warn'', ''error''} \<and>
     lo_Format (cf_Logging cfg) \<in> {''json'', ''text''}"

lemma checks_nil [simp]:
  "checkAddress name v = [] \<longleftrightarrow> address_ok v"
  "positiveDuration name d = [] \<longleftrightarrow> 0 < d" "nonNegativeDuration name d = [] \<longleftrightarrow> 0 \<le> d"
  "positiveBoundedInt name n m = [] \<longleftrightarrow> 0 < n \<and> n \<le> m"
  by (auto simp: checkAddress_def address_ok_def positiveDuration_def nonNegativeDuration_def positiveBoundedInt_def
      split: option.splits prod.splits if_splits)

lemma next_total_sum:
  assumes "tot = min (int s) (256 * 1024 + 1)"
  shows "next_total tot (int n) = min (int (s + n)) (256 * 1024 + 1)"
  using assms by (auto simp: next_total_def maxCachePolicyTotalPrefixBytes_def min_def Let_def split: if_splits)

lemma policy_limit_nil:
  "policy_limit_errors cfg i p = [] \<and> length (cp_Prefix p) \<le> 1024 \<longleftrightarrow> policy_ok cfg p"
  by (auto simp: policy_limit_errors_def policy_ok_def ParseMode_def Let_def)

lemma validate_policies_iff:
  assumes "tot = min (int s) (256 * 1024 + 1)" "distinct seen"
  shows "fst (validate_policies cfg i tot seen ps) = [] \<longleftrightarrow>
      distinct (map cp_Prefix ps) \<and> set seen \<inter> cp_Prefix ` set ps = {} \<and> (\<forall>p \<in> set ps. policy_ok cfg p)" (is "?A")
    and "snd (validate_policies cfg i tot seen ps) =
      min (int (s + sum_list (map (\<lambda>p. length (cp_Prefix p)) ps))) (256 * 1024 + 1)" (is "?B")
proof -
  have "?A \<and> ?B" using assms
  proof (induction ps arbitrary: i tot s seen)
    case (Cons p ps)
    let ?t = "next_total tot (int (length (cp_Prefix p)))"
    let ?seen = "if cp_Prefix p \<in> set seen then seen else cp_Prefix p # seen"
    have IH: "(fst (validate_policies cfg (Suc i) ?t ?seen ps) = [] \<longleftrightarrow>
        distinct (map cp_Prefix ps) \<and> set ?seen \<inter> cp_Prefix ` set ps = {} \<and> (\<forall>p \<in> set ps. policy_ok cfg p)) \<and>
      snd (validate_policies cfg (Suc i) ?t ?seen ps) =
        min (int (s + length (cp_Prefix p) + sum_list (map (\<lambda>p. length (cp_Prefix p)) ps))) (256 * 1024 + 1)"
      using Cons.prems next_total_sum [OF Cons.prems(1)] by (intro Cons.IH) simp_all
    show ?case
    proof (cases "cp_Prefix p \<in> set seen")
      case True
      with IH show ?thesis by (simp add: Let_def split_def)
    next
      case False
      with IH policy_limit_nil [of cfg i p] show ?thesis
        by (auto simp: Let_def split_def maxCachePolicyPrefixBytes_def)
    qed
  qed simp
  then show ?A ?B by simp_all
qed

lemma policy_errors_nil: "policy_errors cfg = [] \<longleftrightarrow> policies_ok cfg"
  using validate_policies_iff [of 0 0 "[]" cfg 0 "cc_Policies (cf_Cache cfg)"]
  by (auto simp: policy_errors_def policies_ok_def Let_def split_def maxCachePolicies_def
      maxCachePolicyTotalPrefixBytes_def)

lemma alpha_finite:
  "finiteFloat x \<and> \<not> float_le x (Finite 0) \<and> \<not> float_less (Finite 1) x \<longleftrightarrow> (\<exists>q. x = Finite q \<and> 0 < q \<and> q \<le> 1)"
  by (cases x) auto

lemma thresholds_finite:
  "(finiteFloat x \<and> float_less (Finite 0) x) \<and> (finiteFloat y \<and> float_less (Finite 0) y) \<and> \<not> float_le x y \<longleftrightarrow>
   (\<exists>p d. x = Finite p \<and> y = Finite d \<and> 0 < d \<and> d < p)"
  by (cases x; cases y) auto

lemma hotness_errors_nil:
  "hotness_errors h = [] \<longleftrightarrow>
   0 < hc_MaxTrackedKeys h \<and> hc_MaxTrackedKeys h \<le> 100000 \<and> 0 < hc_MinimumHotWindows h \<and>
   (\<exists>q. hc_EWMAAlpha h = Finite q \<and> 0 < q \<and> q \<le> 1) \<and>
   (\<exists>p d. hc_PromotionThreshold h = Finite p \<and> hc_DemotionThreshold h = Finite d \<and> 0 < d \<and> d < p)"
  unfolding alpha_finite [symmetric] thresholds_finite [symmetric]
  by (auto simp: hotness_errors_def Let_def maxHotnessTrackedKeys_def not_le)

lemma hotness_ok_errors: "hotness_ok h \<longleftrightarrow> hotness_errors h = [] \<and> 0 < hc_Window h \<and> 0 < hc_Cooldown h"
  unfolding hotness_errors_nil hotness_ok_def by blast

lemma Validate_valid: "Validate cfg = [] \<longleftrightarrow> valid_config cfg"
  unfolding Validate_def valid_config_def proxy_ok_def upstream_ok_def cache_ok_def hotness_ok_errors Let_def
    maxProxyCommandBytes_def maxProxyCommandArgs_def maxProxyMGetKeys_def maxProxyConnections_def
  by (simp add: policy_errors_nil not_le) blast

text \<open>
  C27: \<^verbatim>\<open>Validate\<close> returns no error exactly for the configurations that meet the documented limits.
  In particular its overflow-safe running total of policy prefix bytes and its map of seen prefixes accept
  exactly the policy lists of at most 1024 entries with distinct prefixes whose lengths add up to
  at most 256 KiB, and a cache policy's limits never exceed the global ones.
\<close>

theorem Validate_iff: "Validate cfg = [] \<longleftrightarrow> valid_config cfg"
  by (rule Validate_valid)

section \<open>File overlay\<close>

text \<open>A file that lists every field of a configuration.\<close>

definition raw_policy_of :: "cache_policy_config \<Rightarrow> raw_cache_policy" where
  "raw_policy_of p = \<lparr>ry_Prefix = Some (cp_Prefix p), ry_Mode = Some (cp_Mode p),
     ry_MaxItemBytes = Some (cp_MaxItemBytes p), ry_MaxLocalTTL = Some (show_ns (cp_MaxLocalTTL p))\<rparr>"

definition raw_of :: "config \<Rightarrow> raw_config" where
  "raw_of cfg =
     (let p = cf_Proxy cfg; u = cf_Upstream cfg; c = cf_Cache cfg; h = cf_Hotness cfg; v = cf_Privacy cfg in
      \<lparr>rw_Mode = Some (cf_Mode cfg),
       rw_Proxy = \<lparr>rp_Listen = Some (px_Listen p), rp_ReadTimeout = Some (show_ns (px_ReadTimeout p)),
         rp_WriteTimeout = Some (show_ns (px_WriteTimeout p)), rp_ShutdownTimeout = Some (show_ns (px_ShutdownTimeout p)),
         rp_MaxCommandBytes = Some (px_MaxCommandBytes p), rp_MaxCommandArgs = Some (px_MaxCommandArgs p),
         rp_MaxMGetKeys = Some (px_MaxMGetKeys p), rp_MaxConnections = Some (px_MaxConnections p)\<rparr>,
       rw_Admin = \<lparr>ra_Listen = Some (ad_Listen (cf_Admin cfg)), ra_ExposeRawKeys = Some (ad_ExposeRawKeys (cf_Admin cfg))\<rparr>,
       rw_Upstream = \<lparr>ru_Address = Some (us_Address u), ru_Username = Some (us_Username u), ru_Password = Some (us_Password u),
         ru_Database = Some (us_Database u), ru_DialTimeout = Some (show_ns (us_DialTimeout u)),
         ru_ReadTimeout = Some (show_ns (us_ReadTimeout u)), ru_WriteTimeout = Some (show_ns (us_WriteTimeout u))\<rparr>,
       rw_Cache = \<lparr>rc_MaxBytes = Some (cc_MaxBytes c), rc_MaxEntries = Some (cc_MaxEntries c),
         rc_MaxLocalTTL = Some (show_ns (cc_MaxLocalTTL c)), rc_AllowStaleOnUpstreamError = Some (cc_AllowStaleOnUpstreamError c),
         rc_StaleGrace = Some (show_ns (cc_StaleGrace c)), rc_NegativeTTL = Some (show_ns (cc_NegativeTTL c)),
         rc_Policies = Some (map raw_policy_of (cc_Policies c))\<rparr>,
       rw_Hotness = \<lparr>rh_Window = Some (show_ns (hc_Window h)), rh_EWMAAlpha = Some (hc_EWMAAlpha h),
         rh_PromotionThreshold = Some (hc_PromotionThreshold h), rh_DemotionThreshold = Some (hc_DemotionThreshold h),
         rh_MinimumHotWindows = Some (hc_MinimumHotWindows h), rh_Cooldown = Some (show_ns (hc_Cooldown h)),
         rh_MaxTrackedKeys = Some (hc_MaxTrackedKeys h)\<rparr>,
       rw_Privacy = \<lparr>rv_KeyVisibility = Some (pv_KeyVisibility v), rv_KeyHashSecret = Some (pv_KeyHashSecret v),
         rv_KeyHashSalt = Some (pv_KeyHashSalt v)\<rparr>,
       rw_Logging = \<lparr>rl_Level = Some (lo_Level (cf_Logging cfg)), rl_Format = Some (lo_Format (cf_Logging cfg))\<rparr>\<rparr>)"

definition int64_duration :: "duration \<Rightarrow> bool" where
  "int64_duration d \<longleftrightarrow> minDuration \<le> d \<and> d \<le> maxDuration"

definition int64_durations :: "config \<Rightarrow> bool" where
  "int64_durations cfg \<longleftrightarrow>
     list_all int64_duration
       ([px_ReadTimeout (cf_Proxy cfg), px_WriteTimeout (cf_Proxy cfg), px_ShutdownTimeout (cf_Proxy cfg),
         us_DialTimeout (cf_Upstream cfg), us_ReadTimeout (cf_Upstream cfg), us_WriteTimeout (cf_Upstream cfg),
         cc_MaxLocalTTL (cf_Cache cfg), cc_StaleGrace (cf_Cache cfg), cc_NegativeTTL (cf_Cache cfg),
         hc_Window (cf_Hotness cfg), hc_Cooldown (cf_Hotness cfg)] @ map cp_MaxLocalTTL (cc_Policies (cf_Cache cfg)))"

lemma parse_duration_ns:
  "int64_duration d \<Longrightarrow> parse_duration_field (Some (show_ns d)) t name = Inr d"
  by (simp add: parse_duration_field_def int64_duration_def ParseDuration_show_ns)

lemma raw_policies_of:
  "list_all int64_duration (map cp_MaxLocalTTL ps) \<Longrightarrow> raw_policies i (map raw_policy_of ps) = Inr ps"
proof (induction ps arbitrary: i)
  case (Cons p ps)
  have "raw_policy i (raw_policy_of p) = Inr p"
    using Cons.prems by (cases p) (simp add: raw_policy_def raw_policy_of_def parse_duration_ns Let_def)
  with Cons show ?case by simp
qed simp

lemma run_steps_append: "run_steps (fs @ gs) c = (case run_steps fs c of Inl e \<Rightarrow> Inl e | Inr c' \<Rightarrow> run_steps gs c')"
  by (induction fs arbitrary: c) (auto split: sum.splits)

lemmas on_defs = on_proxy_def on_admin_def on_upstream_def on_cache_def on_hotness_def on_privacy_def on_logging_def

lemma raw_steps_of:
  assumes d: "int64_durations cfg" and n: "length (cc_Policies (cf_Cache cfg)) \<le> 1024"
  shows "run_steps (raw_proxy_steps (rw_Proxy (raw_of cfg))) c = Inr (c\<lparr>cf_Proxy := cf_Proxy cfg\<rparr>)"
    and "run_steps (raw_upstream_steps (rw_Upstream (raw_of cfg))) c = Inr (c\<lparr>cf_Upstream := cf_Upstream cfg\<rparr>)"
    and "run_steps (raw_cache_steps (rw_Cache (raw_of cfg))) c = Inr (c\<lparr>cf_Cache := cf_Cache cfg\<rparr>)"
    and "run_steps (raw_hotness_steps (rw_Hotness (raw_of cfg))) c = Inr (c\<lparr>cf_Hotness := cf_Hotness cfg\<rparr>)"
    and "run_steps (raw_privacy_steps (rw_Privacy (raw_of cfg))) c = Inr (c\<lparr>cf_Privacy := cf_Privacy cfg\<rparr>)"
proof -
  note parse = setDuration_def parse_duration_ns set_opt_def on_defs raw_of_def Let_def
  note d' = d [unfolded int64_durations_def, simplified]
  show "run_steps (raw_proxy_steps (rw_Proxy (raw_of cfg))) c = Inr (c\<lparr>cf_Proxy := cf_Proxy cfg\<rparr>)"
    using d' by (simp add: raw_proxy_steps_def parse)
  show "run_steps (raw_upstream_steps (rw_Upstream (raw_of cfg))) c = Inr (c\<lparr>cf_Upstream := cf_Upstream cfg\<rparr>)"
    using d' by (simp add: raw_upstream_steps_def parse)
  show "run_steps (raw_cache_steps (rw_Cache (raw_of cfg))) c = Inr (c\<lparr>cf_Cache := cf_Cache cfg\<rparr>)"
    using d' n by (simp add: raw_cache_steps_def parse apply_policies_def raw_policies_of maxCachePolicies_def list_all_iff)
  show "run_steps (raw_hotness_steps (rw_Hotness (raw_of cfg))) c = Inr (c\<lparr>cf_Hotness := cf_Hotness cfg\<rparr>)"
    using d' by (simp add: raw_hotness_steps_def parse)
  show "run_steps (raw_privacy_steps (rw_Privacy (raw_of cfg))) c = Inr (c\<lparr>cf_Privacy := cf_Privacy cfg\<rparr>)"
    by (simp add: raw_privacy_steps_def parse)
qed

text \<open>
  C28: A file that lists every field determines the configuration: overlaying it on any base gives
  back exactly the written configuration, durations going through their textual form and
  \<^verbatim>\<open>time.ParseDuration\<close>. So every field of the file reaches its own place in the configuration and
  none of the base survives.
\<close>

theorem applyRaw_roundtrip:
  assumes "int64_durations cfg" "length (cc_Policies (cf_Cache cfg)) \<le> 1024"
  shows "applyRaw base (raw_of cfg) = Inr cfg"
proof -
  have "rw_Mode (raw_of cfg) = Some (cf_Mode cfg)"
    "rw_Admin (raw_of cfg) = \<lparr>ra_Listen = Some (ad_Listen (cf_Admin cfg)), ra_ExposeRawKeys = Some (ad_ExposeRawKeys (cf_Admin cfg))\<rparr>"
    "rw_Logging (raw_of cfg) = \<lparr>rl_Level = Some (lo_Level (cf_Logging cfg)), rl_Format = Some (lo_Format (cf_Logging cfg))\<rparr>"
    by (simp_all add: raw_of_def Let_def)
  then show ?thesis
    using raw_steps_of [OF assms]
    by (simp add: applyRaw_def run_steps_append set_opt_def on_defs)
qed

section \<open>Defaults and summary\<close>

lemma Default_addresses:
  "address_ok ''0.0.0.0:6380''" "address_ok ''127.0.0.1:9090''" "address_ok ''127.0.0.1:6379''"
proof -
  have "TrimSpace ''0.0.0.0:6380'' = ''0.0.0.0:6380''" "TrimSpace ''127.0.0.1:9090'' = ''127.0.0.1:9090''"
    "TrimSpace ''127.0.0.1:6379'' = ''127.0.0.1:6379''" by code_simp+
  moreover have "SplitHostPort ''0.0.0.0:6380'' = Some (''0.0.0.0'', ''6380'')"
    "SplitHostPort ''127.0.0.1:9090'' = Some (''127.0.0.1'', ''9090'')"
    "SplitHostPort ''127.0.0.1:6379'' = Some (''127.0.0.1'', ''6379'')" by code_simp+
  ultimately show "address_ok ''0.0.0.0:6380''" "address_ok ''127.0.0.1:9090''" "address_ok ''127.0.0.1:6379''"
    by (simp_all add: address_ok_def)
qed

lemma Default_hotness: "hotness_ok (cf_Hotness (Default secret))"
  unfolding hotness_ok_def Default_def
  by (intro conjI exI [of _ "1 / 2"] exI [of _ 100] exI [of _ 20]) (simp_all add: second_def)

lemma Default_valid: "TrimSpace secret \<noteq> [] \<Longrightarrow> valid_config (Default secret)"
  using Default_hotness [of secret]
  by (simp add: valid_config_def Default_def proxy_ok_def upstream_ok_def cache_ok_def policies_ok_def
      Default_addresses minute_def second_def)

lemma applyEnv_empty: "applyEnv (\<lambda>_. None) cfg = Inr cfg"
proof -
  have "TrimSpace [] = []" by code_simp
  then show ?thesis by (simp add: applyEnv_def env_string_def env_opaque_def env_parsed_def Getenv_def)
qed

text \<open>
  Without a file and without environment overrides \<^verbatim>\<open>Load\<close> succeeds with the documented
  defaults whenever the generated secret is not blank: the defaults pass their own validation.
\<close>

theorem Load_defaults:
  assumes "TrimSpace secret \<noteq> []"
  shows "Load secret readFile unmarshal (\<lambda>_. None) [] = Inr (Default secret)"
proof -
  have "Validate (Default secret) = []" using Default_valid [OF assms] by (simp add: Validate_valid)
  then show ?thesis by (simp add: Load_def applyEnv_empty)
qed

theorem Load_defaults_witness:
  "TrimSpace ''s3cret'' \<noteq> [] \<and> Load ''s3cret'' (\<lambda>_. None) (\<lambda>_. None) (\<lambda>_. None) [] = Inr (Default ''s3cret'')"
proof -
  have "TrimSpace ''s3cret'' \<noteq> []" by code_simp
  then show ?thesis using Load_defaults by blast
qed

theorem applyRaw_roundtrip_witness:
  "applyRaw (Default ''a'') (raw_of ((Default ''b'')\<lparr>cf_Mode := ''cache''\<rparr>)) = Inr ((Default ''b'')\<lparr>cf_Mode := ''cache''\<rparr>)"
  by (rule applyRaw_roundtrip)
    (simp_all add: int64_durations_def int64_duration_def Default_def second_def minute_def minDuration_def maxDuration_def)

text \<open>
  C29: The startup summary reveals no secret: two configurations that differ only in the upstream
  credentials and the key-hash secret and salt, each set in both or in neither, have the same summary.
\<close>

theorem RedactedSummary_hides:
  assumes "(u = []) = (us_Username (cf_Upstream cfg) = [])" "(p = []) = (us_Password (cf_Upstream cfg) = [])"
    and "(s = []) = (pv_KeyHashSecret (cf_Privacy cfg) = [])"
  shows "RedactedSummary (cfg\<lparr>cf_Upstream := (cf_Upstream cfg)\<lparr>us_Username := u, us_Password := p\<rparr>,
      cf_Privacy := (cf_Privacy cfg)\<lparr>pv_KeyHashSecret := s, pv_KeyHashSalt := t\<rparr>\<rparr>) = RedactedSummary cfg"
  using assms by (simp add: RedactedSummary_def EffectiveKeyVisibility_def redactPresence_def)

theorem RedactedSummary_hides_witness:
  "RedactedSummary ((Default ''a'')\<lparr>cf_Upstream := (cf_Upstream (Default ''a''))\<lparr>us_Username := [], us_Password := []\<rparr>,
      cf_Privacy := (cf_Privacy (Default ''a''))\<lparr>pv_KeyHashSecret := ''b'', pv_KeyHashSalt := ''c''\<rparr>\<rparr>) = RedactedSummary (Default ''a'')"
  by (rule RedactedSummary_hides) (simp_all add: Default_def)

end
