(* ===== verification/Compatibility.thy ===== *)
theory Compatibility
  imports GoStd "HOL-Library.Char_ord" "HOL-Library.List_Lexorder"
begin

text \<open>
  The command contract of \<^verbatim>\<open>internal/compatibility\<close>: the compiled-in catalogue with its binary
  search (\<^verbatim>\<open>catalog.go\<close>) and the compatibility report with its gate (\<^verbatim>\<open>report.go\<close>). Go compares
  strings byte by byte, which is the lexicographic order of \<open>List_Lexorder\<close> on bytes.
\<close>

section \<open>Catalogue\<close>

definition SchemaVersion :: bytes where "SchemaVersion = ''slizen.compatibility.v1''"

datatype status = StatusSupported | StatusPassThrough | StatusRejected | StatusUnsupported

fun status_text :: "status \<Rightarrow> bytes" where
  "status_text StatusSupported = ''supported''"
| "status_text StatusPassThrough = ''pass-through''"
| "status_text StatusRejected = ''rejected''"
| "status_text StatusUnsupported = ''unsupported''"

datatype command_class =
  ClassLocal | ClassRead | ClassWrite | ClassPassThrough | ClassRejectedMutation |
  ClassRejectedStateful | ClassRejectedBlocking | ClassUnsupported

record contract_entry =
  ce_Command :: bytes
  ce_Status :: status
  ce_Class :: command_class
  ce_Compatible :: bool
  ce_ArgumentReviewRequired :: bool
  ce_Behavior :: bytes
  ce_Limitations :: bytes

definition supported :: "bytes \<Rightarrow> command_class \<Rightarrow> bytes \<Rightarrow> contract_entry" where
  "supported command cls behavior =
     (let (st, compatible) = (case cls of
            ClassPassThrough \<Rightarrow> (StatusPassThrough, True)
          | ClassRejectedMutation \<Rightarrow> (StatusRejected, False)
          | ClassRejectedStateful \<Rightarrow> (StatusRejected, False)
          | ClassRejectedBlocking \<Rightarrow> (StatusRejected, False)
          | ClassUnsupported \<Rightarrow> (StatusUnsupported, False)
          | _ \<Rightarrow> (StatusSupported, True))
      in \<lparr>ce_Command = command, ce_Status = st, ce_Class = cls, ce_Compatible = compatible,
          ce_ArgumentReviewRequired = False, ce_Behavior = behavior, ce_Limitations = []\<rparr>)"

definition supportedWithLimitations :: "bytes \<Rightarrow> command_class \<Rightarrow> bytes \<Rightarrow> bytes \<Rightarrow> contract_entry" where
  "supportedWithLimitations command cls behavior limitation =
     (supported command cls behavior)\<lparr>ce_ArgumentReviewRequired := True, ce_Limitations := limitation\<rparr>"

definition commandCatalog :: "contract_entry list" where
  "commandCatalog =
    [
     supported ''BLMOVE'' ClassRejectedBlocking
       ''Rejected before upstream dispatch because blocking commands are outside the v0.2 connection model.'',
     supported ''BLPOP'' ClassRejectedBlocking
       ''Rejected before upstream dispatch because blocking commands are outside the v0.2 connection model.'',
     supported ''BRPOP'' ClassRejectedBlocking
       ''Rejected before upstream dispatch because blocking commands are outside the v0.2 connection model.'',
     supported ''BRPOPLPUSH'' ClassRejectedBlocking
       ''Rejected before upstream dispatch because blocking commands are outside the v0.2 connection model.'',
     supported ''BZPOPMAX'' ClassRejectedBlocking
       ''Rejected before upstream dispatch because blocking commands are outside the v0.2 connection model.'',
     supported ''BZPOPMIN'' ClassRejectedBlocking
       ''Rejected before upstream dispatch because blocking commands are outside the v0.2 connection model.'',
     supported ''DEL'' ClassWrite
       ''Affected local entries are invalidated before upstream dispatch and remain invalidated if the upstream returns an error or the outcome is ambiguous.'',
     supported ''EXEC'' ClassRejectedStateful
       ''Rejected before upstream dispatch because transactions are stateful and unsupported.'',
     supported ''EXISTS'' ClassPassThrough
       ''Forwarded to the upstream without local cache behavior.'',
     supportedWithLimitations ''EXPIRE'' ClassWrite
       ''The affected local entry is invalidated before upstream dispatch and remains invalidated if the upstream returns an error or the outcome is ambiguous.''
       ''Only EXPIRE key seconds is accepted; NX, XX, GT, and LT options are unsupported.'',
     supported ''GET'' ClassRead
       ''Cache-aware in cache mode and always forwarded in observe mode.'',
     supported ''HDEL'' ClassRejectedMutation
       ''Rejected before upstream dispatch because hash mutations are outside the v0.2 invalidation contract.'',
     supported ''HSET'' ClassRejectedMutation
       ''Rejected before upstream dispatch because hash mutations are outside the v0.2 invalidation contract.'',
     supported ''LPOP'' ClassRejectedMutation
       ''Rejected before upstream dispatch because list mutations are outside the v0.2 invalidation contract.'',
     supported ''LPUSH'' ClassRejectedMutation
       ''Rejected before upstream dispatch because list mutations are outside the v0.2 invalidation contract.'',
     supported ''MGET'' ClassRead
       ''Ordered multi-key cache-aware read in cache mode and upstream read in observe mode.'',
     supported ''MONITOR'' ClassRejectedStateful
       ''Rejected before upstream dispatch because monitoring mode is connection-stateful.'',
     supported ''MSET'' ClassRejectedMutation
       ''Rejected before upstream dispatch because multi-key writes are outside the v0.2 invalidation contract.'',
     supported ''MULTI'' ClassRejectedStateful
       ''Rejected before upstream dispatch because transactions are stateful and unsupported.'',
     supported ''PERSIST'' ClassWrite
       ''The affected local entry is invalidated before upstream dispatch and remains invalidated if the upstream returns an error or the outcome is ambiguous.'',
     supportedWithLimitations ''PEXPIRE'' ClassWrite
       ''The affected local entry is invalidated before upstream dispatch and remains invalidated if the upstream returns an error or the outcome is ambiguous.''
       ''Only PEXPIRE key milliseconds is accepted; NX, XX, GT, and LT options are unsupported.'',
     supported ''PING'' ClassLocal
       ''Handled locally and returns PONG or the provided payload.'',
     supported ''PSETEX'' ClassWrite
       ''The affected local entry is invalidated before upstream dispatch and remains invalidated if the upstream returns an error or the outcome is ambiguous.'',
     supported ''PSUBSCRIBE'' ClassRejectedStateful
       ''Rejected before upstream dispatch because Pub/Sub is connection-stateful and unsupported.'',
     supported ''PTTL'' ClassPassThrough
       ''Forwarded to the upstream without local cache behavior.'',
     supported ''QUIT'' ClassLocal
       ''Returns OK, stops dispatching the current pipeline, and closes the client connection.'',
     supported ''RENAME'' ClassRejectedMutation
       ''Rejected before upstream dispatch until source and destination invalidation are supported.'',
     supported ''RPOP'' ClassRejectedMutation
       ''Rejected before upstream dispatch because list mutations are outside the v0.2 invalidation contract.'',
     supported ''RPUSH'' ClassRejectedMutation
       ''Rejected before upstream dispatch because list mutations are outside the v0.2 invalidation contract.'',
     supported ''SADD'' ClassRejectedMutation
       ''Rejected before upstream dispatch because set mutations are outside the v0.2 invalidation contract.'',
     supportedWithLimitations ''SELECT'' ClassLocal
       ''SELECT 0 is accepted as a local no-op.''
       ''Databases other than 0 are rejected.'',
     supportedWithLimitations ''SET'' ClassWrite
       ''The key is invalidated before upstream dispatch and remains invalidated if the upstream returns an error or the outcome is ambiguous. After an exact option-free SET succeeds, eligible cache-policy state may be refreshed locally.''
       ''SET GET is rejected; only an exact option-free SET can refresh an already admitted cache-policy key.'',
     supported ''SETEX'' ClassWrite
       ''The affected local entry is invalidated before upstream dispatch and remains invalidated if the upstream returns an error or the outcome is ambiguous.'',
     supported ''SREM'' ClassRejectedMutation
       ''Rejected before upstream dispatch because set mutations are outside the v0.2 invalidation contract.'',
     supported ''SSUBSCRIBE'' ClassRejectedStateful
       ''Rejected before upstream dispatch because Pub/Sub is connection-stateful and unsupported.'',
     supported ''SUBSCRIBE'' ClassRejectedStateful
       ''Rejected before upstream dispatch because Pub/Sub is connection-stateful and unsupported.'',
     supported ''TTL'' ClassPassThrough
       ''Forwarded to the upstream without local cache behavior.'',
     supported ''UNLINK'' ClassWrite
       ''Affected local entries are invalidated before upstream dispatch and remain invalidated if the upstream returns an error or the outcome is ambiguous.'',
     supported ''UNWATCH'' ClassRejectedStateful
       ''Rejected before upstream dispatch because transactions are stateful and unsupported.'',
     supported ''WATCH'' ClassRejectedStateful
       ''Rejected before upstream dispatch because transactions are stateful and unsupported.'',
     supported ''XREAD'' ClassRejectedBlocking
       ''Rejected before upstream dispatch because stream reads may block and are outside the v0.2 connection model.'',
     supported ''XREADGROUP'' ClassRejectedBlocking
       ''Rejected before upstream dispatch because stream reads may block and are outside the v0.2 connection model.''
    ]"

definition Catalog :: "contract_entry list" where
  "Catalog = commandCatalog"

text \<open>\<^verbatim>\<open>sort.Search\<close>: the loop over the half-open interval \<open>[i, j)\<close>.\<close>

function search_between :: "(nat \<Rightarrow> bool) \<Rightarrow> nat \<Rightarrow> nat \<Rightarrow> nat" where
  "search_between f i j =
     (if i < j then
        let h = (i + j) div 2
        in if \<not> f h then search_between f (h + 1) j else search_between f i h
      else i)"
  by pat_completeness auto
termination by (relation "measure (\<lambda>(f, i, j). j - i)") auto

declare search_between.simps [simp del]

definition sort_Search :: "nat \<Rightarrow> (nat \<Rightarrow> bool) \<Rightarrow> nat" where
  "sort_Search n f = search_between f 0 n"

definition unsupported_entry :: "bytes \<Rightarrow> contract_entry" where
  "unsupported_entry command =
     \<lparr>ce_Command = command, ce_Status = StatusUnsupported, ce_Class = ClassUnsupported, ce_Compatible = False,
      ce_ArgumentReviewRequired = False,
      ce_Behavior = ''Unsupported because it is not part of the v0.2 command contract.'', ce_Limitations = []\<rparr>"

definition LookupNormalized :: "bytes \<Rightarrow> contract_entry" where
  "LookupNormalized command =
     (let index = sort_Search (length commandCatalog) (\<lambda>i. ce_Command (commandCatalog ! i) \<ge> command)
      in if index < length commandCatalog \<and> ce_Command (commandCatalog ! index) = command
         then commandCatalog ! index else unsupported_entry command)"

definition Lookup :: "unicode \<Rightarrow> bytes \<Rightarrow> contract_entry" where
  "Lookup u command = LookupNormalized (ToUpper u (TrimSpace command))"

section \<open>Report\<close>

record report =
  rt_Schema :: bytes
  rt_BinaryVersion :: bytes
  rt_BinaryCommit :: bytes
  rt_Scope :: bytes
  rt_UnknownCommandStatus :: status
  rt_GateApplied :: bool
  rt_Compatible :: "bool option"
  rt_ArgumentReviewRequired :: "bool option"
  rt_LimitationsAccepted :: bool
  rt_ArgumentReviewCommands :: "bytes list"
  rt_Commands :: "contract_entry list"

text \<open>The body of the selection loop: the report, \<open>compatible\<close> and \<open>argumentReviewRequired\<close>.\<close>

definition report_step ::
  "unicode \<Rightarrow> bool \<Rightarrow> bytes \<Rightarrow> report \<times> bool \<times> bool \<Rightarrow> report \<times> bool \<times> bool"
where
  "report_step u acceptLimitations command = (\<lambda>(r, compatible, review).
     let entry = Lookup u command;
         r = r\<lparr>rt_Commands := rt_Commands r @ [entry]\<rparr>;
         compatible = (if \<not> ce_Compatible entry then False else compatible)
     in if ce_ArgumentReviewRequired entry
        then (r\<lparr>rt_ArgumentReviewCommands := rt_ArgumentReviewCommands r @ [ce_Command entry]\<rparr>,
              (if \<not> acceptLimitations then False else compatible), True)
        else (r, compatible, review))"

definition BuildReportWithOptions :: "unicode \<Rightarrow> bytes \<Rightarrow> bytes \<Rightarrow> bytes list \<Rightarrow> bool \<Rightarrow> report" where
  "BuildReportWithOptions u binaryVersion binaryCommit commands acceptLimitations =
     (let r = \<lparr>rt_Schema = SchemaVersion, rt_BinaryVersion = binaryVersion, rt_BinaryCommit = binaryCommit,
               rt_Scope = ''catalog'', rt_UnknownCommandStatus = StatusUnsupported, rt_GateApplied = False,
               rt_Compatible = None, rt_ArgumentReviewRequired = None, rt_LimitationsAccepted = acceptLimitations,
               rt_ArgumentReviewCommands = [], rt_Commands = Catalog\<rparr>
      in if commands = [] then r
         else let (r, compatible, review) =
                    fold (report_step u acceptLimitations) commands
                      (r\<lparr>rt_Scope := ''selection'', rt_GateApplied := True, rt_Commands := []\<rparr>, True, False)
              in r\<lparr>rt_Compatible := Some compatible, rt_ArgumentReviewRequired := Some review\<rparr>)"

definition BuildReport :: "unicode \<Rightarrow> bytes \<Rightarrow> bytes \<Rightarrow> bytes list \<Rightarrow> report" where
  "BuildReport u binaryVersion binaryCommit commands = BuildReportWithOptions u binaryVersion binaryCommit commands False"

definition IncompatibleCommands :: "report \<Rightarrow> bytes list" where
  "IncompatibleCommands r = map ce_Command (filter (\<lambda>entry. \<not> ce_Compatible entry) (rt_Commands r))"

definition UnacceptedArgumentReviewCommands :: "report \<Rightarrow> bytes list" where
  "UnacceptedArgumentReviewCommands r = (if rt_LimitationsAccepted r then [] else rt_ArgumentReviewCommands r)"

section \<open>The gate command of slizenctl\<close>

text \<open>
  \<^verbatim>\<open>compatibilityCmd\<close> after the flags are parsed (the \<^verbatim>\<open>flag\<close> package is not modelled): the
  output format, \<^verbatim>\<open>--accept-limitations\<close> and the remaining arguments are arguments here. \<open>Inl\<close> is
  the error of the command, which makes the process exit with status 1; the report is what
  \<^verbatim>\<open>writeCompatibilityReport\<close> prints before.
\<close>

definition maxCompatibilityCommands :: nat where "maxCompatibilityCommands = 1024"

fun join_strings :: "bytes list \<Rightarrow> bytes \<Rightarrow> bytes" where
  "join_strings [] sep = []"
| "join_strings [x] sep = x"
| "join_strings (x # xs) sep = x @ sep @ join_strings xs sep"

definition compatibilityGateError :: "report \<Rightarrow> bytes" where
  "compatibilityGateError r =
     (let incompatible = IncompatibleCommands r;
          problems = (if incompatible \<noteq> [] then [''incompatible commands: '' @ join_strings incompatible '', ''] else []);
          unaccepted = UnacceptedArgumentReviewCommands r;
          problems = (if unaccepted \<noteq> []
            then problems @ [''commands require argument review: '' @ join_strings unaccepted '', '' @
                   '' (review their limitations and rerun with --accept-limitations)'']
            else problems)
      in if problems = [] then ''compatibility gate failed'' else join_strings problems ''; '')"

text \<open>The lines of the text output before they are laid out in columns.\<close>

definition show_bool :: "bool \<Rightarrow> bytes" where
  "show_bool b = (if b then ''true'' else ''false'')"

definition reportText :: "report \<Rightarrow> bytes list" where
  "reportText r =
     [''schema: '' @ rt_Schema r, ''binary_version: '' @ rt_BinaryVersion r, ''binary_commit: '' @ rt_BinaryCommit r,
      ''scope: '' @ rt_Scope r, ''unknown_command_status: '' @ status_text (rt_UnknownCommandStatus r)] @
     (case (rt_GateApplied r, rt_Compatible r) of
        (True, Some c) \<Rightarrow>
          [''compatible: '' @ show_bool c] @
          (case rt_ArgumentReviewRequired r of None \<Rightarrow> []
           | Some a \<Rightarrow>
               [''argument_review_required: '' @ show_bool a, ''limitations_accepted: '' @ show_bool (rt_LimitationsAccepted r)] @
               (if rt_ArgumentReviewCommands r \<noteq> []
                then [''argument_review_commands: '' @ join_strings (rt_ArgumentReviewCommands r) '', ''] else []))
      | _ \<Rightarrow> [''compatible: not evaluated (informational catalog)'']) @
     [[], ''COMMAND'' @ [CHR 0x09] @ ''STATUS'' @ [CHR 0x09] @ ''DETAILS''] @
     map (\<lambda>entry. ce_Command entry @ [CHR 0x09] @ status_text (ce_Status entry) @ [CHR 0x09] @ ce_Behavior entry @
            (if ce_Limitations entry \<noteq> [] then '' Argument review required. Limitation: '' @ ce_Limitations entry else []))
       (rt_Commands r)"

datatype report_output = JsonReport report | TextReport "bytes list"

definition writeCompatibilityReport :: "bytes \<Rightarrow> report \<Rightarrow> report_output" where
  "writeCompatibilityReport out r = (if out = ''json'' then JsonReport r else TextReport (reportText r))"

definition compatibilityCmd ::
  "unicode \<Rightarrow> bytes \<Rightarrow> bytes \<Rightarrow> bytes \<Rightarrow> bool \<Rightarrow> bytes list \<Rightarrow> report_output option \<times> bytes option"
where
  "compatibilityCmd u version commit out acceptLimitations commands =
     (if out \<noteq> ''text'' \<and> out \<noteq> ''json'' then (None, Some ''output must be text or json'')
      else if length commands > maxCompatibilityCommands
        then (None, Some (''at most '' @ show_nat maxCompatibilityCommands @ '' commands may be checked''))
      else let r = BuildReportWithOptions u version commit commands acceptLimitations
           in (Some (writeCompatibilityReport out r),
               if rt_GateApplied r \<and> rt_Compatible r = Some False then Some (compatibilityGateError r) else None))"


section \<open>The binary search finds what a linear search finds\<close>

definition search_point :: "nat \<Rightarrow> (nat \<Rightarrow> bool) \<Rightarrow> nat \<Rightarrow> bool" where
  "search_point n f r \<longleftrightarrow> r \<le> n \<and> (\<forall>k < r. \<not> f k) \<and> (\<forall>k < n. r \<le> k \<longrightarrow> f k)"

lemma search_between_point:
  "\<lbrakk>\<forall>a b. a \<le> b \<longrightarrow> b < n \<longrightarrow> f a \<longrightarrow> f b; i \<le> j; j \<le> n; \<forall>k < i. \<not> f k; \<forall>k < n. j \<le> k \<longrightarrow> f k\<rbrakk>
    \<Longrightarrow> search_point n f (search_between f i j)"
proof (induction f i j rule: search_between.induct)
  case (1 f i j)
  let ?h = "(i + j) div 2"
  consider (stop) "\<not> i < j" | (left) "i < j" "f ?h" | (right) "i < j" "\<not> f ?h" by blast
  then show ?case
  proof cases
    case stop
    then have "search_between f i j = i" by (simp add: search_between.simps)
    with stop 1 show ?thesis by (auto simp: search_point_def)
  next
    case left
    then have "search_between f i j = search_between f i ?h" by (simp add: search_between.simps [of f i j])
    moreover have "\<forall>k < n. ?h \<le> k \<longrightarrow> f k" using left 1(3) by blast
    ultimately show ?thesis using 1(2) [OF left(1) refl] left "1.prems" by auto
  next
    case right
    then have "search_between f i j = search_between f (?h + 1) j" by (simp add: search_between.simps [of f i j])
    moreover have "\<forall>k < ?h + 1. \<not> f k"
    proof (intro allI impI notI)
      fix k assume "k < ?h + 1" "f k"
      moreover have "?h < n" using right(1) "1.prems"(3) by auto
      ultimately show False using right(2) 1(3) by (metis Suc_eq_plus1 less_Suc_eq_le)
    qed
    ultimately show ?thesis using 1(1) [OF right(1) refl] right "1.prems" by auto
  qed
qed

lemma sort_Search_point:
  "\<forall>a b. a \<le> b \<longrightarrow> b < n \<longrightarrow> f a \<longrightarrow> f b \<Longrightarrow> search_point n f (sort_Search n f)"
  by (simp add: sort_Search_def search_between_point)

lemmas catalog_entry_defs = commandCatalog_def supported_def supportedWithLimitations_def

lemma catalog_commands:
  "map ce_Command commandCatalog =
     [''BLMOVE'', ''BLPOP'', ''BRPOP'', ''BRPOPLPUSH'', ''BZPOPMAX'', ''BZPOPMIN'', ''DEL'', ''EXEC'', ''EXISTS'',
      ''EXPIRE'', ''GET'', ''HDEL'', ''HSET'', ''LPOP'', ''LPUSH'', ''MGET'', ''MONITOR'', ''MSET'', ''MULTI'',
      ''PERSIST'', ''PEXPIRE'', ''PING'', ''PSETEX'', ''PSUBSCRIBE'', ''PTTL'', ''QUIT'', ''RENAME'', ''RPOP'',
      ''RPUSH'', ''SADD'', ''SELECT'', ''SET'', ''SETEX'', ''SREM'', ''SSUBSCRIBE'', ''SUBSCRIBE'', ''TTL'',
      ''UNLINK'', ''UNWATCH'', ''WATCH'', ''XREAD'', ''XREADGROUP'']"
  by (simp add: catalog_entry_defs)

lemma catalog_sorted: "sorted_wrt (<) (map ce_Command commandCatalog)"
proof -
  have "successively (<) (map ce_Command commandCatalog)"
    unfolding catalog_commands by code_simp
  then show ?thesis by (simp add: successively_conv_sorted_wrt)
qed

lemma catalog_nth_less: "i < j \<Longrightarrow> j < length commandCatalog \<Longrightarrow> ce_Command (commandCatalog ! i) < ce_Command (commandCatalog ! j)"
  using catalog_sorted by (simp add: sorted_wrt_iff_nth_less)

lemma lookup_by_find:
  "LookupNormalized c =
     (case find (\<lambda>e. ce_Command e = c) commandCatalog of Some e \<Rightarrow> e | None \<Rightarrow> unsupported_entry c)"
proof -
  let ?n = "length commandCatalog" and ?name = "\<lambda>i. ce_Command (commandCatalog ! i)"
  define r where "r = sort_Search ?n (\<lambda>i. ?name i \<ge> c)"
  have "\<forall>a b. a \<le> b \<longrightarrow> b < ?n \<longrightarrow> c \<le> ?name a \<longrightarrow> c \<le> ?name b"
    by (metis catalog_nth_less le_neq_implies_less less_imp_le order_trans)
  then have r: "search_point ?n (\<lambda>i. c \<le> ?name i) r" unfolding r_def by (rule sort_Search_point)
  have L: "LookupNormalized c = (if r < ?n \<and> ?name r = c then commandCatalog ! r else unsupported_entry c)"
    by (simp add: LookupNormalized_def r_def Let_def)
  show ?thesis
  proof (cases "find (\<lambda>e. ce_Command e = c) commandCatalog")
    case None
    then have "\<not> (r < ?n \<and> ?name r = c)" by (auto simp: find_None_iff)
    with None show ?thesis by (auto simp: L)
  next
    case (Some e)
    then obtain i where i: "i < ?n" "?name i = c" "e = commandCatalog ! i" by (auto simp: find_Some_iff)
    have "r \<le> i"
    proof (rule ccontr)
      assume "\<not> r \<le> i"
      then have "\<not> c \<le> ?name i" using r by (simp add: search_point_def)
      with i show False by simp
    qed
    moreover have "\<not> r < i"
    proof
      assume "r < i"
      then have "c \<le> ?name r" using r i by (simp add: search_point_def)
      with catalog_nth_less [OF \<open>r < i\<close>] i show False by simp
    qed
    ultimately have "r = i" by simp
    with i Some show ?thesis by (simp add: L)
  qed
qed

text \<open>
  C30: The runtime lookup, a binary search over the catalogue, returns for every name the entry a
  linear scan would find and the unsupported entry for every name that is not listed: the catalogue
  really is sorted without duplicates, so no listed command is ever treated as unsupported.
\<close>

theorem LookupNormalized_find:
  "LookupNormalized c =
     (case find (\<lambda>e. ce_Command e = c) commandCatalog of Some e \<Rightarrow> e | None \<Rightarrow> unsupported_entry c)"
  by (rule lookup_by_find)

section \<open>The gate\<close>

definition gate_passes :: "unicode \<Rightarrow> bool \<Rightarrow> bytes list \<Rightarrow> bool" where
  "gate_passes u acceptLimitations commands \<longleftrightarrow>
     list_all (\<lambda>c. ce_Compatible (Lookup u c) \<and> (ce_ArgumentReviewRequired (Lookup u c) \<longrightarrow> acceptLimitations)) commands"

lemma report_fold:
  "fold (report_step u a) cs (r, c, v) =
     (r\<lparr>rt_Commands := rt_Commands r @ map (Lookup u) cs,
        rt_ArgumentReviewCommands := rt_ArgumentReviewCommands r @
          map ce_Command (filter ce_ArgumentReviewRequired (map (Lookup u) cs))\<rparr>,
      c \<and> gate_passes u a cs, v \<or> list_ex ce_ArgumentReviewRequired (map (Lookup u) cs))"
proof (induction cs arbitrary: r c v)
  case Nil
  then show ?case by (simp add: gate_passes_def)
next
  case (Cons x cs)
  then show ?case by (auto simp: report_step_def Let_def gate_passes_def)
qed

lemma report_selection:
  assumes "cs \<noteq> []"
  shows "BuildReportWithOptions u version commit cs a =
    \<lparr>rt_Schema = SchemaVersion, rt_BinaryVersion = version, rt_BinaryCommit = commit,
     rt_Scope = ''selection'', rt_UnknownCommandStatus = StatusUnsupported, rt_GateApplied = True,
     rt_Compatible = Some (gate_passes u a cs),
     rt_ArgumentReviewRequired = Some (list_ex ce_ArgumentReviewRequired (map (Lookup u) cs)),
     rt_LimitationsAccepted = a,
     rt_ArgumentReviewCommands = map ce_Command (filter ce_ArgumentReviewRequired (map (Lookup u) cs)),
     rt_Commands = map (Lookup u) cs\<rparr>"
  using assms by (simp add: BuildReportWithOptions_def Let_def report_fold)

lemma gate_passes_lists:
  fixes u a version commit
  assumes "cs \<noteq> []"
  defines "r \<equiv> BuildReportWithOptions u version commit cs a"
  shows "gate_passes u a cs \<longleftrightarrow> IncompatibleCommands r = [] \<and> UnacceptedArgumentReviewCommands r = []"
  by (auto simp: r_def report_selection [OF assms(1)] gate_passes_def IncompatibleCommands_def
      UnacceptedArgumentReviewCommands_def list_all_iff filter_empty_conv)

lemma lookup_name: "ce_Command (LookupNormalized c) = c"
  unfolding lookup_by_find by (auto simp: unsupported_entry_def find_Some_iff split: option.splits)

lemma report_names:
  fixes u a version commit
  assumes "cs \<noteq> []"
  defines "r \<equiv> BuildReportWithOptions u version commit cs a"
  shows "IncompatibleCommands r = map (\<lambda>c. ToUpper u (TrimSpace c)) (filter (\<lambda>c. \<not> ce_Compatible (Lookup u c)) cs)"
    "UnacceptedArgumentReviewCommands r =
       (if a then [] else map (\<lambda>c. ToUpper u (TrimSpace c)) (filter (\<lambda>c. ce_ArgumentReviewRequired (Lookup u c)) cs))"
  by (simp_all add: r_def report_selection [OF assms(1)] IncompatibleCommands_def UnacceptedArgumentReviewCommands_def
      filter_map comp_def Lookup_def lookup_name)

text \<open>
  C31: The compatibility command writes a report with one contract entry per selected command, in the
  order of the selection, and exits with success for a non-empty selection of at most 1024 commands
  exactly if every selected command is compatible and every command that needs an argument review has
  its limitations accepted. Otherwise its message names, trimmed, in upper case and in the order of the
  selection, exactly the commands that are not compatible and, unless limitations are accepted, exactly
  those that need an argument review, so the fallback message is never printed.
\<close>

theorem compatibilityCmd_gate:
  fixes u a version commit
  assumes "cs \<noteq> []" and "length cs \<le> maxCompatibilityCommands" and "out = ''text'' \<or> out = ''json''"
  defines "r \<equiv> BuildReportWithOptions u version commit cs a"
    and "bad \<equiv> map (\<lambda>c. ToUpper u (TrimSpace c)) (filter (\<lambda>c. \<not> ce_Compatible (Lookup u c)) cs)"
    and "unreviewed \<equiv> if a then [] else map (\<lambda>c. ToUpper u (TrimSpace c)) (filter (\<lambda>c. ce_ArgumentReviewRequired (Lookup u c)) cs)"
  shows "compatibilityCmd u version commit out a cs =
    (Some (writeCompatibilityReport out r),
     if list_all (\<lambda>c. ce_Compatible (Lookup u c) \<and> (a \<or> \<not> ce_ArgumentReviewRequired (Lookup u c))) cs then None
     else Some (join_strings
       ((if bad = [] then [] else [''incompatible commands: '' @ join_strings bad '', '']) @
        (if unreviewed = [] then []
         else [''commands require argument review: '' @ join_strings unreviewed '', '' @
               '' (review their limitations and rerun with --accept-limitations)''])) ''; '')) \<and>
    rt_Commands r = map (Lookup u) cs \<and> rt_ArgumentReviewCommands r =
      map (\<lambda>c. ToUpper u (TrimSpace c)) (filter (\<lambda>c. ce_ArgumentReviewRequired (Lookup u c)) cs) \<and>
    rt_Compatible r = Some (list_all (\<lambda>c. ce_Compatible (Lookup u c) \<and> (a \<or> \<not> ce_ArgumentReviewRequired (Lookup u c))) cs)"
proof -
  have g: "gate_passes u a cs =
      list_all (\<lambda>c. ce_Compatible (Lookup u c) \<and> (a \<or> \<not> ce_ArgumentReviewRequired (Lookup u c))) cs"
    by (auto simp: gate_passes_def list_all_iff)
  have c: "rt_GateApplied r" "rt_Compatible r = Some (gate_passes u a cs)" "rt_Commands r = map (Lookup u) cs"
    "rt_ArgumentReviewCommands r = map (\<lambda>c. ToUpper u (TrimSpace c)) (filter (\<lambda>c. ce_ArgumentReviewRequired (Lookup u c)) cs)"
    by (simp_all add: r_def report_selection [OF assms(1)] filter_map comp_def Lookup_def lookup_name)
  note names = report_names [OF assms(1), of u version commit a, folded r_def bad_def unreviewed_def]
  note lists = gate_passes_lists [OF assms(1), of u a version commit, folded r_def, unfolded names]
  show ?thesis
  proof (cases "gate_passes u a cs")
    case True
    then show ?thesis using assms(2,3) c by (auto simp: compatibilityCmd_def Let_def g [symmetric] r_def [symmetric])
  next
    case False
    then have "compatibilityCmd u version commit out a cs =
        (Some (writeCompatibilityReport out r), Some (compatibilityGateError r))"
      using assms(2,3) c by (auto simp: compatibilityCmd_def Let_def r_def [symmetric])
    then show ?thesis using False lists c(2-4) by (auto simp: g [symmetric] compatibilityGateError_def names Let_def)
  qed
qed

definition ascii_only :: unicode where
  "ascii_only = \<lparr>u_upper = (\<lambda>s. s), u_lower = (\<lambda>s. s), u_fold = (\<lambda>s t. s = t)\<rparr>"

lemma lookup_samples:
  "LookupNormalized ''GET'' = supported ''GET'' ClassRead ''Cache-aware in cache mode and always forwarded in observe mode.''"
  "ce_Compatible (LookupNormalized ''SELECT'')" "ce_ArgumentReviewRequired (LookupNormalized ''SELECT'')"
  "ce_Command (LookupNormalized ''SELECT'') = ''SELECT''"
  by (simp_all add: lookup_by_find catalog_entry_defs)

lemma lookup_unknown: "\<not> ce_Compatible (LookupNormalized ''NOPE'')" "\<not> ce_ArgumentReviewRequired (LookupNormalized ''NOPE'')"
  by (simp_all add: lookup_by_find catalog_entry_defs unsupported_entry_def)

lemma upper_samples:
  "ToUpper ascii_only (TrimSpace '' get'') = ''GET''" "ToUpper ascii_only (TrimSpace ''select'') = ''SELECT''"
  "ToUpper ascii_only (TrimSpace ''nope'') = ''NOPE''"
  by code_simp+

theorem compatibilityCmd_gate_witness:
  "snd (compatibilityCmd ascii_only ''v'' ''c'' ''text'' False ['' get'', ''nope'', ''select'']) =
     Some (''incompatible commands: NOPE; '' @
       ''commands require argument review: SELECT (review their limitations and rerun with --accept-limitations)'')"
  using compatibilityCmd_gate [of "['' get'', ''nope'', ''select'']" "''text''" ascii_only "''v''" "''c''" False]
  by (simp add: maxCompatibilityCommands_def Lookup_def upper_samples lookup_samples lookup_unknown supported_def)

end
