(* ===== verification/Metrics.thy ===== *)
theory Metrics
  imports GoStd
begin

text \<open>
  The recorder of \<^verbatim>\<open>internal/metrics/metrics.go\<close>. Its own counters are 64-bit words that wrap around.
  The calls it makes on the Prometheus client library are recorded in order with the family name, the
  label values and the number passed (before its conversion to \<^verbatim>\<open>float64\<close>; a duration is passed in
  seconds): what the library does with them is not modelled. A counter or observer that \<^verbatim>\<open>New\<close>
  resolves in advance is the child that \<^verbatim>\<open>WithLabelValues\<close> gives for the same labels.
\<close>

section \<open>Miss reasons and labels\<close>

type_synonym miss_reason = "8 word"

definition CacheMissReasonUnclassified :: miss_reason where "CacheMissReasonUnclassified = 0"
definition CacheMissReasonPolicyBypass :: miss_reason where "CacheMissReasonPolicyBypass = 1"
definition CacheMissReasonNotAdmitted :: miss_reason where "CacheMissReasonNotAdmitted = 2"
definition CacheMissReasonNotPresent :: miss_reason where "CacheMissReasonNotPresent = 3"
definition cacheMissReasonCount :: miss_reason where "cacheMissReasonCount = 4"

lemmas miss_reason_defs = CacheMissReasonUnclassified_def CacheMissReasonPolicyBypass_def
  CacheMissReasonNotAdmitted_def CacheMissReasonNotPresent_def cacheMissReasonCount_def

definition normalizeCacheMissReason :: "miss_reason \<Rightarrow> miss_reason" where
  "normalizeCacheMissReason reason =
     (if reason \<ge> cacheMissReasonCount then CacheMissReasonUnclassified else reason)"

definition cacheMissReasonLabel :: "miss_reason \<Rightarrow> bytes" where
  "cacheMissReasonLabel reason =
     (let reason = normalizeCacheMissReason reason in
      if reason = CacheMissReasonPolicyBypass then ''policy_bypass''
      else if reason = CacheMissReasonNotAdmitted then ''not_admitted''
      else if reason = CacheMissReasonNotPresent then ''not_present''
      else ''unclassified'')"

definition plain_commands :: "bytes list" where
  "plain_commands =
     [''PING'', ''QUIT'', ''SELECT'', ''GET'', ''MGET'', ''SET'', ''SETEX'', ''PSETEX'', ''DEL'', ''UNLINK'', ''EXPIRE'',
      ''PEXPIRE'', ''PERSIST'', ''TTL'', ''PTTL'', ''EXISTS'']"

definition unsafe_commands :: "bytes list" where
  "unsafe_commands =
     [''MULTI'', ''EXEC'', ''WATCH'', ''UNWATCH'', ''SUBSCRIBE'', ''PSUBSCRIBE'', ''SSUBSCRIBE'', ''MONITOR'', ''BLPOP'',
      ''BRPOP'', ''BRPOPLPUSH'', ''BLMOVE'', ''BZPOPMIN'', ''BZPOPMAX'', ''XREAD'', ''XREADGROUP'']"

definition commandLabel :: "unicode \<Rightarrow> bytes \<Rightarrow> bytes" where
  "commandLabel u command =
     (let c = ToUpper u command in
      if c \<in> set plain_commands then c
      else if c \<in> set unsafe_commands then ''unsafe''
      else if c = [] \<or> c = ''UNKNOWN'' then ''invalid''
      else ''unsupported'')"

section \<open>Prometheus calls\<close>

datatype prom_call =
  Child bytes "bytes list"
| CounterInc bytes "bytes list"
| CounterAdd bytes "bytes list" u64
| GaugeSet bytes int
| GaugeInc bytes
| GaugeDec bytes
| HistObserve bytes "bytes list" duration

text \<open>The families that \<^verbatim>\<open>New\<close> registers, each with its label names.\<close>

definition families :: "(bytes \<times> bytes list) list" where
  "families =
     [(''slizen_requests_total'', [''command'', ''result'']),
      (''slizen_request_duration_seconds'', [''command'', ''result'']),
      (''slizen_cache_hits_total'', [''command'']),
      (''slizen_cache_misses_total'', [''command'']),
      (''slizen_cache_miss_reasons_total'', [''reason'']),
      (''slizen_cache_entries'', []),
      (''slizen_cache_bytes'', []),
      (''slizen_cache_max_entries'', []),
      (''slizen_cache_max_bytes'', []),
      (''slizen_cache_evictions_total'', []),
      (''slizen_active_connections'', []),
      (''slizen_upstream_requests_total'', [''command'']),
      (''slizen_upstream_errors_total'', [''command'']),
      (''slizen_upstream_duration_seconds'', [''command'', ''result'']),
      (''slizen_hot_keys'', []),
      (''slizen_promotions_total'', []),
      (''slizen_demotions_total'', []),
      (''slizen_invalidations_total'', [''reason'']),
      (''slizen_coalesced_requests_total'', []),
      (''slizen_hotness_capacity_observations_dropped_total'', []),
      (''slizen_hotness_oversized_observations_dropped_total'', [])]"

section \<open>Recorder\<close>

record recorder =
  totalRequests :: u64
  totalCacheHits :: u64
  totalCacheMisses :: u64
  totalCacheMissesByReason :: "u64 list"
  totalUpstreamReqs :: u64
  totalUpstreamGets :: u64
  totalUpstreamErrs :: u64
  totalPromotions :: u64
  totalDemotions :: u64
  totalInvalidates :: u64
  totalCoalesced :: u64
  evictionSeen :: u64
  hotnessCapacityDropSeen :: u64
  hotnessOversizedDropSeen :: u64
  prom_calls :: "prom_call list"

definition prom :: "prom_call list \<Rightarrow> recorder \<Rightarrow> recorder" where
  "prom cs r = r\<lparr>prom_calls := prom_calls r @ cs\<rparr>"

definition New_recorder :: recorder where
  "New_recorder =
     \<lparr>totalRequests = 0, totalCacheHits = 0, totalCacheMisses = 0,
      totalCacheMissesByReason = replicate (unat cacheMissReasonCount) 0,
      totalUpstreamReqs = 0, totalUpstreamGets = 0, totalUpstreamErrs = 0, totalPromotions = 0, totalDemotions = 0,
      totalInvalidates = 0, totalCoalesced = 0, evictionSeen = 0, hotnessCapacityDropSeen = 0,
      hotnessOversizedDropSeen = 0,
      prom_calls =
        [Child ''slizen_requests_total'' [''GET'', ''ok''], Child ''slizen_request_duration_seconds'' [''GET'', ''ok''],
         Child ''slizen_cache_hits_total'' [''GET'']] @
        map (\<lambda>i. Child ''slizen_cache_miss_reasons_total'' [cacheMissReasonLabel (of_nat i)])
          [0 ..< unat cacheMissReasonCount]\<rparr>"

definition ObserveRequest :: "unicode \<Rightarrow> bytes \<Rightarrow> bytes \<Rightarrow> duration \<Rightarrow> recorder \<Rightarrow> recorder" where
  "ObserveRequest u command result d r =
     (let command = commandLabel u command;
          r = r\<lparr>totalRequests := totalRequests r + 1\<rparr>
      in if command = ''GET'' \<and> result = ''ok''
         then prom [CounterInc ''slizen_requests_total'' [''GET'', ''ok''],
                    HistObserve ''slizen_request_duration_seconds'' [''GET'', ''ok''] d] r
         else prom [CounterInc ''slizen_requests_total'' [command, result],
                    HistObserve ''slizen_request_duration_seconds'' [command, result] d] r)"

definition CacheHit :: "unicode \<Rightarrow> bytes \<Rightarrow> recorder \<Rightarrow> recorder" where
  "CacheHit u command r =
     (let command = commandLabel u command;
          r = r\<lparr>totalCacheHits := totalCacheHits r + 1\<rparr>
      in if command = ''GET'' then prom [CounterInc ''slizen_cache_hits_total'' [''GET'']] r
         else prom [CounterInc ''slizen_cache_hits_total'' [command]] r)"

definition CacheMissWithReason :: "unicode \<Rightarrow> bytes \<Rightarrow> miss_reason \<Rightarrow> recorder \<Rightarrow> recorder" where
  "CacheMissWithReason u command reason r =
     (let command = commandLabel u command;
          reason = normalizeCacheMissReason reason;
          i = unat reason;
          r = r\<lparr>totalCacheMisses := totalCacheMisses r + 1\<rparr>;
          r = r\<lparr>totalCacheMissesByReason :=
                 (totalCacheMissesByReason r)[i := totalCacheMissesByReason r ! i + 1]\<rparr>
      in prom [CounterInc ''slizen_cache_misses_total'' [command],
               CounterInc ''slizen_cache_miss_reasons_total'' [cacheMissReasonLabel reason]] r)"

definition CacheMiss :: "unicode \<Rightarrow> bytes \<Rightarrow> recorder \<Rightarrow> recorder" where
  "CacheMiss u command = CacheMissWithReason u command CacheMissReasonUnclassified"

text \<open>A call of \<^verbatim>\<open>advanceHighWater\<close> with no other goroutine in between: the new mark and the delta.\<close>

definition advanceHighWater :: "u64 \<Rightarrow> u64 \<Rightarrow> u64 \<times> u64" where
  "advanceHighWater mark tot = (if tot \<le> mark then (mark, 0) else (tot, tot - mark))"

definition ObserveCache :: "int \<Rightarrow> int \<Rightarrow> u64 \<Rightarrow> recorder \<Rightarrow> recorder" where
  "ObserveCache entries bs evictions r =
     (let r = prom [GaugeSet ''slizen_cache_entries'' entries, GaugeSet ''slizen_cache_bytes'' bs] r;
          (mark, delta) = advanceHighWater (evictionSeen r) evictions;
          r = r\<lparr>evictionSeen := mark\<rparr>
      in if delta > 0 then prom [CounterAdd ''slizen_cache_evictions_total'' [] delta] r else r)"

definition SetCacheLimits :: "int \<Rightarrow> int \<Rightarrow> recorder \<Rightarrow> recorder" where
  "SetCacheLimits maxBytes maxEntries =
     prom [GaugeSet ''slizen_cache_max_bytes'' maxBytes, GaugeSet ''slizen_cache_max_entries'' maxEntries]"

definition ConnectionOpened :: "recorder \<Rightarrow> recorder" where
  "ConnectionOpened = prom [GaugeInc ''slizen_active_connections'']"

definition ConnectionClosed :: "recorder \<Rightarrow> recorder" where
  "ConnectionClosed = prom [GaugeDec ''slizen_active_connections'']"

definition ObserveUpstream :: "unicode \<Rightarrow> bytes \<Rightarrow> duration \<Rightarrow> bool \<Rightarrow> recorder \<Rightarrow> recorder" where
  "ObserveUpstream u command d failed r =
     (let command = commandLabel u command;
          r = r\<lparr>totalUpstreamReqs := totalUpstreamReqs r + 1\<rparr>;
          r = (if command = ''GET'' then r\<lparr>totalUpstreamGets := totalUpstreamGets r + 1\<rparr> else r);
          r = prom [CounterInc ''slizen_upstream_requests_total'' [command]] r;
          (r, result) =
            (if failed
             then (prom [CounterInc ''slizen_upstream_errors_total'' [command]]
                     (r\<lparr>totalUpstreamErrs := totalUpstreamErrs r + 1\<rparr>), ''error'')
             else (r, ''ok''))
      in prom [HistObserve ''slizen_upstream_duration_seconds'' [command, result] d] r)"

definition Promotion :: "recorder \<Rightarrow> recorder" where
  "Promotion r = prom [CounterInc ''slizen_promotions_total'' []] (r\<lparr>totalPromotions := totalPromotions r + 1\<rparr>)"

definition Demotion :: "recorder \<Rightarrow> recorder" where
  "Demotion r = prom [CounterInc ''slizen_demotions_total'' []] (r\<lparr>totalDemotions := totalDemotions r + 1\<rparr>)"

definition Invalidation :: "bytes \<Rightarrow> recorder \<Rightarrow> recorder" where
  "Invalidation reason r =
     prom [CounterInc ''slizen_invalidations_total'' [reason]] (r\<lparr>totalInvalidates := totalInvalidates r + 1\<rparr>)"

definition Coalesced :: "recorder \<Rightarrow> recorder" where
  "Coalesced r = prom [CounterInc ''slizen_coalesced_requests_total'' []] (r\<lparr>totalCoalesced := totalCoalesced r + 1\<rparr>)"

definition SetHotKeys :: "int \<Rightarrow> recorder \<Rightarrow> recorder" where
  "SetHotKeys n = prom [GaugeSet ''slizen_hot_keys'' n]"

definition ObserveHotnessOversizedDrops :: "u64 \<Rightarrow> recorder \<Rightarrow> recorder" where
  "ObserveHotnessOversizedDrops tot r =
     (let (mark, delta) = advanceHighWater (hotnessOversizedDropSeen r) tot;
          r = r\<lparr>hotnessOversizedDropSeen := mark\<rparr>
      in if delta > 0 then prom [CounterAdd ''slizen_hotness_oversized_observations_dropped_total'' [] delta] r else r)"

definition ObserveHotnessCapacityDrops :: "u64 \<Rightarrow> recorder \<Rightarrow> recorder" where
  "ObserveHotnessCapacityDrops tot r =
     (let (mark, delta) = advanceHighWater (hotnessCapacityDropSeen r) tot;
          r = r\<lparr>hotnessCapacityDropSeen := mark\<rparr>
      in if delta > 0 then prom [CounterAdd ''slizen_hotness_capacity_observations_dropped_total'' [] delta] r else r)"

record metrics_snapshot =
  ms_TotalRequests :: u64
  ms_CacheHits :: u64
  ms_CacheMisses :: u64
  ms_CacheMissesUnclassified :: u64
  ms_CacheMissesPolicyBypass :: u64
  ms_CacheMissesNotAdmitted :: u64
  ms_CacheMissesNotPresent :: u64
  ms_UpstreamRequests :: u64
  ms_UpstreamGets :: u64
  ms_UpstreamErrors :: u64
  ms_Promotions :: u64
  ms_Demotions :: u64
  ms_Invalidations :: u64
  ms_CoalescedRequests :: u64

definition Snapshot :: "recorder \<Rightarrow> metrics_snapshot" where
  "Snapshot r =
     \<lparr>ms_TotalRequests = totalRequests r, ms_CacheHits = totalCacheHits r, ms_CacheMisses = totalCacheMisses r,
      ms_CacheMissesUnclassified = totalCacheMissesByReason r ! unat CacheMissReasonUnclassified,
      ms_CacheMissesPolicyBypass = totalCacheMissesByReason r ! unat CacheMissReasonPolicyBypass,
      ms_CacheMissesNotAdmitted = totalCacheMissesByReason r ! unat CacheMissReasonNotAdmitted,
      ms_CacheMissesNotPresent = totalCacheMissesByReason r ! unat CacheMissReasonNotPresent,
      ms_UpstreamRequests = totalUpstreamReqs r, ms_UpstreamGets = totalUpstreamGets r,
      ms_UpstreamErrors = totalUpstreamErrs r, ms_Promotions = totalPromotions r, ms_Demotions = totalDemotions r,
      ms_Invalidations = totalInvalidates r, ms_CoalescedRequests = totalCoalesced r\<rparr>"

end
