(* ===== verification/HighWater.thy ===== *)
theory HighWater
  imports Metrics
begin

text \<open>
  The lock-free \<^verbatim>\<open>advanceHighWater\<close> of \<^verbatim>\<open>internal/metrics/metrics.go\<close> under any interleaving: each
  goroutine repeats an atomic load and an atomic compare-and-swap of the shared mark.
\<close>

datatype hw_pc = HwLoad | HwCas u64 | HwDone u64

type_synonym hw_thread = "u64 \<times> hw_pc"
type_synonym hw_state = "u64 \<times> hw_thread list"

text \<open>
  One atomic action of a goroutine that was called with \<open>t\<close>: the load with the comparison that follows
  it, or the compare-and-swap. \<open>HwDone d\<close> has returned \<open>d\<close>.
\<close>

fun hw_move :: "u64 \<Rightarrow> hw_thread \<Rightarrow> u64 \<times> hw_thread" where
  "hw_move m (t, HwLoad) = (m, (t, if t \<le> m then HwDone 0 else HwCas m))"
| "hw_move m (t, HwCas p) = (if m = p then (t, (t, HwDone (t - p))) else (m, (t, HwLoad)))"
| "hw_move m (t, HwDone d) = (m, (t, HwDone d))"

fun hw_done :: "hw_thread \<Rightarrow> bool" where
  "hw_done (t, HwDone d) = True"
| "hw_done (t, _) = False"

fun hw_delta :: "hw_thread \<Rightarrow> nat" where
  "hw_delta (t, HwDone d) = unat d"
| "hw_delta (t, _) = 0"

definition hw_turn :: "nat \<Rightarrow> hw_state \<Rightarrow> hw_state" where
  "hw_turn i s = (case s of (m, ts) \<Rightarrow> case hw_move m (ts ! i) of (m', th) \<Rightarrow> (m', ts[i := th]))"

inductive hw_step :: "hw_state \<Rightarrow> hw_state \<Rightarrow> bool" where
  turn: "i < length ts \<Longrightarrow> \<not> hw_done (ts ! i) \<Longrightarrow> hw_step (m, ts) (hw_turn i (m, ts))"

inductive_cases hw_stepE: "hw_step s s'"

definition hw_start :: "u64 \<Rightarrow> u64 list \<Rightarrow> hw_state" where
  "hw_start m tots = (m, map (\<lambda>t. (t, HwLoad)) tots)"

definition hw_final :: "hw_state \<Rightarrow> bool" where
  "hw_final s = list_all hw_done (snd s)"

section \<open>Invariant\<close>

lemma map_update_same: "i < length xs \<Longrightarrow> f x = f (xs ! i) \<Longrightarrow> map f (xs[i := x]) = map f xs"
  by (simp add: map_update list_update_same_conv)

fun hw_ok :: "u64 \<Rightarrow> hw_thread \<Rightarrow> bool" where
  "hw_ok m (t, HwLoad) = True"
| "hw_ok m (t, HwCas p) = (p \<le> m \<and> p < t)"
| "hw_ok m (t, HwDone d) = (t \<le> m)"

definition hw_inv :: "u64 \<Rightarrow> u64 list \<Rightarrow> hw_state \<Rightarrow> bool" where
  "hw_inv m0 tots s \<longleftrightarrow> (case s of (m, ts) \<Rightarrow>
     map fst ts = tots \<and> m0 \<le> m \<and> (m = m0 \<or> m \<in> set tots) \<and> list_all (hw_ok m) ts \<and>
     unat m0 + sum_list (map hw_delta ts) = unat m)"

lemma hw_ok_mono: "m \<le> m' \<Longrightarrow> hw_ok m th \<Longrightarrow> hw_ok m' th"
  by (cases "(m, th)" rule: hw_ok.cases) auto

lemma hw_move_cases:
  assumes "hw_move m th = (m', th')" and "\<not> hw_done th" and "hw_ok m th"
  shows "fst th' = fst th" "m \<le> m'" "m' = m \<or> m' = fst th" "hw_ok m' th'"
    "unat m + hw_delta th' = unat m' + hw_delta th" "hw_delta th = 0"
  using assms
  by (cases "(m, th)" rule: hw_move.cases;
      auto simp: unat_sub word_le_nat_alt word_less_nat_alt not_le split: if_splits)+

lemma hw_inv_start: "hw_inv m0 tots (hw_start m0 tots)"
  by (simp add: hw_inv_def hw_start_def comp_def list_all_iff)

lemma hw_inv_step:
  assumes "hw_step s s'" and "hw_inv m0 tots s"
  shows "hw_inv m0 tots s'"
  using assms(1)
proof cases
  case (turn i ts m)
  obtain m' th' where mv: "hw_move m (ts ! i) = (m', th')" by (cases "hw_move m (ts ! i)")
  from assms(2) turn have inv: "map fst ts = tots" "m0 \<le> m" "m = m0 \<or> m \<in> set tots" "list_all (hw_ok m) ts"
      "unat m0 + sum_list (map hw_delta ts) = unat m"
    by (auto simp: hw_inv_def)
  have "hw_ok m (ts ! i)" using inv(4) turn by (simp add: list_all_length)
  note M = hw_move_cases [OF mv \<open>\<not> hw_done (ts ! i)\<close> this]
  have "map fst (ts[i := th']) = tots"
    using inv(1) M(1) turn by (simp add: map_update_same)
  moreover have "m' = m0 \<or> m' \<in> set tots" using M(3) inv turn by auto
  moreover have "list_all (hw_ok m') (ts[i := th'])"
    using inv(4) M(2,4) hw_ok_mono by (auto simp: list_all_iff dest!: set_update_subset_insert [THEN subsetD])
  moreover have "unat m0 + sum_list (map hw_delta (ts[i := th'])) = unat m'"
    using inv(5) M(5,6) turn by (simp add: map_update sum_list_update)
  ultimately show ?thesis
    using turn mv inv(2) M(2) by (simp add: hw_inv_def hw_turn_def)
qed

lemma hw_inv_reachable: "hw_step\<^sup>*\<^sup>* (hw_start m0 tots) s \<Longrightarrow> hw_inv m0 tots s"
  by (induction rule: rtranclp_induct) (auto intro: hw_inv_start hw_inv_step)

text \<open>
  C16: However concurrent calls interleave, once they have all returned the mark is the largest of its
  old value and the reported totals and the returned deltas add up to exactly its increase, so the
  exported counter counts every event once and none twice.
\<close>

theorem highwater_exact:
  assumes "hw_step\<^sup>*\<^sup>* (hw_start m0 tots) (m, ts)" and "hw_final (m, ts)"
  shows "m = Max (insert m0 (set tots)) \<and> sum_list (map hw_delta ts) = unat m - unat m0"
proof -
  have inv: "hw_inv m0 tots (m, ts)" using assms(1) by (rule hw_inv_reachable)
  have "t \<le> m" if "t \<in> set tots" for t
  proof -
    from that inv obtain p where "(t, p) \<in> set ts" by (auto simp: hw_inv_def)
    then have "hw_done (t, p)" "hw_ok m (t, p)" using assms(2) inv by (auto simp: hw_final_def hw_inv_def list_all_iff)
    then show ?thesis by (cases p) auto
  qed
  with inv have "m = Max (insert m0 (set tots))" by (intro Max_eqI [symmetric]) (auto simp: hw_inv_def)
  with inv show ?thesis by (auto simp: hw_inv_def)
qed

text \<open>Executing a schedule; \<open>None\<close> if it gives a turn to a call that has returned.\<close>

fun hw_sched :: "nat list \<Rightarrow> hw_state \<Rightarrow> hw_state option" where
  "hw_sched [] s = Some s"
| "hw_sched (i # is) s =
     (if i < length (snd s) \<and> \<not> hw_done (snd s ! i) then hw_sched is (hw_turn i s) else None)"

lemma hw_sched_steps: "hw_sched is s = Some s' \<Longrightarrow> hw_step\<^sup>*\<^sup>* s s'"
proof (induction "is" s rule: hw_sched.induct)
  case (2 i "is" s)
  then have "hw_step s (hw_turn i s)" "hw_step\<^sup>*\<^sup>* (hw_turn i s) s'"
    by (cases s; auto intro: hw_step.turn split: if_splits)+
  then show ?case by (rule converse_rtranclp_into_rtranclp)
qed simp

text \<open>Two racing calls: the second loads before the first swaps, fails once and retries.\<close>

lemma race_run: "hw_step\<^sup>*\<^sup>* (hw_start 5 [9, 12]) (12, [(9, HwDone 4), (12, HwDone 3)])"
  by (rule hw_sched_steps [of "[0, 1, 0, 1, 1, 1]"]) code_simp

theorem highwater_exact_witness:
  "(12 :: u64) = Max (insert 5 (set [9, 12])) \<and> sum_list (map hw_delta [(9, HwDone 4), (12, HwDone 3)]) = unat (12 :: u64) - unat (5 :: u64)"
  by (rule highwater_exact [OF race_run]) (simp add: hw_final_def)

section \<open>Termination\<close>

definition hw_undone :: "hw_state \<Rightarrow> nat" where
  "hw_undone s = sum_list (map (\<lambda>th. of_bool (\<not> hw_done th)) (snd s))"

fun hw_weight :: "u64 \<Rightarrow> hw_thread \<Rightarrow> nat" where
  "hw_weight m (t, HwLoad) = 1"
| "hw_weight m (t, HwCas p) = (if p = m then 0 else 2)"
| "hw_weight m (t, HwDone d) = 0"

definition hw_work :: "hw_state \<Rightarrow> nat" where
  "hw_work s = sum_list (map (hw_weight (fst s)) (snd s))"

lemma sum_update_less:
  fixes f :: "'a \<Rightarrow> nat"
  assumes "i < length xs" "f x < f (xs ! i)"
  shows "sum_list (map f (xs[i := x])) < sum_list (map f xs)"
proof -
  have "f (xs ! i) \<le> sum_list (map f xs)" using assms(1) by (metis elem_le_sum_list length_map nth_map)
  then show ?thesis using assms by (simp add: map_update sum_list_update)
qed

text \<open>
  The retry loop always ends: every infinite interleaving is impossible, since a compare-and-swap
  fails only if another call has completed since the load.
\<close>

theorem highwater_terminates: "wf {(s', s). hw_step s s'}"
proof (rule wf_subset [OF wf_measures [of "[hw_undone, hw_work]"]], safe)
  fix m ts m' ts'
  assume "hw_step (m, ts) (m', ts')"
  then obtain i where i: "i < length ts" "\<not> hw_done (ts ! i)" "(m', ts') = hw_turn i (m, ts)"
    by (auto elim: hw_stepE)
  obtain t p where th: "ts ! i = (t, p)" by (cases "ts ! i")
  show "((m', ts'), (m, ts)) \<in> measures [hw_undone, hw_work]"
  proof (cases "hw_done (snd (hw_move m (ts ! i)))")
    case True
    then have "hw_undone (m', ts') < hw_undone (m, ts)"
      using i sum_update_less [of i ts "\<lambda>th. of_bool (\<not> hw_done th)" "snd (hw_move m (ts ! i))"]
      by (simp add: hw_turn_def hw_undone_def case_prod_unfold)
    then show ?thesis by simp
  next
    case False
    then have "m' = m" and less: "hw_weight m (snd (hw_move m (ts ! i))) < hw_weight m (ts ! i)"
      using i th by (cases p; auto simp: hw_turn_def split: if_splits)+
    moreover have "hw_undone (m', ts') = hw_undone (m, ts)"
      using i False by (simp add: hw_turn_def hw_undone_def case_prod_unfold map_update_same)
    ultimately show ?thesis
      using i sum_update_less [of i ts "hw_weight m", OF _ less] by (simp add: hw_turn_def hw_work_def case_prod_unfold)
  qed
qed

end
