(* ===== verification/Upstream.thy ===== *)
theory Upstream
  imports Config
begin

text \<open>
  The upstream side of the service: the client interface of \<^verbatim>\<open>internal/upstream/client.go\<close>, its
  Redis implementation (\<^verbatim>\<open>internal/upstream/redis.go\<close>) and the key identifiers of
  \<^verbatim>\<open>internal/privacy/keys.go\<close>. The go-redis library is the argument \<open>g\<close>: for each pipeline it gives
  the error of \<^verbatim>\<open>Exec\<close> and the result of each queued command. HMAC-SHA-256 is the argument \<open>hmac\<close>.
\<close>

section \<open>Values, errors and replies\<close>

record upstream_value =
  uv_Data :: bytes
  uv_Exists :: bool
  uv_PTTL :: duration

definition no_value :: upstream_value where
  "no_value = \<lparr>uv_Data = [], uv_Exists = False, uv_PTTL = 0\<rparr>"

text \<open>\<^verbatim>\<open>redis.Nil\<close>, another reply error of the server, or any other error.\<close>

datatype go_error = RedisNil | ReplyError bytes | OtherError bytes

text \<open>\<^verbatim>\<open>errors.As(err, &redisErr)\<close>: \<^verbatim>\<open>redis.Nil\<close> is a \<^verbatim>\<open>redis.Error\<close> too.\<close>

fun is_redis_error :: "go_error \<Rightarrow> bool" where
  "is_redis_error (OtherError _) = False"
| "is_redis_error _ = True"

text \<open>A dynamically typed reply; \<open>ReplyOther\<close> carries what \<^verbatim>\<open>fmt.Sprint\<close> makes of any other type.\<close>

datatype reply =
  ReplyNil | ReplyString bytes | ReplyBytes bytes | ReplyInt int | ReplyInt64 int | ReplyUint64 u64 | ReplyBool bool |
  ReplyArray "reply list" | ReplyOther bytes

section \<open>The client interface\<close>

text \<open>
  The methods act on the state \<open>'w\<close> of everything behind the client; \<open>None\<close> is a panic. Cancellation of
  the context shows as an error of the method.
\<close>

record 'w client =
  cl_Ping :: "'w \<Rightarrow> go_error option \<times> 'w"
  cl_Get :: "bytes \<Rightarrow> 'w \<Rightarrow> (go_error + upstream_value) \<times> 'w"
  cl_MGet :: "bytes list \<Rightarrow> 'w \<Rightarrow> (go_error + upstream_value list) option \<times> 'w"
  cl_Do :: "bytes list \<Rightarrow> 'w \<Rightarrow> (go_error + reply) \<times> 'w"
  cl_Close :: "'w \<Rightarrow> go_error option \<times> 'w"

section \<open>The Redis client\<close>

record 'w goredis =
  gr_Ping :: "'w \<Rightarrow> go_error option \<times> 'w"
  gr_GetPTTL :: "bytes \<Rightarrow> 'w \<Rightarrow> (go_error option \<times> (go_error + bytes) \<times> (go_error + duration)) \<times> 'w"
  gr_MGetPTTL :: "bytes list \<Rightarrow> 'w \<Rightarrow> (go_error option \<times> (go_error + reply list) \<times> duration list) \<times> 'w"
  gr_Do :: "bytes list \<Rightarrow> 'w \<Rightarrow> (go_error + reply) \<times> 'w"
  gr_Close :: "'w \<Rightarrow> go_error option \<times> 'w"

definition redisPTTLMissing :: duration where
  "redisPTTLMissing = - 2"

definition redis_options :: "upstream_config \<Rightarrow> (bytes \<times> bytes \<times> bytes \<times> int \<times> duration \<times> duration \<times> duration)" where
  "redis_options cfg =
     (us_Address cfg, us_Username cfg, us_Password cfg, us_Database cfg, us_DialTimeout cfg, us_ReadTimeout cfg,
      us_WriteTimeout cfg)"

text \<open>What \<^verbatim>\<open>Get\<close> makes of the results of the pipeline.\<close>

definition get_result ::
  "go_error option \<Rightarrow> go_error + bytes \<Rightarrow> go_error + duration \<Rightarrow> go_error + upstream_value"
where
  "get_result execErr get pttl =
     (case get of
        Inl err \<Rightarrow>
          if err = RedisNil then
            (case execErr of
               Some e \<Rightarrow> if \<not> is_redis_error e then Inl e else Inr no_value
             | None \<Rightarrow> Inr no_value)
          else Inl err
      | Inr data \<Rightarrow>
          (case pttl of
             Inl err \<Rightarrow> Inl err
           | Inr ttl \<Rightarrow>
               (case execErr of
                  Some e \<Rightarrow> Inl e
                | None \<Rightarrow>
                    if ttl = redisPTTLMissing then Inr no_value
                    else Inr \<lparr>uv_Data = data, uv_Exists = True, uv_PTTL = ttl\<rparr>)))"

definition redis_Get :: "'w goredis \<Rightarrow> bytes \<Rightarrow> 'w \<Rightarrow> (go_error + upstream_value) \<times> 'w" where
  "redis_Get g key w =
     (case gr_GetPTTL g key w of ((execErr, get, pttl), w) \<Rightarrow> (get_result execErr get pttl, w))"

text \<open>\<^verbatim>\<open>fmt.Sprint\<close> of a reply.\<close>

fun spaced :: "bytes list \<Rightarrow> bytes" where
  "spaced [] = []"
| "spaced [x] = x"
| "spaced (x # xs) = x @ '' '' @ spaced xs"

fun Sprint :: "reply \<Rightarrow> bytes" where
  "Sprint ReplyNil = ''<nil>''"
| "Sprint (ReplyString v) = v"
| "Sprint (ReplyBytes v) = ''['' @ spaced (map (\<lambda>c. show_nat (code c)) v) @ '']''"
| "Sprint (ReplyInt i) = show_int i"
| "Sprint (ReplyInt64 i) = show_int i"
| "Sprint (ReplyUint64 i) = show_nat (unat i)"
| "Sprint (ReplyBool b) = (if b then ''true'' else ''false'')"
| "Sprint (ReplyArray xs) = ''['' @ spaced (map Sprint xs) @ '']''"
| "Sprint (ReplyOther s) = s"

definition item_data :: "reply \<Rightarrow> bytes" where
  "item_data item = (case item of ReplyString v \<Rightarrow> v | ReplyBytes v \<Rightarrow> v | _ \<Rightarrow> Sprint item)"

definition mget_value :: "reply \<Rightarrow> duration \<Rightarrow> upstream_value" where
  "mget_value item ttl =
     (if item = ReplyNil then no_value
      else if ttl = redisPTTLMissing then no_value
      else \<lparr>uv_Data = item_data item, uv_Exists = True, uv_PTTL = ttl\<rparr>)"

text \<open>
  The loop over \<open>raw\<close> fills \<open>values\<close>, which has one element per key: a longer \<open>raw\<close> is an index panic
  (\<open>None\<close>), a shorter one leaves absent values.
\<close>

definition mget_result ::
  "nat \<Rightarrow> go_error option \<Rightarrow> go_error + reply list \<Rightarrow> duration list \<Rightarrow> (go_error + upstream_value list) option"
where
  "mget_result n execErr mget ttls =
     (if execErr \<noteq> None \<and> execErr \<noteq> Some RedisNil then Some (Inl (the execErr))
      else case mget of
        Inl err \<Rightarrow> if err \<noteq> RedisNil then Some (Inl err) else Some (Inr (replicate n no_value))
      | Inr raw \<Rightarrow>
          if length raw > n \<or> length raw > length ttls then None
          else Some (Inr (map2 mget_value raw ttls @ replicate (n - length raw) no_value)))"

definition redis_MGet ::
  "'w goredis \<Rightarrow> bytes list \<Rightarrow> 'w \<Rightarrow> (go_error + upstream_value list) option \<times> 'w"
where
  "redis_MGet g keys w =
     (if keys = [] then (Some (Inr []), w)
      else case gr_MGetPTTL g keys w of
        ((execErr, mget, ttls), w) \<Rightarrow> (mget_result (length keys) execErr mget ttls, w))"

definition redis_Do :: "'w goredis \<Rightarrow> bytes list \<Rightarrow> 'w \<Rightarrow> (go_error + reply) \<times> 'w" where
  "redis_Do g args w =
     (case gr_Do g args w of
        (Inl err, w) \<Rightarrow> (if err = RedisNil then Inr ReplyNil else Inl err, w)
      | (Inr result, w) \<Rightarrow> (Inr result, w))"

definition RedisClient :: "'w goredis \<Rightarrow> 'w client" where
  "RedisClient g =
     \<lparr>cl_Ping = gr_Ping g, cl_Get = redis_Get g, cl_MGet = redis_MGet g, cl_Do = redis_Do g, cl_Close = gr_Close g\<rparr>"

text \<open>
  The Redis client reports a value only if both the value and its remaining lifetime were read
  without any error, and reports a key as absent only on a definite answer of the server: a nil reply
  on a pipeline that was not interrupted, or a key that expired between the two commands. Every
  interrupted pipeline is an error, so it can never evict a key or hide a value.
\<close>

theorem redis_Get_definite:
  "(get_result execErr get pttl = Inr v) =
     ((get = Inl RedisNil \<and> (execErr = None \<or> (\<exists>e. execErr = Some e \<and> is_redis_error e)) \<and> v = no_value) \<or>
      (\<exists>data ttl. get = Inr data \<and> pttl = Inr ttl \<and> execErr = None \<and>
         v = (if ttl = redisPTTLMissing then no_value else \<lparr>uv_Data = data, uv_Exists = True, uv_PTTL = ttl\<rparr>)))"
  by (cases get; cases pttl; cases execErr) (auto simp: get_result_def)

section \<open>Key identifiers\<close>

definition VisibilityHash :: bytes where "VisibilityHash = ''hash''"
definition VisibilityPlain :: bytes where "VisibilityPlain = ''plain''"

definition hex_digit :: "nat \<Rightarrow> char" where
  "hex_digit n = (if n < 10 then char_of (48 + n) else char_of (87 + n))"

definition EncodeToString :: "bytes \<Rightarrow> bytes" where
  "EncodeToString bs = concat (map (\<lambda>b. [hex_digit (code b div 16), hex_digit (code b mod 16)]) bs)"

text \<open>\<open>hmac secret key\<close> is the 32-byte sum.\<close>

definition HMACKeyIdentifier :: "(bytes \<Rightarrow> bytes \<Rightarrow> bytes) \<Rightarrow> bytes \<Rightarrow> bytes \<Rightarrow> bytes" where
  "HMACKeyIdentifier hmac key secret = ''hmac-sha256:'' @ EncodeToString (take 16 (hmac secret key))"

definition KeyIdentifier :: "(bytes \<Rightarrow> bytes \<Rightarrow> bytes) \<Rightarrow> bytes \<Rightarrow> bytes \<Rightarrow> bytes \<Rightarrow> bytes" where
  "KeyIdentifier hmac key secret visibility =
     (if visibility = VisibilityPlain then key else HMACKeyIdentifier hmac key secret)"

end
