(* ===== verification/Service.thy ===== *)
theory Service
  imports Upstream LruCache HotnessProps Metrics
begin

unbundle bit_operations_syntax

text \<open>
  The service of \<^verbatim>\<open>internal/service\<close>: cache tiers (\<^verbatim>\<open>cache_tiers.go\<close>), policies (\<^verbatim>\<open>policy.go\<close>), the
  request paths, invalidation epochs and status (\<^verbatim>\<open>service.go\<close>), and the audit report (\<^verbatim>\<open>audit.go\<close>).

  Every method is a function on the service state; \<open>sv_world\<close> is the state of everything behind the
  upstream client. The environment \<open>E\<close> holds what the methods call: the client, the clock (its
  \<open>n\<close>-th reading), the float arithmetic of the tracker, the Unicode tables and HMAC. A method body runs
  without interference, so the stripe mutexes do nothing here. Log messages are not modelled.
\<close>

section \<open>Cache tiers\<close>

definition probationaryCacheShare :: int where "probationaryCacheShare = 8"

record cacheTierLimits =
  protectedBytes :: int
  protectedEntries :: int
  probationaryBytes :: int
  probationaryEntries :: int
  probationaryEnabled :: bool

text \<open>Go's integer division truncates; it is applied to a non-negative number only.\<close>

definition splitCacheTierLimits :: "int \<Rightarrow> int \<Rightarrow> cacheTierLimits" where
  "splitCacheTierLimits maxBytes maxEntries =
     (let limits = \<lparr>protectedBytes = maxBytes, protectedEntries = maxEntries, probationaryBytes = 0,
                    probationaryEntries = 0, probationaryEnabled = False\<rparr>
      in if maxBytes < 2 \<or> maxEntries = 1 then limits
         else
           let probBytes = maxBytes div probationaryCacheShare;
               probBytes = (if probBytes < 1 then 1 else probBytes);
               protBytes = maxBytes - probBytes
           in if protBytes < 1 then limits
              else
                let (probEntries, protEntries) =
                  (if maxEntries > 1
                   then let p = maxEntries div probationaryCacheShare; p = (if p < 1 then 1 else p) in (p, maxEntries - p)
                   else (0, maxEntries))
                in \<lparr>protectedBytes = protBytes, protectedEntries = protEntries, probationaryBytes = probBytes,
                    probationaryEntries = probEntries, probationaryEnabled = True\<rparr>)"

definition combinedCacheStats :: "stats \<Rightarrow> cache option \<Rightarrow> stats" where
  "combinedCacheStats protected probationary =
     (case probationary of
        None \<Rightarrow> protected
      | Some c \<Rightarrow>
          let candidate = Stats c
          in \<lparr>st_Entries = st_Entries protected + st_Entries candidate, st_Bytes = st_Bytes protected + st_Bytes candidate,
              st_MaxBytes = st_MaxBytes protected + st_MaxBytes candidate,
              st_Evictions = st_Evictions protected + st_Evictions candidate\<rparr>)"

section \<open>Policies\<close>

definition policy_rule :: "config \<Rightarrow> cache_policy_config \<Rightarrow> rule" where
  "policy_rule cfg policy =
     (let (mode, valid) = ParseMode (cp_Mode policy);
          mode = (if \<not> valid then ModeDeny else mode);
          mode = (if cf_Mode cfg = ''observe'' \<and> mode = ModeCache then ModeObserve else mode);
          decision = \<lparr>d_Mode = mode, d_MaxItemBytes = 0, d_MaxLocalTTL = 0\<rparr>;
          decision = (if mode = ModeCache
            then decision\<lparr>d_MaxItemBytes := cp_MaxItemBytes policy, d_MaxLocalTTL := cp_MaxLocalTTL policy\<rparr> else decision)
      in \<lparr>r_Prefix = cp_Prefix policy, r_Decision = decision\<rparr>)"

definition newPolicyMatcher :: "config \<Rightarrow> matcher" where
  "newPolicyMatcher cfg =
     (let (fallbackMode, ok) = ParseMode (cf_Mode cfg);
          fallbackMode = (if \<not> ok then ModeDeny else fallbackMode);
          fallback = \<lparr>d_Mode = fallbackMode, d_MaxItemBytes = 0, d_MaxLocalTTL = 0\<rparr>;
          fallback = (if fallbackMode = ModeCache
            then fallback\<lparr>d_MaxItemBytes := cc_MaxBytes (cf_Cache cfg), d_MaxLocalTTL := cc_MaxLocalTTL (cf_Cache cfg)\<rparr>
            else fallback)
      in New_matcher fallback (map (policy_rule cfg) (cc_Policies (cf_Cache cfg))))"

section \<open>State and environment\<close>

definition cacheEpochStripeCount :: nat where "cacheEpochStripeCount = 256"

record 'w service =
  sv_cfg :: config
  sv_world :: 'w
  sv_cache :: cache
  sv_probationary :: "cache option"
  sv_tracker :: tracker
  sv_metrics :: recorder
  sv_policies :: matcher
  sv_started :: time
  sv_version :: bytes
  sv_commit :: bytes
  sv_proxyActive :: bool
  sv_closed :: bool
  sv_epochs :: "u64 list"
  sv_promoting :: "bool list"
  sv_gates :: "bool list"
  sv_ticks :: nat

record 'w senv =
  en_clock :: "nat \<Rightarrow> time"
  en_client :: "'w client"
  en_unicode :: unicode
  en_arith :: arith
  en_hmac :: "bytes \<Rightarrow> bytes \<Rightarrow> bytes"

definition Now :: "'w senv \<Rightarrow> 'w service \<Rightarrow> time \<times> 'w service" where
  "Now E s = (en_clock E (sv_ticks s), s\<lparr>sv_ticks := Suc (sv_ticks s)\<rparr>)"

definition on_metrics :: "(recorder \<Rightarrow> recorder) \<Rightarrow> 'w service \<Rightarrow> 'w service" where
  "on_metrics f s = s\<lparr>sv_metrics := f (sv_metrics s)\<rparr>"

text \<open>The calls on the two caches and the tracker, each with the clock reading it makes.\<close>

definition cache_Delete :: "bytes \<Rightarrow> 'w service \<Rightarrow> bool \<times> 'w service" where
  "cache_Delete key s = (let (b, c) = Delete (sv_cache s) key in (b, s\<lparr>sv_cache := c\<rparr>))"

definition probationary_Delete :: "bytes \<Rightarrow> 'w service \<Rightarrow> bool \<times> 'w service" where
  "probationary_Delete key s =
     (case sv_probationary s of
        None \<Rightarrow> (False, s)
      | Some p \<Rightarrow> let (b, p) = Delete p key in (b, s\<lparr>sv_probationary := Some p\<rparr>))"

definition probationary_Get :: "'w senv \<Rightarrow> bytes \<Rightarrow> 'w service \<Rightarrow> entry_snapshot option \<times> 'w service" where
  "probationary_Get E key s =
     (case sv_probationary s of
        None \<Rightarrow> (None, s)
      | Some p \<Rightarrow>
          let (now, s) = Now E s; (r, p) = Get p now key in (r, s\<lparr>sv_probationary := Some p\<rparr>))"

definition cache_GetStale :: "'w senv \<Rightarrow> bytes \<Rightarrow> duration \<Rightarrow> 'w service \<Rightarrow> entry_snapshot option \<times> 'w service" where
  "cache_GetStale E key grace s =
     (let (now, s) = Now E s; (r, c) = GetStale (sv_cache s) now key grace in (r, s\<lparr>sv_cache := c\<rparr>))"

section \<open>Construction and lifetime\<close>

text \<open>
  The tracker receives finite numbers: an infinity or a NaN in the configuration, which
  \<^verbatim>\<open>config.Validate\<close> rejects, is not modelled.
\<close>

fun float_value :: "gofloat \<Rightarrow> rat" where
  "float_value (Finite x) = x"
| "float_value _ = 0"

definition tracker_config :: "config \<Rightarrow> hconfig" where
  "tracker_config cfg =
     (let h = cf_Hotness cfg
      in \<lparr>h_Window = hc_Window h, h_EWMAAlpha = float_value (hc_EWMAAlpha h),
          h_PromotionThreshold = float_value (hc_PromotionThreshold h),
          h_DemotionThreshold = float_value (hc_DemotionThreshold h), h_MinimumHotWindows = hc_MinimumHotWindows h,
          h_Cooldown = hc_Cooldown h, h_MaxTrackedKeys = hc_MaxTrackedKeys h\<rparr>)"

text \<open>\<^verbatim>\<open>opts.Metrics\<close> may be nil; the tracker and then \<^verbatim>\<open>started\<close> read the clock.\<close>

definition New_service ::
  "'w senv \<Rightarrow> config \<Rightarrow> recorder option \<Rightarrow> bytes \<Rightarrow> bytes \<Rightarrow> 'w \<Rightarrow> 'w service"
where
  "New_service E cfg recorder version commit w =
     (let recorder = (case recorder of None \<Rightarrow> New_recorder | Some r \<Rightarrow> r);
          recorder = SetCacheLimits (cc_MaxBytes (cf_Cache cfg)) (cc_MaxEntries (cf_Cache cfg)) recorder;
          limits = splitCacheTierLimits (cc_MaxBytes (cf_Cache cfg)) (cc_MaxEntries (cf_Cache cfg))
      in \<lparr>sv_cfg = cfg, sv_world = w,
          sv_cache = New_cache (protectedBytes limits) (protectedEntries limits),
          sv_probationary =
            (if probationaryEnabled limits
             then Some (New_cache (probationaryBytes limits) (probationaryEntries limits)) else None),
          sv_tracker = New_tracker (tracker_config cfg) (en_clock E 0), sv_metrics = recorder,
          sv_policies = newPolicyMatcher cfg, sv_started = en_clock E 1,
          sv_version = (if version = [] then ''dev'' else version),
          sv_commit = (if commit = [] then ''unknown'' else commit),
          sv_proxyActive = False, sv_closed = False, sv_epochs = replicate cacheEpochStripeCount 0,
          sv_promoting = replicate cacheEpochStripeCount False, sv_gates = replicate cacheEpochStripeCount False,
          sv_ticks = 2\<rparr>)"

definition SetProxyActive :: "bool \<Rightarrow> 'w service \<Rightarrow> 'w service" where
  "SetProxyActive active s = s\<lparr>sv_proxyActive := active\<rparr>"

text \<open>A service has an upstream here. Cancelling the lifetime context ends flights, which is up to the client.\<close>

definition Close_service :: "'w senv \<Rightarrow> 'w service \<Rightarrow> go_error option \<times> 'w service" where
  "Close_service E s =
     (if sv_closed s then (None, s)
      else
        let s = s\<lparr>sv_closed := True, sv_cache := Close_cache (sv_cache s),
                  sv_probationary := map_option Close_cache (sv_probationary s)\<rparr>;
            (err, w) = cl_Close (en_client E) (sv_world s)
        in (err, s\<lparr>sv_world := w\<rparr>))"

section \<open>Epoch stripes\<close>

text \<open>32-bit FNV-1a.\<close>

definition fnv_step :: "u32 \<Rightarrow> char \<Rightarrow> u32" where
  "fnv_step hash c = (hash XOR of_nat (code c)) * 16777619"

definition cacheEpochStripe :: "bytes \<Rightarrow> nat" where
  "cacheEpochStripe key = unat (foldl fnv_step 2166136261 key mod 256)"

definition cacheEpoch :: "bytes \<Rightarrow> 'w service \<Rightarrow> u64" where
  "cacheEpoch key s = sv_epochs s ! cacheEpochStripe key"

definition bump :: "nat \<Rightarrow> 'w service \<Rightarrow> 'w service" where
  "bump i s = s\<lparr>sv_epochs := (sv_epochs s)[i := sv_epochs s ! i + 1]\<rparr>"

section \<open>Observations and transitions\<close>

definition observeCache :: "'w service \<Rightarrow> 'w service" where
  "observeCache s =
     (let st = combinedCacheStats (Stats (sv_cache s)) (sv_probationary s)
      in on_metrics (ObserveCache (st_Entries st) (st_Bytes st) (st_Evictions st)) s)"

text \<open>The body of the loop of \<^verbatim>\<open>applyTransitions\<close>, with \<open>cacheChanged\<close>.\<close>

definition apply_transition :: "transition \<Rightarrow> bool \<times> 'w service \<Rightarrow> bool \<times> 'w service" where
  "apply_transition tr = (\<lambda>(changed, s).
     let s = (if tr_To tr = StateHot \<and> tr_From tr \<noteq> StateHot then on_metrics Promotion s else s)
     in if tr_From tr = StateHot \<and> tr_To tr \<noteq> StateHot
        then
          let (changed, s) =
            (if \<not> IsHot (sv_tracker s) (tr_Key tr)
             then let (b, s) = cache_Delete (tr_Key tr) s; (b', s) = probationary_Delete (tr_Key tr) s
                  in (changed \<or> b \<or> b', s)
             else (changed, s))
          in (changed, on_metrics Demotion s)
        else (changed, s))"

definition applyTransitions :: "transition list \<Rightarrow> 'w service \<Rightarrow> 'w service" where
  "applyTransitions trs s =
     (let (changed, s) = fold apply_transition trs (False, s) in if changed then observeCache s else s)"

definition handleTransitions :: "transition list \<Rightarrow> 'w service \<Rightarrow> 'w service" where
  "handleTransitions trs s =
     (let s = applyTransitions trs s;
          s = on_metrics (SetHotKeys (snd (Stats_tracker (sv_tracker s)))) s;
          s = on_metrics (ObserveHotnessCapacityDrops (CapacityDrops (sv_tracker s))) s
      in on_metrics (ObserveHotnessOversizedDrops (OversizedObservationsDropped (sv_tracker s))) s)"

definition handleObservation :: "observation \<Rightarrow> 'w service \<Rightarrow> 'w service" where
  "handleObservation ob s =
     (let s = applyTransitions (o_Transitions ob) s;
          s = (if o_Transitions ob \<noteq> [] then on_metrics (SetHotKeys (snd (Stats_tracker (sv_tracker s)))) s else s);
          s = (if o_OversizedObservationDropped ob
               then on_metrics (ObserveHotnessOversizedDrops (o_OversizedObservationsDropped ob)) s else s)
      in if o_CapacityObservationDropped ob then on_metrics (ObserveHotnessCapacityDrops (o_CapacityDrops ob)) s else s)"

definition observe :: "'w senv \<Rightarrow> bytes \<Rightarrow> 'w service \<Rightarrow> hstate \<times> 'w service" where
  "observe E key s =
     (let (now, s) = Now E s;
          (ob, t) = ObserveWithState (en_arith E) (sv_tracker s) now key;
          s = handleObservation ob (s\<lparr>sv_tracker := t\<rparr>)
      in (o_State ob, s))"

section \<open>Local reads\<close>

definition getFreshProtected :: "'w senv \<Rightarrow> bytes \<Rightarrow> 'w service \<Rightarrow> entry_snapshot option \<times> 'w service" where
  "getFreshProtected E key s =
     (if cc_AllowStaleOnUpstreamError (cf_Cache (sv_cfg s)) \<and> cc_StaleGrace (cf_Cache (sv_cfg s)) > 0
      then cache_GetStale E key 0 s
      else let (now, s) = Now E s; (r, c) = Get (sv_cache s) now key in (r, s\<lparr>sv_cache := c\<rparr>))"

text \<open>The part of \<^verbatim>\<open>getFreshCachedInState\<close> that takes the stripe: it may promote a candidate.\<close>

definition promote_candidate :: "'w senv \<Rightarrow> bytes \<Rightarrow> entry_snapshot \<Rightarrow> 'w service \<Rightarrow> entry_snapshot option \<times> 'w service" where
  "promote_candidate E key candidate s =
     (let (now, s) = Now E s;
          (ob, t) = Admit (en_arith E) (sv_tracker s) now key;
          s = s\<lparr>sv_tracker := t\<rparr>;
          promoting = (o_State ob = StateHot);
          i = cacheEpochStripe key;
          s = (if promoting then s\<lparr>sv_promoting := (sv_promoting s)[i := True]\<rparr> else s);
          (_, s) = probationary_Delete key s;
          (stored, s) =
            (if promoting
             then let (now, s) = Now E s; (b, c) = PutUntil (sv_cache s) now key (sn_Value candidate) (sn_ExpiresAt candidate)
                  in (b, s\<lparr>sv_cache := c\<rparr>)
             else (False, s));
          s = (if promoting then s\<lparr>sv_promoting := (sv_promoting s)[i := False]\<rparr> else s);
          s = observeCache (handleObservation ob s)
      in (if stored then Some candidate else None, s))"

definition read_candidate :: "'w senv \<Rightarrow> bytes \<Rightarrow> 'w service \<Rightarrow> entry_snapshot option \<times> 'w service" where
  "read_candidate E key s =
     (let (item, s) = (if IsHot (sv_tracker s) key then getFreshProtected E key s else (None, s))
      in case item of
           Some item \<Rightarrow> (Some item, s)
         | None \<Rightarrow>
             let (candidate, s) = probationary_Get E key s
             in case candidate of
                  None \<Rightarrow> (None, s)
                | Some candidate \<Rightarrow> promote_candidate E key candidate s)"

text \<open>Whether or not a promotion is in progress, the miss path reads the protected tier.\<close>

definition getFreshCachedInState ::
  "'w senv \<Rightarrow> bytes \<Rightarrow> hstate \<Rightarrow> 'w service \<Rightarrow> entry_snapshot option \<times> 'w service"
where
  "getFreshCachedInState E key state s =
     (let (item, s) = (if state = StateHot then getFreshProtected E key s else (None, s))
      in case item of
           Some item \<Rightarrow> (Some item, s)
         | None \<Rightarrow>
             if sv_probationary s = None then (None, s)
             else
               let (found, s) = probationary_Get E key s
               in case found of
                    None \<Rightarrow>
                      if \<not> IsHot (sv_tracker s) key then (None, s)
                      else if sv_promoting s ! cacheEpochStripe key then getFreshProtected E key s
                      else getFreshProtected E key s
                  | Some _ \<Rightarrow> read_candidate E key s)"

definition cacheMissReason :: "decision \<Rightarrow> hstate \<Rightarrow> miss_reason" where
  "cacheMissReason policy state =
     (if d_Mode policy \<noteq> ModeCache then CacheMissReasonPolicyBypass
      else if state = StateHot then CacheMissReasonNotPresent
      else CacheMissReasonNotAdmitted)"

section \<open>Local stores\<close>

definition localTTL :: "config \<Rightarrow> duration \<Rightarrow> duration \<Rightarrow> duration" where
  "localTTL cfg upstreamTTL policyMaxTTL =
     (let maxTTL = cc_MaxLocalTTL (cf_Cache cfg) in
      if policyMaxTTL \<le> 0 then 0
      else
        let maxTTL = (if policyMaxTTL < maxTTL then policyMaxTTL else maxTTL)
        in if upstreamTTL = 0 then 0
           else if upstreamTTL > 0 \<and> upstreamTTL < maxTTL then upstreamTTL
           else maxTTL)"

definition storeLocal :: "'w senv \<Rightarrow> bytes \<Rightarrow> upstream_value \<Rightarrow> decision \<Rightarrow> 'w service \<Rightarrow> bool \<times> 'w service" where
  "storeLocal E key v policy s =
     (if d_MaxItemBytes policy \<le> 0 \<or> EstimateSize key (uv_Data v) > d_MaxItemBytes policy
      then (False, snd (cache_Delete key s))
      else
        let ttl = localTTL (sv_cfg s) (uv_PTTL v) (d_MaxLocalTTL policy)
        in if ttl \<le> 0 then (False, snd (cache_Delete key s))
           else let (now, s) = Now E s; (b, c) = Put (sv_cache s) now key (uv_Data v) ttl in (b, s\<lparr>sv_cache := c\<rparr>))"

definition storeProbationary :: "'w senv \<Rightarrow> bytes \<Rightarrow> upstream_value \<Rightarrow> decision \<Rightarrow> 'w service \<Rightarrow> bool \<times> 'w service" where
  "storeProbationary E key v policy s =
     (case sv_probationary s of
        None \<Rightarrow> (False, s)
      | Some p \<Rightarrow>
          if \<not> IsTracked (sv_tracker s) key then (False, s)
          else if d_MaxItemBytes policy \<le> 0 \<or> EstimateSize key (uv_Data v) > d_MaxItemBytes policy
            then (False, snd (probationary_Delete key s))
          else
            let ttl = localTTL (sv_cfg s) (uv_PTTL v) (d_MaxLocalTTL policy);
                window = hc_Window (cf_Hotness (sv_cfg s));
                ttl = (if window > 0 \<and> window < ttl then window else ttl)
            in if ttl \<le> 0 then (False, snd (probationary_Delete key s))
               else let (now, s) = Now E s; (b, p) = Put p now key (uv_Data v) ttl
                    in (b, s\<lparr>sv_probationary := Some p\<rparr>))"

definition withCurrentCacheEpoch :: "bytes \<Rightarrow> u64 \<Rightarrow> ('w service \<Rightarrow> 'w service) \<Rightarrow> 'w service \<Rightarrow> bool \<times> 'w service" where
  "withCurrentCacheEpoch key epoch mutate s =
     (if sv_epochs s ! cacheEpochStripe key \<noteq> epoch then (False, s) else (True, mutate s))"

definition reconcileLocal :: "'w senv \<Rightarrow> bytes \<Rightarrow> upstream_value \<Rightarrow> decision \<Rightarrow> 'w service \<Rightarrow> 'w service" where
  "reconcileLocal E key v policy s =
     (if \<not> uv_Exists v
      then snd (probationary_Delete key (snd (cache_Delete key s)))
      else if IsHot (sv_tracker s) key
      then snd (storeLocal E key v policy (snd (probationary_Delete key s)))
      else snd (storeProbationary E key v policy (snd (cache_Delete key s))))"

definition reconcileLocalIfCurrent ::
  "'w senv \<Rightarrow> bytes \<Rightarrow> upstream_value \<Rightarrow> u64 \<Rightarrow> decision \<Rightarrow> 'w service \<Rightarrow> 'w service"
where
  "reconcileLocalIfCurrent E key v epoch policy s =
     snd (withCurrentCacheEpoch key epoch (reconcileLocal E key v policy) s)"

end
