(* ===== verification/ServiceOps.thy ===== *)
theory ServiceOps
  imports Service
begin

text \<open>
  The exported operations of the service (\<^verbatim>\<open>service.go\<close>, \<^verbatim>\<open>audit.go\<close>): reads, writes, pass-through
  commands, purges, status, hot keys and the audit report.
\<close>

section \<open>Timeouts\<close>

definition upstreamTimeout :: "config \<Rightarrow> duration" where
  "upstreamTimeout cfg =
     (let timeout = us_ReadTimeout (cf_Upstream cfg) in if timeout \<le> 0 then 2 * second else timeout)"

definition sharedReadTimeout :: "config \<Rightarrow> duration" where
  "sharedReadTimeout cfg =
     (let upstreamTimeout = us_ReadTimeout (cf_Upstream cfg);
          upstreamTimeout = (if upstreamTimeout \<le> 0 then 2 * second else upstreamTimeout);
          proxyTimeout = px_ReadTimeout (cf_Proxy cfg)
      in if proxyTimeout > 0 \<and> proxyTimeout < upstreamTimeout then proxyTimeout else upstreamTimeout)"

section \<open>GET\<close>

text \<open>
  What the scheduler and the \<^verbatim>\<open>singleflight\<close> library decide for one call: the error of the context at
  entry and before the result arrives, the result of a flight in progress that the call joins (\<open>None\<close>
  makes it the leader) and the \<^verbatim>\<open>Shared\<close> flag. \<^verbatim>\<open>group.Forget\<close> only affects which flights later calls join.
\<close>

record get_env =
  ge_ctxErr :: "go_error option"
  ge_done :: "go_error option"
  ge_joined :: "(go_error + upstream_value) option"
  ge_shared :: bool

fun failed :: "'e + 'a \<Rightarrow> bool" where
  "failed (Inl _) = True"
| "failed (Inr _) = False"

definition fetchUpstreamGet :: "'w senv \<Rightarrow> bytes \<Rightarrow> 'w service \<Rightarrow> (go_error + upstream_value) \<times> 'w service" where
  "fetchUpstreamGet E key s =
     (let (start, s) = Now E s;
          (r, w) = cl_Get (en_client E) key (sv_world s);
          s = s\<lparr>sv_world := w\<rparr>;
          (end', s) = Now E s
      in (r, on_metrics (ObserveUpstream (en_unicode E) ''GET'' (time_sub end' start) (failed r)) s))"

text \<open>The function run by the flight leader.\<close>

definition flight :: "'w senv \<Rightarrow> bytes \<Rightarrow> u64 \<Rightarrow> decision \<Rightarrow> 'w service \<Rightarrow> (go_error + upstream_value) \<times> 'w service" where
  "flight E key epoch policy s =
     (let (r, s) = fetchUpstreamGet E key s
      in case r of
           Inl err \<Rightarrow> (Inl err, s)
         | Inr v \<Rightarrow> (Inr v, reconcileLocalIfCurrent E key v epoch policy s))"

definition cached_value :: "entry_snapshot \<Rightarrow> upstream_value" where
  "cached_value item = \<lparr>uv_Data = sn_Value item, uv_Exists = True, uv_PTTL = sn_TTL item\<rparr>"

definition observe_policy :: "'w senv \<Rightarrow> decision \<Rightarrow> bytes \<Rightarrow> 'w service \<Rightarrow> hstate \<times> 'w service" where
  "observe_policy E policy key s =
     (if d_Mode policy \<noteq> ModeDeny then observe E key s else (StateUnset, s))"

definition read_local :: "'w senv \<Rightarrow> decision \<Rightarrow> bytes \<Rightarrow> hstate \<Rightarrow> 'w service \<Rightarrow> entry_snapshot option \<times> 'w service" where
  "read_local E policy key state s =
     (if d_Mode policy = ModeCache then getFreshCachedInState E key state s else (None, s))"

text \<open>The part of \<^verbatim>\<open>Get\<close> after a local miss under a caching policy.\<close>

definition get_shared ::
  "'w senv \<Rightarrow> get_env \<Rightarrow> bytes \<Rightarrow> decision \<Rightarrow> 'w service \<Rightarrow> (go_error + upstream_value) \<times> 'w service"
where
  "get_shared E ge key policy s =
     (let epoch = cacheEpoch key s;
          (r, s) = (case ge_joined ge of Some r \<Rightarrow> (r, s) | None \<Rightarrow> flight E key epoch policy s)
      in case ge_done ge of
           Some err \<Rightarrow> (Inl err, s)
         | None \<Rightarrow>
             let s = (if ge_shared ge then on_metrics Coalesced s else s)
             in case r of
                  Inl err \<Rightarrow>
                    let (item, s) =
                      (if cc_AllowStaleOnUpstreamError (cf_Cache (sv_cfg s))
                       then cache_GetStale E key (cc_StaleGrace (cf_Cache (sv_cfg s))) s
                       else (None, s))
                    in (case item of Some item \<Rightarrow> Inr (cached_value item) | None \<Rightarrow> Inl err, s)
                | Inr v \<Rightarrow> (Inr v, observeCache s))"

definition Get_service ::
  "'w senv \<Rightarrow> get_env \<Rightarrow> bytes \<Rightarrow> 'w service \<Rightarrow> (go_error + upstream_value) \<times> 'w service"
where
  "Get_service E ge key s =
     (if key = [] then (Inl (OtherError ''key is required''), s)
      else case ge_ctxErr ge of
        Some err \<Rightarrow> (Inl err, s)
      | None \<Rightarrow>
          let policy = Match (sv_policies s) key;
              (state, s) = observe_policy E policy key s;
              (item, s) = read_local E policy key state s
          in case item of
               Some item \<Rightarrow> (Inr (cached_value item), on_metrics (CacheHit (en_unicode E) ''GET'') s)
             | None \<Rightarrow>
                 let s = on_metrics (CacheMissWithReason (en_unicode E) ''GET'' (cacheMissReason policy state)) s
                 in if d_Mode policy \<noteq> ModeCache
                    then let (r, s) = fetchUpstreamGet E key s in (r, observeCache s)
                    else get_shared E ge key policy s)"

section \<open>MGET\<close>

record missing_read =
  mr_key :: bytes
  mr_position :: nat
  mr_epoch :: u64
  mr_policy :: decision

text \<open>One iteration of the first loop of \<^verbatim>\<open>MGet\<close> at position \<open>i\<close>.\<close>

definition mget_local ::
  "'w senv \<Rightarrow> nat \<Rightarrow> bytes \<Rightarrow> upstream_value list \<times> missing_read list \<times> 'w service \<Rightarrow>
     upstream_value list \<times> missing_read list \<times> 'w service"
where
  "mget_local E i key = (\<lambda>(out, missing, s).
     let policy = Match (sv_policies s) key;
         (state, s) = observe_policy E policy key s;
         (item, s) = read_local E policy key state s
     in case item of
          Some item \<Rightarrow> (out[i := cached_value item], missing, on_metrics (CacheHit (en_unicode E) ''MGET'') s)
        | None \<Rightarrow>
            let s = on_metrics (CacheMissWithReason (en_unicode E) ''MGET'' (cacheMissReason policy state)) s;
                epoch = (if d_Mode policy = ModeCache then cacheEpoch key s else 0)
            in (out, missing @ [\<lparr>mr_key = key, mr_position = i, mr_epoch = epoch, mr_policy = policy\<rparr>], s))"

fun mget_scan ::
  "'w senv \<Rightarrow> nat \<Rightarrow> bytes list \<Rightarrow> upstream_value list \<times> missing_read list \<times> 'w service \<Rightarrow>
     upstream_value list \<times> missing_read list \<times> 'w service"
where
  "mget_scan E i [] st = st"
| "mget_scan E i (key # keys) st = mget_scan E (Suc i) keys (mget_local E i key st)"

fun mget_stale ::
  "'w senv \<Rightarrow> missing_read list \<Rightarrow> upstream_value list \<times> nat \<times> 'w service \<Rightarrow> upstream_value list \<times> nat \<times> 'w service"
where
  "mget_stale E [] st = st"
| "mget_stale E (read # reads) (out, staleCount, s) =
     (if d_Mode (mr_policy read) \<noteq> ModeCache then mget_stale E reads (out, staleCount, s)
      else
        let (item, s) = cache_GetStale E (mr_key read) (cc_StaleGrace (cf_Cache (sv_cfg s))) s
        in case item of
             Some item \<Rightarrow> mget_stale E reads (out[mr_position read := cached_value item], Suc staleCount, s)
           | None \<Rightarrow> mget_stale E reads (out, staleCount, s))"

text \<open>The last loop ranges over the values of the client: more values than missing keys is an index panic.\<close>

fun mget_fill ::
  "'w senv \<Rightarrow> upstream_value list \<Rightarrow> missing_read list \<Rightarrow> upstream_value list \<times> 'w service \<Rightarrow>
     (upstream_value list \<times> 'w service) option"
where
  "mget_fill E [] reads st = Some st"
| "mget_fill E (v # vs) [] st = None"
| "mget_fill E (v # vs) (read # reads) (out, s) =
     mget_fill E vs reads
       (out[mr_position read := v],
        if d_Mode (mr_policy read) = ModeCache
        then reconcileLocalIfCurrent E (mr_key read) v (mr_epoch read) (mr_policy read) s else s)"

definition MGet ::
  "'w senv \<Rightarrow> bytes list \<Rightarrow> 'w service \<Rightarrow> ((go_error + upstream_value list) \<times> 'w service) option"
where
  "MGet E keys s =
     (let out = replicate (length keys) no_value in
      if keys = [] then Some (Inr out, s)
      else
        let (out, missing, s) = mget_scan E 0 keys (out, [], s)
        in if missing = [] then Some (Inr out, s)
           else
             let (start, s) = Now E s;
                 (r, w) = cl_MGet (en_client E) (map mr_key missing) (sv_world s);
                 s = s\<lparr>sv_world := w\<rparr>;
                 (end', s) = Now E s
             in case r of
                  None \<Rightarrow> None
                | Some r \<Rightarrow>
                    let s = on_metrics (ObserveUpstream (en_unicode E) ''MGET'' (time_sub end' start) (failed r)) s
                    in case r of
                         Inl err \<Rightarrow>
                           if cc_AllowStaleOnUpstreamError (cf_Cache (sv_cfg s)) then
                             let (out, staleCount, s) = mget_stale E missing (out, 0, s)
                             in if staleCount = length missing then Some (Inr out, s) else Some (Inl err, s)
                           else Some (Inl err, s)
                       | Inr values \<Rightarrow>
                           (case mget_fill E values missing (out, s) of
                              None \<Rightarrow> None
                            | Some (out, s) \<Rightarrow> Some (Inr out, observeCache s)))"

section \<open>Writes\<close>

text \<open>
  The acquisition loop over the required stripes in ascending order. For the \<open>i\<close>-th stripe \<open>sel i\<close> is
  \<open>None\<close> if the send on the gate won and the error of the context if that ended first.
\<close>

fun acquire_loop ::
  "(nat \<Rightarrow> go_error option) \<Rightarrow> nat list \<Rightarrow> nat list \<Rightarrow> bool list \<Rightarrow> (go_error + nat list) \<times> bool list"
where
  "acquire_loop sel [] acquired gates = (Inr acquired, gates)"
| "acquire_loop sel (stripe # stripes) acquired gates =
     (case sel stripe of
        Some err \<Rightarrow> (Inl err, fold (\<lambda>i g. g[i := False]) (rev acquired) gates)
      | None \<Rightarrow> acquire_loop sel stripes (acquired @ [stripe]) (gates[stripe := True]))"

definition needed_stripes :: "bytes list \<Rightarrow> nat list" where
  "needed_stripes keys = filter (\<lambda>i. list_ex (\<lambda>key. cacheEpochStripe key = i) keys) [0 ..< cacheEpochStripeCount]"

definition acquireMutationStripes ::
  "(nat \<Rightarrow> go_error option) \<Rightarrow> bytes list \<Rightarrow> 'w service \<Rightarrow> (go_error + nat list) \<times> 'w service"
where
  "acquireMutationStripes sel keys s =
     (let (r, gates) = acquire_loop sel (needed_stripes keys) [] (sv_gates s) in (r, s\<lparr>sv_gates := gates\<rparr>))"

definition releaseMutationStripes :: "nat list \<Rightarrow> 'w service \<Rightarrow> 'w service" where
  "releaseMutationStripes stripes s = s\<lparr>sv_gates := fold (\<lambda>i g. g[i := False]) (rev stripes) (sv_gates s)\<rparr>"

text \<open>The body of the loop of \<^verbatim>\<open>invalidateCacheKeys\<close>: the advanced stripes, the count and the state.\<close>

definition invalidate_key :: "bytes \<Rightarrow> nat list \<times> nat \<times> 'w service \<Rightarrow> nat list \<times> nat \<times> 'w service" where
  "invalidate_key key = (\<lambda>(advanced, invalidated, s).
     let stripe = cacheEpochStripe key;
         (advanced, s) = (if stripe \<notin> set advanced then (stripe # advanced, bump stripe s) else (advanced, s));
         (deleted, s) = cache_Delete key s;
         (deleted', s) = probationary_Delete key s
     in (advanced, if deleted \<or> deleted' then Suc invalidated else invalidated, s))"

definition invalidateCacheKeys :: "bytes list \<Rightarrow> 'w service \<Rightarrow> nat \<times> 'w service" where
  "invalidateCacheKeys keys s = (let (_, n, s) = fold invalidate_key keys ([], 0, s) in (n, s))"

definition purgeAllCache :: "'w service \<Rightarrow> 'w service" where
  "purgeAllCache s =
     fold bump [0 ..< length (sv_epochs s)]
       (s\<lparr>sv_cache := Purge (sv_cache s), sv_probationary := map_option Purge (sv_probationary s)\<rparr>)"

definition drop_probationary :: "'w senv \<Rightarrow> bytes \<Rightarrow> 'w service \<Rightarrow> bool \<times> 'w service" where
  "drop_probationary E key s =
     (case sv_probationary s of
        None \<Rightarrow> (False, s)
      | Some p \<Rightarrow> let (now, s) = Now E s in (Inspect p now key \<noteq> None, snd (probationary_Delete key s)))"

definition writeThroughSet :: "'w senv \<Rightarrow> bytes \<Rightarrow> bytes \<Rightarrow> 'w service \<Rightarrow> nat \<times> 'w service" where
  "writeThroughSet E key v s =
     (let s = bump (cacheEpochStripe key) s;
          policy = Match (sv_policies s) key;
          (now, s) = Now E s;
          protected = (Inspect (sv_cache s) now key \<noteq> None);
          (probationary, s) = drop_probationary E key s
      in if d_Mode policy = ModeCache \<and> IsHot (sv_tracker s) key
         then
           let (stored, s) = storeLocal E key \<lparr>uv_Data = v, uv_Exists = True, uv_PTTL = - 1\<rparr> policy s
           in (if stored then 0 else if protected \<or> probationary then 1 else 0, s)
         else let (deleted, s) = cache_Delete key s in (if deleted \<or> probationary then 1 else 0, s))"

definition finalizeWrite ::
  "'w senv \<Rightarrow> bytes \<Rightarrow> bytes list \<Rightarrow> bytes list \<Rightarrow> go_error + reply \<Rightarrow> 'w service \<Rightarrow> nat \<times> 'w service"
where
  "finalizeWrite E command args keys result s =
     (case (result, args, keys) of
        (Inr (ReplyString status), [key, v], [key']) \<Rightarrow>
          if EqualFold (en_unicode E) status ''OK'' \<and> EqualFold (en_unicode E) command ''SET'' \<and> key' = key
          then writeThroughSet E key v s else invalidateCacheKeys keys s
      | _ \<Rightarrow> invalidateCacheKeys keys s)"

definition upstream_Do ::
  "'w senv \<Rightarrow> bytes \<Rightarrow> bytes list \<Rightarrow> 'w service \<Rightarrow> (go_error + reply) \<times> 'w service"
where
  "upstream_Do E command args s =
     (let (start, s) = Now E s;
          (r, w) = cl_Do (en_client E) (command # args) (sv_world s);
          s = s\<lparr>sv_world := w\<rparr>;
          (end', s) = Now E s
      in (r, on_metrics (ObserveUpstream (en_unicode E) command (time_sub end' start) (failed r)) s))"

definition ExecuteWrite ::
  "'w senv \<Rightarrow> (nat \<Rightarrow> go_error option) \<Rightarrow> bytes \<Rightarrow> bytes list \<Rightarrow> bytes list \<Rightarrow> 'w service \<Rightarrow>
     (go_error + reply) \<times> 'w service"
where
  "ExecuteWrite E sel command args keys s =
     (case acquireMutationStripes sel keys s of
        (Inl err, s) \<Rightarrow> (Inl err, s)
      | (Inr stripes, s) \<Rightarrow>
          let (n, s) = invalidateCacheKeys keys s;
              (r, s) = upstream_Do E command args s;
              (n', s) = finalizeWrite E command args keys r s;
              s = (on_metrics (Invalidation ''write'') ^^ (n + n')) s
          in (r, releaseMutationStripes stripes (observeCache s)))"

definition PassThrough ::
  "'w senv \<Rightarrow> bytes \<Rightarrow> bytes list \<Rightarrow> 'w service \<Rightarrow> (go_error + reply) \<times> 'w service"
where
  "PassThrough E command args s = upstream_Do E command args s"

section \<open>Administration\<close>

definition PurgeCache :: "bytes \<Rightarrow> 'w service \<Rightarrow> bool \<times> 'w service" where
  "PurgeCache key s =
     (if key = [] then (True, observeCache (purgeAllCache s))
      else
        let (n, s) = invalidateCacheKeys [key] s;
            s = (if n > 0 then on_metrics (Invalidation ''admin_purge'') s else s)
        in (n > 0, observeCache s))"

definition Ready :: "'w senv \<Rightarrow> 'w service \<Rightarrow> go_error option \<times> 'w service" where
  "Ready E s =
     (if \<not> sv_proxyActive s then (Some (OtherError ''proxy listener is not active''), s)
      else let (err, w) = cl_Ping (en_client E) (sv_world s) in (err, s\<lparr>sv_world := w\<rparr>))"

record cache_info =
  ci_Entries :: int
  ci_Bytes :: int
  ci_MaxBytes :: int
  ci_Evictions :: u64

definition CacheInfo :: "'w service \<Rightarrow> cache_info \<times> 'w service" where
  "CacheInfo s =
     (let st = combinedCacheStats (Stats (sv_cache s)) (sv_probationary s)
      in (\<lparr>ci_Entries = st_Entries st, ci_Bytes = st_Bytes st, ci_MaxBytes = st_MaxBytes st, ci_Evictions = st_Evictions st\<rparr>,
          on_metrics (ObserveCache (st_Entries st) (st_Bytes st) (st_Evictions st)) s))"

record service_status =
  ss_Version :: bytes
  ss_Commit :: bytes
  ss_Mode :: bytes
  ss_KeyVisibility :: bytes
  ss_Uptime :: bytes
  ss_UpstreamStatus :: bytes
  ss_CacheBytes :: int
  ss_CacheEntries :: int
  ss_TrackedKeys :: int
  ss_HotKeys :: int
  ss_TotalRequests :: u64
  ss_CacheHits :: u64
  ss_CacheMisses :: u64
  ss_CacheMissesPolicyBypass :: u64
  ss_CacheMissesNotAdmitted :: u64
  ss_CacheMissesNotPresent :: u64
  ss_UpstreamRequests :: u64
  ss_RequestsTotal :: u64
  ss_CacheHitsTotal :: u64
  ss_CacheMissesTotal :: u64
  ss_UpstreamRequestsTotal :: u64
  ss_UpstreamGetsTotal :: u64
  ss_InvalidationsTotal :: u64
  ss_PromotionsTotal :: u64
  ss_DemotionsTotal :: u64
  ss_CoalescedRequestsTotal :: u64
  ss_Promotions :: u64
  ss_Demotions :: u64
  ss_CoalescedRequests :: u64

definition Status :: "'w senv \<Rightarrow> 'w service \<Rightarrow> service_status \<times> 'w service" where
  "Status E s =
     (let (now, s) = Now E s;
          (trs, t) = Advance (en_arith E) (sv_tracker s) now;
          s = handleTransitions trs (s\<lparr>sv_tracker := t\<rparr>);
          st = combinedCacheStats (Stats (sv_cache s)) (sv_probationary s);
          s = on_metrics (ObserveCache (st_Entries st) (st_Bytes st) (st_Evictions st)) s;
          (tracked, hot) = Stats_tracker (sv_tracker s);
          s = on_metrics (SetHotKeys hot) s;
          snap = Snapshot (sv_metrics s);
          (err, w) = cl_Ping (en_client E) (sv_world s);
          s = s\<lparr>sv_world := w\<rparr>;
          (now, s) = Now E s
      in (\<lparr>ss_Version = sv_version s, ss_Commit = sv_commit s, ss_Mode = cf_Mode (sv_cfg s),
           ss_KeyVisibility = EffectiveKeyVisibility (sv_cfg s),
           ss_Uptime = duration_string (duration_round (time_sub now (sv_started s)) second),
           ss_UpstreamStatus = (if err = None then ''ok'' else ''error''),
           ss_CacheBytes = st_Bytes st, ss_CacheEntries = st_Entries st, ss_TrackedKeys = tracked, ss_HotKeys = hot,
           ss_TotalRequests = ms_TotalRequests snap, ss_CacheHits = ms_CacheHits snap,
           ss_CacheMisses = ms_CacheMisses snap, ss_CacheMissesPolicyBypass = ms_CacheMissesPolicyBypass snap,
           ss_CacheMissesNotAdmitted = ms_CacheMissesNotAdmitted snap,
           ss_CacheMissesNotPresent = ms_CacheMissesNotPresent snap,
           ss_UpstreamRequests = ms_UpstreamRequests snap, ss_RequestsTotal = ms_TotalRequests snap,
           ss_CacheHitsTotal = ms_CacheHits snap, ss_CacheMissesTotal = ms_CacheMisses snap,
           ss_UpstreamRequestsTotal = ms_UpstreamRequests snap, ss_UpstreamGetsTotal = ms_UpstreamGets snap,
           ss_InvalidationsTotal = ms_Invalidations snap, ss_PromotionsTotal = ms_Promotions snap,
           ss_DemotionsTotal = ms_Demotions snap, ss_CoalescedRequestsTotal = ms_CoalescedRequests snap,
           ss_Promotions = ms_Promotions snap, ss_Demotions = ms_Demotions snap,
           ss_CoalescedRequests = ms_CoalescedRequests snap\<rparr>, s))"

record hot_key =
  hk_ID :: bytes
  hk_State :: bytes
  hk_Score :: rat
  hk_RequestRate :: rat
  hk_LocallyCached :: bool
  hk_CacheAge :: bytes
  hk_RemainingLocalTTL :: bytes

definition advance_view :: "'w senv \<Rightarrow> int \<Rightarrow> 'w service \<Rightarrow> view \<times> 'w service" where
  "advance_view E limit s =
     (let (now, s) = Now E s;
          (view, t) = AdvanceAndSnapshot (en_arith E) (sv_tracker s) now limit
      in (view, handleTransitions (vw_Transitions view) (s\<lparr>sv_tracker := t\<rparr>)))"

definition hot_key_item :: "'w senv \<Rightarrow> hsnapshot \<Rightarrow> hot_key list \<times> 'w service \<Rightarrow> hot_key list \<times> 'w service" where
  "hot_key_item E sn = (\<lambda>(out, s).
     let (now, s) = Now E s;
         cached = Inspect (sv_cache s) now (hs_Key sn)
     in (out @ [\<lparr>hk_ID = KeyIdentifier (en_hmac E) (hs_Key sn) (pv_KeyHashSecret (cf_Privacy (sv_cfg s)))
                          (EffectiveKeyVisibility (sv_cfg s)),
                 hk_State = state_string (hs_State sn), hk_Score = hs_Score sn, hk_RequestRate = hs_RequestRate sn,
                 hk_LocallyCached = (cached \<noteq> None),
                 hk_CacheAge = (case cached of None \<Rightarrow> []
                                | Some c \<Rightarrow> duration_string (duration_round (sn_Age c) millisecond)),
                 hk_RemainingLocalTTL = (case cached of None \<Rightarrow> []
                                         | Some c \<Rightarrow> duration_string (duration_round (sn_TTL c) millisecond))\<rparr>], s))"

definition HotKeys :: "'w senv \<Rightarrow> int \<Rightarrow> 'w service \<Rightarrow> hot_key list \<times> 'w service" where
  "HotKeys E limit s =
     (let (view, s) = advance_view E limit s in fold (hot_key_item E) (vw_Snapshots view) ([], s))"

section \<open>Audit\<close>

definition AuditSchemaVersion :: bytes where "AuditSchemaVersion = ''slizen.audit.v1''"
definition DefaultAuditLimit :: int where "DefaultAuditLimit = 100"
definition MaxAuditLimit :: int where "MaxAuditLimit = 1000"

record audit_entry =
  ae_ID :: bytes
  ae_RequestRate :: rat
  ae_HotnessState :: bytes
  ae_EffectivePolicyMode :: bytes
  ae_Recommendation :: bytes
  ae_ReasonCodes :: "bytes list"

text \<open>\<^verbatim>\<open>GeneratedAt\<close> is the clock reading before it is formatted.\<close>

record audit_report =
  ar_SchemaVersion :: bytes
  ar_GeneratedAt :: time
  ar_MeasurementWindow :: bytes
  ar_Mode :: bytes
  ar_KeyVisibility :: bytes
  ar_TrackedKeys :: int
  ar_TrackingCapacity :: int
  ar_TrackingEvictions :: u64
  ar_CapacityObservationsDropped :: u64
  ar_OversizedObservationsDropped :: u64
  ar_TelemetryComplete :: bool
  ar_ReturnedEntries :: int
  ar_Truncated :: bool
  ar_Entries :: "audit_entry list"

definition normalizeAuditLimit :: "int \<Rightarrow> int" where
  "normalizeAuditLimit limit =
     (if limit \<le> 0 then DefaultAuditLimit else if limit > MaxAuditLimit then MaxAuditLimit else limit)"

fun auditPolicyMode :: "mode \<Rightarrow> bytes" where
  "auditPolicyMode ModeObserve = ''observe''"
| "auditPolicyMode ModeCache = ''cache''"
| "auditPolicyMode ModeDeny = ''deny''"

definition auditRecommendation :: "bytes \<Rightarrow> hstate \<Rightarrow> bytes \<times> bytes list" where
  "auditRecommendation policyMode state =
     (if policyMode = ''observe'' then
        if state = StateHot then (''review_for_cache'', [''effective_policy_observe'', ''hotness_state_hot''])
        else (''continue_observing'', [''effective_policy_observe'', ''hotness_state_not_hot''])
      else if policyMode = ''cache'' then
        (''no_change'', [''effective_policy_cache'',
           if state = StateHot then ''hotness_state_hot'' else ''hotness_state_not_hot''])
      else (''no_change'', [''effective_policy_deny'']))"

definition audit_entry_of :: "'w senv \<Rightarrow> 'w service \<Rightarrow> hsnapshot \<Rightarrow> audit_entry" where
  "audit_entry_of E s sn =
     (let policyMode = auditPolicyMode (d_Mode (Match (sv_policies s) (hs_Key sn)));
          (recommendation, reasons) = auditRecommendation policyMode (hs_State sn)
      in \<lparr>ae_ID = KeyIdentifier (en_hmac E) (hs_Key sn) (pv_KeyHashSecret (cf_Privacy (sv_cfg s)))
                   (EffectiveKeyVisibility (sv_cfg s)),
          ae_RequestRate = hs_RequestRate sn, ae_HotnessState = state_string (hs_State sn),
          ae_EffectivePolicyMode = policyMode, ae_Recommendation = recommendation, ae_ReasonCodes = reasons\<rparr>)"

definition Audit :: "'w senv \<Rightarrow> int \<Rightarrow> 'w service \<Rightarrow> audit_report \<times> 'w service" where
  "Audit E limit s =
     (let limit = normalizeAuditLimit limit;
          (view, s) = advance_view E limit s;
          entries = map (audit_entry_of E s) (vw_Snapshots view);
          (now, s) = Now E s
      in (\<lparr>ar_SchemaVersion = AuditSchemaVersion, ar_GeneratedAt = now,
           ar_MeasurementWindow = duration_string (hc_Window (cf_Hotness (sv_cfg s))),
           ar_Mode = cf_Mode (sv_cfg s), ar_KeyVisibility = EffectiveKeyVisibility (sv_cfg s),
           ar_TrackedKeys = vw_Tracked view, ar_TrackingCapacity = hc_MaxTrackedKeys (cf_Hotness (sv_cfg s)),
           ar_TrackingEvictions = vw_Evictions view, ar_CapacityObservationsDropped = vw_CapacityDrops view,
           ar_OversizedObservationsDropped = vw_OversizedObservationsDropped view,
           ar_TelemetryComplete =
             (vw_Tracked view \<le> int (length entries) \<and> vw_Evictions view = 0 \<and> vw_CapacityDrops view = 0 \<and>
              vw_OversizedObservationsDropped view = 0),
           ar_ReturnedEntries = int (length entries), ar_Truncated = (vw_Tracked view > int (length entries)),
           ar_Entries = entries\<rparr>, s))"

end
