(* ===== verification/ServiceInv.thy ===== *)
theory ServiceInv
  imports ServiceOps
begin

text \<open>
  What the service relies on of the tracker and of its two cache tiers, and the service steps that
  only remove local entries.
\<close>

section \<open>What the service relies on of the tracker\<close>

definition demoted :: "bytes \<Rightarrow> transition list \<Rightarrow> bool" where
  "demoted k trs \<longleftrightarrow> list_ex (\<lambda>tr. tr_Key tr = k \<and> tr_From tr = StateHot \<and> tr_To tr \<noteq> StateHot) trs"

lemma demoted_simps [simp]:
  "\<not> demoted k []"
  "demoted k (tr # trs) \<longleftrightarrow> (tr_Key tr = k \<and> tr_From tr = StateHot \<and> tr_To tr \<noteq> StateHot) \<or> demoted k trs"
  by (simp_all add: demoted_def)

text \<open>Every operation reports the keys it takes out of HOT.\<close>

locale demotion_log =
  fixes inv :: "'t \<Rightarrow> bool" and is_hot :: "'t \<Rightarrow> bytes \<Rightarrow> bool" and step :: "'t \<Rightarrow> transition list \<times> 't \<Rightarrow> bool"
  assumes step_inv: "inv t \<Longrightarrow> step t (trs, t') \<Longrightarrow> inv t'"
    and step_demotes: "inv t \<Longrightarrow> step t (trs, t') \<Longrightarrow> is_hot t k \<Longrightarrow> \<not> is_hot t' k \<Longrightarrow> demoted k trs"
begin

lemma hot_or_demoted: "inv t \<Longrightarrow> step t (trs, t') \<Longrightarrow> is_hot t k \<Longrightarrow> is_hot t' k \<or> demoted k trs"
  using step_demotes by blast

end

lemma replay_demotes: "replay f trs = Some g \<Longrightarrow> f k = StateHot \<Longrightarrow> g k \<noteq> StateHot \<Longrightarrow> demoted k trs"
proof (induction trs arbitrary: f)
  case (Cons tr trs)
  then show ?case by (cases "tr_Key tr = k"; cases "tr_To tr = StateHot"; force split: if_splits)
qed simp

lemma IsHot_state_of: "IsHot t k \<longleftrightarrow> state_of t k = StateHot"
  by (auto simp: IsHot_tracked state_of_def split: option.splits)

interpretation tracker: demotion_log tracker_inv IsHot tracker_step
  by unfold_locales (auto simp: tracker_step_def IsHot_state_of intro: replay_demotes)

text \<open>A key that \<^verbatim>\<open>Admit\<close> reports HOT is HOT afterwards.\<close>

lemma Admit_hot: "Admit a t now key = (ob, t') \<Longrightarrow> o_State ob = StateHot \<Longrightarrow> IsHot t' key"
  by (auto simp: Admit_def IsHot_def Let_def split: option.splits if_splits prod.splits)

section \<open>Tiers\<close>

definition tier_inv :: "int \<Rightarrow> int \<Rightarrow> cache \<Rightarrow> bool" where
  "tier_inv b n c \<longleftrightarrow> cache_inv c \<and> c_maxBytes c = max 0 b \<and> c_maxEntries c = n"

lemma tier_cache_inv: "tier_inv b n c \<Longrightarrow> cache_inv c"
  by (simp add: tier_inv_def)

lemma tier_New: "tier_inv b n (New_cache b n)"
  by (simp add: tier_inv_def New_inv) (simp add: New_cache_def max_def)

lemma tier_step: "tier_inv b n c \<Longrightarrow> tier_inv b n (snd (cache_step c op))"
  using cache_step_sim [of c op] cache_step_limits [of c op] by (simp add: tier_inv_def)

lemma contents_nil: "cache_inv c \<Longrightarrow> contents c [] = None"
  by (auto simp: cache_inv_def core_inv_def entry_ok_def contents_def find_key_def find_None_iff)

lemma map_leI: "(\<And>k b. m' k = Some b \<Longrightarrow> m k = Some b) \<Longrightarrow> m' \<subseteq>\<^sub>m m"
  by (force simp: map_le_def)

text \<open>What the operations of a tier do to its contents.\<close>

lemma tier_Delete:
  assumes "tier_inv b n c" "Delete c k = (r, c')"
  shows "tier_inv b n c'" "contents c' = (contents c)(k := None)" "r \<longleftrightarrow> contents c k \<noteq> None"
  using tier_step [OF assms(1), of "OpDelete k"] lru.remove_lookup [OF tier_cache_inv [OF assms(1)], of k]
    lru.remove_result [OF tier_cache_inv [OF assms(1)], of k] assms(2)
  by (simp_all add: cache_step_def)

lemma tier_get:
  assumes "tier_inv b n c" "get c now k grace stale = (r, c')"
  shows "contents c' \<subseteq>\<^sub>m contents c"
    and "r = Some item \<Longrightarrow> contents c k = Some (sn_Value item, sn_ExpiresAt item)"
proof -
  note inv = tier_cache_inv [OF assms(1)]
  have "contents c' k' \<in> {None, contents c k'}" for k'
    using lru.fetch_shrinks [OF inv, of now k grace stale k'] assms(2) by simp
  then show "contents c' \<subseteq>\<^sub>m contents c" by (intro map_leI) (metis insertE option.distinct(1) singletonD)
  show "contents c k = Some (sn_Value item, sn_ExpiresAt item)" if "r = Some item"
    using lru.fetch_Some [OF inv, of now k grace stale item] assms(2) that by simp
qed

lemma tier_Get:
  assumes "tier_inv b n c" "Get c now k = (r, c')"
  shows "tier_inv b n c'" "contents c' \<subseteq>\<^sub>m contents c"
    and "r = Some item \<Longrightarrow> contents c k = Some (sn_Value item, sn_ExpiresAt item)"
  using tier_step [OF assms(1), of "OpGet now k"] tier_get(1) [OF assms(1), of now k 0 False r c']
    tier_get(2) [OF assms(1), of now k 0 False r c' item] assms(2)
  by (auto simp: cache_step_def Get_def)

lemma tier_GetStale:
  assumes "tier_inv b n c" "GetStale c now k grace = (r, c')"
  shows "tier_inv b n c'" "contents c' \<subseteq>\<^sub>m contents c"
    and "r = Some item \<Longrightarrow> contents c k = Some (sn_Value item, sn_ExpiresAt item)"
  using tier_step [OF assms(1), of "OpGetStale now k grace"] tier_get(1) [OF assms(1), of now k grace True r c']
    tier_get(2) [OF assms(1), of now k grace True r c' item] assms(2)
  by (auto simp: cache_step_def GetStale_def)

lemma put_le:
  assumes "cache_inv c" "k \<noteq> []"
  shows "contents (snd (put c k v now ex)) \<subseteq>\<^sub>m (contents c)(k \<mapsto> (v, ex))"
  using lru.store_bound [OF assms, of v now ex] by (intro map_leI) auto

lemma tier_Put:
  assumes "tier_inv b n c" "Put c now k v ttl = (r, c')" "0 < ttl"
  shows "tier_inv b n c'" "contents c' \<subseteq>\<^sub>m (contents c)(k \<mapsto> (v, now + ttl))"
  using tier_step [OF assms(1), of "OpPut now k v ttl"] put_le [OF tier_cache_inv [OF assms(1)], of k v now "now + ttl"]
    contents_nil [OF tier_cache_inv [OF assms(1)]] assms(2,3)
  by (auto simp: cache_step_def Put_def map_le_def split: if_splits)

lemma tier_PutUntil:
  assumes "tier_inv b n c" "PutUntil c now k v ex = (r, c')"
  shows "tier_inv b n c'" "contents c' \<subseteq>\<^sub>m (contents c)(k \<mapsto> (v, ex))"
  using tier_step [OF assms(1), of "OpPutUntil now k v ex"] put_le [OF tier_cache_inv [OF assms(1)], of k v now ex]
    contents_nil [OF tier_cache_inv [OF assms(1)]] assms(2)
    lru.remove_lookup [OF tier_cache_inv [OF assms(1)], of k]
  by (auto simp: cache_step_def PutUntil_def map_le_def split: if_splits)

lemma contents_cleared [simp]: "contents (Purge c) = Map.empty" "contents (Close_cache c) = Map.empty"
  by (simp_all add: fun_eq_iff contents_def Purge_def Close_cache_def entries_def find_key_def)

lemma tier_cleared: "tier_inv b n c \<Longrightarrow> tier_inv b n (Purge c)" "tier_inv b n c \<Longrightarrow> tier_inv b n (Close_cache c)"
  using tier_step [of b n c OpPurge] tier_step [of b n c OpClose] by (simp_all add: cache_step_def)

section \<open>Steps that only remove local entries\<close>

definition protected :: "'w service \<Rightarrow> bytes \<Rightarrow> (bytes \<times> time) option" where
  "protected s = contents (sv_cache s)"

definition probation :: "'w service \<Rightarrow> bytes \<Rightarrow> (bytes \<times> time) option" where
  "probation s = (case sv_probationary s of None \<Rightarrow> Map.empty | Some p \<Rightarrow> contents p)"

abbreviation limits_of :: "config \<Rightarrow> cacheTierLimits" where
  "limits_of cfg \<equiv> splitCacheTierLimits (cc_MaxBytes (cf_Cache cfg)) (cc_MaxEntries (cf_Cache cfg))"

definition static_ok :: "config \<Rightarrow> 'w service \<Rightarrow> bool" where
  "static_ok cfg s \<longleftrightarrow>
     sv_cfg s = cfg \<and> sv_policies s = newPolicyMatcher cfg \<and> length (sv_epochs s) = cacheEpochStripeCount \<and>
     tier_inv (protectedBytes (limits_of cfg)) (protectedEntries (limits_of cfg)) (sv_cache s) \<and>
     (case sv_probationary s of
        None \<Rightarrow> \<not> probationaryEnabled (limits_of cfg)
      | Some p \<Rightarrow> probationaryEnabled (limits_of cfg) \<and>
          tier_inv (probationaryBytes (limits_of cfg)) (probationaryEntries (limits_of cfg)) p)"

text \<open>The tracker and the world stay as they are and no binding appears or changes.\<close>

definition shrink :: "config \<Rightarrow> 'w service \<Rightarrow> 'w service \<Rightarrow> bool" where
  "shrink cfg s s' \<longleftrightarrow>
     static_ok cfg s' \<and> sv_tracker s' = sv_tracker s \<and> sv_world s' = sv_world s \<and>
     protected s' \<subseteq>\<^sub>m protected s \<and> probation s' \<subseteq>\<^sub>m probation s"

named_theorems shrinks \<open>operations that only remove local entries\<close>

lemma shrink_refl [simp]: "shrink cfg s s \<longleftrightarrow> static_ok cfg s"
  by (simp add: shrink_def)

lemma shrink_trans: "shrink cfg s s' \<Longrightarrow> shrink cfg s' s'' \<Longrightarrow> shrink cfg s s''"
  by (auto simp: shrink_def intro: map_le_trans)

lemma shrink_static: "shrink cfg s s' \<Longrightarrow> static_ok cfg s'"
  by (simp add: shrink_def)

text \<open>Fields that no tier depends on.\<close>

lemma view_simps [simp]:
  "protected (on_metrics f s) = protected s" "probation (on_metrics f s) = probation s"
  "static_ok cfg (on_metrics f s) = static_ok cfg s"
  "sv_tracker (on_metrics f s) = sv_tracker s" "sv_world (on_metrics f s) = sv_world s"
  "protected (bump i s) = protected s" "probation (bump i s) = probation s"
  "static_ok cfg (bump i s) = static_ok cfg s" "sv_tracker (bump i s) = sv_tracker s" "sv_world (bump i s) = sv_world s"
  "sv_cfg (on_metrics f s) = sv_cfg s" "sv_policies (on_metrics f s) = sv_policies s"
  by (simp_all add: protected_def probation_def static_ok_def on_metrics_def bump_def)

lemma view_updates [simp]:
  "protected (s\<lparr>sv_ticks := n\<rparr>) = protected s" "probation (s\<lparr>sv_ticks := n\<rparr>) = probation s"
  "protected (s\<lparr>sv_world := w\<rparr>) = protected s" "probation (s\<lparr>sv_world := w\<rparr>) = probation s"
  "protected (s\<lparr>sv_tracker := t\<rparr>) = protected s" "probation (s\<lparr>sv_tracker := t\<rparr>) = probation s"
  "protected (s\<lparr>sv_promoting := ps\<rparr>) = protected s" "probation (s\<lparr>sv_promoting := ps\<rparr>) = probation s"
  "protected (s\<lparr>sv_gates := gs\<rparr>) = protected s" "probation (s\<lparr>sv_gates := gs\<rparr>) = probation s"
  "static_ok cfg (s\<lparr>sv_ticks := n\<rparr>) = static_ok cfg s" "static_ok cfg (s\<lparr>sv_world := w\<rparr>) = static_ok cfg s"
  "static_ok cfg (s\<lparr>sv_tracker := t\<rparr>) = static_ok cfg s" "static_ok cfg (s\<lparr>sv_promoting := ps\<rparr>) = static_ok cfg s"
  "static_ok cfg (s\<lparr>sv_gates := gs\<rparr>) = static_ok cfg s"
  by (simp_all add: protected_def probation_def static_ok_def)

lemma shrink_on_metrics [simp]: "shrink cfg s (on_metrics f s') \<longleftrightarrow> shrink cfg s s'"
  by (simp add: shrink_def)

lemma shrink_bump [simp]: "shrink cfg s (bump i s') \<longleftrightarrow> shrink cfg s s'"
  by (simp add: shrink_def)

lemma shrink_update [simp]:
  "shrink cfg s (s'\<lparr>sv_ticks := n\<rparr>) \<longleftrightarrow> shrink cfg s s'"
  "shrink cfg s (s'\<lparr>sv_promoting := ps\<rparr>) \<longleftrightarrow> shrink cfg s s'"
  "shrink cfg s (s'\<lparr>sv_gates := gs\<rparr>) \<longleftrightarrow> shrink cfg s s'"
  by (simp_all add: shrink_def)

lemma Now_shrink [shrinks]: "static_ok cfg s \<Longrightarrow> Now E s = (t, s') \<Longrightarrow> shrink cfg s s'"
  by (auto simp: Now_def shrink_def)

lemma observeCache_shrink [simp]: "shrink cfg s (observeCache s') \<longleftrightarrow> shrink cfg s s'"
  by (simp add: observeCache_def Let_def)

lemma static_tier: "static_ok cfg s \<Longrightarrow> tier_inv (protectedBytes (limits_of cfg)) (protectedEntries (limits_of cfg)) (sv_cache s)"
  by (simp add: static_ok_def)

lemma static_probationary:
  "static_ok cfg s \<Longrightarrow> sv_probationary s = Some p \<Longrightarrow>
    tier_inv (probationaryBytes (limits_of cfg)) (probationaryEntries (limits_of cfg)) p"
  by (simp add: static_ok_def)

lemma cache_update:
  assumes "static_ok cfg s" "tier_inv (protectedBytes (limits_of cfg)) (protectedEntries (limits_of cfg)) c"
  shows "static_ok cfg (s\<lparr>sv_cache := c\<rparr>)" "protected (s\<lparr>sv_cache := c\<rparr>) = contents c"
    "probation (s\<lparr>sv_cache := c\<rparr>) = probation s"
  using assms by (simp_all add: static_ok_def protected_def probation_def)

lemma probationary_update:
  assumes "static_ok cfg s" "sv_probationary s = Some p0"
    "tier_inv (probationaryBytes (limits_of cfg)) (probationaryEntries (limits_of cfg)) p"
  shows "static_ok cfg (s\<lparr>sv_probationary := Some p\<rparr>)" "probation (s\<lparr>sv_probationary := Some p\<rparr>) = contents p"
    "protected (s\<lparr>sv_probationary := Some p\<rparr>) = protected s"
  using assms by (simp_all add: static_ok_def protected_def probation_def)

lemma cache_Delete_eff:
  assumes "static_ok cfg s" "cache_Delete k s = (b, s')"
  shows "shrink cfg s s'" "protected s' = (protected s)(k := None)" "probation s' = probation s"
    "sv_cache s' = snd (Delete (sv_cache s) k)" "b \<longleftrightarrow> protected s k \<noteq> None"
proof -
  obtain c where c: "Delete (sv_cache s) k = (b, c)" "s' = s\<lparr>sv_cache := c\<rparr>"
    using assms(2) by (auto simp: cache_Delete_def split: prod.splits)
  note T = tier_Delete [OF static_tier [OF assms(1)] c(1)] and U = cache_update [OF assms(1) T(1)]
  show "protected s' = (protected s)(k := None)" "probation s' = probation s" "sv_cache s' = snd (Delete (sv_cache s) k)"
    "b \<longleftrightarrow> protected s k \<noteq> None"
    using c U T by (simp_all add: protected_def)
  then show "shrink cfg s s'" using c U by (simp add: shrink_def map_le_def)
qed

lemma probationary_Delete_eff:
  assumes "static_ok cfg s" "probationary_Delete k s = (b, s')"
  shows "shrink cfg s s'" "probation s' = (probation s)(k := None)" "protected s' = protected s"
    "b \<longleftrightarrow> probation s k \<noteq> None"
proof -
  have "shrink cfg s s' \<and> probation s' = (probation s)(k := None) \<and> protected s' = protected s \<and> (b \<longleftrightarrow> probation s k \<noteq> None)"
  proof (cases "sv_probationary s")
    case None
    then show ?thesis using assms by (auto simp: probationary_Delete_def probation_def)
  next
    case (Some p)
    then obtain p' where p': "Delete p k = (b, p')" "s' = s\<lparr>sv_probationary := Some p'\<rparr>"
      using assms(2) by (auto simp: probationary_Delete_def split: prod.splits)
    note T = tier_Delete [OF static_probationary [OF assms(1) Some] p'(1)] and U = probationary_update [OF assms(1) Some T(1)]
    have "probation s = contents p" using Some by (simp add: probation_def)
    then show ?thesis using p' U T by (simp add: shrink_def map_le_def)
  qed
  then show "shrink cfg s s'" "probation s' = (probation s)(k := None)" "protected s' = protected s"
    "b \<longleftrightarrow> probation s k \<noteq> None" by auto
qed

lemma probationary_Get_eff:
  assumes "static_ok cfg s" "probationary_Get E k s = (r, s')"
  shows "shrink cfg s s'" "r = Some item \<Longrightarrow> probation s k = Some (sn_Value item, sn_ExpiresAt item)"
    "protected s' = protected s"
proof -
  have "shrink cfg s s' \<and> protected s' = protected s \<and>
    (r = Some item \<longrightarrow> probation s k = Some (sn_Value item, sn_ExpiresAt item))"
  proof (cases "sv_probationary s")
    case None
    then show ?thesis using assms by (auto simp: probationary_Get_def)
  next
    case (Some p)
    then obtain now p' where p': "Get p now k = (r, p')" "s' = s\<lparr>sv_ticks := Suc (sv_ticks s), sv_probationary := Some p'\<rparr>"
      using assms(2) by (auto simp: probationary_Get_def Now_def split: prod.splits)
    have s0: "static_ok cfg (s\<lparr>sv_ticks := Suc (sv_ticks s)\<rparr>)" "sv_probationary (s\<lparr>sv_ticks := Suc (sv_ticks s)\<rparr>) = Some p"
      using assms(1) Some by simp_all
    note P = static_probationary [OF assms(1) Some]
    note T = tier_Get(1,2) [OF P p'(1)] and U = probationary_update [OF s0 tier_Get(1) [OF P p'(1)]]
    have "probation s = contents p" using Some by (simp add: probation_def)
    then show ?thesis using p' U T tier_Get(3) [OF P p'(1), of item] by (simp add: shrink_def)
  qed
  then show "shrink cfg s s'" "r = Some item \<Longrightarrow> probation s k = Some (sn_Value item, sn_ExpiresAt item)"
    "protected s' = protected s" by auto
qed

lemma cache_GetStale_eff:
  assumes "static_ok cfg s" "cache_GetStale E k grace s = (r, s')"
  shows "shrink cfg s s'" "r = Some item \<Longrightarrow> protected s k = Some (sn_Value item, sn_ExpiresAt item)"
proof -
  obtain now c where c: "GetStale (sv_cache s) now k grace = (r, c)" "s' = s\<lparr>sv_ticks := Suc (sv_ticks s), sv_cache := c\<rparr>"
    using assms(2) by (auto simp: cache_GetStale_def Now_def split: prod.splits)
  have s0: "static_ok cfg (s\<lparr>sv_ticks := Suc (sv_ticks s)\<rparr>)" using assms(1) by simp
  note P = static_tier [OF assms(1)]
  note T = tier_GetStale(1,2) [OF P c(1)] and U = cache_update [OF s0 tier_GetStale(1) [OF P c(1)]]
  show "shrink cfg s s'" using c U T by (simp add: shrink_def) (simp add: protected_def)
  show "r = Some item \<Longrightarrow> protected s k = Some (sn_Value item, sn_ExpiresAt item)"
    using tier_GetStale(3) [OF P c(1), of item] by (simp add: protected_def)
qed

lemma getFreshProtected_eff:
  assumes "static_ok cfg s" "getFreshProtected E k s = (r, s')"
  shows "shrink cfg s s'" "r = Some item \<Longrightarrow> protected s k = Some (sn_Value item, sn_ExpiresAt item)"
proof -
  have "shrink cfg s s' \<and> (r = Some item \<longrightarrow> protected s k = Some (sn_Value item, sn_ExpiresAt item))"
  proof (cases "cc_AllowStaleOnUpstreamError (cf_Cache (sv_cfg s)) \<and> cc_StaleGrace (cf_Cache (sv_cfg s)) > 0")
    case True
    then have "cache_GetStale E k 0 s = (r, s')" using assms(2) by (simp add: getFreshProtected_def)
    with cache_GetStale_eff [OF assms(1) this] show ?thesis by simp
  next
    case False
    then obtain now c where c: "Get (sv_cache s) now k = (r, c)" "s' = s\<lparr>sv_ticks := Suc (sv_ticks s), sv_cache := c\<rparr>"
      using assms(2) by (auto simp: getFreshProtected_def Now_def split: prod.splits)
    have s0: "static_ok cfg (s\<lparr>sv_ticks := Suc (sv_ticks s)\<rparr>)" using assms(1) by simp
    note P = static_tier [OF assms(1)]
    note T = tier_Get(1,2) [OF P c(1)] and U = cache_update [OF s0 tier_Get(1) [OF P c(1)]]
    show ?thesis using c U T tier_Get(3) [OF P c(1), of item] by (simp add: shrink_def) (simp add: protected_def)
  qed
  then show "shrink cfg s s'" "r = Some item \<Longrightarrow> protected s k = Some (sn_Value item, sn_ExpiresAt item)" by auto
qed

end
