(* ===== verification/ServiceKeeps.thy ===== *)
theory ServiceKeeps
  imports ServiceInv
begin

text \<open>
  The invariant of the service and its preservation by every operation: both tiers respect their share
  of the budget, no key is in both, only keys whose policy is \<^verbatim>\<open>cache\<close> are cached, and every key of the
  protected tier is HOT.
\<close>

section \<open>The invariant\<close>

text \<open>
  \<open>Q k v\<close> is what is known of a value \<open>v\<close> cached for \<open>k\<close>; \<open>trs\<close> are the transitions reported by the
  tracker whose effects are still to be applied.
\<close>

definition svc_inv :: "config \<Rightarrow> (bytes \<Rightarrow> bytes \<Rightarrow> bool) \<Rightarrow> transition list \<Rightarrow> 'w service \<Rightarrow> bool" where
  "svc_inv cfg Q trs s \<longleftrightarrow>
     static_ok cfg s \<and> tracker_inv (sv_tracker s) \<and>
     (\<forall>k v e. protected s k = Some (v, e) \<longrightarrow>
        probation s k = None \<and> d_Mode (Match (newPolicyMatcher cfg) k) = ModeCache \<and> Q k v \<and>
        (IsHot (sv_tracker s) k \<or> demoted k trs)) \<and>
     (\<forall>k v e. probation s k = Some (v, e) \<longrightarrow> d_Mode (Match (newPolicyMatcher cfg) k) = ModeCache \<and> Q k v)"

lemma svc_static: "svc_inv cfg Q trs s \<Longrightarrow> static_ok cfg s"
  by (simp add: svc_inv_def)

lemma svc_inv_shrink: "svc_inv cfg Q trs s \<Longrightarrow> shrink cfg s s' \<Longrightarrow> svc_inv cfg Q trs s'"
  unfolding svc_inv_def shrink_def map_le_def dom_def
  by (smt (verit) mem_Collect_eq option.distinct(1))

lemma svc_inv_simps [simp]:
  "svc_inv cfg Q trs (on_metrics f s) = svc_inv cfg Q trs s"
  "svc_inv cfg Q trs (bump i s) = svc_inv cfg Q trs s"
  "svc_inv cfg Q trs (s\<lparr>sv_ticks := n\<rparr>) = svc_inv cfg Q trs s"
  "svc_inv cfg Q trs (s\<lparr>sv_world := w\<rparr>) = svc_inv cfg Q trs s"
  "svc_inv cfg Q trs (s\<lparr>sv_promoting := ps\<rparr>) = svc_inv cfg Q trs s"
  "svc_inv cfg Q trs (s\<lparr>sv_gates := gs\<rparr>) = svc_inv cfg Q trs s"
  by (simp_all add: svc_inv_def)

lemma observeCache_inv [simp]: "svc_inv cfg Q trs (observeCache s) = svc_inv cfg Q trs s"
  by (simp add: observeCache_def Let_def)

lemma observeCache_world [simp]: "sv_world (observeCache s) = sv_world s" "sv_tracker (observeCache s) = sv_tracker s"
  by (simp_all add: observeCache_def Let_def)

lemma svc_inv_value:
  "svc_inv cfg Q trs s \<Longrightarrow> protected s k = Some (v, e) \<Longrightarrow> Q k v"
  "svc_inv cfg Q trs s \<Longrightarrow> probation s k = Some (v, e) \<Longrightarrow> Q k v"
  by (simp_all add: svc_inv_def)

lemma svc_inv_pending:
  assumes "svc_inv cfg Q trs s"
    "\<And>k v e. protected s k = Some (v, e) \<Longrightarrow> demoted k trs \<Longrightarrow> IsHot (sv_tracker s) k \<or> demoted k trs'"
  shows "svc_inv cfg Q trs' s"
  using assms unfolding svc_inv_def by blast

subsection \<open>Transitions\<close>

text \<open>Applying a demotion empties both tiers for its key unless the key is HOT again.\<close>

lemma apply_transition_inv:
  assumes "svc_inv cfg Q (tr # trs) s" "apply_transition tr (b, s) = (b', s')"
  shows "svc_inv cfg Q trs s' \<and> shrink cfg s s'"
proof (cases "tr_From tr = StateHot \<and> tr_To tr \<noteq> StateHot")
  case False
  then have "s' = s \<or> s' = on_metrics Promotion s"
    using assms(2) by (auto simp: apply_transition_def split: if_splits)
  moreover have "svc_inv cfg Q trs s" using assms(1) False by (auto simp: svc_inv_def)
  ultimately show ?thesis by (auto simp: svc_static)
next
  case True
  note st = svc_static [OF assms(1)]
  show ?thesis
  proof (cases "IsHot (sv_tracker s) (tr_Key tr)")
    case hot: True
    then have "s' = on_metrics Demotion s" using assms(2) True by (simp add: apply_transition_def)
    moreover have "svc_inv cfg Q trs s" using assms(1) hot by (auto simp: svc_inv_def)
    ultimately show ?thesis using st by simp
  next
    case cold: False
    obtain b1 s1 where 1: "cache_Delete (tr_Key tr) s = (b1, s1)" by (cases "cache_Delete (tr_Key tr) s")
    note E1 = cache_Delete_eff [OF st 1]
    obtain b2 s2 where 2: "probationary_Delete (tr_Key tr) s1 = (b2, s2)" by (cases "probationary_Delete (tr_Key tr) s1")
    note E2 = probationary_Delete_eff [OF shrink_static [OF E1(1)] 2]
    have s': "s' = on_metrics Demotion s2"
      using assms(2) True cold 1 2 by (simp add: apply_transition_def Let_def)
    have sh: "shrink cfg s s2" using E1(1) E2(1) by (rule shrink_trans)
    have "protected s2 (tr_Key tr) = None" using E1(2) E2(3) by simp
    moreover have "svc_inv cfg Q (tr # trs) s2" using assms(1) sh by (rule svc_inv_shrink)
    ultimately have "svc_inv cfg Q trs s2" by (auto elim!: svc_inv_pending)
    with sh show ?thesis by (simp add: s')
  qed
qed

lemma apply_transitions_fold:
  "svc_inv cfg Q trs s \<Longrightarrow> fold apply_transition trs (b, s) = (b', s') \<Longrightarrow> svc_inv cfg Q [] s' \<and> shrink cfg s s'"
proof (induction trs arbitrary: b s)
  case Nil
  then show ?case by (simp add: svc_static)
next
  case (Cons tr trs)
  obtain b1 s1 where 1: "apply_transition tr (b, s) = (b1, s1)" by (cases "apply_transition tr (b, s)")
  have "svc_inv cfg Q trs s1 \<and> shrink cfg s s1" using apply_transition_inv [OF Cons.prems(1) 1] .
  moreover have "fold apply_transition trs (b1, s1) = (b', s')" using Cons.prems(2) 1 by simp
  ultimately show ?case using Cons.IH shrink_trans by blast
qed

lemma applyTransitions_inv:
  assumes "svc_inv cfg Q trs s"
  shows "svc_inv cfg Q [] (applyTransitions trs s) \<and> shrink cfg s (applyTransitions trs s)"
  using apply_transitions_fold [OF assms] by (simp add: applyTransitions_def split: prod.splits)

lemma handleTransitions_inv:
  "svc_inv cfg Q trs s \<Longrightarrow> svc_inv cfg Q [] (handleTransitions trs s) \<and> shrink cfg s (handleTransitions trs s)"
  using applyTransitions_inv [of cfg Q trs s] by (simp add: handleTransitions_def Let_def)

lemma handleObservation_inv:
  "svc_inv cfg Q (o_Transitions ob) s \<Longrightarrow>
    svc_inv cfg Q [] (handleObservation ob s) \<and> shrink cfg s (handleObservation ob s)"
  using applyTransitions_inv [of cfg Q "o_Transitions ob" s] by (auto simp: handleObservation_def Let_def)

lemma tracker_step_inv:
  assumes "svc_inv cfg Q [] s" "tracker_step (sv_tracker s) (trs, t)"
  shows "svc_inv cfg Q trs (s\<lparr>sv_tracker := t\<rparr>)"
  using assms tracker.step_inv [OF _ assms(2)] tracker.hot_or_demoted [OF _ assms(2)]
  by (auto simp: svc_inv_def)

text \<open>Steps that keep the invariant and leave the world alone.\<close>

definition keeps :: "config \<Rightarrow> (bytes \<Rightarrow> bytes \<Rightarrow> bool) \<Rightarrow> 'w service \<Rightarrow> 'w service \<Rightarrow> bool" where
  "keeps cfg Q s s' \<longleftrightarrow> svc_inv cfg Q [] s' \<and> sv_world s' = sv_world s"

lemma keeps_trans: "keeps cfg Q s s' \<Longrightarrow> keeps cfg Q s' s'' \<Longrightarrow> keeps cfg Q s s''"
  by (simp add: keeps_def)

lemma keepsD: "keeps cfg Q s s' \<Longrightarrow> svc_inv cfg Q [] s'" "keeps cfg Q s s' \<Longrightarrow> sv_world s' = sv_world s"
  by (simp_all add: keeps_def)

lemma keeps_simps [simp]:
  "keeps cfg Q s (on_metrics f s') = keeps cfg Q s s'" "keeps cfg Q s (observeCache s') = keeps cfg Q s s'"
  "keeps cfg Q s (s'\<lparr>sv_ticks := n\<rparr>) = keeps cfg Q s s'" "keeps cfg Q s (s'\<lparr>sv_gates := gs\<rparr>) = keeps cfg Q s s'"
  "keeps cfg Q s s = svc_inv cfg Q [] s"
  by (simp_all add: keeps_def)

lemma shrink_keeps: "svc_inv cfg Q [] s \<Longrightarrow> shrink cfg s s' \<Longrightarrow> keeps cfg Q s s'"
  using svc_inv_shrink [of cfg Q "[]" s s'] by (simp add: keeps_def shrink_def)

lemma observe_keeps:
  assumes "svc_inv cfg Q [] s" "observe E key s = (st, s')"
  shows "keeps cfg Q s s'"
proof -
  obtain now where now: "now = en_clock E (sv_ticks s)" by simp
  obtain ob t where ob: "ObserveWithState (en_arith E) (sv_tracker s) now key = (ob, t)"
    by (cases "ObserveWithState (en_arith E) (sv_tracker s) now key")
  let ?s = "s\<lparr>sv_ticks := Suc (sv_ticks s)\<rparr>"
  have "tracker_step (sv_tracker ?s) (o_Transitions ob, t)"
    using Observe_step [of "sv_tracker s" "en_arith E" now key] assms(1) ob by (simp add: observed_def svc_inv_def)
  then have "svc_inv cfg Q (o_Transitions ob) (?s\<lparr>sv_tracker := t\<rparr>)"
    using assms(1) by (intro tracker_step_inv) simp
  from handleObservation_inv [OF this] show ?thesis
    using assms(2) ob now by (auto simp: observe_def Now_def keeps_def shrink_def)
qed

lemma observe_policy_keeps:
  "svc_inv cfg Q [] s \<Longrightarrow> observe_policy E policy key s = (st, s') \<Longrightarrow> keeps cfg Q s s'"
  by (auto simp: observe_policy_def observe_keeps split: if_splits)

subsection \<open>Stores\<close>

lemma map_le_bind:
  assumes "m' \<subseteq>\<^sub>m m(key \<mapsto> (v, ex))" "m' k = Some (x, e)"
  shows "(k = key \<and> x = v) \<or> (k \<noteq> key \<and> m k = Some (x, e))"
proof -
  have "m' k = (m(key \<mapsto> (v, ex))) k" using assms by (auto simp: map_le_def dom_def)
  with assms(2) show ?thesis by (auto split: if_splits)
qed

lemma svc_inv_bind_protected:
  assumes inv: "svc_inv cfg Q trs s"
    and frame: "static_ok cfg s'" "sv_tracker s' = sv_tracker s" "probation s' = probation s"
    and bind: "protected s' \<subseteq>\<^sub>m (protected s)(key \<mapsto> (v, ex))"
    and key: "d_Mode (Match (newPolicyMatcher cfg) key) = ModeCache" "IsHot (sv_tracker s) key" "probation s key = None" "Q key v"
  shows "svc_inv cfg Q trs s'"
proof -
  have "probation s' k = None \<and> d_Mode (Match (newPolicyMatcher cfg) k) = ModeCache \<and> Q k x \<and>
      (IsHot (sv_tracker s') k \<or> demoted k trs)" if "protected s' k = Some (x, e)" for k x e
    using map_le_bind [OF bind that] inv key frame by (auto simp: svc_inv_def)
  then show ?thesis using inv frame unfolding svc_inv_def by simp
qed

lemma svc_inv_bind_probation:
  assumes inv: "svc_inv cfg Q trs s"
    and frame: "static_ok cfg s'" "sv_tracker s' = sv_tracker s" "protected s' = protected s"
    and bind: "probation s' \<subseteq>\<^sub>m (probation s)(key \<mapsto> (v, ex))"
    and key: "d_Mode (Match (newPolicyMatcher cfg) key) = ModeCache" "protected s key = None" "Q key v"
  shows "svc_inv cfg Q trs s'"
proof -
  have "d_Mode (Match (newPolicyMatcher cfg) k) = ModeCache \<and> Q k x" if "probation s' k = Some (x, e)" for k x e
    using map_le_bind [OF bind that] inv key frame by (auto simp: svc_inv_def)
  moreover have "probation s' k = None" if "protected s' k = Some (x, e)" for k x e
  proof (cases "probation s' k")
    case (Some b)
    with map_le_bind [OF bind, of k "fst b" "snd b"] that frame(3) key(2) inv show ?thesis by (auto simp: svc_inv_def)
  qed
  ultimately show ?thesis using inv frame unfolding svc_inv_def by simp
qed

lemma storeLocal_inv:
  assumes "svc_inv cfg Q trs s" "d_Mode (Match (newPolicyMatcher cfg) key) = ModeCache" "IsHot (sv_tracker s) key"
    "probation s key = None" "Q key (uv_Data v)" "storeLocal E key v policy s = (b, s')"
  shows "svc_inv cfg Q trs s' \<and> sv_world s' = sv_world s \<and> sv_tracker s' = sv_tracker s"
proof -
  note st = svc_static [OF assms(1)]
  consider (deleted) "s' = snd (cache_Delete key s)"
    | (put) now ttl c where "0 < ttl" "Put (sv_cache s) now key (uv_Data v) ttl = (b, c)"
        "s' = s\<lparr>sv_ticks := Suc (sv_ticks s), sv_cache := c\<rparr>"
    using assms(6) by (auto simp: storeLocal_def Now_def Let_def not_le split: if_splits prod.splits)
  then show ?thesis
  proof cases
    case deleted
    obtain b1 s1 where 1: "cache_Delete key s = (b1, s1)" by (cases "cache_Delete key s")
    with deleted have "shrink cfg s s'" using cache_Delete_eff(1) [OF st 1] by simp
    then show ?thesis using svc_inv_shrink [OF assms(1)] by (simp add: shrink_def)
  next
    case put
    note T = tier_Put [OF static_tier [OF st] put(2,1)]
    have st': "static_ok cfg (s\<lparr>sv_ticks := Suc (sv_ticks s)\<rparr>)" using st by simp
    note U = cache_update [OF st' T(1)]
    have "protected s' \<subseteq>\<^sub>m (protected s)(key \<mapsto> (uv_Data v, now + ttl))"
      using T(2) U put(3) by (simp add: protected_def)
    then show ?thesis
      using svc_inv_bind_protected [OF assms(1), of s' key "uv_Data v" "now + ttl"] assms(2-5) U put(3) by simp
  qed
qed

lemma storeProbationary_inv:
  assumes "svc_inv cfg Q trs s" "d_Mode (Match (newPolicyMatcher cfg) key) = ModeCache"
    "protected s key = None" "Q key (uv_Data v)" "storeProbationary E key v policy s = (b, s')"
  shows "svc_inv cfg Q trs s' \<and> sv_world s' = sv_world s \<and> sv_tracker s' = sv_tracker s"
proof -
  note st = svc_static [OF assms(1)]
  consider (same) "s' = s" | (deleted) "s' = snd (probationary_Delete key s)"
    | (put) p now ttl c where "0 < ttl" "sv_probationary s = Some p" "Put p now key (uv_Data v) ttl = (b, c)"
        "s' = s\<lparr>sv_ticks := Suc (sv_ticks s), sv_probationary := Some c\<rparr>"
    using assms(5) by (auto simp: storeProbationary_def Now_def Let_def not_le split: if_splits prod.splits option.splits)
  then show ?thesis
  proof cases
    case same
    then show ?thesis using assms(1) by simp
  next
    case deleted
    obtain b1 s1 where 1: "probationary_Delete key s = (b1, s1)" by (cases "probationary_Delete key s")
    with deleted have "shrink cfg s s'" using probationary_Delete_eff(1) [OF st 1] by simp
    then show ?thesis using svc_inv_shrink [OF assms(1)] by (simp add: shrink_def)
  next
    case put
    note T = tier_Put [OF static_probationary [OF st put(2)] put(3,1)]
    have st': "static_ok cfg (s\<lparr>sv_ticks := Suc (sv_ticks s)\<rparr>)"
      "sv_probationary (s\<lparr>sv_ticks := Suc (sv_ticks s)\<rparr>) = Some p" using st put(2) by simp_all
    note U = probationary_update [OF st' T(1)]
    have "probation s' \<subseteq>\<^sub>m (probation s)(key \<mapsto> (uv_Data v, now + ttl))"
      using T(2) U put(2,4) by (simp add: probation_def)
    then show ?thesis
      using svc_inv_bind_probation [OF assms(1), of s' key "uv_Data v" "now + ttl"] assms(2-4) U put(4) by simp
  qed
qed

lemma reconcileLocal_inv:
  assumes "svc_inv cfg Q trs s" "d_Mode (Match (newPolicyMatcher cfg) key) = ModeCache"
    "uv_Exists v \<Longrightarrow> Q key (uv_Data v)"
  shows "svc_inv cfg Q trs (reconcileLocal E key v policy s) \<and> sv_world (reconcileLocal E key v policy s) = sv_world s"
proof -
  note st = svc_static [OF assms(1)]
  obtain bc sc where c: "cache_Delete key s = (bc, sc)" by (cases "cache_Delete key s")
  note C = cache_Delete_eff [OF st c]
  obtain bp sp where p: "probationary_Delete key s = (bp, sp)" by (cases "probationary_Delete key s")
  note P = probationary_Delete_eff [OF st p]
  have inv: "svc_inv cfg Q trs sc" "svc_inv cfg Q trs sp"
    using svc_inv_shrink [OF assms(1)] C(1) P(1) by blast+
  consider (absent) "\<not> uv_Exists v" | (hot) "uv_Exists v" "IsHot (sv_tracker s) key" | (cold) "uv_Exists v" "\<not> IsHot (sv_tracker s) key"
    by blast
  then show ?thesis
  proof cases
    case absent
    obtain b2 s2 where 2: "probationary_Delete key sc = (b2, s2)" by (cases "probationary_Delete key sc")
    note sh = probationary_Delete_eff(1) [OF shrink_static [OF C(1)] 2]
    show ?thesis using absent c 2 svc_inv_shrink [OF inv(1) sh] sh C(1) by (simp add: reconcileLocal_def shrink_def)
  next
    case hot
    obtain b2 s2 where 2: "storeLocal E key v policy sp = (b2, s2)" by (cases "storeLocal E key v policy sp")
    have "IsHot (sv_tracker sp) key" "probation sp key = None" using hot P by (simp_all add: shrink_def)
    from storeLocal_inv [OF inv(2) assms(2) this assms(3) 2] hot p 2 P(1) show ?thesis
      by (simp add: reconcileLocal_def shrink_def)
  next
    case cold
    obtain b2 s2 where 2: "storeProbationary E key v policy sc = (b2, s2)" by (cases "storeProbationary E key v policy sc")
    have "protected sc key = None" using C(2) by simp
    from storeProbationary_inv [OF inv(1) assms(2) this assms(3) 2] cold c 2 C(1) show ?thesis
      by (simp add: reconcileLocal_def shrink_def)
  qed
qed

lemma reconcile_keeps:
  assumes "svc_inv cfg Q [] s" "d_Mode (Match (newPolicyMatcher cfg) key) = ModeCache"
    "uv_Exists v \<Longrightarrow> Q key (uv_Data v)"
  shows "keeps cfg Q s (reconcileLocalIfCurrent E key v epoch policy s)"
  using reconcileLocal_inv [OF assms] assms(1) by (simp add: reconcileLocalIfCurrent_def withCurrentCacheEpoch_def keeps_def)

subsection \<open>Local reads\<close>

lemma promote_keeps:
  assumes inv: "svc_inv cfg Q [] s" and mode: "d_Mode (Match (newPolicyMatcher cfg) key) = ModeCache"
    and val: "Q key (sn_Value candidate)" and run: "promote_candidate E key candidate s = (r, s')"
  shows "keeps cfg Q s s'" "r = Some item \<Longrightarrow> item = candidate"
proof -
  let ?i = "cacheEpochStripe key" and ?now = "en_clock E (sv_ticks s)"
  obtain ob t where ob: "Admit (en_arith E) (sv_tracker s) ?now key = (ob, t)"
    by (cases "Admit (en_arith E) (sv_tracker s) ?now key")
  have N: "Now E s = (?now, s\<lparr>sv_ticks := Suc (sv_ticks s)\<rparr>)" by (simp add: Now_def)
  define promoting where "promoting = (o_State ob = StateHot)"
  define s1 where "s1 = s\<lparr>sv_ticks := Suc (sv_ticks s), sv_tracker := t\<rparr>"
  have "tracker_step (sv_tracker s) (o_Transitions ob, t)"
    using Admit_step [of "sv_tracker s" "en_arith E" ?now key] inv ob by (simp add: observed_def svc_inv_def)
  then have "svc_inv cfg Q (o_Transitions ob) (s\<lparr>sv_tracker := t\<rparr>)" by (rule tracker_step_inv [OF inv])
  then have i1: "svc_inv cfg Q (o_Transitions ob) s1" unfolding s1_def by (simp add: svc_inv_def)
  define s2 where "s2 = (if promoting then s1\<lparr>sv_promoting := (sv_promoting s1)[?i := True]\<rparr> else s1)"
  have i2: "svc_inv cfg Q (o_Transitions ob) s2" using i1 by (simp add: s2_def)
  obtain b s3 where 3: "probationary_Delete key s2 = (b, s3)" by (cases "probationary_Delete key s2")
  note D = probationary_Delete_eff [OF svc_static [OF i2] 3]
  have i3: "svc_inv cfg Q (o_Transitions ob) s3" using i2 D(1) by (rule svc_inv_shrink)
  obtain stored s4 where 4: "(if promoting
      then let (now, s) = Now E s3; (b, c) = PutUntil (sv_cache s) now key (sn_Value candidate) (sn_ExpiresAt candidate)
           in (b, s\<lparr>sv_cache := c\<rparr>)
      else (False, s3)) = (stored, s4)" by (rule prod.exhaust)
  have i4: "svc_inv cfg Q (o_Transitions ob) s4 \<and> sv_world s4 = sv_world s3"
  proof (cases promoting)
    case False
    then show ?thesis using 4 i3 by simp
  next
    case True
    let ?t = "en_clock E (sv_ticks s3)"
    obtain c where c: "PutUntil (sv_cache s3) ?t key (sn_Value candidate) (sn_ExpiresAt candidate) = (stored, c)"
      "s4 = s3\<lparr>sv_ticks := Suc (sv_ticks s3), sv_cache := c\<rparr>"
      using 4 True by (auto simp: Now_def split: prod.splits)
    note T = tier_PutUntil [OF static_tier [OF svc_static [OF i3]] c(1)]
    have st: "static_ok cfg (s3\<lparr>sv_ticks := Suc (sv_ticks s3)\<rparr>)" using svc_static [OF i3] by simp
    note U = cache_update [OF st T(1)]
    have "IsHot t key" using Admit_hot [OF ob] True by (simp add: promoting_def)
    then have hot: "IsHot (sv_tracker s3) key" using D(1) by (simp add: shrink_def s2_def s1_def)
    have "svc_inv cfg Q (o_Transitions ob) s4"
    proof (rule svc_inv_bind_protected [OF i3, where key = key and v = "sn_Value candidate" and ex = "sn_ExpiresAt candidate"])
      show "protected s4 \<subseteq>\<^sub>m (protected s3)(key \<mapsto> (sn_Value candidate, sn_ExpiresAt candidate))"
        using T(2) U c(2) by (simp add: protected_def)
    qed (use U c(2) hot mode val D(2) in simp_all)
    then show ?thesis using c(2) by simp
  qed
  define s5 where "s5 = (if promoting then s4\<lparr>sv_promoting := (sv_promoting s4)[?i := False]\<rparr> else s4)"
  have i5: "svc_inv cfg Q (o_Transitions ob) s5" using i4 by (simp add: s5_def)
  have run': "(r, s') = (if stored then Some candidate else None, observeCache (handleObservation ob s5))"
    using run ob N 3 4 unfolding s5_def s2_def s1_def promoting_def by (simp add: promote_candidate_def Let_def)
  have w: "sv_world s5 = sv_world s"
    using i4 D(1) by (simp add: s5_def shrink_def s2_def s1_def)
  show "keeps cfg Q s s'" using handleObservation_inv [OF i5] w run' by (simp add: keeps_def shrink_def)
  show "r = Some item \<Longrightarrow> item = candidate" using run' by (simp split: if_splits)
qed

lemma read_candidate_keeps:
  assumes inv: "svc_inv cfg Q [] s" and mode: "d_Mode (Match (newPolicyMatcher cfg) key) = ModeCache"
    and run: "read_candidate E key s = (r, s')"
  shows "keeps cfg Q s s'" "r = Some item \<Longrightarrow> Q key (sn_Value item)"
proof -
  obtain r1 s1 where 1: "(if IsHot (sv_tracker s) key then getFreshProtected E key s else (None, s)) = (r1, s1)"
    by (rule prod.exhaust)
  have k1: "keeps cfg Q s s1 \<and> (\<forall>item. r1 = Some item \<longrightarrow> Q key (sn_Value item))"
  proof (cases "IsHot (sv_tracker s) key")
    case True
    then have "getFreshProtected E key s = (r1, s1)" using 1 by simp
    note G = getFreshProtected_eff [OF svc_static [OF inv] this]
    show ?thesis using shrink_keeps [OF inv G(1)] G(2) svc_inv_value(1) [OF inv] by blast
  qed (use 1 inv in auto)
  have "keeps cfg Q s s' \<and> (r = Some item \<longrightarrow> Q key (sn_Value item))"
  proof (cases r1)
    case (Some i)
    then show ?thesis using run 1 k1 by (auto simp: read_candidate_def Let_def)
  next
    case None
    obtain c s2 where 2: "probationary_Get E key s1 = (c, s2)" by (cases "probationary_Get E key s1")
    note i1 = keepsD(1) [OF conjunct1 [OF k1]]
    note G = probationary_Get_eff [OF svc_static [OF i1] 2]
    have k2: "keeps cfg Q s s2" using k1 shrink_keeps [OF i1 G(1)] keeps_trans by blast
    show ?thesis
    proof (cases c)
      case None
      then show ?thesis using run 1 2 \<open>r1 = None\<close> k2 by (simp add: read_candidate_def Let_def)
    next
      case (Some cand)
      then have p: "promote_candidate E key cand s2 = (r, s')"
        using run 1 2 \<open>r1 = None\<close> by (simp add: read_candidate_def Let_def)
      have "Q key (sn_Value cand)" using G(2) Some svc_inv_value(2) [OF i1] by blast
      note K = promote_keeps [OF keepsD(1) [OF k2] mode this p]
      show ?thesis using keeps_trans [OF k2 K(1)] K(2) \<open>Q key (sn_Value cand)\<close> by blast
    qed
  qed
  then show "keeps cfg Q s s'" "r = Some item \<Longrightarrow> Q key (sn_Value item)" by auto
qed

lemma getFreshCached_keeps:
  assumes inv: "svc_inv cfg Q [] s" and mode: "d_Mode (Match (newPolicyMatcher cfg) key) = ModeCache"
    and run: "getFreshCachedInState E key state s = (r, s')"
  shows "keeps cfg Q s s'" "r = Some item \<Longrightarrow> Q key (sn_Value item)"
proof -
  have fresh: "keeps cfg Q u u' \<and> (\<forall>item. q = Some item \<longrightarrow> Q key (sn_Value item))"
    if "svc_inv cfg Q [] u" "getFreshProtected E key u = (q, u')" for u u' q
    using getFreshProtected_eff [OF svc_static [OF that(1)] that(2)] shrink_keeps [OF that(1)] svc_inv_value(1) [OF that(1)]
    by blast
  obtain r1 s1 where 1: "(if state = StateHot then getFreshProtected E key s else (None, s)) = (r1, s1)"
    by (rule prod.exhaust)
  have k1: "keeps cfg Q s s1 \<and> (\<forall>item. r1 = Some item \<longrightarrow> Q key (sn_Value item))"
    using 1 inv fresh [of s r1 s1] by (cases "state = StateHot") auto
  note i1 = keepsD(1) [OF conjunct1 [OF k1]]
  obtain c s2 where 2: "probationary_Get E key s1 = (c, s2)" by (cases "probationary_Get E key s1")
  note G = probationary_Get_eff [OF svc_static [OF i1] 2]
  have k2: "keeps cfg Q s s2" using k1 shrink_keeps [OF i1 G(1)] keeps_trans by blast
  note i2 = keepsD(1) [OF k2]
  have eq: "getFreshCachedInState E key state s =
      (case r1 of Some i \<Rightarrow> (Some i, s1)
       | None \<Rightarrow> if sv_probationary s1 = None then (None, s1)
           else case c of None \<Rightarrow> if \<not> IsHot (sv_tracker s2) key then (None, s2) else getFreshProtected E key s2
                | Some _ \<Rightarrow> read_candidate E key s2)"
    by (simp only: getFreshCachedInState_def 1 2 Let_def prod.case if_cancel)
  note run' = run [unfolded eq]
  have "keeps cfg Q s s' \<and> (r = Some item \<longrightarrow> Q key (sn_Value item))"
  proof (cases r1)
    case (Some i)
    with run' k1 show ?thesis by simp
  next
    case None
    show ?thesis
    proof (cases "sv_probationary s1 = None")
      case True
      with run' None k1 show ?thesis by simp
    next
      case False
      note run2 = run' [unfolded None option.case if_not_P [OF False]]
      show ?thesis
      proof (cases c)
        case (Some x)
        with run2 have "read_candidate E key s2 = (r, s')" by simp
        from read_candidate_keeps [OF i2 mode this] keeps_trans [OF k2] show ?thesis by blast
      next
        case None
        show ?thesis
        proof (cases "IsHot (sv_tracker s2) key")
          case True
          with run2 None have "getFreshProtected E key s2 = (r, s')" by simp
          from fresh [OF i2 this] keeps_trans [OF k2] show ?thesis by blast
        next
          case False
          with run2 None k2 show ?thesis by simp
        qed
      qed
    qed
  qed
  then show "keeps cfg Q s s'" "r = Some item \<Longrightarrow> Q key (sn_Value item)" by auto
qed

lemma static_match: "static_ok cfg s \<Longrightarrow> sv_policies s = newPolicyMatcher cfg"
  by (simp add: static_ok_def)

lemma read_local_keeps:
  assumes "svc_inv cfg Q [] s" "policy = Match (newPolicyMatcher cfg) key" "read_local E policy key state s = (r, s')"
  shows "keeps cfg Q s s'" "r = Some item \<Longrightarrow> Q key (sn_Value item)"
proof -
  have "keeps cfg Q s s' \<and> (r = Some item \<longrightarrow> Q key (sn_Value item))"
  proof (cases "d_Mode policy = ModeCache")
    case True
    then have "getFreshCachedInState E key state s = (r, s')" using assms(3) by (simp add: read_local_def)
    from getFreshCached_keeps [OF assms(1) _ this] True assms(2) show ?thesis by simp
  next
    case False
    then show ?thesis using assms(1,3) by (auto simp: read_local_def)
  qed
  then show "keeps cfg Q s s'" "r = Some item \<Longrightarrow> Q key (sn_Value item)" by auto
qed

section \<open>Operations\<close>

text \<open>
  \<open>R\<close> is what is known of the world, \<open>P k x\<close> that the upstream's answer for \<open>k\<close> is \<open>x\<close>, \<open>None\<close> being absent.
  Reads keep \<open>R\<close> and answer as \<open>P\<close> says.
\<close>

definition answer :: "upstream_value \<Rightarrow> bytes option" where
  "answer v = (if uv_Exists v then Some (uv_Data v) else None)"

definition reads_ok :: "'w senv \<Rightarrow> ('w \<Rightarrow> bool) \<Rightarrow> (bytes \<Rightarrow> bytes option \<Rightarrow> bool) \<Rightarrow> bool" where
  "reads_ok E R P \<longleftrightarrow>
     (\<forall>k w r w'. R w \<longrightarrow> cl_Get (en_client E) k w = (r, w') \<longrightarrow> R w' \<and> (\<forall>v. r = Inr v \<longrightarrow> P k (answer v))) \<and>
     (\<forall>ks w r w'. R w \<longrightarrow> cl_MGet (en_client E) ks w = (r, w') \<longrightarrow>
        R w' \<and> (\<forall>vs i. r = Some (Inr vs) \<longrightarrow> i < length vs \<longrightarrow> i < length ks \<longrightarrow> P (ks ! i) (answer (vs ! i))))"

definition Q_of :: "(bytes \<Rightarrow> bytes option \<Rightarrow> bool) \<Rightarrow> bytes \<Rightarrow> bytes \<Rightarrow> bool" where
  "Q_of P k v = P k (Some v)"

definition upholds :: "config \<Rightarrow> (bytes \<Rightarrow> bytes option \<Rightarrow> bool) \<Rightarrow> ('w \<Rightarrow> bool) \<Rightarrow> 'w service \<Rightarrow> bool" where
  "upholds cfg P R s \<longleftrightarrow> svc_inv cfg (Q_of P) [] s \<and> R (sv_world s)"

lemma upholds_simps [simp]:
  "upholds cfg P R (on_metrics f s) = upholds cfg P R s" "upholds cfg P R (observeCache s) = upholds cfg P R s"
  "upholds cfg P R (s\<lparr>sv_ticks := n\<rparr>) = upholds cfg P R s" "upholds cfg P R (s\<lparr>sv_gates := g\<rparr>) = upholds cfg P R s"
  "upholds cfg P R (bump i s) = upholds cfg P R s"
  by (simp_all add: upholds_def)

lemma keeps_upholds: "upholds cfg P R s \<Longrightarrow> keeps cfg (Q_of P) s s' \<Longrightarrow> upholds cfg P R s'"
  by (simp add: upholds_def keeps_def)

lemma upholds_static: "upholds cfg P R s \<Longrightarrow> static_ok cfg s"
  by (auto simp: upholds_def intro: svc_static)

lemma cached_answer: "answer (cached_value item) = Some (sn_Value item)"
  by (simp add: answer_def cached_value_def)

lemma fetch_upholds:
  assumes "upholds cfg P R s" "reads_ok E R P" "fetchUpstreamGet E key s = (r, s')"
  shows "upholds cfg P R s'" "r = Inr v \<Longrightarrow> P key (answer v)"
proof -
  obtain w' where w: "cl_Get (en_client E) key (sv_world s) = (r, w')"
    using assms(3) by (auto simp: fetchUpstreamGet_def Now_def Let_def split: prod.splits)
  have g: "R w'" "r = Inr v \<Longrightarrow> P key (answer v)" using assms(1,2) w unfolding reads_ok_def upholds_def by blast+
  then show "upholds cfg P R s'"
    using assms(1,3) w by (auto simp: fetchUpstreamGet_def Now_def Let_def upholds_def)
  show "r = Inr v \<Longrightarrow> P key (answer v)" by (rule g)
qed

lemma reconcile_upholds:
  assumes "upholds cfg P R s" "d_Mode (Match (newPolicyMatcher cfg) key) = ModeCache" "P key (answer v)"
  shows "upholds cfg P R (reconcileLocalIfCurrent E key v epoch policy s)"
proof (rule keeps_upholds [OF assms(1) reconcile_keeps])
  show "svc_inv cfg (Q_of P) [] s" using assms(1) by (simp add: upholds_def)
  show "uv_Exists v \<Longrightarrow> Q_of P key (uv_Data v)" using assms(3) by (simp add: Q_of_def answer_def)
qed (rule assms(2))

lemma flight_upholds:
  assumes "upholds cfg P R s" "reads_ok E R P" "d_Mode (Match (newPolicyMatcher cfg) key) = ModeCache"
    "flight E key epoch policy s = (r, s')"
  shows "upholds cfg P R s'" "r = Inr v \<Longrightarrow> P key (answer v)"
proof -
  obtain r1 s1 where 1: "fetchUpstreamGet E key s = (r1, s1)" by (cases "fetchUpstreamGet E key s")
  note F = fetch_upholds(1) [OF assms(1,2) 1] fetch_upholds(2) [OF assms(1,2) 1]
  have "upholds cfg P R s' \<and> (r = Inr v \<longrightarrow> P key (answer v))"
    using F reconcile_upholds [OF F(1) assms(3)] assms(4) 1 by (cases r1) (auto simp: flight_def)
  then show "upholds cfg P R s'" "r = Inr v \<Longrightarrow> P key (answer v)" by auto
qed

end
