(* ===== verification/ServiceRuns.thy ===== *)
theory ServiceRuns
  imports ServiceKeeps
begin

text \<open>
  Every operation of the service preserves the invariant and, where the upstream behaves as a
  key-value store, answers as the upstream would.
\<close>

section \<open>GET\<close>

lemma observe_policy_upholds:
  "upholds cfg P R s \<Longrightarrow> observe_policy E policy key s = (st, s') \<Longrightarrow> upholds cfg P R s'"
  by (rule keeps_upholds [OF _ observe_policy_keeps]) (auto simp: upholds_def)

lemma read_local_upholds:
  assumes "upholds cfg P R s" "policy = Match (newPolicyMatcher cfg) key" "read_local E policy key state s = (r, s')"
  shows "upholds cfg P R s'" "r = Some item \<Longrightarrow> P key (answer (cached_value item))"
proof -
  have inv: "svc_inv cfg (Q_of P) [] s" using assms(1) by (simp add: upholds_def)
  show "upholds cfg P R s'" by (rule keeps_upholds [OF assms(1) read_local_keeps(1) [OF inv assms(2,3)]])
  show "r = Some item \<Longrightarrow> P key (answer (cached_value item))"
    using read_local_keeps(2) [OF inv assms(2,3), of item] by (simp add: cached_answer Q_of_def)
qed

lemma stale_upholds:
  assumes "upholds cfg P R s" "cache_GetStale E key grace s = (r, s')"
  shows "upholds cfg P R s'" "r = Some item \<Longrightarrow> P key (answer (cached_value item))"
proof -
  have inv: "svc_inv cfg (Q_of P) [] s" using assms(1) by (simp add: upholds_def)
  note G = cache_GetStale_eff(1) [OF svc_static [OF inv] assms(2)] cache_GetStale_eff(2) [OF svc_static [OF inv] assms(2)]
  show "upholds cfg P R s'" by (rule keeps_upholds [OF assms(1) shrink_keeps [OF inv G(1)]])
  show "r = Some item \<Longrightarrow> P key (answer (cached_value item))"
    using G(2) [of item] svc_inv_value(1) [OF inv] by (auto simp: cached_answer Q_of_def)
qed

definition joined_ok :: "(bytes \<Rightarrow> bytes option \<Rightarrow> bool) \<Rightarrow> get_env \<Rightarrow> bytes \<Rightarrow> bool" where
  "joined_ok P ge key \<longleftrightarrow> (\<forall>v. ge_joined ge = Some (Inr v) \<longrightarrow> P key (answer v))"

lemma get_shared_upholds:
  assumes up: "upholds cfg P R s" and reads: "reads_ok E R P" and joined: "joined_ok P ge key"
    and mode: "d_Mode (Match (newPolicyMatcher cfg) key) = ModeCache" and run: "get_shared E ge key policy s = (r, s')"
  shows "upholds cfg P R s'" "r = Inr v \<Longrightarrow> P key (answer v)"
proof -
  obtain r1 s1 where 1: "(case ge_joined ge of Some r \<Rightarrow> (r, s) | None \<Rightarrow> flight E key (cacheEpoch key s) policy s) = (r1, s1)"
    by (rule prod.exhaust)
  have u1: "upholds cfg P R s1" "\<And>v. r1 = Inr v \<Longrightarrow> P key (answer v)"
    using 1 up joined flight_upholds(1) [OF up reads mode, of "cacheEpoch key s" policy r1 s1]
      flight_upholds(2) [OF up reads mode, of "cacheEpoch key s" policy r1 s1]
    by (auto simp: joined_ok_def split: option.splits)
  define s2 where "s2 = (if ge_shared ge then on_metrics Coalesced s1 else s1)"
  have u2: "upholds cfg P R s2" using u1(1) by (simp add: s2_def)
  have "upholds cfg P R s' \<and> (r = Inr v \<longrightarrow> P key (answer v))"
  proof (cases "ge_done ge")
    case (Some err)
    then show ?thesis using run 1 u1 by (auto simp: get_shared_def Let_def)
  next
    case None
    note run' = run [unfolded get_shared_def Let_def 1 None option.case prod.case s2_def [symmetric]]
    show ?thesis
    proof (cases r1)
      case (Inr x)
      then show ?thesis using run' u1 u2 by auto
    next
      case (Inl err)
      obtain i s3 where 3: "(if cc_AllowStaleOnUpstreamError (cf_Cache (sv_cfg s2))
          then cache_GetStale E key (cc_StaleGrace (cf_Cache (sv_cfg s2))) s2 else (None, s2)) = (i, s3)"
        by (rule prod.exhaust)
      then have "upholds cfg P R s3" "\<And>item. i = Some item \<Longrightarrow> P key (answer (cached_value item))"
        using u2 stale_upholds [OF u2] by (auto split: if_splits)
      then show ?thesis using run' Inl 3 by (auto split: option.splits)
    qed
  qed
  then show "upholds cfg P R s'" "r = Inr v \<Longrightarrow> P key (answer v)" by auto
qed

lemma Get_cases:
  assumes "Get_service E ge key s = (r, s')" "static_ok cfg s"
  obtains (rejected) e where "r = Inl e" "s' = s"
  | (hit) st s1 item s2 where "key \<noteq> []" "observe_policy E (Match (newPolicyMatcher cfg) key) key s = (st, s1)"
      "read_local E (Match (newPolicyMatcher cfg) key) key st s1 = (Some item, s2)"
      "r = Inr (cached_value item)" "s' = on_metrics (CacheHit (en_unicode E) ''GET'') s2"
  | (bypass) st s1 s2 s3 where "key \<noteq> []" "observe_policy E (Match (newPolicyMatcher cfg) key) key s = (st, s1)"
      "read_local E (Match (newPolicyMatcher cfg) key) key st s1 = (None, s2)"
      "d_Mode (Match (newPolicyMatcher cfg) key) \<noteq> ModeCache"
      "fetchUpstreamGet E key (on_metrics (CacheMissWithReason (en_unicode E) ''GET'' (cacheMissReason (Match (newPolicyMatcher cfg) key) st)) s2) = (r, s3)"
      "s' = observeCache s3"
  | (shared) st s1 s2 where "key \<noteq> []" "observe_policy E (Match (newPolicyMatcher cfg) key) key s = (st, s1)"
      "read_local E (Match (newPolicyMatcher cfg) key) key st s1 = (None, s2)"
      "d_Mode (Match (newPolicyMatcher cfg) key) = ModeCache"
      "get_shared E ge key (Match (newPolicyMatcher cfg) key)
        (on_metrics (CacheMissWithReason (en_unicode E) ''GET'' (cacheMissReason (Match (newPolicyMatcher cfg) key) st)) s2) = (r, s')"
proof (cases "key = [] \<or> ge_ctxErr ge \<noteq> None")
  case True
  then have "(r, s') = (if key = [] then Inl (OtherError ''key is required'') else Inl (the (ge_ctxErr ge)), s)"
    using assms(1) by (auto simp: Get_service_def)
  then show ?thesis using rejected by (auto split: if_splits)
next
  case False
  let ?p = "Match (newPolicyMatcher cfg) key"
  obtain st s1 where 1: "observe_policy E ?p key s = (st, s1)" by (rule prod.exhaust)
  obtain i s2 where 2: "read_local E ?p key st s1 = (i, s2)" by (rule prod.exhaust)
  have run: "(case i of Some item \<Rightarrow> (Inr (cached_value item), on_metrics (CacheHit (en_unicode E) ''GET'') s2)
      | None \<Rightarrow>
          let s = on_metrics (CacheMissWithReason (en_unicode E) ''GET'' (cacheMissReason ?p st)) s2
          in if d_Mode ?p \<noteq> ModeCache then let (r, s) = fetchUpstreamGet E key s in (r, observeCache s)
             else get_shared E ge key ?p s) = (r, s')"
    using assms(1) False 1 2 static_match [OF assms(2)]
    by (simp add: Get_service_def Let_def)
  show ?thesis
  proof (cases i)
    case (Some item)
    with run hit [OF _ 1] 2 False show ?thesis by simp
  next
    case None
    show ?thesis
    proof (cases "d_Mode ?p = ModeCache")
      case True
      with run None shared [OF _ 1] 2 False show ?thesis by simp
    next
      case no: False
      obtain r3 s3 where "fetchUpstreamGet E key
          (on_metrics (CacheMissWithReason (en_unicode E) ''GET'' (cacheMissReason ?p st)) s2) = (r3, s3)"
        by (rule prod.exhaust)
      with run None no bypass [OF _ 1] 2 False show ?thesis by simp
    qed
  qed
qed

lemma Get_upholds:
  assumes up: "upholds cfg P R s" and reads: "reads_ok E R P" and joined: "joined_ok P ge key"
    and run: "Get_service E ge key s = (r, s')"
  shows "upholds cfg P R s'" "r = Inr v \<Longrightarrow> P key (answer v)"
proof -
  have "upholds cfg P R s' \<and> (r = Inr v \<longrightarrow> P key (answer v))"
    using run upholds_static [OF up]
  proof (cases rule: Get_cases)
    case rejected
    then show ?thesis using up by simp
  next
    case (hit st s1 item s2)
    have u1: "upholds cfg P R s1" using observe_policy_upholds [OF up hit(2)] .
    show ?thesis using read_local_upholds [OF u1 refl hit(3)] hit(4,5) by auto
  next
    case (bypass st s1 s2 s3)
    have u1: "upholds cfg P R s1" using observe_policy_upholds [OF up bypass(2)] .
    have u2: "upholds cfg P R (on_metrics (CacheMissWithReason (en_unicode E) ''GET''
        (cacheMissReason (Match (newPolicyMatcher cfg) key) st)) s2)"
      using read_local_upholds(1) [OF u1 refl bypass(3)] by simp
    show ?thesis using fetch_upholds [OF u2 reads bypass(5)] bypass(6) by auto
  next
    case (shared st s1 s2)
    have u1: "upholds cfg P R s1" using observe_policy_upholds [OF up shared(2)] .
    have u2: "upholds cfg P R (on_metrics (CacheMissWithReason (en_unicode E) ''GET''
        (cacheMissReason (Match (newPolicyMatcher cfg) key) st)) s2)"
      using read_local_upholds(1) [OF u1 refl shared(3)] by simp
    show ?thesis using get_shared_upholds [OF u2 reads joined shared(4,5)] by auto
  qed
  then show "upholds cfg P R s'" "r = Inr v \<Longrightarrow> P key (answer v)" by auto
qed

section \<open>MGET\<close>

text \<open>The answer at position \<open>j\<close> is right for the key there.\<close>

definition right_at :: "(bytes \<Rightarrow> bytes option \<Rightarrow> bool) \<Rightarrow> bytes list \<Rightarrow> upstream_value list \<Rightarrow> nat \<Rightarrow> bool" where
  "right_at P keys out j \<longleftrightarrow> length out = length keys \<and> P (keys ! j) (answer (out ! j))"

definition read_ok :: "config \<Rightarrow> bytes list \<Rightarrow> missing_read \<Rightarrow> bool" where
  "read_ok cfg keys r \<longleftrightarrow>
     mr_position r < length keys \<and> mr_key r = keys ! mr_position r \<and> mr_policy r = Match (newPolicyMatcher cfg) (mr_key r)"

definition scan_ok ::
  "config \<Rightarrow> (bytes \<Rightarrow> bytes option \<Rightarrow> bool) \<Rightarrow> ('w \<Rightarrow> bool) \<Rightarrow> bytes list \<Rightarrow> nat \<Rightarrow>
     upstream_value list \<times> missing_read list \<times> 'w service \<Rightarrow> bool"
where
  "scan_ok cfg P R keys i = (\<lambda>(out, missing, s).
     upholds cfg P R s \<and> length out = length keys \<and> list_all (read_ok cfg keys) missing \<and>
     (\<forall>j < i. right_at P keys out j \<or> j \<in> mr_position ` set missing))"

lemma right_at_update:
  "right_at P keys out j \<Longrightarrow> P (keys ! i) (answer v) \<Longrightarrow> right_at P keys (out[i := v]) j"
  by (cases "i = j"; cases "j < length out") (auto simp: right_at_def list_update_beyond)

lemma right_at_new: "length out = length keys \<Longrightarrow> i < length keys \<Longrightarrow> P (keys ! i) (answer v) \<Longrightarrow> right_at P keys (out[i := v]) i"
  by (simp add: right_at_def)

lemma mget_local_ok:
  assumes ok: "scan_ok cfg P R keys i (out, missing, s)" and i: "i < length keys"
  shows "scan_ok cfg P R keys (Suc i) (mget_local E i (keys ! i) (out, missing, s))"
proof -
  let ?k = "keys ! i" and ?p = "Match (newPolicyMatcher cfg) (keys ! i)"
  from ok have up: "upholds cfg P R s" and len: "length out = length keys" and ms: "list_all (read_ok cfg keys) missing"
    and past: "\<And>j. j < i \<Longrightarrow> right_at P keys out j \<or> j \<in> mr_position ` set missing"
    by (auto simp: scan_ok_def)
  obtain st s1 where 1: "observe_policy E ?p ?k s = (st, s1)" by (rule prod.exhaust)
  have u1: "upholds cfg P R s1" using observe_policy_upholds [OF up 1] .
  obtain it s2 where 2: "read_local E ?p ?k st s1 = (it, s2)" by (rule prod.exhaust)
  note L = read_local_upholds(1) [OF u1 refl 2] read_local_upholds(2) [OF u1 refl 2]
  note pol = static_match [OF upholds_static [OF up]]
  show ?thesis
  proof (cases it)
    case (Some item)
    have "right_at P keys (out[i := cached_value item]) j \<or> j \<in> mr_position ` set missing" if "j < Suc i" for j
    proof (cases "j = i")
      case True
      then show ?thesis using right_at_new [OF len i] L(2) Some by blast
    next
      case False
      then show ?thesis using past [of j] that right_at_update [of P keys out j i] L(2) Some by auto
    qed
    then show ?thesis using Some 1 2 pol L(1) len ms by (simp add: mget_local_def scan_ok_def Let_def)
  next
    case None
    define e where "e = (if d_Mode ?p = ModeCache then cacheEpoch ?k (on_metrics (CacheMissWithReason (en_unicode E) ''MGET'' (cacheMissReason ?p st)) s2) else 0)"
    have "right_at P keys out j \<or> j \<in> mr_position ` set (missing @ [\<lparr>mr_key = ?k, mr_position = i, mr_epoch = e, mr_policy = ?p\<rparr>])"
      if "j < Suc i" for j
      using past [of j] that by (auto simp: less_Suc_eq)
    then show ?thesis using None 1 2 pol L(1) len ms i
      by (simp add: mget_local_def scan_ok_def Let_def read_ok_def e_def)
  qed
qed

lemma mget_scan_ok:
  "scan_ok cfg P R keys i st \<Longrightarrow> i + length ks = length keys \<Longrightarrow> drop i keys = ks \<Longrightarrow>
    scan_ok cfg P R keys (length keys) (mget_scan E i ks st)"
proof (induction ks arbitrary: i st)
  case (Cons k ks)
  then have "i < length keys" "keys ! i = k" "drop (Suc i) keys = ks"
    by (auto simp: nth_via_drop drop_Suc tl_drop [symmetric])
  with Cons mget_local_ok [of cfg P R keys i "fst st" "fst (snd st)" "snd (snd st)" E] show ?case by simp
qed simp

lemma mget_stale_ok:
  assumes "mget_stale E reads (out, c, s) = (out', c', s')" "upholds cfg P R s" "length out = length keys"
    "list_all (read_ok cfg keys) reads"
  shows "upholds cfg P R s' \<and> length out' = length keys \<and> c' \<le> c + length reads \<and>
    (\<forall>j. right_at P keys out j \<longrightarrow> right_at P keys out' j) \<and>
    (c' = c + length reads \<longrightarrow> (\<forall>r \<in> set reads. right_at P keys out' (mr_position r)))"
  using assms
proof (induction reads arbitrary: out c s)
  case (Cons r reads)
  show ?case
  proof (cases "d_Mode (mr_policy r) = ModeCache")
    case False
    then have "mget_stale E reads (out, c, s) = (out', c', s')" using Cons.prems(1) by simp
    from Cons.IH [OF this Cons.prems(2,3)] Cons.prems(4) show ?thesis by auto
  next
    case True
    obtain it s1 where 1: "cache_GetStale E (mr_key r) (cc_StaleGrace (cf_Cache (sv_cfg s))) s = (it, s1)" by (rule prod.exhaust)
    note S = stale_upholds(1) [OF Cons.prems(2) 1] stale_upholds(2) [OF Cons.prems(2) 1]
    have r: "mr_position r < length keys" "mr_key r = keys ! mr_position r"
      using Cons.prems(4) by (auto simp: read_ok_def)
    show ?thesis
    proof (cases it)
      case None
      then have "mget_stale E reads (out, c, s1) = (out', c', s')" using Cons.prems(1) True 1 by simp
      from Cons.IH [OF this S(1) Cons.prems(3)] Cons.prems(4) show ?thesis by auto
    next
      case (Some item)
      let ?out = "out[mr_position r := cached_value item]"
      have a: "P (keys ! mr_position r) (answer (cached_value item))" using S(2) Some r(2) by simp
      have "mget_stale E reads (?out, Suc c, s1) = (out', c', s')"
        using Cons.prems(1) True 1 Some by simp
      from Cons.IH [OF this S(1)] Cons.prems(3,4)
      have IH: "upholds cfg P R s'" "length out' = length keys" "c' \<le> Suc c + length reads"
        "\<And>j. right_at P keys ?out j \<Longrightarrow> right_at P keys out' j"
        "c' = Suc c + length reads \<Longrightarrow> \<forall>r \<in> set reads. right_at P keys out' (mr_position r)"
        by auto
      then show ?thesis using right_at_update [of P keys out _ "mr_position r" "cached_value item"]
          right_at_new [of out keys "mr_position r" P "cached_value item"] Cons.prems(3) r(1) a by auto
    qed
  qed
qed simp

lemma mget_fill_ok:
  assumes "mget_fill E vs reads (out, s) = Some (out', s')" "upholds cfg P R s" "length out = length keys"
    "list_all (read_ok cfg keys) reads" "\<And>i. i < length vs \<Longrightarrow> i < length reads \<Longrightarrow> P (mr_key (reads ! i)) (answer (vs ! i))"
  shows "upholds cfg P R s' \<and> length out' = length keys \<and>
    (\<forall>j. right_at P keys out j \<longrightarrow> right_at P keys out' j) \<and>
    (length vs = length reads \<longrightarrow> (\<forall>r \<in> set reads. right_at P keys out' (mr_position r)))"
  using assms
proof (induction vs arbitrary: reads out s)
  case Nil
  then show ?case by auto
next
  case (Cons v vs)
  then obtain r rs where reads: "reads = r # rs" by (cases reads) auto
  have r: "mr_position r < length keys" "mr_key r = keys ! mr_position r" "mr_policy r = Match (newPolicyMatcher cfg) (mr_key r)"
    using Cons.prems(4) reads by (auto simp: read_ok_def)
  have a: "P (mr_key r) (answer v)" using Cons.prems(5) [of 0] reads by simp
  let ?out = "out[mr_position r := v]"
  define s1 where "s1 = (if d_Mode (mr_policy r) = ModeCache
    then reconcileLocalIfCurrent E (mr_key r) v (mr_epoch r) (mr_policy r) s else s)"
  have u1: "upholds cfg P R s1" using reconcile_upholds [OF Cons.prems(2) _ a] Cons.prems(2) r(3) by (simp add: s1_def)
  have f: "mget_fill E vs rs (?out, s1) = Some (out', s')" using Cons.prems(1) reads by (simp add: s1_def)
  have P: "P (mr_key (rs ! i)) (answer (vs ! i))" if "i < length vs" "i < length rs" for i
    using Cons.prems(5) [of "Suc i"] that reads by simp
  from Cons.IH [OF f u1 _ _ P] Cons.prems(3,4) reads
  have IH: "upholds cfg P R s'" "length out' = length keys"
    "\<And>j. right_at P keys ?out j \<Longrightarrow> right_at P keys out' j"
    "length vs = length rs \<Longrightarrow> \<forall>r \<in> set rs. right_at P keys out' (mr_position r)" by auto
  then show ?case
    using right_at_update [of P keys out _ "mr_position r" v] right_at_new [OF Cons.prems(3) r(1), of P v] a r(2) reads by auto
qed

text \<open>The client answers each key of an MGET.\<close>

definition mget_exact :: "'w senv \<Rightarrow> ('w \<Rightarrow> bool) \<Rightarrow> bool" where
  "mget_exact E R \<longleftrightarrow>
     (\<forall>ks w vs w'. R w \<longrightarrow> cl_MGet (en_client E) ks w = (Some (Inr vs), w') \<longrightarrow> length vs = length ks)"

lemma MGet_upholds:
  assumes up: "upholds cfg P R s" and reads: "reads_ok E R P" and run: "MGet E keys s = Some (r, s')"
  shows "upholds cfg P R s'"
    "mget_exact E R \<Longrightarrow> r = Inr vs \<Longrightarrow> length vs = length keys \<and> (\<forall>j < length keys. P (keys ! j) (answer (vs ! j)))"
proof -
  have "upholds cfg P R s' \<and> (mget_exact E R \<longrightarrow> r = Inr vs \<longrightarrow>
      length vs = length keys \<and> (\<forall>j < length keys. right_at P keys vs j))"
  proof (cases "keys = []")
    case True
    then show ?thesis using run up by (auto simp: MGet_def)
  next
    case False
    obtain out missing s1 where 1: "mget_scan E 0 keys (replicate (length keys) no_value, [], s) = (out, missing, s1)"
      by (rule prod_cases3)
    have "scan_ok cfg P R keys (length keys) (out, missing, s1)"
      unfolding 1 [symmetric] by (rule mget_scan_ok) (auto simp: scan_ok_def up)
    then have u1: "upholds cfg P R s1" and len: "length out = length keys" and ms: "list_all (read_ok cfg keys) missing"
      and cover: "\<And>j. j < length keys \<Longrightarrow> right_at P keys out j \<or> j \<in> mr_position ` set missing"
      by (auto simp: scan_ok_def)
    show ?thesis
    proof (cases "missing = []")
      case True
      then show ?thesis using run False 1 u1 len cover by (auto simp: MGet_def Let_def)
    next
      case m: False
      obtain q w where q: "cl_MGet (en_client E) (map mr_key missing) (sv_world s1) = (q, w)" by (rule prod.exhaust)
      define s2 where "s2 = s1\<lparr>sv_world := w, sv_ticks := Suc (Suc (sv_ticks s1))\<rparr>"
      have "R w" and ans: "\<And>vs i. q = Some (Inr vs) \<Longrightarrow> i < length vs \<Longrightarrow> i < length missing \<Longrightarrow> P (mr_key (missing ! i)) (answer (vs ! i))"
        using reads u1 q unfolding reads_ok_def upholds_def by (metis, metis length_map nth_map)
      then have u2: "upholds cfg P R (on_metrics f s2)" for f using u1 by (simp add: upholds_def s2_def)
      obtain r0 where r0: "q = Some r0" using run False 1 m q by (cases q) (auto simp: MGet_def Let_def Now_def)
      define f where "f = ObserveUpstream (en_unicode E) ''MGET''
        (time_sub (en_clock E (Suc (sv_ticks s1))) (en_clock E (sv_ticks s1))) (failed r0)"
      define s3 where "s3 = on_metrics f s2"
      have u3: "upholds cfg P R s3" using u2 by (simp add: s3_def)
      have run': "(case r0 of
            Inl err \<Rightarrow>
              if cc_AllowStaleOnUpstreamError (cf_Cache (sv_cfg s3)) then
                let (out, staleCount, s) = mget_stale E missing (out, 0, s3)
                in if staleCount = length missing then Some (Inr out, s) else Some (Inl err, s)
              else Some (Inl err, s3)
          | Inr values \<Rightarrow>
              (case mget_fill E values missing (out, s3) of
                 None \<Rightarrow> None | Some (out, s) \<Rightarrow> Some (Inr out, observeCache s))) = Some (r, s')"
        using run False 1 m q r0 unfolding s3_def s2_def f_def by (simp add: MGet_def Let_def Now_def)
      show ?thesis
      proof (cases r0)
        case (Inr vals)
        then obtain out' s4 where fill: "mget_fill E vals missing (out, s3) = Some (out', s4)"
          and res: "r = Inr out'" "s' = observeCache s4"
          using run' by (auto split: option.splits)
        have "mget_exact E R \<Longrightarrow> length vals = length missing"
          using q r0 Inr u1 unfolding mget_exact_def upholds_def by (metis length_map)
        with mget_fill_ok [OF fill u3 len ms ans] r0 Inr res cover show ?thesis by auto
      next
        case (Inl err)
        obtain out' c s4 where st: "mget_stale E missing (out, 0, s3) = (out', c, s4)" by (rule prod_cases3)
        note S = mget_stale_ok [OF st u3 len ms]
        show ?thesis
        proof (cases "cc_AllowStaleOnUpstreamError (cf_Cache (sv_cfg s3))")
          case True
          then show ?thesis using run' Inl st S cover by (auto split: if_splits)
        next
          case False
          then show ?thesis using run' Inl u3 by auto
        qed
      qed
    qed
  qed
  then show "upholds cfg P R s'"
    "mget_exact E R \<Longrightarrow> r = Inr vs \<Longrightarrow> length vs = length keys \<and> (\<forall>j < length keys. P (keys ! j) (answer (vs ! j)))"
    by (auto simp: right_at_def)
qed

section \<open>Writes\<close>

lemma bump_sel [simp]:
  "sv_policies (bump i s) = sv_policies s" "sv_ticks (bump i s) = sv_ticks s" "sv_cache (bump i s) = sv_cache s"
  "sv_probationary (bump i s) = sv_probationary s"
  by (simp_all add: bump_def)

lemma map_le_None: "m' \<subseteq>\<^sub>m m \<Longrightarrow> m k = None \<Longrightarrow> m' k = None"
  by (cases "m' k") (force simp: map_le_def)+

lemma invalidate_fold:
  "fold invalidate_key keys (adv, n, s) = (adv', n', s') \<Longrightarrow> static_ok cfg s \<Longrightarrow>
    shrink cfg s s' \<and> (\<forall>k \<in> set keys. protected s' k = None \<and> probation s' k = None)"
proof (induction keys arbitrary: adv n s)
  case (Cons key keys)
  let ?i = "cacheEpochStripe key"
  define s0 where "s0 = (if ?i \<notin> set adv then bump ?i s else s)"
  have st0: "static_ok cfg s0" "shrink cfg s s0" using Cons.prems(2) by (auto simp: s0_def)
  obtain b1 s1 where 1: "cache_Delete key s0 = (b1, s1)" by (rule prod.exhaust)
  note E1 = cache_Delete_eff [OF st0(1) 1]
  obtain b2 s2 where 2: "probationary_Delete key s1 = (b2, s2)" by (rule prod.exhaust)
  note E2 = probationary_Delete_eff [OF shrink_static [OF E1(1)] 2]
  have "invalidate_key key (adv, n, s) =
      (if ?i \<notin> set adv then ?i # adv else adv, if b1 \<or> b2 then Suc n else n, s2)"
    using 1 2 by (cases "?i \<in> set adv") (simp_all add: invalidate_key_def Let_def s0_def)
  then have "fold invalidate_key keys
      (if ?i \<notin> set adv then ?i # adv else adv, if b1 \<or> b2 then Suc n else n, s2) = (adv', n', s')"
    using Cons.prems(1) by (simp only: fold_simps)
  from Cons.IH [OF this shrink_static [OF E2(1)]]
  have IH: "shrink cfg s2 s'" "\<forall>k \<in> set keys. protected s' k = None \<and> probation s' k = None" by auto
  have "protected s2 key = None" "probation s2 key = None" using E1 E2 by simp_all
  then have "protected s' key = None" "probation s' key = None"
    using IH(1) map_le_None [of "protected s'" "protected s2" key] map_le_None [of "probation s'" "probation s2" key]
    by (simp_all add: shrink_def)
  then show ?case using IH shrink_trans [OF st0(2) shrink_trans [OF E1(1) shrink_trans [OF E2(1) IH(1)]]] by simp
qed simp

lemma invalidate_eff:
  assumes "static_ok cfg s" "invalidateCacheKeys keys s = (n, s')"
  shows "shrink cfg s s'" "\<And>k. k \<in> set keys \<Longrightarrow> protected s' k = None \<and> probation s' k = None"
proof -
  obtain adv' n' u where "fold invalidate_key keys ([], 0, s) = (adv', n', u)" by (rule prod_cases3)
  with invalidate_fold [OF this assms(1)] assms(2)
  show "shrink cfg s s'" "\<And>k. k \<in> set keys \<Longrightarrow> protected s' k = None \<and> probation s' k = None"
    by (auto simp: invalidateCacheKeys_def)
qed

lemma invalidate_upholds:
  "upholds cfg P R s \<Longrightarrow> invalidateCacheKeys keys s = (n, s') \<Longrightarrow> upholds cfg P R s'"
  using invalidate_eff(1) shrink_keeps keeps_upholds by (metis upholds_def upholds_static)

text \<open>What is known of a key that is in neither tier may change freely.\<close>

lemma svc_inv_change:
  assumes "svc_inv cfg Q trs s" "\<And>k v e. protected s k = Some (v, e) \<or> probation s k = Some (v, e) \<Longrightarrow> Q k v \<Longrightarrow> Q' k v"
  shows "svc_inv cfg Q' trs s"
  using assms unfolding svc_inv_def by blast

lemma writeThrough_upholds:
  assumes up: "upholds cfg P R s" and val: "P key (Some v)" and run: "writeThroughSet E key v s = (n, s')"
  shows "upholds cfg P R s'"
proof -
  let ?p = "Match (newPolicyMatcher cfg) key"
  define s1 where "s1 = (bump (cacheEpochStripe key) s)\<lparr>sv_ticks := Suc (sv_ticks s)\<rparr>"
  have i1: "svc_inv cfg (Q_of P) [] s1" "R (sv_world s1)" "sv_policies s1 = newPolicyMatcher cfg"
    using up static_match [OF upholds_static [OF up]] by (auto simp: upholds_def s1_def)
  obtain pr s2 where 2: "drop_probationary E key s1 = (pr, s2)" by (rule prod.exhaust)
  have "shrink cfg s1 s2 \<and> probation s2 key = None"
  proof (cases "sv_probationary s1")
    case None
    then show ?thesis using 2 svc_static [OF i1(1)] by (auto simp: probation_def drop_probationary_def)
  next
    case (Some p)
    obtain b u where u: "probationary_Delete key (s1\<lparr>sv_ticks := Suc (sv_ticks s1)\<rparr>) = (b, u)" by (rule prod.exhaust)
    have "static_ok cfg (s1\<lparr>sv_ticks := Suc (sv_ticks s1)\<rparr>)" using svc_static [OF i1(1)] by simp
    note D = probationary_Delete_eff(1,2) [OF this u]
    have "s2 = u" using 2 Some u by (simp add: Now_def Let_def drop_probationary_def)
    then show ?thesis using D by (simp add: shrink_def)
  qed
  then have sh: "shrink cfg s1 s2" "probation s2 key = None" by auto
  have i2: "svc_inv cfg (Q_of P) [] s2" "sv_world s2 = sv_world s1"
    using svc_inv_shrink [OF i1(1) sh(1)] sh(1) by (auto simp: shrink_def)
  show ?thesis
  proof (cases "d_Mode ?p = ModeCache \<and> IsHot (sv_tracker s2) key")
    case True
    let ?v = "\<lparr>uv_Data = v, uv_Exists = True, uv_PTTL = - 1\<rparr>"
    obtain b s3 where 3: "storeLocal E key ?v ?p s2 = (b, s3)" by (rule prod.exhaust)
    have "Q_of P key (uv_Data ?v)" using val by (simp add: Q_of_def)
    from storeLocal_inv [OF i2(1) _ _ sh(2) this 3] True
    have "svc_inv cfg (Q_of P) [] s3" "sv_world s3 = sv_world s2" by auto
    moreover have "s' = s3"
      using run 2 3 True i1(3) static_match [OF upholds_static [OF up]]
      unfolding s1_def by (simp add: writeThroughSet_def Let_def Now_def)
    ultimately show ?thesis using i1(2) i2(2) by (simp add: upholds_def)
  next
    case False
    obtain b s3 where 3: "cache_Delete key s2 = (b, s3)" by (rule prod.exhaust)
    have "shrink cfg s2 s3" using cache_Delete_eff(1) [OF svc_static [OF i2(1)] 3] .
    then have "svc_inv cfg (Q_of P) [] s3" "sv_world s3 = sv_world s2"
      using svc_inv_shrink [OF i2(1)] by (auto simp: shrink_def)
    moreover have "s' = s3"
      using run 2 3 False i1(3) static_match [OF upholds_static [OF up]]
      unfolding s1_def by (simp add: writeThroughSet_def Let_def Now_def)
    ultimately show ?thesis using i1(2) i2(2) by (simp add: upholds_def)
  qed
qed

definition set_acknowledged :: "unicode \<Rightarrow> bytes \<Rightarrow> bytes list \<Rightarrow> bytes list \<Rightarrow> go_error + reply \<Rightarrow> bytes \<Rightarrow> bytes \<Rightarrow> bool" where
  "set_acknowledged u command args keys r key v \<longleftrightarrow>
     args = [key, v] \<and> keys = [key] \<and> EqualFold u command ''SET'' \<and>
     (\<exists>st. r = Inr (ReplyString st) \<and> EqualFold u st ''OK'')"

lemma finalize_cases:
  obtains (set) key v where "set_acknowledged (en_unicode E) command args keys r key v"
      "finalizeWrite E command args keys r s = writeThroughSet E key v s"
  | (other) "finalizeWrite E command args keys r s = invalidateCacheKeys keys s"
proof (cases "\<exists>key v. set_acknowledged (en_unicode E) command args keys r key v")
  case True
  then obtain key v where "set_acknowledged (en_unicode E) command args keys r key v" by blast
  moreover from this have "finalizeWrite E command args keys r s = writeThroughSet E key v s"
    by (auto simp: set_acknowledged_def finalizeWrite_def)
  ultimately show ?thesis by (rule set)
next
  case False
  then have "finalizeWrite E command args keys r s = invalidateCacheKeys keys s"
    by (auto simp: set_acknowledged_def finalizeWrite_def split: sum.splits reply.splits list.splits)
  then show ?thesis by (rule other)
qed

lemma metrics_iter:
  "upholds cfg P R ((on_metrics f ^^ n) s) = upholds cfg P R s" "sv_world ((on_metrics f ^^ n) s) = sv_world s"
  by (induction n) simp_all

lemma ExecuteWrite_upholds:
  assumes up: "upholds cfg P R s"
    and "do": "cl_Do (en_client E) (command # args) (sv_world s) = (r, w)" "R' w"
    and frame: "\<And>k x. k \<notin> set keys \<Longrightarrow> P k x \<Longrightarrow> P' k x"
    and set: "\<And>key v. set_acknowledged (en_unicode E) command args keys r key v \<Longrightarrow> P' key (Some v)"
    and run: "ExecuteWrite E sel command args keys s = (res, s')"
  shows "(\<exists>e. res = Inl e \<and> upholds cfg P R s' \<and> sv_world s' = sv_world s) \<or>
    (res = r \<and> upholds cfg P' R' s' \<and> sv_world s' = w)"
proof -
  obtain a s1 where 1: "acquireMutationStripes sel keys s = (a, s1)" by (rule prod.exhaust)
  have u1: "upholds cfg P R s1" "sv_world s1 = sv_world s"
    using 1 up by (auto simp: acquireMutationStripes_def upholds_def split: prod.splits)
  show ?thesis
  proof (cases a)
    case (Inl e)
    then show ?thesis using run 1 u1 by (auto simp: ExecuteWrite_def)
  next
    case (Inr stripes)
    obtain n s2 where 2: "invalidateCacheKeys keys s1 = (n, s2)" by (rule prod.exhaust)
    note I = invalidate_eff [OF upholds_static [OF u1(1)] 2]
    have w2: "sv_world s2 = sv_world s" using I(1) u1(2) by (simp add: shrink_def)
    obtain r3 s3 where 3: "upstream_Do E command args s2 = (r3, s3)" by (rule prod.exhaust)
    have r3: "r3 = r" "sv_world s3 = w"
      using 3 "do"(1) w2 by (auto simp: upstream_Do_def Now_def Let_def split: prod.splits)
    have "svc_inv cfg (Q_of P') [] s2"
    proof (rule svc_inv_change)
      show "svc_inv cfg (Q_of P) [] s2" using invalidate_upholds [OF u1(1) 2] by (simp add: upholds_def)
    qed (use I(2) frame in \<open>fastforce simp: Q_of_def\<close>)
    moreover have "svc_inv cfg (Q_of P') [] s3 = svc_inv cfg (Q_of P') [] s2"
      using 3 by (auto simp: upstream_Do_def Now_def Let_def split: prod.splits)
    ultimately have u3: "upholds cfg P' R' s3" using "do"(2) r3 by (simp add: upholds_def)
    obtain n' s4 where 4: "finalizeWrite E command args keys r s3 = (n', s4)" by (rule prod.exhaust)
    have "upholds cfg P' R' s4 \<and> sv_world s4 = w"
    proof (cases rule: finalize_cases [of E command args keys r s3])
      case (set key v)
      have "upholds cfg P' (\<lambda>x. R' x \<and> x = w) s3" using u3 r3 by (simp add: upholds_def)
      moreover have "writeThroughSet E key v s3 = (n', s4)" using set(2) 4 by simp
      ultimately have "upholds cfg P' (\<lambda>x. R' x \<and> x = w) s4" using writeThrough_upholds [of cfg P' _ s3 key v E n' s4] assms(5) [OF set(1)] by blast
      then show ?thesis by (auto simp: upholds_def)
    next
      case other
      have "upholds cfg P' (\<lambda>x. R' x \<and> x = w) s3" using u3 r3 by (simp add: upholds_def)
      moreover have "invalidateCacheKeys keys s3 = (n', s4)" using other 4 by simp
      ultimately have "upholds cfg P' (\<lambda>x. R' x \<and> x = w) s4" by (rule invalidate_upholds)
      then show ?thesis by (auto simp: upholds_def)
    qed
    moreover have "res = r" "s' = releaseMutationStripes stripes (observeCache ((on_metrics (Invalidation ''write'') ^^ (n + n')) s4))"
      using run 1 2 3 4 Inr r3 by (simp_all add: ExecuteWrite_def Let_def)
    ultimately show ?thesis by (simp add: releaseMutationStripes_def metrics_iter)
  qed
qed

end
