(* ===== verification/ServiceEval.thy ===== *)
theory ServiceEval
  imports ServiceOps
begin

text \<open>
  Code equations for the operations of the service with nested bindings: each step is a function of the
  result of the one before, so that symbolic evaluation computes that result first.
\<close>

definition get_upstream where
  "get_upstream E ge key policy s =
     (if d_Mode policy \<noteq> ModeCache then let (r, s) = fetchUpstreamGet E key s in (r, observeCache s)
      else get_shared E ge key policy s)"

fun get_local where
  "get_local E ge key policy state (Some item, s) = (Inr (cached_value item), on_metrics (CacheHit (en_unicode E) ''GET'') s)"
| "get_local E ge key policy state (None, s) =
     get_upstream E ge key policy (on_metrics (CacheMissWithReason (en_unicode E) ''GET'' (cacheMissReason policy state)) s)"

fun get_observed where
  "get_observed E ge key policy (state, s) = get_local E ge key policy state (read_local E policy key state s)"

lemma Get_service_code [code]:
  "Get_service E ge key s =
     (if key = [] then (Inl (OtherError ''key is required''), s)
      else case ge_ctxErr ge of
        Some err \<Rightarrow> (Inl err, s)
      | None \<Rightarrow> get_observed E ge key (Match (sv_policies s) key) (observe_policy E (Match (sv_policies s) key) key s))"
  by (auto simp: Get_service_def get_upstream_def Let_def split: prod.splits option.splits)

fun write_done where
  "write_done stripes n r (n', s) =
     (r, releaseMutationStripes stripes (observeCache ((on_metrics (Invalidation ''write'') ^^ (n + n')) s)))"

fun write_sent where
  "write_sent E command args keys stripes n (r, s) = write_done stripes n r (finalizeWrite E command args keys r s)"

fun write_invalidated where
  "write_invalidated E command args keys stripes (n, s) =
     write_sent E command args keys stripes n (upstream_Do E command args s)"

fun write_acquired where
  "write_acquired E command args keys (Inl err, s) = (Inl err, s)"
| "write_acquired E command args keys (Inr stripes, s) =
     write_invalidated E command args keys stripes (invalidateCacheKeys keys s)"

lemma ExecuteWrite_code [code]:
  "ExecuteWrite E sel command args keys s = write_acquired E command args keys (acquireMutationStripes sel keys s)"
  by (auto simp: ExecuteWrite_def Let_def split: prod.splits sum.splits)

definition pc_end where
  "pc_end key ob promoting candidate stored s =
  (if stored then Some candidate else None, observeCache (handleObservation ob
     (if promoting then s\<lparr>sv_promoting := (sv_promoting s)[cacheEpochStripe key := False]\<rparr> else s)))"

fun pc_stored where
  "pc_stored key ob candidate s (b, c) = pc_end key ob True candidate b (s\<lparr>sv_cache := c\<rparr>)"

definition pc_put where
  "pc_put E key ob candidate s =
  (if o_State ob = StateHot then
     pc_stored key ob candidate (snd (Now E s)) (PutUntil (sv_cache s) (fst (Now E s)) key (sn_Value candidate) (sn_ExpiresAt candidate))
   else pc_end key ob False candidate False s)"

fun pc_admitted where
  "pc_admitted E key candidate s (ob, t) =
   pc_put E key ob candidate (snd (probationary_Delete key
     (if o_State ob = StateHot then (s\<lparr>sv_tracker := t\<rparr>)\<lparr>sv_promoting := (sv_promoting s)[cacheEpochStripe key := True]\<rparr> else s\<lparr>sv_tracker := t\<rparr>)))"

lemma promote_candidate_code [code]:
  "promote_candidate E key candidate s =
    pc_admitted E key candidate (snd (Now E s)) (Admit (en_arith E) (sv_tracker s) (fst (Now E s)) key)"
  by (auto simp: promote_candidate_def pc_put_def pc_end_def Now_def Let_def split: prod.splits)

fun rc_candidate where
  "rc_candidate E key (None, s) = (None, s)"
| "rc_candidate E key (Some candidate, s) = promote_candidate E key candidate s"

fun rc_local where
  "rc_local E key (Some item, s) = (Some item, s)"
| "rc_local E key (None, s) = rc_candidate E key (probationary_Get E key s)"

lemma read_candidate_code [code]:
  "read_candidate E key s = rc_local E key (if IsHot (sv_tracker s) key then getFreshProtected E key s else (None, s))"
  by (auto simp: read_candidate_def Let_def split: prod.splits option.splits)

end
