(* ===== verification/ServiceProps.thy ===== *)
theory ServiceProps
  imports ServiceRuns ServiceEval
begin

text \<open>
  Properties of the service over every sequence of its operations from \<^verbatim>\<open>New\<close>, with any clock, any
  upstream client and any scheduling: the tiers, the budget, observe mode, and that reads through the
  cache answer as the upstream does.
\<close>

section \<open>Runs\<close>

text \<open>\<open>SWorld w\<close>: something else changes what is behind the client.\<close>

datatype 'w svc_op =
  SGet get_env bytes | SMGet "bytes list" | SWrite "nat \<Rightarrow> go_error option" bytes "bytes list" "bytes list" |
  SPass bytes "bytes list" | SPurge bytes | SReady | SStatus | SHotKeys int | SAudit int | SCacheInfo |
  SProxyActive bool | SClose | SWorld 'w

text \<open>\<open>None\<close> is a panic.\<close>

fun svc_apply :: "'w senv \<Rightarrow> 'w svc_op \<Rightarrow> 'w service \<Rightarrow> 'w service option" where
  "svc_apply E (SGet ge key) s = Some (snd (Get_service E ge key s))"
| "svc_apply E (SMGet keys) s = map_option snd (MGet E keys s)"
| "svc_apply E (SWrite sel command args keys) s = Some (snd (ExecuteWrite E sel command args keys s))"
| "svc_apply E (SPass command args) s = Some (snd (PassThrough E command args s))"
| "svc_apply E (SPurge key) s = Some (snd (PurgeCache key s))"
| "svc_apply E SReady s = Some (snd (Ready E s))"
| "svc_apply E SStatus s = Some (snd (Status E s))"
| "svc_apply E (SHotKeys n) s = Some (snd (HotKeys E n s))"
| "svc_apply E (SAudit n) s = Some (snd (Audit E n s))"
| "svc_apply E SCacheInfo s = Some (snd (CacheInfo s))"
| "svc_apply E (SProxyActive b) s = Some (SetProxyActive b s)"
| "svc_apply E SClose s = Some (snd (Close_service E s))"
| "svc_apply E (SWorld w) s = Some (s\<lparr>sv_world := w\<rparr>)"

fun svc_run :: "'w senv \<Rightarrow> 'w svc_op list \<Rightarrow> 'w service \<Rightarrow> 'w service option" where
  "svc_run E [] s = Some s"
| "svc_run E (op # ops) s = (case svc_apply E op s of None \<Rightarrow> None | Some s' \<Rightarrow> svc_run E ops s')"

lemma New_upholds:
  assumes "R w"
  shows "upholds cfg P R (New_service E cfg rec v c w)"
proof -
  let ?s = "New_service E cfg rec v c w"
  have "static_ok cfg ?s" by (simp add: static_ok_def New_service_def Let_def tier_New)
  moreover have "contents (New_cache b n) k = None" for b n k
    by (simp add: contents_def entries_def New_cache_def find_key_def)
  then have "protected ?s = Map.empty" "probation ?s = Map.empty"
    by (auto simp: fun_eq_iff protected_def probation_def New_service_def Let_def)
  moreover have "tracker_inv (sv_tracker ?s)" by (simp add: New_service_def Let_def New_tracker_inv)
  moreover have "sv_world ?s = w" by (simp add: New_service_def Let_def)
  ultimately show ?thesis using assms by (simp add: upholds_def svc_inv_def)
qed

lemma shrink_upholds: "upholds cfg P R s \<Longrightarrow> shrink cfg s s' \<Longrightarrow> upholds cfg P R s'"
  using shrink_keeps keeps_upholds by (metis upholds_def)

lemma upholds_frame [simp]:
  "upholds cfg P R (s\<lparr>sv_proxyActive := b\<rparr>) = upholds cfg P R s"
  "upholds cfg P R (s\<lparr>sv_closed := b\<rparr>) = upholds cfg P R s"
  by (simp_all add: upholds_def svc_inv_def static_ok_def protected_def probation_def)

lemma cleared_shrink:
  assumes "static_ok cfg s" "\<And>b n c. tier_inv b n c \<Longrightarrow> tier_inv b n (f c)" "\<And>c. contents (f c) = Map.empty"
  shows "shrink cfg s (s\<lparr>sv_cache := f (sv_cache s), sv_probationary := map_option f (sv_probationary s)\<rparr>)"
  using assms
  by (auto simp: shrink_def static_ok_def protected_def probation_def map_le_def split: option.splits)

lemma bumps_shrink [simp]: "shrink cfg s (fold bump is s') = shrink cfg s s'"
  by (induction "is" arbitrary: s') simp_all

lemma purgeAll_shrink: "static_ok cfg s \<Longrightarrow> shrink cfg s (purgeAllCache s)"
  using cleared_shrink [of cfg s Purge] by (simp add: purgeAllCache_def tier_cleared)

lemma PurgeCache_upholds:
  assumes "upholds cfg P R s"
  shows "upholds cfg P R (snd (PurgeCache key s))"
proof (cases "key = []")
  case True
  then show ?thesis
    using shrink_upholds [OF assms purgeAll_shrink [OF upholds_static [OF assms]]] by (simp add: PurgeCache_def)
next
  case False
  obtain n s' where "invalidateCacheKeys [key] s = (n, s')" by (rule prod.exhaust)
  with False invalidate_upholds [OF assms this] show ?thesis by (simp add: PurgeCache_def)
qed

lemma upholds_world: "upholds cfg P R s \<Longrightarrow> R w \<Longrightarrow> upholds cfg P R (s\<lparr>sv_world := w\<rparr>)"
  by (simp add: upholds_def)

lemma Close_upholds:
  assumes "upholds cfg P R s" "\<And>w. R w \<Longrightarrow> R (snd (cl_Close (en_client E) w))"
  shows "upholds cfg P R (snd (Close_service E s))"
proof (cases "sv_closed s")
  case True
  then show ?thesis using assms(1) by (simp add: Close_service_def)
next
  case False
  define s1 where "s1 = s\<lparr>sv_cache := Close_cache (sv_cache s), sv_probationary := map_option Close_cache (sv_probationary s)\<rparr>"
  have "shrink cfg s s1"
    unfolding s1_def by (rule cleared_shrink [OF upholds_static [OF assms(1)]]) (simp_all add: tier_cleared)
  then have u: "upholds cfg P R (s1\<lparr>sv_closed := True\<rparr>)" using shrink_upholds [OF assms(1)] by simp
  have "snd (Close_service E s) = s1\<lparr>sv_closed := True\<rparr>\<lparr>sv_world := snd (cl_Close (en_client E) (sv_world s))\<rparr>"
    using False by (simp add: Close_service_def s1_def case_prod_unfold Let_def)
  moreover have "R (sv_world s)" using assms(1) by (simp add: upholds_def)
  ultimately show ?thesis using upholds_world [OF u assms(2)] by simp
qed

lemma advance_keeps:
  assumes "upholds cfg P R s" "tracker_step (sv_tracker s) (trs, t)"
  shows "upholds cfg P R (handleTransitions trs (s\<lparr>sv_ticks := n, sv_tracker := t\<rparr>))"
proof -
  have "svc_inv cfg (Q_of P) trs ((s\<lparr>sv_ticks := n\<rparr>)\<lparr>sv_tracker := t\<rparr>)"
    by (rule tracker_step_inv) (use assms in \<open>auto simp: upholds_def\<close>)
  from handleTransitions_inv [OF this] assms(1) show ?thesis by (simp add: upholds_def shrink_def)
qed

lemma tracker_ok: "upholds cfg P R s \<Longrightarrow> tracker_inv (sv_tracker s)"
  by (simp add: upholds_def svc_inv_def)

lemma advance_view_upholds:
  assumes "upholds cfg P R s" "advance_view E limit s = (v, s')"
  shows "upholds cfg P R s'"
proof -
  let ?now = "en_clock E (sv_ticks s)"
  obtain view t where v: "AdvanceAndSnapshot (en_arith E) (sv_tracker s) ?now limit = (view, t)" by (rule prod.exhaust)
  have "tracker_step (sv_tracker s) (vw_Transitions view, t)"
    using apply_step [OF tracker_ok [OF assms(1)], of "en_arith E" "OpAdvanceAndSnapshot ?now limit"] v by simp
  from advance_keeps [OF assms(1) this] show ?thesis
    using assms(2) v by (auto simp: advance_view_def Now_def Let_def)
qed

lemma hot_key_items_upholds: "upholds cfg P R s \<Longrightarrow> upholds cfg P R (snd (fold (hot_key_item E) sns (out, s)))"
  by (induction sns arbitrary: out s) (simp_all add: hot_key_item_def Now_def Let_def)

lemma Status_upholds:
  assumes "upholds cfg P R s" "\<And>w. R w \<Longrightarrow> R (snd (cl_Ping (en_client E) w))"
  shows "upholds cfg P R (snd (Status E s))"
proof -
  let ?now = "en_clock E (sv_ticks s)"
  obtain trs t where a: "Advance (en_arith E) (sv_tracker s) ?now = (trs, t)" by (rule prod.exhaust)
  have "tracker_step (sv_tracker s) (trs, t)"
    using advance_step [OF tracker_ok [OF assms(1)], of "en_arith E" ?now] a by (simp add: Advance_def)
  note u = advance_keeps [OF assms(1) this, of "Suc (sv_ticks s)"]
  define s1 where "s1 = handleTransitions trs (s\<lparr>sv_ticks := Suc (sv_ticks s), sv_tracker := t\<rparr>)"
  have "snd (Status E s) = (on_metrics (SetHotKeys (snd (Stats_tracker (sv_tracker s1)))) (observeCache s1))
      \<lparr>sv_world := snd (cl_Ping (en_client E) (sv_world s1)), sv_ticks := Suc (sv_ticks s1)\<rparr>"
    using a unfolding s1_def
    by (simp add: Status_def Now_def Let_def observeCache_def on_metrics_def case_prod_unfold)
  then show ?thesis using u assms(2) [of "sv_world s1"] by (simp add: s1_def upholds_def)
qed
section \<open>Every operation preserves the invariant\<close>

text \<open>The operations that send no command of the caller to the upstream.\<close>

fun plain :: "(bytes \<Rightarrow> bytes option \<Rightarrow> bool) \<Rightarrow> 'w svc_op \<Rightarrow> bool" where
  "plain P (SGet ge key) = joined_ok P ge key"
| "plain P (SWrite _ _ _ _) = False"
| "plain P (SPass _ _) = False"
| "plain P (SWorld _) = False"
| "plain P _ = True"

lemma Ready_upholds:
  assumes "upholds cfg P R s" "\<And>w. R w \<Longrightarrow> R (snd (cl_Ping (en_client E) w))"
  shows "upholds cfg P R (snd (Ready E s))"
  using assms by (simp add: Ready_def upholds_def case_prod_unfold Let_def)

lemma HotKeys_upholds:
  assumes "upholds cfg P R s"
  shows "upholds cfg P R (snd (HotKeys E n s))"
proof -
  obtain v s' where 1: "advance_view E n s = (v, s')" by (rule prod.exhaust)
  from hot_key_items_upholds [OF advance_view_upholds [OF assms 1]] show ?thesis by (simp add: HotKeys_def 1)
qed

lemma Audit_upholds:
  assumes "upholds cfg P R s"
  shows "upholds cfg P R (snd (Audit E n s))"
proof -
  obtain v s' where 1: "advance_view E (normalizeAuditLimit n) s = (v, s')" by (rule prod.exhaust)
  from advance_view_upholds [OF assms 1] show ?thesis by (simp add: Audit_def 1 Now_def Let_def)
qed

lemma plain_upholds:
  assumes up: "upholds cfg P R s" and reads: "reads_ok E R P" and op: "plain P op"
    and ping: "\<And>w. R w \<Longrightarrow> R (snd (cl_Ping (en_client E) w))" and close: "\<And>w. R w \<Longrightarrow> R (snd (cl_Close (en_client E) w))"
    and run: "svc_apply E op s = Some s'"
  shows "upholds cfg P R s'"
proof (cases op)
  case (SGet ge key)
  obtain r t where "Get_service E ge key s = (r, t)" by (rule prod.exhaust)
  with Get_upholds(1) [OF up reads _ this] SGet op run show ?thesis by simp
next
  case (SMGet keys)
  then obtain r where "MGet E keys s = Some (r, s')" using run by (auto simp: map_option_case split: option.splits)
  from MGet_upholds(1) [OF up reads this] show ?thesis .
next
  case (SPurge key)
  with PurgeCache_upholds [OF up] run show ?thesis by auto
next
  case SReady
  with Ready_upholds [where E = E, OF up ping] run show ?thesis by auto
next
  case SStatus
  with Status_upholds [where E = E, OF up ping] run show ?thesis by auto
next
  case (SHotKeys n)
  with HotKeys_upholds [OF up] run show ?thesis by auto
next
  case (SAudit n)
  with Audit_upholds [OF up] run show ?thesis by auto
next
  case SCacheInfo
  with up run show ?thesis by (auto simp: CacheInfo_def Let_def)
next
  case (SProxyActive b)
  with up run show ?thesis by (auto simp: SetProxyActive_def)
next
  case SClose
  with Close_upholds [where E = E, OF up close] run show ?thesis by auto
qed (use op in simp_all)

lemma Do_upholds:
  assumes "upholds cfg P R s" "upstream_Do E command args s = (r, s')"
    "R' (snd (cl_Do (en_client E) (command # args) (sv_world s)))"
  shows "upholds cfg P R' s'" "cl_Do (en_client E) (command # args) (sv_world s) = (r, sv_world s')"
  using assms by (auto simp: upstream_Do_def Now_def Let_def upholds_def split: prod.splits)

lemma upholds_any: "reads_ok E (\<lambda>_. True) (\<lambda>_ _. True)" "joined_ok (\<lambda>_ _. True) ge key"
  by (simp_all add: reads_ok_def joined_ok_def)

lemma svc_apply_inv:
  assumes up: "upholds cfg (\<lambda>_ _. True) (\<lambda>_. True) s" and run: "svc_apply E op s = Some s'"
  shows "upholds cfg (\<lambda>_ _. True) (\<lambda>_. True) s'"
proof (cases "plain (\<lambda>_ _. True) op")
  case True
  from plain_upholds [OF up upholds_any(1) True _ _ run] show ?thesis by simp
next
  case False
  then show ?thesis
  proof (cases op)
    case (SWrite sel command args keys)
    obtain r t where 1: "ExecuteWrite E sel command args keys s = (r, t)" by (rule prod.exhaust)
    obtain r' w where 2: "cl_Do (en_client E) (command # args) (sv_world s) = (r', w)" by (rule prod.exhaust)
    from ExecuteWrite_upholds [OF up 2, of "\<lambda>_. True" keys "\<lambda>_ _. True", OF _ _ _ 1] SWrite 1 run show ?thesis by auto
  next
    case (SPass command args)
    obtain r t where 1: "upstream_Do E command args s = (r, t)" by (rule prod.exhaust)
    from Do_upholds(1) [OF up 1, of "\<lambda>_. True"] SPass 1 run show ?thesis by (simp add: PassThrough_def)
  qed (use up run upholds_any in \<open>auto simp: upholds_def\<close>)
qed

lemma svc_run_inv:
  "svc_run E ops s = Some s' \<Longrightarrow> upholds cfg (\<lambda>_ _. True) (\<lambda>_. True) s \<Longrightarrow> upholds cfg (\<lambda>_ _. True) (\<lambda>_. True) s'"
proof (induction ops arbitrary: s)
  case (Cons op ops)
  then show ?case by (auto split: option.splits intro: svc_apply_inv)
qed simp
section \<open>The tiers\<close>

lemma upholds_tiers:
  assumes "upholds cfg P R s"
  shows "protected s k \<noteq> None \<Longrightarrow> IsHot (sv_tracker s) k \<and> probation s k = None"
    "protected s k \<noteq> None \<or> probation s k \<noteq> None \<Longrightarrow> d_Mode (Match (newPolicyMatcher cfg) k) = ModeCache"
  using assms by (fastforce simp: upholds_def svc_inv_def)+

text \<open>
  C33: In every state reached from \<^verbatim>\<open>New\<close> by any sequence of operations, with any clock, upstream and
  scheduling, every key of the protected tier is HOT in the tracker and not in the probationary tier,
  and every key of either tier has a policy whose mode is \<^verbatim>\<open>cache\<close>.
\<close>

theorem service_tiers:
  assumes "svc_run E ops (New_service E cfg rec v c w) = Some s"
  shows "(protected s k \<noteq> None \<longrightarrow> IsHot (sv_tracker s) k \<and> probation s k = None) \<and>
    (protected s k \<noteq> None \<or> probation s k \<noteq> None \<longrightarrow> d_Mode (Match (newPolicyMatcher cfg) k) = ModeCache)"
proof -
  have "upholds cfg (\<lambda>_ _. True) (\<lambda>_. True) s" using svc_run_inv [OF assms New_upholds] by simp
  then show ?thesis using upholds_tiers [of cfg] by blast
qed

lemma tier_stats:
  assumes "tier_inv b n c"
  shows "st_Bytes (Stats c) \<le> max 0 b" "st_MaxBytes (Stats c) = max 0 b" "n > 0 \<Longrightarrow> st_Entries (Stats c) \<le> n"
  using assms by (auto simp: tier_inv_def cache_inv_def overLimits_def Stats_def)

lemma split_limits:
  assumes "limits = splitCacheTierLimits b n" "probationaryEnabled limits"
  shows "max 0 (protectedBytes limits) + max 0 (probationaryBytes limits) = b" "b \<ge> 2"
    "n > 0 \<Longrightarrow> protectedEntries limits > 0 \<and> probationaryEntries limits > 0 \<and>
       protectedEntries limits + probationaryEntries limits = n"
  using assms by (auto simp: splitCacheTierLimits_def probationaryCacheShare_def Let_def split: if_splits)

lemma split_disabled:
  "\<not> probationaryEnabled (splitCacheTierLimits b n) \<Longrightarrow>
   protectedBytes (splitCacheTierLimits b n) = b \<and> protectedEntries (splitCacheTierLimits b n) = n"
  by (auto simp: splitCacheTierLimits_def Let_def split: if_splits)

lemma static_budget:
  assumes "static_ok cfg s"
  defines "st \<equiv> combinedCacheStats (Stats (sv_cache s)) (sv_probationary s)"
    and "b \<equiv> cc_MaxBytes (cf_Cache cfg)" and "n \<equiv> cc_MaxEntries (cf_Cache cfg)"
  shows "st_Bytes st \<le> max 0 b \<and> st_MaxBytes st = max 0 b \<and> (n > 0 \<longrightarrow> st_Entries st \<le> n)"
proof (cases "sv_probationary s")
  case None
  then have "tier_inv b n (sv_cache s)"
    using assms split_disabled [of b n] by (auto simp: static_ok_def)
  with None show ?thesis by (auto simp: st_def combinedCacheStats_def tier_stats)
next
  case (Some p)
  let ?l = "splitCacheTierLimits b n"
  have t: "tier_inv (protectedBytes ?l) (protectedEntries ?l) (sv_cache s)"
    "tier_inv (probationaryBytes ?l) (probationaryEntries ?l) p" "probationaryEnabled ?l"
    using assms Some by (auto simp: static_ok_def)
  show ?thesis
    using tier_stats [OF t(1)] tier_stats [OF t(2)] split_limits [OF refl t(3)] Some
    by (auto simp: st_def combinedCacheStats_def Let_def)
qed

text \<open>
  C34: In every reachable state the two tiers together hold at most \<^verbatim>\<open>cache.max_bytes\<close> bytes and, when it
  is positive, at most \<^verbatim>\<open>cache.max_entries\<close> entries, whatever the split between them, and the reported
  capacity is exactly the configured one.
\<close>

theorem service_budget:
  assumes "svc_run E ops (New_service E cfg rec v c w) = Some s" "CacheInfo s = (info, s')"
  shows "ci_Bytes info \<le> max 0 (cc_MaxBytes (cf_Cache cfg)) \<and> ci_MaxBytes info = max 0 (cc_MaxBytes (cf_Cache cfg)) \<and>
    (cc_MaxEntries (cf_Cache cfg) > 0 \<longrightarrow> ci_Entries info \<le> cc_MaxEntries (cf_Cache cfg))"
proof -
  have "upholds cfg (\<lambda>_ _. True) (\<lambda>_. True) s" using svc_run_inv [OF assms(1) New_upholds] by simp
  from static_budget [OF upholds_static [OF this]] assms(2) show ?thesis by (auto simp: CacheInfo_def Let_def)
qed

section \<open>Observe mode\<close>

lemma rule_map_set: "rule_map rules p = Some d \<Longrightarrow> d \<in> r_Decision ` set rules"
  unfolding rule_map_def by (drule map_of_SomeD) auto

lemma Match_decision: "Match (New_matcher fb rules) key \<in> insert fb (r_Decision ` set rules)"
proof (cases "Match_loop (m_rules (New_matcher fb rules)) (m_lengths (New_matcher fb rules)) key")
  case (Some d)
  from Match_loop_Some [OF Some New_matcher_sel(4)] have "d \<in> r_Decision ` set rules"
    by (auto simp: New_matcher_sel dest: rule_map_set)
  with Some show ?thesis by (simp add: Match_def)
qed (simp add: Match_def New_matcher_sel)

lemma observe_never_caches:
  assumes "cf_Mode cfg = ''observe''"
  shows "d_Mode (Match (newPolicyMatcher cfg) key) \<noteq> ModeCache"
proof -
  have "d_Mode (r_Decision (policy_rule cfg p)) \<noteq> ModeCache" for p
    using assms by (auto simp: policy_rule_def Let_def split: prod.splits)
  moreover have "newPolicyMatcher cfg = New_matcher \<lparr>d_Mode = ModeObserve, d_MaxItemBytes = 0, d_MaxLocalTTL = 0\<rparr>
      (map (policy_rule cfg) (cc_Policies (cf_Cache cfg)))"
    using assms by (simp add: newPolicyMatcher_def ParseMode_def)
  ultimately show ?thesis
    using Match_decision [of "\<lparr>d_Mode = ModeObserve, d_MaxItemBytes = 0, d_MaxLocalTTL = 0\<rparr>"
      "map (policy_rule cfg) (cc_Policies (cf_Cache cfg))" key] by auto
qed

lemma bypass_answer:
  assumes "upholds cfg P R s" "d_Mode (Match (newPolicyMatcher cfg) key) \<noteq> ModeCache" "key \<noteq> []" "ge_ctxErr ge = None"
  shows "fst (Get_service E ge key s) = fst (cl_Get (en_client E) key (sv_world s))"
    "sv_world (snd (Get_service E ge key s)) = snd (cl_Get (en_client E) key (sv_world s))"
proof -
  have inv: "svc_inv cfg (Q_of P) [] s" and m: "sv_policies s = newPolicyMatcher cfg"
    using assms(1) static_match [OF upholds_static [OF assms(1)]] by (simp_all add: upholds_def)
  obtain st s1 where 1: "observe_policy E (Match (newPolicyMatcher cfg) key) key s = (st, s1)" by (rule prod.exhaust)
  have w: "sv_world s1 = sv_world s" using keepsD(2) [OF observe_policy_keeps [OF inv 1]] .
  show "fst (Get_service E ge key s) = fst (cl_Get (en_client E) key (sv_world s))"
    "sv_world (snd (Get_service E ge key s)) = snd (cl_Get (en_client E) key (sv_world s))"
    using assms(2-4) w
    by (simp_all add: Get_service_def m 1 read_local_def fetchUpstreamGet_def Now_def Let_def case_prod_unfold)
qed

text \<open>
  C35: In observe mode the service never caches: in every reachable state both tiers are empty, whatever
  the policies say, and a GET of a non-empty key with a live context answers exactly what the upstream
  client answers, success or error, and leaves the upstream as that one call does.
\<close>

theorem service_observe:
  assumes "cf_Mode cfg = ''observe''" "svc_run E ops (New_service E cfg rec v c w) = Some s"
    "key \<noteq> []" "ge_ctxErr ge = None"
  shows "protected s = Map.empty \<and> probation s = Map.empty \<and>
    fst (Get_service E ge key s) = fst (cl_Get (en_client E) key (sv_world s)) \<and>
    sv_world (snd (Get_service E ge key s)) = snd (cl_Get (en_client E) key (sv_world s))"
proof -
  have up: "upholds cfg (\<lambda>_ _. True) (\<lambda>_. True) s" using svc_run_inv [OF assms(2) New_upholds] by simp
  have "protected s k = None" "probation s k = None" for k
    using observe_never_caches [OF assms(1), of k] upholds_tiers(2) [OF up, of k] by blast+
  then show ?thesis using bypass_answer [OF up observe_never_caches [OF assms(1)] assms(3,4)] by auto
qed
section \<open>Reads through the cache\<close>

text \<open>
  The upstream seen as a key-value store \<open>db\<close>: reads answer from it, and neither they nor PING and
  closing the client change it. Expiry of keys in the upstream is not considered.
\<close>

definition kv_client :: "'w senv \<Rightarrow> ('w \<Rightarrow> bytes \<Rightarrow> bytes option) \<Rightarrow> bool" where
  "kv_client E db \<longleftrightarrow>
     (\<forall>k w r w'. cl_Get (en_client E) k w = (r, w') \<longrightarrow> db w' = db w \<and> (\<forall>v. r = Inr v \<longrightarrow> answer v = db w k)) \<and>
     (\<forall>ks w r w'. cl_MGet (en_client E) ks w = (r, w') \<longrightarrow>
        db w' = db w \<and> (\<forall>vs. r = Some (Inr vs) \<longrightarrow> map answer vs = map (db w) ks)) \<and>
     (\<forall>w. db (snd (cl_Ping (en_client E) w)) = db w) \<and> (\<forall>w. db (snd (cl_Close (en_client E) w)) = db w)"

text \<open>
  The operations covered: a write changes the keys it names only and an acknowledged \<^verbatim>\<open>SET key value\<close>
  sets its key, pass-through commands change nothing, nothing else writes to the store.
\<close>

fun faithful :: "'w senv \<Rightarrow> ('w \<Rightarrow> bytes \<Rightarrow> bytes option) \<Rightarrow> 'w svc_op \<Rightarrow> bool" where
  "faithful E db (SGet ge key) = (ge_joined ge = None)"
| "faithful E db (SWrite sel command args keys) =
     (\<forall>w r w'. cl_Do (en_client E) (command # args) w = (r, w') \<longrightarrow>
        (\<forall>k. k \<notin> set keys \<longrightarrow> db w' k = db w k) \<and>
        (\<forall>key v. set_acknowledged (en_unicode E) command args keys r key v \<longrightarrow> db w' key = Some v))"
| "faithful E db (SPass command args) = (\<forall>w. db (snd (cl_Do (en_client E) (command # args) w)) = db w)"
| "faithful E db (SWorld w) = False"
| "faithful E db _ = True"

definition coherent :: "config \<Rightarrow> ('w \<Rightarrow> bytes \<Rightarrow> bytes option) \<Rightarrow> 'w service \<Rightarrow> bool" where
  "coherent cfg db s \<longleftrightarrow> upholds cfg (\<lambda>k x. x = db (sv_world s) k) (\<lambda>w. db w = db (sv_world s)) s"

lemma kv_reads:
  assumes "kv_client E db"
  shows "reads_ok E (\<lambda>w. db w = d) (\<lambda>k x. x = d k)" "mget_exact E R"
proof -
  have m: "db w' = db w \<and> (\<forall>vs. r = Some (Inr vs) \<longrightarrow> length vs = length ks \<and> (\<forall>i < length ks. answer (vs ! i) = db w (ks ! i)))"
    if "cl_MGet (en_client E) ks w = (r, w')" for ks w r w'
    using assms that unfolding kv_client_def by (metis length_map nth_map)
  show "mget_exact E R" using m by (auto simp: mget_exact_def)
  show "reads_ok E (\<lambda>w. db w = d) (\<lambda>k x. x = d k)"
    unfolding reads_ok_def using m assms unfolding kv_client_def by metis
qed

lemma kv_quiet:
  "kv_client E db \<Longrightarrow> db w = d \<Longrightarrow> db (snd (cl_Ping (en_client E) w)) = d"
  "kv_client E db \<Longrightarrow> db w = d \<Longrightarrow> db (snd (cl_Close (en_client E) w)) = d"
  by (simp_all add: kv_client_def)

lemma upholds_coherent: "upholds cfg (\<lambda>k x. x = d k) (\<lambda>w. db w = d) s \<Longrightarrow> coherent cfg db s"
  by (auto simp: coherent_def upholds_def)

lemma coherentD: "coherent cfg db s \<Longrightarrow> upholds cfg (\<lambda>k x. x = db (sv_world s) k) (\<lambda>w. db w = db (sv_world s)) s"
  by (simp add: coherent_def)

lemma write_coherent:
  assumes kv: "kv_client E db" and co: "coherent cfg db s" and ok: "faithful E db (SWrite sel command args keys)"
    and run: "ExecuteWrite E sel command args keys s = (res, s')"
  shows "coherent cfg db s'"
proof -
  obtain r w where 1: "cl_Do (en_client E) (command # args) (sv_world s) = (r, w)" by (rule prod.exhaust)
  have "(\<exists>e. res = Inl e \<and> upholds cfg (\<lambda>k x. x = db (sv_world s) k) (\<lambda>w. db w = db (sv_world s)) s' \<and> sv_world s' = sv_world s) \<or>
    (res = r \<and> upholds cfg (\<lambda>k x. x = db w k) (\<lambda>w'. db w' = db w) s' \<and> sv_world s' = w)"
    by (rule ExecuteWrite_upholds [OF coherentD [OF co] 1 _ _ _ run]) (use ok 1 in auto)
  then show ?thesis by (auto intro: upholds_coherent)
qed

lemma svc_apply_coherent:
  assumes kv: "kv_client E db" and co: "coherent cfg db s" and ok: "faithful E db op" and run: "svc_apply E op s = Some s'"
  shows "coherent cfg db s'"
proof (cases "plain (\<lambda>k x. x = db (sv_world s) k) op")
  case True
  show ?thesis
    by (rule upholds_coherent, rule plain_upholds [OF coherentD [OF co] kv_reads(1) [OF kv] True _ _ run]) (simp_all add: kv_quiet [OF kv])
next
  case False
  then show ?thesis
  proof (cases op)
    case (SWrite sel command args keys)
    obtain r t where 1: "ExecuteWrite E sel command args keys s = (r, t)" by (rule prod.exhaust)
    from write_coherent [OF kv co ok [unfolded SWrite] 1] SWrite 1 run show ?thesis by simp
  next
    case (SPass command args)
    obtain r t where 1: "upstream_Do E command args s = (r, t)" by (rule prod.exhaust)
    from Do_upholds(1) [OF coherentD [OF co] 1, of "\<lambda>w. db w = db (sv_world s)"] SPass 1 run ok
    show ?thesis by (auto simp: PassThrough_def intro: upholds_coherent)
  qed (use ok in \<open>simp_all add: joined_ok_def\<close>)
qed

lemma svc_run_coherent:
  assumes "kv_client E db"
  shows "svc_run E ops s = Some s' \<Longrightarrow> list_all (faithful E db) ops \<Longrightarrow> coherent cfg db s \<Longrightarrow> coherent cfg db s'"
proof (induction ops arbitrary: s)
  case (Cons op ops)
  then show ?case by (auto split: option.splits intro: svc_apply_coherent [OF assms])
qed simp

text \<open>
  C3: The cache is transparent. When the upstream behaves as a key-value store, then after any sequence of
  reads, writes, pass-through commands, purges and administration from \<^verbatim>\<open>New\<close>, every value a GET answers
  and every position of an MGET, whether served by the protected tier, a promoted candidate, a stale entry
  or the upstream, is what the store holds for that key at that moment.
\<close>

theorem service_transparent:
  assumes "kv_client E db" "list_all (faithful E db) ops" "svc_run E ops (New_service E cfg rec v c w) = Some s"
  shows "(Get_service E ge key s = (Inr x, s') \<longrightarrow> ge_joined ge = None \<longrightarrow> answer x = db (sv_world s) key) \<and>
    (MGet E keys s = Some (Inr xs, s'') \<longrightarrow> map answer xs = map (db (sv_world s)) keys)"
proof -
  have "coherent cfg db (New_service E cfg rec v c w)" by (rule upholds_coherent, rule New_upholds) simp
  then have co: "coherent cfg db s" using svc_run_coherent [OF assms(1,3,2)] by simp
  note get = Get_upholds(2) [OF coherentD [OF co] kv_reads(1) [OF assms(1)], of ge key "Inr x" s' x]
  note mget = MGet_upholds(2) [OF coherentD [OF co] kv_reads(1) [OF assms(1)] _ kv_reads(2) [OF assms(1)], of keys "Inr xs" s'' xs]
  show ?thesis using get mget by (auto simp: joined_ok_def intro: nth_equalityI)
qed
section \<open>An in-memory upstream\<close>

text \<open>A store held as an association list, with a clock that advances a millisecond per reading.\<close>

definition mem_get :: "(bytes \<times> bytes) list \<Rightarrow> bytes \<Rightarrow> upstream_value" where
  "mem_get w k = (case map_of w k of None \<Rightarrow> no_value | Some v \<Rightarrow> \<lparr>uv_Data = v, uv_Exists = True, uv_PTTL = - 1\<rparr>)"

definition mem_do :: "bytes list \<Rightarrow> (bytes \<times> bytes) list \<Rightarrow> (go_error + reply) \<times> (bytes \<times> bytes) list" where
  "mem_do args w = (case args of
     [c, k, v] \<Rightarrow> if c = ''SET'' then (Inr (ReplyString ''OK''), AList.update k v w) else (Inl (OtherError ''ERR''), w)
   | _ \<Rightarrow> (Inl (OtherError ''ERR''), w))"

definition mem_env :: "(bytes \<times> bytes) list senv" where
  "mem_env =
     \<lparr>en_clock = (\<lambda>n. int n * millisecond),
      en_client = \<lparr>cl_Ping = (\<lambda>w. (None, w)), cl_Get = (\<lambda>k w. (Inr (mem_get w k), w)),
                   cl_MGet = (\<lambda>ks w. (Some (Inr (map (mem_get w) ks)), w)), cl_Do = mem_do, cl_Close = (\<lambda>w. (None, w))\<rparr>,
      en_unicode = \<lparr>u_upper = id, u_lower = id, u_fold = (=)\<rparr>, en_arith = exact id, en_hmac = (\<lambda>_ _. [])\<rparr>"

definition mem_config :: "bytes \<Rightarrow> config" where
  "mem_config mode = (Default [])\<lparr>cf_Mode := mode\<rparr>"

definition mem_service :: "bytes \<Rightarrow> (bytes \<times> bytes) list service" where
  "mem_service mode = New_service mem_env (mem_config mode) None [] [] []"

definition lead :: get_env where
  "lead = \<lparr>ge_ctxErr = None, ge_done = None, ge_joined = None, ge_shared = False\<rparr>"

definition mem_ops :: "(bytes \<times> bytes) list svc_op list" where
  "mem_ops = [SWrite (\<lambda>_. None) ''SET'' [''k'', ''v''] [''k''], SGet lead ''k'', SGet lead ''k'']"

lemma mem_kv: "kv_client mem_env map_of"
  by (simp add: kv_client_def mem_env_def mem_get_def answer_def no_value_def fun_eq_iff split: option.splits)

lemma mem_faithful: "list_all (faithful mem_env map_of) mem_ops"
  by (auto simp: mem_ops_def lead_def mem_env_def mem_do_def set_acknowledged_def split: if_splits)
lemma mem_run:
  "map_option (\<lambda>s. (protected s ''k'', fst (Get_service mem_env lead ''k'' s)))
     (svc_run mem_env mem_ops (mem_service ''cache'')) =
   Some (Some (''v'', 1010000000), Inr \<lparr>uv_Data = ''v'', uv_Exists = True, uv_PTTL = 993000000\<rparr>)"
  by code_simp

theorem service_tiers_witness:
  "\<exists>s. svc_run mem_env mem_ops (mem_service ''cache'') = Some s \<and> protected s ''k'' = Some (''v'', 1010000000) \<and>
     IsHot (sv_tracker s) ''k'' \<and> probation s ''k'' = None \<and> d_Mode (Match (newPolicyMatcher (mem_config ''cache'')) ''k'') = ModeCache"
proof -
  obtain s where s: "svc_run mem_env mem_ops (mem_service ''cache'') = Some s" "protected s ''k'' = Some (''v'', 1010000000)"
    using mem_run by auto
  from service_tiers [OF s(1) [unfolded mem_service_def], of "''k''"] s show ?thesis by auto
qed

theorem service_budget_witness:
  "\<exists>s. svc_run mem_env mem_ops (mem_service ''cache'') = Some s \<and> ci_Bytes (fst (CacheInfo s)) \<le> 67108864 \<and>
     ci_MaxBytes (fst (CacheInfo s)) = 67108864 \<and> ci_Entries (fst (CacheInfo s)) \<le> 100000"
proof -
  obtain s where s: "svc_run mem_env mem_ops (mem_service ''cache'') = Some s" using mem_run by auto
  have "cc_MaxBytes (cf_Cache (mem_config ''cache'')) = 67108864" "cc_MaxEntries (cf_Cache (mem_config ''cache'')) = 100000"
    by code_simp+
  then show ?thesis
    using service_budget [OF s [unfolded mem_service_def], of "fst (CacheInfo s)" "snd (CacheInfo s)"] s by simp
qed

theorem service_observe_witness:
  "\<exists>s. svc_run mem_env mem_ops (mem_service ''observe'') = Some s \<and> protected s = Map.empty \<and> probation s = Map.empty \<and>
     fst (Get_service mem_env lead ''k'' s) = fst (cl_Get (en_client mem_env) ''k'' (sv_world s))"
proof -
  obtain s where s: "svc_run mem_env mem_ops (mem_service ''observe'') = Some s" by (simp add: mem_ops_def)
  have "cf_Mode (mem_config ''observe'') = ''observe''" by (simp add: mem_config_def)
  from service_observe [OF this s [unfolded mem_service_def], of "''k''" lead] s show ?thesis by (simp add: lead_def)
qed

theorem service_transparent_witness:
  "\<exists>s. svc_run mem_env mem_ops (mem_service ''cache'') = Some s \<and> answer \<lparr>uv_Data = ''v'', uv_Exists = True, uv_PTTL = 993000000\<rparr> = map_of (sv_world s) ''k''"
proof -
  obtain s where s: "svc_run mem_env mem_ops (mem_service ''cache'') = Some s"
      "fst (Get_service mem_env lead ''k'' s) = Inr \<lparr>uv_Data = ''v'', uv_Exists = True, uv_PTTL = 993000000\<rparr>"
    using mem_run by auto
  then have "Get_service mem_env lead ''k'' s = (Inr \<lparr>uv_Data = ''v'', uv_Exists = True, uv_PTTL = 993000000\<rparr>, snd (Get_service mem_env lead ''k'' s))"
    by (metis prod.collapse)
  with service_transparent [OF mem_kv mem_faithful s(1) [unfolded mem_service_def]] s(1) show ?thesis by (auto simp: lead_def)
qed

end
