(* ===== verification/AuditProps.thy ===== *)
theory AuditProps
  imports ServiceProps
begin

text \<open>
  The audit report of \<^verbatim>\<open>audit.go\<close> over the states the service reaches: which keys it lists, in which
  order, when it is cut off, and what it recommends.
\<close>

section \<open>The view of the tracker\<close>

lemma item_keys: "tracker_inv t \<Longrightarrow> map he_key (item_entries t) = map fst (t_items t)"
  by (auto simp: item_entries_def tracker_inv_def)

lemma advance_view_eff:
  assumes up: "upholds cfg P R s" and run: "advance_view E limit s = (v, s')"
  shows "vw_Snapshots v = topSnapshots (en_arith E) (item_entries (sv_tracker s')) (en_clock E (sv_ticks s)) limit"
    "vw_Tracked v = int (length (t_items (sv_tracker s')))" "vw_Evictions v = t_evictions (sv_tracker s')"
    "vw_CapacityDrops v = t_capacityDrops (sv_tracker s')"
    "vw_OversizedObservationsDropped v = t_oversizedObservationsDropped (sv_tracker s')"
proof -
  obtain trs t where a: "advanceLocked (en_arith E) (sv_tracker s) (en_clock E (sv_ticks s)) = (trs, t)"
    by (rule prod.exhaust)
  have "tracker_step (sv_tracker s) (trs, t)" using advance_step [OF tracker_ok [OF up]] a by metis
  then have "svc_inv cfg (Q_of P) trs ((s\<lparr>sv_ticks := Suc (sv_ticks s)\<rparr>)\<lparr>sv_tracker := t\<rparr>)"
    by (intro tracker_step_inv) (use up in \<open>auto simp: upholds_def\<close>)
  from handleTransitions_inv [OF this]
  have "sv_tracker (handleTransitions trs (s\<lparr>sv_ticks := Suc (sv_ticks s), sv_tracker := t\<rparr>)) = t"
    by (simp add: shrink_def)
  with run a show "vw_Snapshots v = topSnapshots (en_arith E) (item_entries (sv_tracker s')) (en_clock E (sv_ticks s)) limit"
    "vw_Tracked v = int (length (t_items (sv_tracker s')))" "vw_Evictions v = t_evictions (sv_tracker s')"
    "vw_CapacityDrops v = t_capacityDrops (sv_tracker s')"
    "vw_OversizedObservationsDropped v = t_oversizedObservationsDropped (sv_tracker s')"
    by (auto simp: advance_view_def AdvanceAndSnapshot_def Now_def Let_def)
qed

section \<open>The report\<close>

text \<open>The tracked keys from the most to the least important.\<close>

definition ranking :: "'w senv \<Rightarrow> time \<Rightarrow> tracker \<Rightarrow> hsnapshot list" where
  "ranking E now t = sortSnapshots (map (\<lambda>e. hot_snapshot (en_arith E) e now) (item_entries t))"

lemma normalizeAuditLimit_range: "1 \<le> normalizeAuditLimit n \<and> normalizeAuditLimit n \<le> MaxAuditLimit"
  by (simp add: normalizeAuditLimit_def DefaultAuditLimit_def MaxAuditLimit_def)

lemma audit_eff:
  assumes up: "upholds cfg P R s" and run: "Audit E limit s = (r, s')"
  defines "ranked \<equiv> ranking E (en_clock E (sv_ticks s)) (sv_tracker s')"
  shows "ar_Entries r = map (audit_entry_of E s') (take (nat (normalizeAuditLimit limit)) ranked)"
    "ar_ReturnedEntries r = int (length (ar_Entries r))" "ar_TrackedKeys r = int (length ranked)"
    "ar_Truncated r \<longleftrightarrow> ar_TrackedKeys r > ar_ReturnedEntries r"
    "ar_TelemetryComplete r \<longleftrightarrow> \<not> ar_Truncated r \<and> t_evictions (sv_tracker s') = 0 \<and>
       t_capacityDrops (sv_tracker s') = 0 \<and> t_oversizedObservationsDropped (sv_tracker s') = 0"
    "mset (map hs_Key ranked) = mset (map fst (t_items (sv_tracker s')))"
proof -
  obtain v s1 where 1: "advance_view E (normalizeAuditLimit limit) s = (v, s1)" by (rule prod.exhaust)
  note V = advance_view_eff [OF up 1]
  note u1 = advance_view_upholds [OF up 1]
  have s': "s' = s1\<lparr>sv_ticks := Suc (sv_ticks s1)\<rparr>" using run 1 by (auto simp: Audit_def Now_def Let_def)
  have "audit_entry_of E s1 = audit_entry_of E s'" by (simp add: fun_eq_iff audit_entry_of_def s')
  moreover have "vw_Snapshots v = take (nat (normalizeAuditLimit limit)) ranked"
    using V(1) topSnapshots_sorted [OF distinct_item_keys [OF tracker_ok [OF u1]]] normalizeAuditLimit_range [of limit]
    by (simp add: ranked_def ranking_def Let_def s')
  ultimately show e: "ar_Entries r = map (audit_entry_of E s') (take (nat (normalizeAuditLimit limit)) ranked)"
    using run 1 by (auto simp: Audit_def Now_def Let_def)
  have "length ranked = length (t_items (sv_tracker s'))"
    by (simp add: ranked_def ranking_def sortSnapshots_rank item_entries_def)
  then show "ar_ReturnedEntries r = int (length (ar_Entries r))" "ar_TrackedKeys r = int (length ranked)"
      "ar_Truncated r \<longleftrightarrow> ar_TrackedKeys r > ar_ReturnedEntries r"
      "ar_TelemetryComplete r \<longleftrightarrow> \<not> ar_Truncated r \<and> t_evictions (sv_tracker s') = 0 \<and>
         t_capacityDrops (sv_tracker s') = 0 \<and> t_oversizedObservationsDropped (sv_tracker s') = 0"
    using run 1 V s' by (auto simp: Audit_def Now_def Let_def)
  have "mset (map hs_Key ranked) = mset (map he_key (item_entries (sv_tracker s')))"
    by (simp add: ranked_def ranking_def sortSnapshots_rank hot_snapshot_def image_mset.compositionality comp_def)
  then show "mset (map hs_Key ranked) = mset (map fst (t_items (sv_tracker s')))"
    using item_keys [OF tracker_ok [OF u1]] by (simp add: s')
qed

lemma audit_entry_fields:
  assumes "upholds cfg P R s" "e = audit_entry_of E s sn"
  shows "ae_ID e = KeyIdentifier (en_hmac E) (hs_Key sn) (pv_KeyHashSecret (cf_Privacy cfg)) (EffectiveKeyVisibility cfg)"
    "ae_RequestRate e = hs_RequestRate sn" "ae_HotnessState e = state_string (hs_State sn)"
    "(ae_EffectivePolicyMode e, ae_Recommendation e, ae_ReasonCodes e) =
       (case (d_Mode (Match (newPolicyMatcher cfg) (hs_Key sn)), hs_State sn = StateHot) of
          (ModeObserve, True) \<Rightarrow> (''observe'', ''review_for_cache'', [''effective_policy_observe'', ''hotness_state_hot''])
        | (ModeObserve, False) \<Rightarrow> (''observe'', ''continue_observing'', [''effective_policy_observe'', ''hotness_state_not_hot''])
        | (ModeCache, True) \<Rightarrow> (''cache'', ''no_change'', [''effective_policy_cache'', ''hotness_state_hot''])
        | (ModeCache, False) \<Rightarrow> (''cache'', ''no_change'', [''effective_policy_cache'', ''hotness_state_not_hot''])
        | (ModeDeny, _) \<Rightarrow> (''deny'', ''no_change'', [''effective_policy_deny'']))"
proof -
  have c: "sv_cfg s = cfg" "sv_policies s = newPolicyMatcher cfg"
    using upholds_static [OF assms(1)] static_match by (auto simp: static_ok_def)
  show "ae_ID e = KeyIdentifier (en_hmac E) (hs_Key sn) (pv_KeyHashSecret (cf_Privacy cfg)) (EffectiveKeyVisibility cfg)"
    "ae_RequestRate e = hs_RequestRate sn" "ae_HotnessState e = state_string (hs_State sn)"
    by (simp_all add: assms(2) audit_entry_of_def Let_def c split: prod.splits)
  show "(ae_EffectivePolicyMode e, ae_Recommendation e, ae_ReasonCodes e) =
       (case (d_Mode (Match (newPolicyMatcher cfg) (hs_Key sn)), hs_State sn = StateHot) of
          (ModeObserve, True) \<Rightarrow> (''observe'', ''review_for_cache'', [''effective_policy_observe'', ''hotness_state_hot''])
        | (ModeObserve, False) \<Rightarrow> (''observe'', ''continue_observing'', [''effective_policy_observe'', ''hotness_state_not_hot''])
        | (ModeCache, True) \<Rightarrow> (''cache'', ''no_change'', [''effective_policy_cache'', ''hotness_state_hot''])
        | (ModeCache, False) \<Rightarrow> (''cache'', ''no_change'', [''effective_policy_cache'', ''hotness_state_not_hot''])
        | (ModeDeny, _) \<Rightarrow> (''deny'', ''no_change'', [''effective_policy_deny'']))"
    by (cases "d_Mode (Match (newPolicyMatcher cfg) (hs_Key sn))")
      (simp_all add: assms(2) audit_entry_of_def auditRecommendation_def Let_def c)
qed

text \<open>
  C36: The audit report of any reachable service has one entry for each of the most important tracked keys,
  in the order of the ranking, as many as the limit allows (100 when none is given, never more than 1000).
  Each entry carries the key's identifier, request rate and hotness state, and the policy mode the
  configuration gives the key; \<^verbatim>\<open>review_for_cache\<close> is recommended exactly for HOT keys under an observe
  policy, \<^verbatim>\<open>continue_observing\<close> for other keys under an observe policy, no change for all others, each with
  the reasons that led to it. The report is marked truncated exactly if it leaves a tracked key out, and
  marked complete exactly if it does not and nothing was ever evicted, dropped or oversized; then its
  entries are exactly the tracked keys.
\<close>

theorem audit_report:
  fixes limit :: int
  assumes "svc_run E ops (New_service E cfg rec v c w) = Some s" "Audit E limit s = (r, s')"
  defines "n \<equiv> if limit \<le> 0 then 100 else min limit 1000"
    and "identifier \<equiv> \<lambda>k. KeyIdentifier (en_hmac E) k (pv_KeyHashSecret (cf_Privacy cfg)) (EffectiveKeyVisibility cfg)"
    and "ranked \<equiv> ranking E (en_clock E (sv_ticks s)) (sv_tracker s')"
    and "t \<equiv> sv_tracker s'"
  shows "list_all2 (\<lambda>e sn. ae_ID e = identifier (hs_Key sn) \<and> ae_RequestRate e = hs_RequestRate sn \<and>
       ae_HotnessState e = state_string (hs_State sn) \<and>
       (ae_EffectivePolicyMode e, ae_Recommendation e, ae_ReasonCodes e) =
         (case (d_Mode (Match (newPolicyMatcher cfg) (hs_Key sn)), hs_State sn = StateHot) of
            (ModeObserve, True) \<Rightarrow> (''observe'', ''review_for_cache'', [''effective_policy_observe'', ''hotness_state_hot''])
          | (ModeObserve, False) \<Rightarrow> (''observe'', ''continue_observing'', [''effective_policy_observe'', ''hotness_state_not_hot''])
          | (ModeCache, True) \<Rightarrow> (''cache'', ''no_change'', [''effective_policy_cache'', ''hotness_state_hot''])
          | (ModeCache, False) \<Rightarrow> (''cache'', ''no_change'', [''effective_policy_cache'', ''hotness_state_not_hot''])
          | (ModeDeny, _) \<Rightarrow> (''deny'', ''no_change'', [''effective_policy_deny''])))
      (ar_Entries r) (take (nat n) ranked) \<and>
    mset (map hs_Key ranked) = mset (map fst (t_items t)) \<and>
    ar_TrackedKeys r = int (length (t_items t)) \<and> ar_ReturnedEntries r = min n (int (length (t_items t))) \<and>
    (ar_Truncated r \<longleftrightarrow> n < int (length (t_items t))) \<and>
    (ar_TelemetryComplete r \<longleftrightarrow>
       int (length (t_items t)) \<le> n \<and> t_evictions t = 0 \<and> t_capacityDrops t = 0 \<and> t_oversizedObservationsDropped t = 0) \<and>
    (ar_TelemetryComplete r \<longrightarrow> mset (map ae_ID (ar_Entries r)) = mset (map (identifier \<circ> fst) (t_items t)))"
    (is "?entries \<and> ?keys \<and> ?tracked \<and> ?returned \<and> ?cut \<and> ?complete \<and> ?all")
proof -
  have up: "upholds cfg (\<lambda>_ _. True) (\<lambda>_. True) s" using svc_run_inv [OF assms(1) New_upholds] by simp
  have n: "normalizeAuditLimit limit = n" "1 \<le> n"
    by (simp_all add: n_def normalizeAuditLimit_def DefaultAuditLimit_def MaxAuditLimit_def)
  note A = audit_eff [OF up assms(2), folded ranked_def t_def, unfolded n(1)]
  have up': "upholds cfg (\<lambda>_ _. True) (\<lambda>_. True) s'" using Audit_upholds [OF up, of E limit] assms(2) by simp
  have id: "ae_ID (audit_entry_of E s' sn) = identifier (hs_Key sn)" for sn
    unfolding identifier_def by (rule audit_entry_fields(1) [OF up' refl])
  have entries: ?entries
    unfolding A(1) list_all2_map1 list_all2_same by (intro ballI conjI id audit_entry_fields(2-4) [OF up' refl])
  have len: "length ranked = length (t_items t)" using arg_cong [OF A(6), of size] by simp
  have returned: "ar_TrackedKeys r = int (length (t_items t))" "ar_ReturnedEntries r = min n (int (length (t_items t)))"
    using n(2) len by (auto simp: A(1-3) min_def)
  have counts: ?cut ?complete unfolding A(4,5) returned by (auto simp: min_def)
  have ?all
  proof
    assume "ar_TelemetryComplete r"
    then have "length ranked \<le> nat n" using counts(2) len n(2) by linarith
    then have "map ae_ID (ar_Entries r) = map identifier (map hs_Key ranked)" by (simp add: A(1) id comp_def)
    then have "mset (map ae_ID (ar_Entries r)) = image_mset identifier (mset (map fst (t_items t)))" using A(6) by (metis mset_map)
    then show "mset (map ae_ID (ar_Entries r)) = mset (map (identifier \<circ> fst) (t_items t))"
      by (simp add: image_mset.compositionality)
  qed
  with entries A(6) returned counts show ?thesis by (intro conjI)
qed

theorem audit_report_witness:
  "\<exists>s. svc_run mem_env mem_ops (mem_service ''cache'') = Some s \<and>
     (ar_TelemetryComplete (fst (Audit mem_env 0 s)) \<longleftrightarrow>
        int (length (t_items (sv_tracker (snd (Audit mem_env 0 s))))) \<le> 100 \<and> t_evictions (sv_tracker (snd (Audit mem_env 0 s))) = 0 \<and>
        t_capacityDrops (sv_tracker (snd (Audit mem_env 0 s))) = 0 \<and>
        t_oversizedObservationsDropped (sv_tracker (snd (Audit mem_env 0 s))) = 0)"
proof -
  obtain s where s: "svc_run mem_env mem_ops (mem_service ''cache'') = Some s" by (simp add: mem_ops_def)
  note report = audit_report [OF s [unfolded mem_service_def] prod.collapse [symmetric], of 0, THEN conjunct2, THEN conjunct2,
      THEN conjunct2, THEN conjunct2, THEN conjunct2, THEN conjunct1]
  show ?thesis using s report by (intro exI conjI) (assumption, simp only: order_refl if_True)
qed

end
