(* ===== verification/Proxy.thy ===== *)
theory Proxy
  imports ServiceOps Compatibility
begin

text \<open>
  The command handling of \<^verbatim>\<open>internal/proxy\<close>: \<^verbatim>\<open>commands.go\<close>, \<^verbatim>\<open>response.go\<close> and the request part of
  \<^verbatim>\<open>server.go\<close>. A client connection is what the server has called on the \<^verbatim>\<open>redcon\<close> connection so far,
  with the context value stored there; errors of closing it are logged only.
\<close>

section \<open>Connections\<close>

datatype conn_call =
  WriteError bytes | WriteString bytes | WriteBulk bytes | WriteBulkString bytes | WriteNull | WriteInt int |
  WriteInt64 int | WriteUint64 u64 | WriteArray nat | ReadPipeline | CloseConn

record connectionState =
  cs_dispatchStopped :: bool
  cs_metricCounted :: bool

record conn =
  cn_calls :: "conn_call list"
  cn_context :: "connectionState option"

definition emit :: "conn_call list \<Rightarrow> conn \<Rightarrow> conn" where
  "emit cs c = c\<lparr>cn_calls := cn_calls c @ cs\<rparr>"

definition dispatchStopped :: "conn \<Rightarrow> bool" where
  "dispatchStopped c = (case cn_context c of Some st \<Rightarrow> cs_dispatchStopped st | None \<Rightarrow> False)"

definition stopDispatch :: "conn \<Rightarrow> conn" where
  "stopDispatch c =
     (let st = (case cn_context c of Some st \<Rightarrow> st | None \<Rightarrow> \<lparr>cs_dispatchStopped = False, cs_metricCounted = False\<rparr>);
          c = c\<lparr>cn_context := Some st\<rparr>
      in if cs_dispatchStopped st then c
         else emit [ReadPipeline] (c\<lparr>cn_context := Some (st\<lparr>cs_dispatchStopped := True\<rparr>)\<rparr>))"

section \<open>Commands\<close>

record command =
  cmd_Raw :: bytes
  cmd_Args :: "bytes list"

record parsedCommand =
  pc_Name :: bytes
  pc_Args :: "bytes list"

definition ParseCommand :: "unicode \<Rightarrow> command \<Rightarrow> bytes + parsedCommand" where
  "ParseCommand u cmd =
     (case cmd_Args cmd of
        [] \<Rightarrow> Inl ''empty command''
      | name # _ \<Rightarrow> Inr \<lparr>pc_Name = ToUpper u name, pc_Args = cmd_Args cmd\<rparr>)"

definition wrongArity :: "unicode \<Rightarrow> bytes \<Rightarrow> bytes" where
  "wrongArity u name = ''ERR wrong number of arguments for '' @ [CHR 0x27] @ ToLower u name @ [CHR 0x27] @ '' command''"

definition unsupported :: "unicode \<Rightarrow> bytes \<Rightarrow> bytes" where
  "unsupported u name = ''ERR unsupported command '' @ [CHR 0x27] @ ToLower u name @ [CHR 0x27] @ '' in Slizen''"

definition rejectedUnsafe :: "unicode \<Rightarrow> bytes \<Rightarrow> bytes" where
  "rejectedUnsafe u name =
     ''ERR command '' @ [CHR 0x27] @ ToLower u name @ [CHR 0x27] @ '' is stateful or unsafe and is not supported by Slizen''"

definition rejectedSetGet :: bytes where
  "rejectedSetGet = ''ERR SET GET option is not supported by Slizen''"

definition rejectedMutation :: "unicode \<Rightarrow> bytes \<Rightarrow> bytes" where
  "rejectedMutation u name =
     ''ERR mutating command '' @ [CHR 0x27] @ ToLower u name @ [CHR 0x27] @ '' is not supported by Slizen''"

fun setUsesGetOption :: "unicode \<Rightarrow> bytes list \<Rightarrow> bool" where
  "setUsesGetOption u [] = False"
| "setUsesGetOption u (opt # options) =
     (let opt = ToUpper u opt in
      if opt = ''GET'' then True
      else if opt \<in> {''EX'', ''PX'', ''EXAT'', ''PXAT''} then setUsesGetOption u (drop 1 options)
      else setUsesGetOption u options)"

definition classifyNormalizedCommand :: "bytes \<Rightarrow> command_class" where
  "classifyNormalizedCommand name = ce_Class (LookupNormalized name)"

definition isUnsafeClass :: "command_class \<Rightarrow> bool" where
  "isUnsafeClass cls \<longleftrightarrow> cls = ClassRejectedStateful \<or> cls = ClassRejectedBlocking"

definition isRejectedMutationClass :: "command_class \<Rightarrow> bool" where
  "isRejectedMutationClass cls \<longleftrightarrow> cls = ClassRejectedMutation"

definition isBlockingClass :: "command_class \<Rightarrow> bool" where
  "isBlockingClass cls \<longleftrightarrow> cls = ClassRejectedBlocking"

definition isUnsafeCommand :: "bytes \<Rightarrow> bool" where
  "isUnsafeCommand name = isUnsafeClass (classifyNormalizedCommand name)"

definition isRejectedMutation :: "bytes \<Rightarrow> bool" where
  "isRejectedMutation name = isRejectedMutationClass (classifyNormalizedCommand name)"

definition isBlockingCommand :: "bytes \<Rightarrow> bool" where
  "isBlockingCommand name = isBlockingClass (classifyNormalizedCommand name)"

section \<open>Responses\<close>

fun writeAny :: "reply \<Rightarrow> conn_call list" where
  "writeAny ReplyNil = [WriteNull]"
| "writeAny (ReplyString v) = [WriteString v]"
| "writeAny (ReplyBytes v) = [WriteBulk v]"
| "writeAny (ReplyInt i) = [WriteInt i]"
| "writeAny (ReplyInt64 i) = [WriteInt64 i]"
| "writeAny (ReplyUint64 i) = [WriteUint64 i]"
| "writeAny (ReplyBool b) = [WriteInt (if b then 1 else 0)]"
| "writeAny (ReplyArray vs) = WriteArray (length vs) # concat (map writeAny vs)"
| "writeAny (ReplyOther s) = [WriteBulkString s]"

definition writeUpstreamError :: "conn_call list" where
  "writeUpstreamError = [WriteError ''ERR upstream request failed'']"

definition write_value :: "upstream_value \<Rightarrow> conn_call" where
  "write_value v = (if \<not> uv_Exists v then WriteNull else WriteBulk (uv_Data v))"

section \<open>Limits\<close>

fun args_exceed :: "int \<Rightarrow> bytes list \<Rightarrow> bool" where
  "args_exceed remaining [] = False"
| "args_exceed remaining (arg # args) =
     (if int (length arg) > remaining then True else args_exceed (remaining - int (length arg)) args)"

definition commandBytesExceed :: "command \<Rightarrow> int \<Rightarrow> bool" where
  "commandBytesExceed cmd maximum =
     (if length (cmd_Raw cmd) > 0 then int (length (cmd_Raw cmd)) > maximum
      else args_exceed maximum (cmd_Args cmd))"

definition commandLimitError :: "unicode \<Rightarrow> command \<Rightarrow> proxy_config \<Rightarrow> bytes" where
  "commandLimitError u cmd cfg =
     (if commandBytesExceed cmd (px_MaxCommandBytes cfg) then ''ERR command exceeds proxy.max_command_bytes''
      else if int (length (cmd_Args cmd)) > px_MaxCommandArgs cfg then ''ERR command exceeds proxy.max_command_args''
      else if length (cmd_Args cmd) > 0 \<and> EqualFold u (hd (cmd_Args cmd)) ''MGET'' \<and>
           int (length (cmd_Args cmd)) - 1 > px_MaxMGetKeys cfg
      then ''ERR MGET exceeds proxy.max_mget_keys''
      else [])"

section \<open>Handling a command\<close>

text \<open>
  What the scheduler decides for one request: the outcomes of \<^verbatim>\<open>Get\<close>'s selects, of the gate acquisitions
  of a write, and the time the request takes.
\<close>

record req_env =
  re_get :: get_env
  re_sel :: "nat \<Rightarrow> go_error option"
  re_elapsed :: duration

text \<open>The variables \<^verbatim>\<open>command\<close> and \<^verbatim>\<open>result\<close> of \<^verbatim>\<open>handle\<close> at the end, the connection and the service.\<close>

type_synonym 'w handled = "bytes \<times> bytes \<times> conn \<times> 'w service"

definition fail_with :: "bytes \<Rightarrow> bytes \<Rightarrow> conn \<Rightarrow> 'w service \<Rightarrow> 'w handled" where
  "fail_with command msg c s = (command, ''error'', emit [WriteError msg] c, s)"

definition answer_with :: "bytes \<Rightarrow> conn_call list \<Rightarrow> conn \<Rightarrow> 'w service \<Rightarrow> 'w handled" where
  "answer_with command calls c s = (command, ''ok'', emit calls c, s)"

definition write_result :: "bytes \<Rightarrow> conn \<Rightarrow> (go_error + reply) \<times> 'w service \<Rightarrow> 'w handled" where
  "write_result command c = (\<lambda>(r, s).
     case r of
       Inl _ \<Rightarrow> (command, ''error'', emit writeUpstreamError c, s)
     | Inr v \<Rightarrow> answer_with command (writeAny v) c s)"

definition handle_get :: "'w senv \<Rightarrow> req_env \<Rightarrow> command \<Rightarrow> conn \<Rightarrow> 'w service \<Rightarrow> 'w handled" where
  "handle_get E re cmd c s =
     (if length (cmd_Args cmd) \<noteq> 2 then fail_with ''GET'' (wrongArity (en_unicode E) ''GET'') c s
      else
        case Get_service E (re_get re) (cmd_Args cmd ! 1) s of
          (Inl _, s) \<Rightarrow> (''GET'', ''error'', emit writeUpstreamError c, s)
        | (Inr v, s) \<Rightarrow> answer_with ''GET'' [write_value v] c s)"

text \<open>The \<^verbatim>\<open>switch\<close>; \<open>None\<close> is a panic.\<close>

definition handle_command ::
  "'w senv \<Rightarrow> req_env \<Rightarrow> bytes \<Rightarrow> bytes list \<Rightarrow> conn \<Rightarrow> 'w service \<Rightarrow> 'w handled option"
where
  "handle_command E re command args c s =
     (let u = en_unicode E;
          arity = Some (fail_with command (wrongArity u command) c s);
          write = (\<lambda>keys. Some (write_result command c (ExecuteWrite E (re_sel re) command (tl args) keys s)))
      in if command = ''PING'' then
           if length args = 1 then Some (answer_with command [WriteString ''PONG''] c s)
           else if length args = 2 then Some (answer_with command [WriteBulkString (args ! 1)] c s)
           else arity
         else if command = ''QUIT'' then
           Some (answer_with command [WriteString ''OK'', CloseConn] (stopDispatch c) s)
         else if command = ''SELECT'' then
           if length args \<noteq> 2 then arity
           else if args ! 1 \<noteq> ''0''
           then Some (fail_with command ''ERR SELECT is supported only for database 0 in Slizen'' c s)
           else Some (answer_with command [WriteString ''OK''] c s)
         else if command = ''MGET'' then
           if length args < 2 then arity
           else
             (case MGet E (tl args) s of
                None \<Rightarrow> None
              | Some (Inl _, s) \<Rightarrow> Some (command, ''error'', emit writeUpstreamError c, s)
              | Some (Inr vs, s) \<Rightarrow> Some (answer_with command (WriteArray (length vs) # map write_value vs) c s))
         else if command = ''SET'' then
           if length args < 3 then arity
           else if setUsesGetOption u (drop 3 args) then Some (fail_with command rejectedSetGet c s)
           else write [args ! 1]
         else if command = ''SETEX'' \<or> command = ''PSETEX'' then
           if length args \<noteq> 4 then arity else write [args ! 1]
         else if command = ''DEL'' \<or> command = ''UNLINK'' then
           if length args < 2 then arity else write (tl args)
         else if command = ''EXPIRE'' \<or> command = ''PEXPIRE'' then
           if length args \<noteq> 3 then arity else write [args ! 1]
         else if command = ''PERSIST'' then
           if length args \<noteq> 2 then arity else write [args ! 1]
         else if command = ''TTL'' \<or> command = ''PTTL'' then
           if length args \<noteq> 2 then arity
           else Some (write_result command c (PassThrough E command (tl args) s))
         else if command = ''EXISTS'' then
           if length args < 2 then arity
           else Some (write_result command c (PassThrough E command (tl args) s))
         else Some (fail_with command (unsupported u (ToUpper u command)) c s))"

definition handle_request ::
  "'w senv \<Rightarrow> proxy_config \<Rightarrow> req_env \<Rightarrow> command \<Rightarrow> conn \<Rightarrow> 'w service \<Rightarrow> 'w handled option"
where
  "handle_request E cfg re cmd c s =
     (let u = en_unicode E; limitError = commandLimitError u cmd cfg in
      if limitError \<noteq> [] then
        Some (''UNKNOWN'', ''error'', emit [WriteError limitError, CloseConn] (stopDispatch c), s)
      else if length (cmd_Args cmd) > 0 \<and> EqualFold u (hd (cmd_Args cmd)) ''GET'' then Some (handle_get E re cmd c s)
      else case ParseCommand u cmd of
        Inl _ \<Rightarrow> Some (fail_with ''UNKNOWN'' ''ERR empty command'' c s)
      | Inr parsed \<Rightarrow>
          let command = pc_Name parsed; commandClass = classifyNormalizedCommand command in
          if isUnsafeClass commandClass then Some (fail_with command (rejectedUnsafe u command) c s)
          else if isRejectedMutationClass commandClass then Some (fail_with command (rejectedMutation u command) c s)
          else handle_command E re command (pc_Args parsed) c s)"

text \<open>The deferred function observes the request.\<close>

definition handle ::
  "'w senv \<Rightarrow> proxy_config \<Rightarrow> req_env \<Rightarrow> command \<Rightarrow> conn \<Rightarrow> 'w service \<Rightarrow> (conn \<times> 'w service) option"
where
  "handle E cfg re cmd c s =
     map_option (\<lambda>(command, result, c, s).
         (c, on_metrics (ObserveRequest (en_unicode E) command result (re_elapsed re)) s))
       (handle_request E cfg re cmd c s)"

end
