(* ===== verification/ProxyProps.thy ===== *)
theory ProxyProps
  imports Proxy ServiceProps
begin

text \<open>
  Properties of the command handling: framing of the replies, agreement of the handler with the command
  catalogue, and answers as seen by a client of the proxy.
\<close>

section \<open>Framing\<close>

text \<open>How many RESP values a call adds to the number still owed; an array owes its elements.\<close>

fun resp_elements :: "conn_call \<Rightarrow> nat option" where
  "resp_elements (WriteArray n) = Some n"
| "resp_elements ReadPipeline = None"
| "resp_elements CloseConn = None"
| "resp_elements _ = Some 0"

text \<open>\<open>Some m\<close>: the calls write part of \<open>n\<close> values and \<open>m\<close> are still owed; \<open>None\<close>: they write too much.\<close>

fun resp_owed :: "nat \<Rightarrow> conn_call list \<Rightarrow> nat option" where
  "resp_owed n [] = Some n"
| "resp_owed n (c # cs) =
     (case resp_elements c of
        None \<Rightarrow> resp_owed n cs
      | Some k \<Rightarrow> if n = 0 then None else resp_owed (n - 1 + k) cs)"

lemma resp_owed_append: "resp_owed n (xs @ ys) = (case resp_owed n xs of None \<Rightarrow> None | Some m \<Rightarrow> resp_owed m ys)"
  by (induction xs arbitrary: n) (auto split: option.splits)

lemma resp_owed_concat:
  "(\<And>x n. x \<in> set xs \<Longrightarrow> resp_owed (Suc n) (f x) = Some n) \<Longrightarrow> resp_owed (length xs + n) (concat (map f xs)) = Some n"
  by (induction xs arbitrary: n) (simp_all add: resp_owed_append)

lemma writeAny_owed: "resp_owed (Suc n) (writeAny v) = Some n"
proof (induction v arbitrary: n)
  case (ReplyArray vs)
  then show ?case using resp_owed_concat [of vs writeAny n] by (simp add: add.commute)
qed simp_all

lemma write_values_owed: "resp_owed (length vs) (map write_value vs) = Some 0"
  by (induction vs) (simp_all add: write_value_def)

definition replies_once :: "conn \<Rightarrow> conn \<Rightarrow> bool" where
  "replies_once c c' \<longleftrightarrow> (\<exists>calls. cn_calls c' = cn_calls c @ calls \<and> resp_owed 1 calls = Some 0)"

lemma replies_emit: "resp_owed (Suc 0) calls = Some 0 \<Longrightarrow> replies_once c (emit calls c)"
  by (auto simp: replies_once_def emit_def)

lemma replies_stop: "resp_owed (Suc 0) calls = Some 0 \<Longrightarrow> replies_once c (emit calls (stopDispatch c))"
  by (auto simp: replies_once_def emit_def stopDispatch_def Let_def split: option.splits)

lemma write_result_once: "replies_once c (fst (snd (snd (write_result command c rs))))"
  by (cases rs) (auto simp: write_result_def answer_with_def writeUpstreamError_def writeAny_owed split: sum.splits intro!: replies_emit)

lemma fail_once: "replies_once c (fst (snd (snd (fail_with command msg c s))))"
  by (auto simp: fail_with_def intro!: replies_emit)

lemma handle_get_once: "replies_once c (fst (snd (snd (handle_get E re cmd c s))))"
  by (auto simp: handle_get_def fail_once answer_with_def write_value_def writeUpstreamError_def
      split: prod.splits sum.splits intro!: replies_emit)

section \<open>What a handled command does\<close>

definition single_key_writes :: "bytes set" where
  "single_key_writes = {''SET'', ''SETEX'', ''PSETEX'', ''EXPIRE'', ''PEXPIRE'', ''PERSIST''}"

definition multi_key_writes :: "bytes set" where
  "multi_key_writes = {''DEL'', ''UNLINK''}"

definition pass_through_reads :: "bytes set" where
  "pass_through_reads = {''TTL'', ''PTTL'', ''EXISTS''}"

definition mget_outcome :: "bytes \<Rightarrow> conn \<Rightarrow> (go_error + upstream_value list) \<times> 'w service \<Rightarrow> 'w handled" where
  "mget_outcome command c = (\<lambda>(r, s).
     case r of
       Inl _ \<Rightarrow> (command, ''error'', emit writeUpstreamError c, s)
     | Inr vs \<Rightarrow> answer_with command (WriteArray (length vs) # map write_value vs) c s)"

lemma tl_key: "2 \<le> length args \<Longrightarrow> \<exists>rest. tl args = args ! 1 # rest"
  by (cases args; cases "tl args") auto

lemma handle_command_cases:
  assumes "handle_command E re command args c s = Some h"
  obtains (fail) msg where "h = fail_with command msg c s"
  | (local) calls c1 where "command \<in> {''PING'', ''QUIT'', ''SELECT''}" "h = answer_with command calls c1 s"
      "c1 = c \<or> c1 = stopDispatch c" "resp_owed (Suc 0) calls = Some 0"
  | (mget) r where "command = ''MGET''" "2 \<le> length args" "MGet E (tl args) s = Some r" "h = mget_outcome command c r"
  | (single) key rest where "command \<in> single_key_writes" "tl args = key # rest"
      "h = write_result command c (ExecuteWrite E (re_sel re) command (tl args) [key] s)"
  | (multi) "command \<in> multi_key_writes" "h = write_result command c (ExecuteWrite E (re_sel re) command (tl args) (tl args) s)"
  | (pass) "command \<in> pass_through_reads" "h = write_result command c (PassThrough E command (tl args) s)"
proof -
  define arity where "arity = fail_with command (wrongArity (en_unicode E) command) c s"
  note run = assms [unfolded handle_command_def Let_def, folded arity_def]
  have arity: thesis if "h = arity" using that fail arity_def by blast
  have single_write: thesis if "command \<in> single_key_writes" "2 \<le> length args"
    "h = write_result command c (ExecuteWrite E (re_sel re) command (tl args) [args ! 1] s)"
    using single [OF that(1)] tl_key [OF that(2)] that(3) by blast
  consider (ping) "command = ''PING''" | (quit) "command = ''QUIT''" | (select) "command = ''SELECT''"
    | (mget) "command = ''MGET''" | (single) "command \<in> single_key_writes" | (multi) "command \<in> multi_key_writes"
    | (pass) "command \<in> pass_through_reads"
    | (other) "command \<notin> {''PING'', ''QUIT'', ''SELECT'', ''MGET''} \<union> single_key_writes \<union> multi_key_writes \<union> pass_through_reads"
    by blast
  then show thesis
  proof cases
    case ping
    then show ?thesis using run arity local [of "[WriteString ''PONG'']" c] local [of "[WriteBulkString (args ! 1)]" c]
      by (auto split: if_splits)
  next
    case quit
    then show ?thesis using run local [of "[WriteString ''OK'', CloseConn]" "stopDispatch c"] by simp
  next
    case select
    then show ?thesis using run arity fail local [of "[WriteString ''OK'']" c] by (auto split: if_splits)
  next
    case mget
    show ?thesis
    proof (cases "length args < 2")
      case True
      then show ?thesis using run arity mget by simp
    next
      case False
      with mget run obtain r where "MGet E (tl args) s = Some r" "h = mget_outcome command c r"
        by (auto simp: mget_outcome_def split: option.splits prod.splits sum.splits)
      with False mget show ?thesis using that(3) by simp
    qed
  next
    case single
    then show ?thesis using run arity fail single_write by (auto simp: single_key_writes_def split: if_splits)
  next
    case multi
    then show ?thesis using run arity that(5) by (auto simp: multi_key_writes_def split: if_splits)
  next
    case pass
    then show ?thesis using run arity that(6) by (auto simp: pass_through_reads_def split: if_splits)
  next
    case other
    then show ?thesis using run fail
      by (auto simp: single_key_writes_def multi_key_writes_def pass_through_reads_def)
  qed
qed
lemma mget_outcome_once: "replies_once c (fst (snd (snd (mget_outcome command c r))))"
  by (cases r) (auto simp: mget_outcome_def answer_with_def writeUpstreamError_def write_values_owed split: sum.splits
      intro!: replies_emit)

lemma handle_command_once:
  assumes "handle_command E re command args c s = Some h"
  shows "replies_once c (fst (snd (snd h)))"
  using assms
proof (cases rule: handle_command_cases)
  case (local calls c1)
  then show ?thesis by (auto simp: answer_with_def intro: replies_emit replies_stop)
qed (simp_all add: fail_once write_result_once mget_outcome_once)

lemma handle_request_once:
  assumes "handle_request E cfg re cmd c s = Some h"
  shows "replies_once c (fst (snd (snd h)))"
proof -
  have "h = (command, ''error'', emit [WriteError m, CloseConn] (stopDispatch c), s) \<Longrightarrow> ?thesis" for command m
    using replies_stop [of "[WriteError m, CloseConn]" c] by simp
  then show ?thesis
    using assms handle_get_once [of c E re cmd s] fail_once [of c _ _ s] handle_command_once [of E re _ _ c s h]
    unfolding handle_request_def Let_def by (auto split: if_splits sum.splits)
qed

text \<open>
  C38: Whatever a client sends and however the upstream answers, handling one command appends exactly one
  complete RESP value to the connection, nested arrays included, so pipelined replies stay aligned with
  their commands.
\<close>

theorem handle_one_reply:
  "case handle E cfg re cmd c s of
     None \<Rightarrow> True
   | Some (c', s') \<Rightarrow> \<exists>calls. cn_calls c' = cn_calls c @ calls \<and> resp_owed 1 calls = Some 0"
  using handle_request_once [of E cfg re cmd c s]
  by (auto simp: handle_def replies_once_def split: option.splits)

section \<open>The handler and the catalogue\<close>

definition handler_class :: "bytes \<Rightarrow> command_class option" where
  "handler_class name =
     (if name \<in> {''PING'', ''QUIT'', ''SELECT''} then Some ClassLocal
      else if name \<in> {''GET'', ''MGET''} then Some ClassRead
      else if name \<in> single_key_writes \<union> multi_key_writes then Some ClassWrite
      else if name \<in> pass_through_reads then Some ClassPassThrough
      else None)"

lemma catalog_table:
  "map (\<lambda>e. (ce_Command e, ce_Class e, ce_Compatible e)) commandCatalog =
     [(''BLMOVE'', ClassRejectedBlocking, False), (''BLPOP'', ClassRejectedBlocking, False), (''BRPOP'',
      ClassRejectedBlocking, False), (''BRPOPLPUSH'', ClassRejectedBlocking, False), (''BZPOPMAX'',
      ClassRejectedBlocking, False), (''BZPOPMIN'', ClassRejectedBlocking, False), (''DEL'', ClassWrite, True),
      (''EXEC'', ClassRejectedStateful, False), (''EXISTS'', ClassPassThrough, True), (''EXPIRE'', ClassWrite,
      True), (''GET'', ClassRead, True), (''HDEL'', ClassRejectedMutation, False), (''HSET'', ClassRejectedMutation,
      False), (''LPOP'', ClassRejectedMutation, False), (''LPUSH'', ClassRejectedMutation, False), (''MGET'',
      ClassRead, True), (''MONITOR'', ClassRejectedStateful, False), (''MSET'', ClassRejectedMutation, False),
      (''MULTI'', ClassRejectedStateful, False), (''PERSIST'', ClassWrite, True), (''PEXPIRE'', ClassWrite, True),
      (''PING'', ClassLocal, True), (''PSETEX'', ClassWrite, True), (''PSUBSCRIBE'', ClassRejectedStateful, False),
      (''PTTL'', ClassPassThrough, True), (''QUIT'', ClassLocal, True), (''RENAME'', ClassRejectedMutation, False),
      (''RPOP'', ClassRejectedMutation, False), (''RPUSH'', ClassRejectedMutation, False), (''SADD'',
      ClassRejectedMutation, False), (''SELECT'', ClassLocal, True), (''SET'', ClassWrite, True), (''SETEX'',
      ClassWrite, True), (''SREM'', ClassRejectedMutation, False), (''SSUBSCRIBE'', ClassRejectedStateful, False),
      (''SUBSCRIBE'', ClassRejectedStateful, False), (''TTL'', ClassPassThrough, True), (''UNLINK'', ClassWrite,
      True), (''UNWATCH'', ClassRejectedStateful, False), (''WATCH'', ClassRejectedStateful, False), (''XREAD'',
      ClassRejectedBlocking, False), (''XREADGROUP'', ClassRejectedBlocking, False)]"
  by (simp add: catalog_entry_defs)

lemma catalog_all:
  "list_all (\<lambda>(name, cls, ok). P name cls ok) (map (\<lambda>e. (ce_Command e, ce_Class e, ce_Compatible e)) commandCatalog) \<longleftrightarrow>
   list_all (\<lambda>e. P (ce_Command e) (ce_Class e) (ce_Compatible e)) commandCatalog"
  by (simp add: list_all_iff)

lemma find_command:
  "find (\<lambda>e. ce_Command e = name) commandCatalog \<noteq> None \<longleftrightarrow> name \<in> set (map ce_Command commandCatalog)"
  by (auto simp: find_None_iff)

lemma find_entry:
  assumes "find (\<lambda>e. ce_Command e = name) commandCatalog = Some e"
  shows "e \<in> set commandCatalog" "ce_Command e = name" "LookupNormalized name = e"
proof -
  show "e \<in> set commandCatalog" "ce_Command e = name" using assms by (auto simp: find_Some_iff)
  show "LookupNormalized name = e" using assms by (simp add: lookup_by_find)
qed

lemma catalog_handled:
  "list_all (\<lambda>e. case handler_class (ce_Command e) of
       Some cls \<Rightarrow> ce_Class e = cls \<and> ce_Compatible e
     | None \<Rightarrow> \<not> ce_Compatible e) commandCatalog"
  unfolding catalog_all [symmetric, of "\<lambda>name cls ok. case handler_class name of Some c \<Rightarrow> cls = c \<and> ok | None \<Rightarrow> \<not> ok"] catalog_table
  by (simp add: handler_class_def single_key_writes_def multi_key_writes_def pass_through_reads_def)

lemma handled_listed: "handler_class name \<noteq> None \<Longrightarrow> find (\<lambda>e. ce_Command e = name) commandCatalog \<noteq> None"
  unfolding find_command catalog_commands
  by (auto simp: handler_class_def single_key_writes_def multi_key_writes_def pass_through_reads_def split: if_splits)

text \<open>The catalogue marks as compatible exactly the commands the handler implements, with the class of their handling.\<close>

lemma lookup_handler:
  "case handler_class name of
     Some cls \<Rightarrow> ce_Class (LookupNormalized name) = cls \<and> ce_Compatible (LookupNormalized name)
   | None \<Rightarrow> \<not> ce_Compatible (LookupNormalized name)"
proof (cases "find (\<lambda>e. ce_Command e = name) commandCatalog")
  case None
  have "handler_class name = None" using None handled_listed by blast
  with None show ?thesis by (simp add: lookup_by_find unsupported_entry_def)
next
  case (Some e)
  note e = find_entry [OF Some]
  from catalog_handled e(1) show ?thesis unfolding e(3) list_all_iff by (metis e(2))
qed

lemma lookup_local: "ce_Class (LookupNormalized name) = ClassLocal \<longleftrightarrow> name \<in> {''PING'', ''QUIT'', ''SELECT''}"
proof (cases "find (\<lambda>e. ce_Command e = name) commandCatalog")
  case None
  then have "handler_class name = None" using handled_listed by blast
  with None show ?thesis by (auto simp: lookup_by_find unsupported_entry_def handler_class_def)
next
  case (Some e)
  have "list_all (\<lambda>e. (ce_Class e = ClassLocal) = (ce_Command e \<in> {''PING'', ''QUIT'', ''SELECT''})) commandCatalog"
    unfolding catalog_all [symmetric, of "\<lambda>name cls ok. (cls = ClassLocal) = (name \<in> {''PING'', ''QUIT'', ''SELECT''})"] catalog_table
    by simp
  with find_entry(1) [OF Some] show ?thesis
    unfolding find_entry(3) [OF Some] list_all_iff by (metis find_entry(2) [OF Some])
qed

lemma handle_incompatible:
  assumes "\<not> ce_Compatible (LookupNormalized command)"
  shows "handle_command E re command args c s = Some (fail_with command (unsupported (en_unicode E) (ToUpper (en_unicode E) command)) c s)"
proof -
  have "handler_class command = None" using lookup_handler [of command] assms by (auto split: option.splits)
  then show ?thesis
    by (auto simp: handle_command_def handler_class_def single_key_writes_def multi_key_writes_def pass_through_reads_def
        Let_def split: if_splits)
qed

lemma handle_local:
  assumes "command \<in> {''PING'', ''QUIT'', ''SELECT''}"
  obtains res c' where "handle_command E re command args c s = Some (command, res, c', s)"
proof -
  have "case handle_command E re command args c s of None \<Rightarrow> False | Some (command', res, c', s') \<Rightarrow> command' = command \<and> s' = s"
    using assms by (elim insertE emptyE) (simp_all add: handle_command_def Let_def answer_with_def fail_with_def)
  then show thesis using that by (auto split: option.splits)
qed

text \<open>
  C37: Commands outside the contract never reach the service. For every command within the limits that is
  not GET, if the catalogue calls it incompatible (rejected or unknown), the handler writes one error and
  touches nothing but the request metrics, so neither the cache nor the upstream sees it; if the
  catalogue calls it local, the service is not touched either.
\<close>

theorem handle_contract:
  assumes "cmd_Args cmd = name # rest" "commandLimitError (en_unicode E) cmd cfg = []"
    "\<not> EqualFold (en_unicode E) name ''GET''"
  defines "command \<equiv> ToUpper (en_unicode E) name"
  shows "(\<not> ce_Compatible (LookupNormalized command) \<longrightarrow>
      (\<exists>msg. handle E cfg re cmd c s =
         Some (emit [WriteError msg] c, on_metrics (ObserveRequest (en_unicode E) command ''error'' (re_elapsed re)) s))) \<and>
    (ce_Class (LookupNormalized command) = ClassLocal \<longrightarrow>
      (\<exists>c' res. handle E cfg re cmd c s =
         Some (c', on_metrics (ObserveRequest (en_unicode E) command res (re_elapsed re)) s)))"
proof -
  have r: "handle_request E cfg re cmd c s =
      (if isUnsafeClass (classifyNormalizedCommand command) then Some (fail_with command (rejectedUnsafe (en_unicode E) command) c s)
       else if isRejectedMutationClass (classifyNormalizedCommand command)
       then Some (fail_with command (rejectedMutation (en_unicode E) command) c s)
       else handle_command E re command (name # rest) c s)"
    using assms by (simp add: handle_request_def ParseCommand_def Let_def)
  have "\<exists>msg. handle E cfg re cmd c s =
      Some (emit [WriteError msg] c, on_metrics (ObserveRequest (en_unicode E) command ''error'' (re_elapsed re)) s)"
    if "\<not> ce_Compatible (LookupNormalized command)"
    using handle_incompatible [OF that, of E re "name # rest" c s] r by (auto simp: handle_def fail_with_def)
  moreover have "\<exists>c' res. handle E cfg re cmd c s =
      Some (c', on_metrics (ObserveRequest (en_unicode E) command res (re_elapsed re)) s)"
    if "ce_Class (LookupNormalized command) = ClassLocal"
  proof -
    from that have "command \<in> {''PING'', ''QUIT'', ''SELECT''}" by (simp add: lookup_local)
    then obtain res c' where "handle_command E re command (name # rest) c s = Some (command, res, c', s)"
      by (rule handle_local)
    with r that show ?thesis
      by (auto simp: handle_def classifyNormalizedCommand_def isUnsafeClass_def isRejectedMutationClass_def)
  qed
  ultimately show ?thesis by blast
qed
theorem handle_contract_witness:
  "\<not> ce_Compatible (LookupNormalized ''BLPOP'') \<and>
   (\<exists>msg. handle mem_env (cf_Proxy (mem_config ''cache'')) \<lparr>re_get = lead, re_sel = (\<lambda>_. None), re_elapsed = 1\<rparr>
       \<lparr>cmd_Raw = [], cmd_Args = [''BLPOP'', ''k'']\<rparr> \<lparr>cn_calls = [], cn_context = None\<rparr> (mem_service ''cache'') =
     Some (emit [WriteError msg] \<lparr>cn_calls = [], cn_context = None\<rparr>,
       on_metrics (ObserveRequest (en_unicode mem_env) ''BLPOP'' ''error'' 1) (mem_service ''cache'')))"
proof -
  let ?cmd = "\<lparr>cmd_Raw = [], cmd_Args = [''BLPOP'', ''k'']\<rparr>"
  have "commandLimitError (en_unicode mem_env) ?cmd (cf_Proxy (mem_config ''cache'')) = []"
    "\<not> EqualFold (en_unicode mem_env) ''BLPOP'' ''GET''" "ToUpper (en_unicode mem_env) ''BLPOP'' = ''BLPOP''"
    by code_simp+
  moreover have "\<not> ce_Compatible (LookupNormalized ''BLPOP'')"
    using lookup_handler [of "''BLPOP''"]
    by (simp add: handler_class_def single_key_writes_def multi_key_writes_def pass_through_reads_def)
  ultimately show ?thesis using handle_contract [of ?cmd "''BLPOP''" "[''k'']" mem_env "cf_Proxy (mem_config ''cache'')"
      "\<lparr>re_get = lead, re_sel = (\<lambda>_. None), re_elapsed = 1\<rparr>" "\<lparr>cn_calls = [], cn_context = None\<rparr>" "mem_service ''cache''"]
    by simp
qed

end
