(* ===== verification/ProxyRuns.thy ===== *)
theory ProxyRuns
  imports ProxyProps
begin

text \<open>
  Sequences of client commands through the proxy, in front of a Redis store whose keys may expire at
  any time: what GET and MGET answer, when go-redis and the upstream do what they document.
\<close>

section \<open>A store with expiry\<close>

text \<open>
  The upstream is seen through two functions of its state: \<open>db w k\<close> is the value a read of \<open>k\<close> finds, if
  any, and \<open>kept w k\<close> the value the last write left for \<open>k\<close>, whether or not its lifetime has ended since.
  A key without a live value may thus still have a kept one; a live value is always the kept one, and the
  passage of time (\<open>age\<close>, for \<open>d\<close> nanoseconds) can only end lifetimes.
\<close>

definition redis_expiry :: "(nat \<Rightarrow> 'w \<Rightarrow> 'w) \<Rightarrow> ('w \<Rightarrow> bytes \<Rightarrow> bytes option) \<Rightarrow> ('w \<Rightarrow> bytes \<Rightarrow> bytes option) \<Rightarrow> bool" where
  "redis_expiry age db kept \<longleftrightarrow> (\<forall>w k. db w k = None \<or> db w k = kept w k) \<and>
     (\<forall>d w. kept (age d w) = kept w \<and> (\<forall>k. db (age d w) k = db w k \<or> db (age d w) k = None))"

text \<open>
  The pipelines of \<^verbatim>\<open>Get\<close> and \<^verbatim>\<open>MGet\<close> change nothing. A nil reply is given for a key without a live value
  only, and so is the PTTL reply -2; a string reply is the kept value, which may have expired since it
  was read, as a pipeline is not atomic. MGET answers one string or nil per key, and every key has its
  own PTTL command. Any of them may fail with an error instead.
\<close>

definition redis_reads :: "'w goredis \<Rightarrow> ('w \<Rightarrow> bytes \<Rightarrow> bytes option) \<Rightarrow> ('w \<Rightarrow> bytes \<Rightarrow> bytes option) \<Rightarrow> bool" where
  "redis_reads g db kept \<longleftrightarrow>
     (\<forall>k w execErr get pttl w'. gr_GetPTTL g k w = ((execErr, get, pttl), w') \<longrightarrow>
        db w' = db w \<and> kept w' = kept w \<and> (get = Inl RedisNil \<longrightarrow> db w k = None) \<and>
        (\<forall>v. get = Inr v \<longrightarrow> kept w k = Some v \<and> (pttl = Inr redisPTTLMissing \<longrightarrow> db w k = None))) \<and>
     (\<forall>ks w execErr mget ttls w'. gr_MGetPTTL g ks w = ((execErr, mget, ttls), w') \<longrightarrow>
        db w' = db w \<and> kept w' = kept w \<and> length ttls = length ks \<and>
        (mget = Inl RedisNil \<longrightarrow> (\<forall>k \<in> set ks. db w k = None)) \<and>
        (\<forall>raw. mget = Inr raw \<longrightarrow> length raw = length ks \<and>
           (\<forall>i < length ks. raw ! i = ReplyNil \<and> db w (ks ! i) = None \<or>
              (\<exists>v. raw ! i = ReplyString v \<and> kept w (ks ! i) = Some v \<and>
                 (ttls ! i = redisPTTLMissing \<longrightarrow> db w (ks ! i) = None)))))"

text \<open>
  The forwarded commands: whether they succeed or fail, single-key writes change their key only, DEL and
  UNLINK the keys they name, TTL, PTTL and EXISTS nothing; \<^verbatim>\<open>SET key value\<close> answered with OK sets the key,
  and an answered DEL or UNLINK leaves nothing of its keys.
\<close>

definition redis_writes :: "unicode \<Rightarrow> 'w goredis \<Rightarrow> ('w \<Rightarrow> bytes \<Rightarrow> bytes option) \<Rightarrow> ('w \<Rightarrow> bytes \<Rightarrow> bytes option) \<Rightarrow> bool" where
  "redis_writes u g db kept \<longleftrightarrow>
     (\<forall>command args w r w'. gr_Do g (command # args) w = (r, w') \<longrightarrow>
        (command \<in> single_key_writes \<longrightarrow> (\<forall>k. args \<noteq> [] \<longrightarrow> k \<noteq> hd args \<longrightarrow> db w' k = db w k \<and> kept w' k = kept w k)) \<and>
        (command \<in> multi_key_writes \<longrightarrow> (\<forall>k. k \<notin> set args \<longrightarrow> db w' k = db w k \<and> kept w' k = kept w k)) \<and>
        (command \<in> pass_through_reads \<longrightarrow> db w' = db w \<and> kept w' = kept w) \<and>
        (\<forall>key v st. command = ''SET'' \<longrightarrow> args = [key, v] \<longrightarrow> r = Inr (ReplyString st) \<longrightarrow>
           EqualFold u st ''OK'' \<longrightarrow> db w' key = Some v) \<and>
        (\<forall>n. command \<in> multi_key_writes \<longrightarrow> r = Inr (ReplyInt64 n) \<longrightarrow> (\<forall>k \<in> set args. kept w' k = None)))"

definition redis_laws ::
  "'w senv \<Rightarrow> 'w goredis \<Rightarrow> (nat \<Rightarrow> 'w \<Rightarrow> 'w) \<Rightarrow> ('w \<Rightarrow> bytes \<Rightarrow> bytes option) \<Rightarrow> ('w \<Rightarrow> bytes \<Rightarrow> bytes option) \<Rightarrow> bool"
where
  "redis_laws E g age db kept \<longleftrightarrow> en_client E = RedisClient g \<and> redis_reads g db kept \<and>
     redis_writes (en_unicode E) g db kept \<and> redis_expiry age db kept"

text \<open>
  Clients send requests, and between two of them time passes at the store. A request makes at most one
  upstream call, so an expiry while it runs is one just before or just after the call.
\<close>

datatype proxy_event = Request req_env command conn | Elapse nat

fun proxy_run :: "'w senv \<Rightarrow> proxy_config \<Rightarrow> (nat \<Rightarrow> 'w \<Rightarrow> 'w) \<Rightarrow> proxy_event list \<Rightarrow> 'w service \<Rightarrow> 'w service option" where
  "proxy_run E cfg age [] s = Some s"
| "proxy_run E cfg age (Request re cmd c # evs) s =
     (case handle E cfg re cmd c s of None \<Rightarrow> None | Some (_, s') \<Rightarrow> proxy_run E cfg age evs s')"
| "proxy_run E cfg age (Elapse d # evs) s = proxy_run E cfg age evs (s\<lparr>sv_world := age d (sv_world s)\<rparr>)"

fun leads :: "proxy_event \<Rightarrow> bool" where
  "leads (Request re cmd c) = (ge_joined (re_get re) = None)"
| "leads (Elapse d) = True"

text \<open>What a read may answer: the live value, or the kept one of a key that has none.\<close>

definition current :: "(bytes \<Rightarrow> bytes option) \<Rightarrow> (bytes \<Rightarrow> bytes option) \<Rightarrow> bytes \<Rightarrow> bytes option \<Rightarrow> bool" where
  "current live last_written k x \<longleftrightarrow> x = live k \<or> live k = None \<and> x = last_written k"

section \<open>The Redis client\<close>

lemma redis_Get_current:
  assumes "redis_laws E g age db kept" "cl_Get (en_client E) k w = (r, w')"
  shows "db w' = db w \<and> kept w' = kept w \<and> (\<forall>v. r = Inr v \<longrightarrow> current (db w) (kept w) k (answer v))"
proof -
  obtain execErr got pttl where 1: "gr_GetPTTL g k w = ((execErr, got, pttl), w')" "r = get_result execErr got pttl"
    using assms by (auto simp: redis_laws_def RedisClient_def redis_Get_def split: prod.splits)
  have laws: "db w' = db w" "kept w' = kept w" "got = Inl RedisNil \<Longrightarrow> db w k = None"
    "got = Inr x \<Longrightarrow> kept w k = Some x" "got = Inr x \<Longrightarrow> pttl = Inr redisPTTLMissing \<Longrightarrow> db w k = None" for x
    using assms(1) 1(1) unfolding redis_laws_def redis_reads_def by blast+
  have live: "db w k = None \<or> db w k = kept w k" using assms(1) unfolding redis_laws_def redis_expiry_def by blast
  show ?thesis
    using 1(2) laws live
    by (cases got; cases pttl) (auto simp: get_result_def current_def answer_def no_value_def split: option.splits if_splits)
qed

lemma mget_value_current:
  assumes "db k = None \<or> db k = kept k"
    "item = ReplyNil \<and> db k = None \<or> (\<exists>v. item = ReplyString v \<and> kept k = Some v \<and> (ttl = redisPTTLMissing \<longrightarrow> db k = None))"
  shows "current db kept k (answer (mget_value item ttl))"
  using assms by (auto simp: current_def mget_value_def answer_def no_value_def item_data_def)

lemma redis_MGet_current:
  assumes "redis_laws E g age db kept" "cl_MGet (en_client E) ks w = (r, w')"
  shows "db w' = db w \<and> kept w' = kept w \<and> (\<exists>x. r = Some x \<and>
    (\<forall>vs. x = Inr vs \<longrightarrow> length vs = length ks \<and> (\<forall>i < length ks. current (db w) (kept w) (ks ! i) (answer (vs ! i)))))"
proof (cases "ks = []")
  case True
  then show ?thesis using assms by (auto simp: redis_laws_def RedisClient_def redis_MGet_def)
next
  case False
  then obtain execErr mget ttls where 1: "gr_MGetPTTL g ks w = ((execErr, mget, ttls), w')" "r = mget_result (length ks) execErr mget ttls"
    using assms by (auto simp: redis_laws_def RedisClient_def redis_MGet_def split: prod.splits)
  note R = assms(1) [unfolded redis_laws_def redis_reads_def, THEN conjunct2, THEN conjunct1, THEN conjunct2, THEN spec, THEN spec,
      THEN spec, THEN spec, THEN spec, THEN spec, THEN mp, OF 1(1)]
  have laws: "db w' = db w" "kept w' = kept w" "length ttls = length ks" "mget = Inl RedisNil \<Longrightarrow> \<forall>k \<in> set ks. db w k = None"
    "mget = Inr raw \<Longrightarrow> length raw = length ks \<and> (\<forall>i < length ks. raw ! i = ReplyNil \<and> db w (ks ! i) = None \<or>
       (\<exists>v. raw ! i = ReplyString v \<and> kept w (ks ! i) = Some v \<and> (ttls ! i = redisPTTLMissing \<longrightarrow> db w (ks ! i) = None)))" for raw
    using R by blast+
  have live: "db w k = None \<or> db w k = kept w k" for k using assms(1) unfolding redis_laws_def redis_expiry_def by blast
  show ?thesis
  proof (cases mget)
    case (Inl e)
    then show ?thesis using 1(2) laws(1,2,4) by (auto simp: mget_result_def current_def answer_def no_value_def)
  next
    case (Inr raw)
    note items = laws(5) [OF Inr]
    have "current (db w) (kept w) (ks ! i) (answer (mget_value (raw ! i) (ttls ! i)))" if "i < length ks" for i
      using mget_value_current [of "db w" "ks ! i" "kept w"] live [of "ks ! i"] items that by blast
    then show ?thesis using 1(2) Inr laws(1-3) items by (auto simp: mget_result_def)
  qed
qed

lemma redis_reads_ok:
  assumes "redis_laws E g age db kept"
  shows "reads_ok E (\<lambda>w. db w = d \<and> kept w = m) (current d m)" "mget_exact E R"
proof -
  show "reads_ok E (\<lambda>w. db w = d \<and> kept w = m) (current d m)"
    unfolding reads_ok_def using redis_Get_current [OF assms] redis_MGet_current [OF assms] by fastforce
  show "mget_exact E R" unfolding mget_exact_def using redis_MGet_current [OF assms] by blast
qed

lemma redis_Do_laws:
  assumes "redis_laws E g age db kept" "cl_Do (en_client E) (command # args) w = (r, w')"
  shows "command \<in> single_key_writes \<Longrightarrow> args \<noteq> [] \<Longrightarrow> k \<noteq> hd args \<Longrightarrow> db w' k = db w k \<and> kept w' k = kept w k"
    "command \<in> multi_key_writes \<Longrightarrow> k \<notin> set args \<Longrightarrow> db w' k = db w k \<and> kept w' k = kept w k"
    "command \<in> pass_through_reads \<Longrightarrow> db w' = db w \<and> kept w' = kept w"
    "command = ''SET'' \<Longrightarrow> args = [key, v] \<Longrightarrow> r = Inr (ReplyString st) \<Longrightarrow> EqualFold (en_unicode E) st ''OK'' \<Longrightarrow> db w' key = Some v"
proof -
  obtain x where 1: "gr_Do g (command # args) w = (x, w')" "r = Inr (ReplyString st) \<Longrightarrow> x = Inr (ReplyString st)"
    using assms by (auto simp: redis_laws_def RedisClient_def redis_Do_def split: prod.splits sum.splits if_splits)
  have W: "redis_writes (en_unicode E) g db kept" using assms(1) by (simp add: redis_laws_def)
  note W = W [unfolded redis_writes_def, rule_format, OF 1(1)]
  show "command \<in> single_key_writes \<Longrightarrow> args \<noteq> [] \<Longrightarrow> k \<noteq> hd args \<Longrightarrow> db w' k = db w k \<and> kept w' k = kept w k"
    "command \<in> multi_key_writes \<Longrightarrow> k \<notin> set args \<Longrightarrow> db w' k = db w k \<and> kept w' k = kept w k"
    "command \<in> pass_through_reads \<Longrightarrow> db w' = db w \<and> kept w' = kept w"
    "command = ''SET'' \<Longrightarrow> args = [key, v] \<Longrightarrow> r = Inr (ReplyString st) \<Longrightarrow> EqualFold (en_unicode E) st ''OK'' \<Longrightarrow> db w' key = Some v"
    using W 1(2) by blast+
qed

section \<open>No panic\<close>

lemma mget_fill_total: "length vs \<le> length reads \<Longrightarrow> mget_fill E vs reads st \<noteq> None"
  by (induction E vs reads st rule: mget_fill.induct) (simp_all split: prod.splits)

lemma MGet_total:
  assumes "redis_laws E g age db kept"
  shows "MGet E keys s \<noteq> None"
proof -
  have law: "\<exists>r. cl_MGet (en_client E) ks w = (Some r, w') \<and> (\<forall>vs. r = Inr vs \<longrightarrow> length vs = length ks)"
    if "cl_MGet (en_client E) ks w = (x, w')" for ks w x w'
    using redis_MGet_current [OF assms that] that by auto
  obtain out missing s1 where 1: "mget_scan E 0 keys (replicate (length keys) no_value, [], s) = (out, missing, s1)"
    by (rule prod_cases3)
  obtain x w' where 2: "cl_MGet (en_client E) (map mr_key missing) (sv_world s1) = (x, w')" by (rule prod.exhaust)
  from law [OF 2] 2 obtain r where r: "x = Some r" "\<And>vs. r = Inr vs \<Longrightarrow> length vs = length missing" by auto
  show ?thesis
  proof (cases r)
    case (Inl e)
    then show ?thesis using 1 2 r by (simp add: MGet_def Now_def Let_def split: prod.splits)
  next
    case (Inr vs)
    have fill: "(mget_fill E vs missing st = None) = False" for st
      using r(2) [OF Inr] mget_fill_total [of vs missing E st] by simp
    show ?thesis using 1 2 r(1) Inr by (auto simp: MGet_def Now_def Let_def fill split: option.splits)
  qed
qed

lemma if_None: "((if b then x else y) = None) = (if b then x = None else y = None)"
  by simp

lemma handle_command_total:
  assumes "redis_laws E g age db kept"
  shows "handle_command E re command args c s \<noteq> None"
proof (cases "command = ''MGET''")
  case True
  obtain r s' where "MGet E (tl args) s = Some (r, s')" using MGet_total [OF assms] by (metis option.exhaust prod.exhaust)
  then show ?thesis unfolding handle_command_def Let_def True if_None by (simp split: sum.split del: not_None_eq)
next
  case False
  then show ?thesis unfolding handle_command_def Let_def if_None by simp
qed

lemma handle_total:
  assumes "redis_laws E g age db kept"
  shows "handle E cfg re cmd c s \<noteq> None"
proof -
  have "handle_request E cfg re cmd c s \<noteq> None"
    unfolding handle_request_def Let_def if_None
    by (cases "ParseCommand (en_unicode E) cmd") (simp_all add: handle_command_total [OF assms] del: not_None_eq)
  then show ?thesis by (auto simp: handle_def)
qed

section \<open>The invariant of a run\<close>

definition settled ::
  "config \<Rightarrow> ('w \<Rightarrow> bytes \<Rightarrow> bytes option) \<Rightarrow> ('w \<Rightarrow> bytes \<Rightarrow> bytes option) \<Rightarrow> 'w service \<Rightarrow> bool"
where
  "settled cfg db kept s \<longleftrightarrow> upholds cfg (current (db (sv_world s)) (kept (sv_world s)))
     (\<lambda>w. db w = db (sv_world s) \<and> kept w = kept (sv_world s)) s"

lemma upholds_settled: "upholds cfg (current d m) (\<lambda>w. db w = d \<and> kept w = m) s \<Longrightarrow> settled cfg db kept s"
  by (auto simp: settled_def upholds_def)

lemma settledD:
  "settled cfg db kept s \<Longrightarrow> upholds cfg (current (db (sv_world s)) (kept (sv_world s)))
     (\<lambda>w. db w = db (sv_world s) \<and> kept w = kept (sv_world s)) s"
  by (simp add: settled_def)

lemma settled_metrics [simp]: "settled cfg db kept (on_metrics f s) = settled cfg db kept s"
  by (simp add: settled_def)

lemma elapse_settled:
  assumes laws: "redis_laws E g age db kept" and ok: "settled cfg db kept s"
  shows "settled cfg db kept (s\<lparr>sv_world := age d (sv_world s)\<rparr>)"
proof -
  let ?w = "sv_world s" and ?w' = "age d (sv_world s)"
  have a: "kept ?w' = kept ?w" "db ?w' k = db ?w k \<or> db ?w' k = None" "db ?w k = None \<or> db ?w k = kept ?w k" for k
    using laws by (simp_all add: redis_laws_def redis_expiry_def)
  have "Q_of (current (db ?w') (kept ?w')) k v" if "Q_of (current (db ?w) (kept ?w)) k v" for k v
    using that a(2,3) [of k] by (auto simp: Q_of_def current_def a(1))
  moreover have "svc_inv cfg (Q_of (current (db ?w) (kept ?w))) [] s" using ok by (simp add: settled_def upholds_def)
  ultimately have "svc_inv cfg (Q_of (current (db ?w') (kept ?w'))) [] s" by (rule svc_inv_change [rotated])
  then show ?thesis by (simp add: settled_def upholds_def)
qed

lemma write_settled:
  assumes laws: "redis_laws E g age db kept" and ok: "settled cfg db kept s"
    and cmd: "command \<in> single_key_writes \<and> args = key # rest \<and> keys = [key] \<or> command \<in> multi_key_writes \<and> keys = args"
    and run: "ExecuteWrite E sel command args keys s = (res, s')"
  shows "settled cfg db kept s'"
proof -
  obtain r w where 1: "cl_Do (en_client E) (command # args) (sv_world s) = (r, w)" by (rule prod.exhaust)
  note D = redis_Do_laws [OF laws 1]
  have set: "command = ''SET''" if "EqualFold u command ''SET''" for u
    using cmd that by (auto simp: single_key_writes_def multi_key_writes_def EqualFold_def ascii_def code_def lower_char_def)
  have frame: "db w k = db (sv_world s) k \<and> kept w k = kept (sv_world s) k" if "k \<notin> set keys" for k
    using cmd D(1,2) [of k] that by auto
  have "(\<exists>e. res = Inl e \<and> upholds cfg (current (db (sv_world s)) (kept (sv_world s)))
        (\<lambda>w. db w = db (sv_world s) \<and> kept w = kept (sv_world s)) s' \<and> sv_world s' = sv_world s) \<or>
    (res = r \<and> upholds cfg (current (db w) (kept w)) (\<lambda>w'. db w' = db w \<and> kept w' = kept w) s' \<and> sv_world s' = w)"
  proof (rule ExecuteWrite_upholds [OF settledD [OF ok] 1 _ _ _ run])
    show "current (db w) (kept w) k x" if "k \<notin> set keys" "current (db (sv_world s)) (kept (sv_world s)) k x" for k x
      using frame [OF that(1)] that(2) by (simp add: current_def)
    show "current (db w) (kept w) k (Some v)" if "set_acknowledged (en_unicode E) command args keys r k v" for k v
      using D(4) [of k v] set that by (auto simp: set_acknowledged_def current_def)
  qed simp
  then show ?thesis by (auto intro: upholds_settled)
qed

lemma pass_settled:
  assumes laws: "redis_laws E g age db kept" and ok: "settled cfg db kept s" and cmd: "command \<in> pass_through_reads"
    and run: "upstream_Do E command args s = (r, s')"
  shows "settled cfg db kept s'"
proof (rule upholds_settled)
  obtain x w where 1: "cl_Do (en_client E) (command # args) (sv_world s) = (x, w)" by (rule prod.exhaust)
  show "upholds cfg (current (db (sv_world s)) (kept (sv_world s))) (\<lambda>w. db w = db (sv_world s) \<and> kept w = kept (sv_world s)) s'"
    by (rule Do_upholds(1) [OF settledD [OF ok] run]) (use redis_Do_laws(3) [OF laws 1 cmd] 1 in simp)
qed

lemma write_result_svc: "snd (snd (snd (write_result command c rs))) = snd rs"
  by (cases rs) (simp add: write_result_def answer_with_def split: sum.splits)

lemma mget_outcome_svc: "snd (snd (snd (mget_outcome command c rs))) = snd rs"
  by (cases rs) (simp add: mget_outcome_def answer_with_def split: sum.splits)

lemma handle_get_svc:
  "snd (snd (snd (handle_get E re cmd c s))) =
     (if length (cmd_Args cmd) \<noteq> 2 then s else snd (Get_service E (re_get re) (cmd_Args cmd ! 1) s))"
  by (auto simp: handle_get_def fail_with_def answer_with_def split: prod.splits sum.splits)

lemma handle_command_settled:
  assumes laws: "redis_laws E g age db kept" and ok: "settled cfg db kept s"
    and run: "handle_command E re command args c s = Some h"
  shows "settled cfg db kept (snd (snd (snd h)))"
  using run
proof (cases rule: handle_command_cases)
  case (fail msg)
  then show ?thesis using ok by (simp add: fail_with_def)
next
  case (local calls c1)
  then show ?thesis using ok by (simp add: answer_with_def)
next
  case (mget r)
  obtain x t where r: "r = (x, t)" by (rule prod.exhaust)
  show ?thesis
    using upholds_settled [OF MGet_upholds(1) [OF settledD [OF ok] redis_reads_ok(1) [OF laws] mget(3) [unfolded r]]] mget(4) r
    by (simp add: mget_outcome_svc)
next
  case (single key rest)
  then show ?thesis using write_settled [OF laws ok _ prod.collapse [symmetric], of command "key # rest" key rest "[key]"] by (simp add: write_result_svc)
next
  case multi
  then show ?thesis using write_settled [OF laws ok _ prod.collapse [symmetric], of command "tl args" _ _ "tl args"] by (simp add: write_result_svc)
next
  case pass
  then show ?thesis using pass_settled [OF laws ok _ prod.collapse [symmetric]] by (simp add: write_result_svc PassThrough_def)
qed

lemma handle_settled:
  assumes laws: "redis_laws E g age db kept" and ok: "settled cfg db kept s" and joined: "ge_joined (re_get re) = None"
    and run: "handle E pcfg re cmd c s = Some (c', s')"
  shows "settled cfg db kept s'"
proof -
  have "settled cfg db kept (snd (Get_service E (re_get re) key s))" for key
    by (rule upholds_settled, rule Get_upholds(1) [OF settledD [OF ok] redis_reads_ok(1) [OF laws] _ prod.collapse [symmetric]])
      (simp add: joined joined_ok_def)
  then have "settled cfg db kept (snd (snd (snd (handle_get E re cmd c s))))" using ok by (simp add: handle_get_svc)
  then have "settled cfg db kept (snd (snd (snd h)))" if "handle_request E pcfg re cmd c s = Some h" for h
    using that ok handle_command_settled [OF laws ok] unfolding handle_request_def Let_def
    by (auto simp: fail_with_def split: if_splits sum.splits)
  then show ?thesis using run by (auto simp: handle_def)
qed

lemma proxy_run_settled:
  assumes laws: "redis_laws E g age db kept"
  shows "list_all leads evs \<Longrightarrow> settled cfg db kept s \<Longrightarrow>
    \<exists>s'. proxy_run E pcfg age evs s = Some s' \<and> settled cfg db kept s'"
proof (induction evs arbitrary: s)
  case (Cons ev evs)
  show ?case
  proof (cases ev)
    case (Request re cmd c)
    obtain c' s1 where h: "handle E pcfg re cmd c s = Some (c', s1)"
      using handle_total [OF laws] by (metis option.exhaust prod.exhaust)
    have "settled cfg db kept s1" using handle_settled [OF laws Cons.prems(2) _ h] Cons.prems(1) Request by simp
    with Cons Request h show ?thesis by simp
  next
    case (Elapse d)
    with Cons elapse_settled [OF laws Cons.prems(2)] show ?thesis by simp
  qed
qed simp

section \<open>Answers\<close>

definition stored_reply :: "bytes option \<Rightarrow> conn_call" where
  "stored_reply x = (case x of None \<Rightarrow> WriteNull | Some v \<Rightarrow> WriteBulk v)"

lemma write_value_stored: "write_value v = stored_reply (answer v)"
  by (simp add: write_value_def stored_reply_def answer_def)

lemma get_answer:
  assumes laws: "redis_laws E g age db kept" and ok: "settled cfg db kept s" and joined: "ge_joined (re_get re) = None"
    and args: "cmd_Args cmd = [name, key]" and name: "EqualFold (en_unicode E) name ''GET''"
    and limits: "commandLimitError (en_unicode E) cmd pcfg = []"
  shows "\<exists>c' s'. handle E pcfg re cmd c s = Some (c', s') \<and>
    (cn_calls c' = cn_calls c @ writeUpstreamError \<or>
     (\<exists>x. current (db (sv_world s)) (kept (sv_world s)) key x \<and> cn_calls c' = cn_calls c @ [stored_reply x]))"
proof -
  obtain r s1 where 1: "Get_service E (re_get re) key s = (r, s1)" by (rule prod.exhaust)
  have "r = Inr v \<Longrightarrow> current (db (sv_world s)) (kept (sv_world s)) key (answer v)" for v
    using Get_upholds(2) [OF settledD [OF ok] redis_reads_ok(1) [OF laws] _ 1, of v] joined by (simp add: joined_ok_def)
  then show ?thesis using args name limits 1
    by (cases r) (auto simp: handle_def handle_request_def handle_get_def emit_def answer_with_def write_value_stored)
qed

lemma mget_answer:
  assumes laws: "redis_laws E g age db kept" and ok: "settled cfg db kept s"
    and args: "cmd_Args cmd = name # keys" "keys \<noteq> []" and name: "ToUpper (en_unicode E) name = ''MGET''"
    and other: "\<not> EqualFold (en_unicode E) name ''GET''" and limits: "commandLimitError (en_unicode E) cmd pcfg = []"
  shows "\<exists>c' s'. handle E pcfg re cmd c s = Some (c', s') \<and>
    (cn_calls c' = cn_calls c @ writeUpstreamError \<or>
     (\<exists>xs. list_all2 (current (db (sv_world s)) (kept (sv_world s))) keys xs \<and>
        cn_calls c' = cn_calls c @ WriteArray (length keys) # map stored_reply xs))"
proof -
  obtain r s1 where 1: "MGet E keys s = Some (r, s1)" using MGet_total [OF laws] by (metis option.exhaust prod.exhaust)
  have cls: "classifyNormalizedCommand ''MGET'' = ClassRead"
    using lookup_handler [of "''MGET''"] by (simp add: handler_class_def classifyNormalizedCommand_def)
  have h: "handle_request E pcfg re cmd c s = handle_command E re ''MGET'' (name # keys) c s"
    using args(1) name other limits cls by (simp add: handle_request_def ParseCommand_def Let_def isUnsafeClass_def isRejectedMutationClass_def)
  have m: "handle_command E re ''MGET'' (name # keys) c s = Some (mget_outcome ''MGET'' c (r, s1))"
    using 1 args(2) by (cases r) (simp_all add: handle_command_def mget_outcome_def)
  show ?thesis
  proof (cases r)
    case (Inl e)
    then show ?thesis using h m by (auto simp: handle_def mget_outcome_def emit_def answer_with_def)
  next
    case (Inr vs)
    have "length vs = length keys \<and> (\<forall>j < length keys. current (db (sv_world s)) (kept (sv_world s)) (keys ! j) (answer (vs ! j)))"
      using MGet_upholds(2) [OF settledD [OF ok] redis_reads_ok(1) [OF laws] 1 redis_reads_ok(2) [OF laws] Inr] by blast
    then have "list_all2 (current (db (sv_world s)) (kept (sv_world s))) keys (map answer vs)" "length vs = length keys"
      by (simp_all add: list_all2_conv_all_nth)
    moreover have "map write_value vs = map stored_reply (map answer vs)" by (simp add: write_value_stored)
    ultimately show ?thesis using h m Inr by (auto simp: handle_def mget_outcome_def emit_def answer_with_def)
  qed
qed

text \<open>
  C5: End to end, the values read through the proxy differ from those in the store only for keys that have
  expired there. When go-redis and the upstream do what they document, any sequence of client commands on
  any connections, one after the other and interleaved with any passage of time at the store, is handled
  without a panic from a new service on. Afterwards a GET answers either the generic upstream error, or
  the live value of the key, or, when the key has no live value, null or the value last written to it: a
  value that was overwritten or deleted through the proxy is never answered again, and no other value is
  ever made up. An MGET answers the error or an array with such an answer for each of its keys, in order.
\<close>

theorem proxy_transparent:
  assumes laws: "redis_laws E g age db kept" and leads: "list_all leads evs" "ge_joined (re_get re) = None"
    and get: "cmd_Args gc = [gn, key]" "EqualFold (en_unicode E) gn ''GET''" "commandLimitError (en_unicode E) gc pcfg = []"
    and mget: "cmd_Args mc = m # keys" "keys \<noteq> []" "ToUpper (en_unicode E) m = ''MGET''"
      "\<not> EqualFold (en_unicode E) m ''GET''" "commandLimitError (en_unicode E) mc pcfg = []"
  shows "\<exists>s. proxy_run E pcfg age evs (New_service E cfg rec v ct w) = Some s \<and>
    (\<exists>c' s'. handle E pcfg re gc c s = Some (c', s') \<and>
       (cn_calls c' = cn_calls c @ writeUpstreamError \<or>
        (\<exists>x. (x = db (sv_world s) key \<or> db (sv_world s) key = None \<and> x = kept (sv_world s) key) \<and>
           cn_calls c' = cn_calls c @ [stored_reply x]))) \<and>
    (\<exists>c' s'. handle E pcfg re mc c s = Some (c', s') \<and>
       (cn_calls c' = cn_calls c @ writeUpstreamError \<or>
        (\<exists>xs. list_all2 (\<lambda>k x. x = db (sv_world s) k \<or> db (sv_world s) k = None \<and> x = kept (sv_world s) k) keys xs \<and>
           cn_calls c' = cn_calls c @ WriteArray (length keys) # map stored_reply xs)))"
proof -
  have "settled cfg db kept (New_service E cfg rec v ct w)" by (rule upholds_settled, rule New_upholds) simp
  then obtain s where run: "proxy_run E pcfg age evs (New_service E cfg rec v ct w) = Some s" and ok: "settled cfg db kept s"
    using proxy_run_settled [OF laws leads(1)] by blast
  show ?thesis
    by (intro exI [of _ s] conjI run get_answer [OF laws ok leads(2) get, unfolded current_def]
        mget_answer [OF laws ok mget, unfolded current_def [abs_def]])
qed

section \<open>An expiring store\<close>

text \<open>
  An association list from keys to values with an optional deadline, and the time at the store. It knows
  SET, PSETEX (in milliseconds) and DEL and answers every other command with an error.
\<close>

type_synonym exp_world = "(bytes \<times> bytes \<times> time option) list \<times> time"

definition exp_live :: "exp_world \<Rightarrow> bytes \<Rightarrow> (bytes \<times> duration) option" where
  "exp_live w k =
     (case map_of (fst w) k of
        None \<Rightarrow> None
      | Some (v, None) \<Rightarrow> Some (v, - 1)
      | Some (v, Some t) \<Rightarrow> if snd w < t then Some (v, t - snd w) else None)"

definition exp_db :: "exp_world \<Rightarrow> bytes \<Rightarrow> bytes option" where
  "exp_db w k = map_option fst (exp_live w k)"

definition exp_kept :: "exp_world \<Rightarrow> bytes \<Rightarrow> bytes option" where
  "exp_kept w k = map_option fst (map_of (fst w) k)"

definition exp_age :: "nat \<Rightarrow> exp_world \<Rightarrow> exp_world" where
  "exp_age d w = (fst w, snd w + int d)"

definition exp_do :: "bytes list \<Rightarrow> exp_world \<Rightarrow> (go_error + reply) \<times> exp_world" where
  "exp_do args w = (case args of
     [c, k, v] \<Rightarrow>
       if c = ''SET'' then (Inr (ReplyString ''OK''), AList.update k (v, None) (fst w), snd w)
       else (Inl (ReplyError ''ERR''), w)
   | [c, k, ms, v] \<Rightarrow>
       if c = ''PSETEX''
       then (Inr (ReplyString ''OK''), AList.update k (v, Some (snd w + decimal ms * millisecond)) (fst w), snd w)
       else (Inl (ReplyError ''ERR''), w)
   | [c, k] \<Rightarrow>
       if c = ''DEL'' then (Inr (ReplyInt64 (if exp_live w k = None then 0 else 1)), AList.delete k (fst w), snd w)
       else (Inl (ReplyError ''ERR''), w)
   | _ \<Rightarrow> (Inl (ReplyError ''ERR''), w))"

definition exp_redis :: "exp_world goredis" where
  "exp_redis =
     \<lparr>gr_Ping = (\<lambda>w. (None, w)),
      gr_GetPTTL = (\<lambda>k w. (case exp_live w k of
          None \<Rightarrow> (Some RedisNil, Inl RedisNil, Inr redisPTTLMissing)
        | Some (v, ttl) \<Rightarrow> (None, Inr v, Inr ttl), w)),
      gr_MGetPTTL = (\<lambda>ks w.
        ((None, Inr (map (\<lambda>k. case exp_live w k of None \<Rightarrow> ReplyNil | Some (v, _) \<Rightarrow> ReplyString v) ks),
          map (\<lambda>k. case exp_live w k of None \<Rightarrow> redisPTTLMissing | Some (_, ttl) \<Rightarrow> ttl) ks), w)),
      gr_Do = exp_do, gr_Close = (\<lambda>w. (None, w))\<rparr>"

definition exp_env :: "exp_world senv" where
  "exp_env =
     \<lparr>en_clock = (\<lambda>n. int n * millisecond), en_client = RedisClient exp_redis,
      en_unicode = \<lparr>u_upper = id, u_lower = id, u_fold = (=)\<rparr>, en_arith = exact id, en_hmac = (\<lambda>_ _. [])\<rparr>"

lemma exp_live_kept: "exp_live w k = Some (v, ttl) \<Longrightarrow> map_of (fst w) k = Some (v, None) \<or> (\<exists>t. map_of (fst w) k = Some (v, Some t))"
  by (auto simp: exp_live_def split: option.splits if_splits)

lemma exp_ttl: "exp_live w k = Some (v, ttl) \<Longrightarrow> ttl \<noteq> redisPTTLMissing"
  by (auto simp: exp_live_def redisPTTLMissing_def split: option.splits if_splits)

lemma exp_expiry: "redis_expiry exp_age exp_db exp_kept"
  by (auto simp: redis_expiry_def exp_age_def exp_db_def exp_kept_def exp_live_def fun_eq_iff split: option.splits)

lemma exp_reads: "redis_reads exp_redis exp_db exp_kept"
  unfolding redis_reads_def
  by (auto simp: exp_redis_def exp_db_def exp_kept_def dest: exp_live_kept exp_ttl split: option.splits)

lemma exp_do_frame:
  assumes "exp_do (command # key # rest) w = (r, w')" "k \<noteq> key"
  shows "map_of (fst w') k = map_of (fst w) k \<and> snd w' = snd w"
  using assms by (auto simp: exp_do_def update_conv' delete_conv' split: list.splits if_splits)

lemma exp_do_other:
  "command \<notin> {''SET'', ''PSETEX'', ''DEL''} \<or> args = [] \<Longrightarrow> exp_do (command # args) w = (Inl (ReplyError ''ERR''), w)"
  by (auto simp: exp_do_def split: list.splits)

lemma exp_frame:
  assumes "exp_do (command # args) w = (r, w')" "args = [] \<or> k \<noteq> hd args"
  shows "exp_db w' k = exp_db w k \<and> exp_kept w' k = exp_kept w k"
proof (cases args)
  case Nil
  then show ?thesis using assms exp_do_other [of command args w] by simp
next
  case (Cons key rest)
  have "map_of (fst w') k = map_of (fst w) k" "snd w' = snd w" using exp_do_frame [of command key rest w r w' k] assms Cons by simp_all
  then show ?thesis unfolding exp_db_def exp_kept_def exp_live_def by presburger
qed

lemma exp_writes: "redis_writes u exp_redis exp_db exp_kept"
  unfolding redis_writes_def
proof (intro allI impI conjI ballI)
  fix command args w r w'
  assume "gr_Do exp_redis (command # args) w = (r, w')"
  then have d: "exp_do (command # args) w = (r, w')" by (simp add: exp_redis_def)
  note F = exp_frame [OF d]
  show "exp_db w' k = exp_db w k" "exp_kept w' k = exp_kept w k" if "k \<noteq> hd args" for k using F that by simp_all
  show "exp_db w' k = exp_db w k" "exp_kept w' k = exp_kept w k" if "k \<notin> set args" for k
    using F [of k] that by (cases args; simp)+
  show "exp_db w' = exp_db w" "exp_kept w' = exp_kept w" if "command \<in> pass_through_reads"
    using exp_do_other [of command args w] d that by (auto simp: pass_through_reads_def)
  show "exp_db w' key = Some v" if "command = ''SET''" "args = [key, v]" for key v
    using d that by (auto simp: exp_do_def exp_db_def exp_live_def update_conv')
  show "exp_kept w' k = None" if "r = Inr (ReplyInt64 n)" "k \<in> set args" for n k
    using d that by (auto simp: exp_do_def exp_kept_def delete_conv' split: list.splits if_splits)
qed

lemma exp_laws: "redis_laws exp_env exp_redis exp_age exp_db exp_kept"
  using exp_reads exp_writes exp_expiry by (simp add: redis_laws_def exp_env_def)

theorem proxy_transparent_witness:
  "\<exists>s. proxy_run exp_env (cf_Proxy (mem_config ''cache'')) exp_age
       [Request \<lparr>re_get = lead, re_sel = (\<lambda>_. None), re_elapsed = 1\<rparr> \<lparr>cmd_Raw = [], cmd_Args = [''psetex'', ''k'', ''5'', ''v'']\<rparr>
          \<lparr>cn_calls = [], cn_context = None\<rparr>, Elapse 6000000] (New_service exp_env (mem_config ''cache'') None [] [] ([], 0)) = Some s \<and>
     (\<exists>c' s'. handle exp_env (cf_Proxy (mem_config ''cache'')) \<lparr>re_get = lead, re_sel = (\<lambda>_. None), re_elapsed = 1\<rparr>
         \<lparr>cmd_Raw = [], cmd_Args = [''get'', ''k'']\<rparr> \<lparr>cn_calls = [], cn_context = None\<rparr> s = Some (c', s') \<and>
       (cn_calls c' = [] @ writeUpstreamError \<or>
        (\<exists>x. (x = exp_db (sv_world s) ''k'' \<or> exp_db (sv_world s) ''k'' = None \<and> x = exp_kept (sv_world s) ''k'') \<and>
           cn_calls c' = [] @ [stored_reply x])))"
proof -
  let ?re = "\<lparr>re_get = lead, re_sel = (\<lambda>_. None), re_elapsed = 1\<rparr>" and ?c = "\<lparr>cn_calls = [], cn_context = None\<rparr>"
    and ?get = "\<lparr>cmd_Raw = [], cmd_Args = [''get'', ''k'']\<rparr>" and ?mget = "\<lparr>cmd_Raw = [], cmd_Args = [''MGET'', ''k'']\<rparr>"
  let ?evs = "[Request ?re \<lparr>cmd_Raw = [], cmd_Args = [''psetex'', ''k'', ''5'', ''v'']\<rparr> ?c, Elapse 6000000]"
  have ok: "EqualFold (en_unicode exp_env) ''get'' ''GET''" "ToUpper (en_unicode exp_env) ''MGET'' = ''MGET''"
    "\<not> EqualFold (en_unicode exp_env) ''MGET'' ''GET''"
    "commandLimitError (en_unicode exp_env) ?get (cf_Proxy (mem_config ''cache'')) = []"
    "commandLimitError (en_unicode exp_env) ?mget (cf_Proxy (mem_config ''cache'')) = []"
    by code_simp+
  have "list_all leads ?evs" "ge_joined (re_get ?re) = None" "cmd_Args ?get = [''get'', ''k'']"
    "cmd_Args ?mget = ''MGET'' # [''k'']" "[''k''] \<noteq> []"
    by (simp_all add: lead_def)
  from proxy_transparent [OF exp_laws this(1,2,3) ok(1,4) this(4,5) ok(2,3,5), where cfg = "mem_config ''cache''" and rec = None
      and v = "[]" and ct = "[]" and w = "([], 0)" and c = ?c]
  show ?thesis by (simp only: conn.select_convs) blast
qed


end
