(* ===== verification/Drain.thy ===== *)
theory Drain
  imports Upstream
begin

text \<open>
  The drain tracker of \<^verbatim>\<open>internal/proxy/drain.go\<close>. Connections are numbers, tracked connections live in a
  store of nodes linked by optional indices. A closed channel is a flag, a panic sets \<open>dr_panic\<close>. The
  methods are given as they run undisturbed and, below, as the atomic steps of concurrent threads.
\<close>

section \<open>State\<close>

record tracked =
  tc_conn :: nat
  tc_prev :: "nat option"
  tc_next :: "nat option"
  tc_pending :: bool

record drain =
  dr_draining :: bool
  dr_active :: int
  dr_connections :: "(nat \<times> nat) list"
  dr_nodes :: "tracked list"
  dr_pendingHead :: "nat option"
  dr_started :: bool
  dr_drained :: bool
  dr_drainedOnce :: bool
  dr_locked :: bool
  dr_panic :: bool

definition newDrainTracker :: drain where
  "newDrainTracker =
     \<lparr>dr_draining = False, dr_active = 0, dr_connections = [], dr_nodes = [], dr_pendingHead = None, dr_started = False,
      dr_drained = False, dr_drainedOnce = False, dr_locked = False, dr_panic = False\<rparr>"

text \<open>\<^verbatim>\<open>atomic.Int64\<close> wraps around.\<close>

definition add64 :: "int \<Rightarrow> int \<Rightarrow> int" where
  "add64 x y = (x + y + 2 ^ 63) mod 2 ^ 64 - 2 ^ 63"

definition panic :: "drain \<Rightarrow> drain" where
  "panic d = d\<lparr>dr_panic := True\<rparr>"

section \<open>The pending list\<close>

definition set_next :: "nat \<Rightarrow> nat option \<Rightarrow> drain \<Rightarrow> drain" where
  "set_next i x d = d\<lparr>dr_nodes := (dr_nodes d)[i := (dr_nodes d ! i)\<lparr>tc_next := x\<rparr>]\<rparr>"

definition set_prev :: "nat \<Rightarrow> nat option \<Rightarrow> drain \<Rightarrow> drain" where
  "set_prev i x d = d\<lparr>dr_nodes := (dr_nodes d)[i := (dr_nodes d ! i)\<lparr>tc_prev := x\<rparr>]\<rparr>"

definition unlink :: "nat \<Rightarrow> drain \<Rightarrow> drain" where
  "unlink i d =
     d\<lparr>dr_nodes := (dr_nodes d)[i := (dr_nodes d ! i)\<lparr>tc_prev := None, tc_next := None, tc_pending := False\<rparr>]\<rparr>"

definition removePendingLocked :: "nat \<Rightarrow> drain \<Rightarrow> drain" where
  "removePendingLocked i d =
     (if \<not> tc_pending (dr_nodes d ! i) then d
      else
        let prev = tc_prev (dr_nodes d ! i); next = tc_next (dr_nodes d ! i);
            d = (case prev of None \<Rightarrow> d\<lparr>dr_pendingHead := next\<rparr> | Some p \<Rightarrow> set_next p next d);
            d = (case next of None \<Rightarrow> d | Some n \<Rightarrow> set_prev n prev d)
        in unlink i d)"

definition addPending :: "nat \<Rightarrow> drain \<Rightarrow> drain" where
  "addPending conn d =
     (let i = length (dr_nodes d);
          d = d\<lparr>dr_nodes := dr_nodes d @ [\<lparr>tc_conn = conn, tc_prev = None, tc_next = dr_pendingHead d, tc_pending = True\<rparr>]\<rparr>;
          d = (case dr_pendingHead d of None \<Rightarrow> d | Some h \<Rightarrow> set_prev h (Some i) d)
      in d\<lparr>dr_pendingHead := Some i, dr_connections := AList.update conn i (dr_connections d)\<rparr>)"

section \<open>Methods\<close>

definition signalDrainedLocked :: "drain \<Rightarrow> drain" where
  "signalDrainedLocked d =
     (if dr_draining d \<and> dr_active d = 0 \<and> dr_connections d = [] \<and> \<not> dr_drainedOnce d
      then d\<lparr>dr_drainedOnce := True, dr_drained := True\<rparr> else d)"

definition stopAdmissionLocked :: "drain \<Rightarrow> drain" where
  "stopAdmissionLocked d =
     (if \<not> dr_draining d
      then if dr_started d then panic (d\<lparr>dr_draining := True\<rparr>) else d\<lparr>dr_draining := True, dr_started := True\<rparr>
      else d)"

definition decrementActiveHandler :: "drain \<Rightarrow> drain" where
  "decrementActiveHandler d =
     (let remaining = add64 (dr_active d) (- 1)
      in if remaining < 0 then panic (d\<lparr>dr_active := add64 remaining 1\<rparr>) else d\<lparr>dr_active := remaining\<rparr>)"

definition reserve :: "drain \<Rightarrow> drain" where
  "reserve d =
     (let active = add64 (dr_active d) 1
      in if active \<le> 0 then panic (d\<lparr>dr_active := add64 active (- 1)\<rparr>) else d\<lparr>dr_active := active\<rparr>)"

datatype accept_error = ConnectionLimit | DeadlineError go_error

text \<open>\<open>conn = None\<close> is a nil connection and \<open>err\<close> the error of setting its read deadline.\<close>

definition accept ::
  "nat option \<Rightarrow> go_error option \<Rightarrow> int \<Rightarrow> drain \<Rightarrow> (bool \<times> accept_error option) \<times> drain"
where
  "accept conn err maxConnections d =
     (case conn of
        None \<Rightarrow> ((False, None), d)
      | Some conn \<Rightarrow>
          if dr_draining d then ((False, None), d)
          else if int (length (dr_connections d)) \<ge> maxConnections then ((False, Some ConnectionLimit), d)
          else case err of
                 Some e \<Rightarrow> ((False, Some (DeadlineError e)), d)
               | None \<Rightarrow> ((True, None), addPending conn d))"

definition connectionClosed :: "nat option \<Rightarrow> drain \<Rightarrow> drain" where
  "connectionClosed conn d =
     (case conn of
        None \<Rightarrow> d
      | Some conn \<Rightarrow>
          let d = (case map_of (dr_connections d) conn of None \<Rightarrow> d | Some i \<Rightarrow> removePendingLocked i d)
          in signalDrainedLocked (d\<lparr>dr_connections := AList.delete conn (dr_connections d)\<rparr>))"

definition beginHandler :: "drain \<Rightarrow> bool \<times> drain" where
  "beginHandler d =
     (if dr_draining d then (False, d)
      else
        let d = reserve d
        in if \<not> dr_draining d then (True, d) else (False, signalDrainedLocked (decrementActiveHandler d)))"

text \<open>\<open>err\<close> is what setting the two deadlines of the connection returns.\<close>

definition prepareHandlerDone :: "go_error option \<Rightarrow> drain \<Rightarrow> (bool \<times> go_error option) \<times> drain" where
  "prepareHandlerDone err d =
     (if dr_draining d then ((True, None), d)
      else if dr_draining d then ((True, err), d)
      else ((False, err), decrementActiveHandler d))"

definition completeDrainingHandler :: "drain \<Rightarrow> drain" where
  "completeDrainingHandler d =
     (if \<not> dr_draining d then panic d else signalDrainedLocked (decrementActiveHandler d))"

definition stopAdmission :: "drain \<Rightarrow> drain" where
  "stopAdmission d = signalDrainedLocked (stopAdmissionLocked d)"

fun take_batch :: "nat \<Rightarrow> drain \<Rightarrow> nat list \<times> drain" where
  "take_batch 0 d = ([], d)"
| "take_batch (Suc room) d =
     (case dr_pendingHead d of
        None \<Rightarrow> ([], d)
      | Some i \<Rightarrow>
          let (batch, d') = take_batch room (removePendingLocked i d)
          in (tc_conn (dr_nodes d ! i) # batch, d'))"

definition batch_size :: nat where "batch_size = 128"

text \<open>The loop of \<^verbatim>\<open>beginDrain\<close> with \<open>rounds\<close> iterations before the deadline; it returns the connections woken.\<close>

fun wake_loop :: "nat \<Rightarrow> drain \<Rightarrow> nat list \<times> drain" where
  "wake_loop 0 d = ([], d)"
| "wake_loop (Suc rounds) d =
     (if dr_drained d then ([], d)
      else
        let (batch, d) = take_batch batch_size d
        in if batch = [] then ([], d)
           else let (rest, d) = wake_loop rounds d in (batch @ rest, d))"

text \<open>\<open>errs conn\<close> is the number of deadline calls (at most two) that fail on a connection.\<close>

definition beginDrain :: "(nat \<Rightarrow> nat) \<Rightarrow> nat \<Rightarrow> drain \<Rightarrow> (int \<times> nat \<times> nat) \<times> drain" where
  "beginDrain errs rounds d =
     (let d = stopAdmissionLocked d;
          active = dr_active d;
          connections = length (dr_connections d);
          d = signalDrainedLocked d;
          (woken, d) = wake_loop rounds d
      in ((active, connections, sum_list (map errs woken)), d))"

definition snapshot_drain :: "drain \<Rightarrow> int \<times> nat" where
  "snapshot_drain d = (dr_active d, length (dr_connections d))"

end
