(* ===== verification/DrainList.thy ===== *)
theory DrainList
  imports Drain
begin

text \<open>
  The doubly linked list of pending connections in \<^verbatim>\<open>drain.go\<close> implements a plain list: registering a
  connection puts it in front, removing one deletes it wherever it is, and a batch is a prefix.
\<close>

section \<open>Segments\<close>

lemma nth_update_lt: "j < length xs \<Longrightarrow> xs[i := x] ! j = (if i = j then x else xs ! j)"
  by (cases "i = j") auto

fun seg :: "tracked list \<Rightarrow> nat option \<Rightarrow> nat option \<Rightarrow> nat list \<Rightarrow> nat option \<Rightarrow> bool" where
  "seg h p x [] y \<longleftrightarrow> x = y"
| "seg h p x (i # is) y \<longleftrightarrow>
     x = Some i \<and> i < length h \<and> tc_prev (h ! i) = p \<and> tc_pending (h ! i) \<and> seg h (Some i) (tc_next (h ! i)) is y"

lemma seg_cong:
  "\<forall>i \<in> set is. h' ! i = h ! i \<Longrightarrow> length h \<le> length h' \<Longrightarrow> seg h p x is y \<Longrightarrow> seg h' p x is y"
  by (induction "is" arbitrary: p x) auto

lemma seg_append:
  "seg h p x (xs @ ys) y \<longleftrightarrow> (\<exists>z. seg h p x xs z \<and> seg h (if xs = [] then p else Some (last xs)) z ys y)"
  by (induction xs arbitrary: p x) auto

lemma seg_bounds: "seg h p x is y \<Longrightarrow> i \<in> set is \<Longrightarrow> i < length h \<and> tc_pending (h ! i)"
  by (induction "is" arbitrary: p x) auto

text \<open>Redirecting the last link of a segment, and the back link of its first node.\<close>

lemma seg_set_next:
  assumes "seg h p x (xs @ [l]) z" "distinct (xs @ [l])"
  shows "seg (h[l := (h ! l)\<lparr>tc_next := z'\<rparr>]) p x (xs @ [l]) z'"
proof -
  from assms(1) obtain y where y: "seg h p x xs y" "seg h (if xs = [] then p else Some (last xs)) y [l] z"
    by (auto simp: seg_append)
  have "seg (h[l := (h ! l)\<lparr>tc_next := z'\<rparr>]) p x xs y"
    by (rule seg_cong [OF _ _ y(1)]) (use assms(2) in \<open>auto intro!: nth_list_update_neq\<close>)
  then show ?thesis using y(2) by (auto simp: seg_append)
qed

lemma seg_set_prev:
  assumes "seg h p x (i # is) y" "distinct (i # is)"
  shows "seg (h[i := (h ! i)\<lparr>tc_prev := q\<rparr>]) q x (i # is) y"
proof -
  have "seg h (Some i) (tc_next (h ! i)) is y" using assms(1) by simp
  then have "seg (h[i := (h ! i)\<lparr>tc_prev := q\<rparr>]) (Some i) (tc_next (h ! i)) is y"
    by (rule seg_cong [rotated 2]) (use assms(2) in \<open>auto intro!: nth_list_update_neq\<close>)
  then show ?thesis using assms(1) by simp
qed

section \<open>The list\<close>

text \<open>\<open>ns\<close> are the nodes of the list from its head; exactly these are marked pending.\<close>

definition pending_list :: "drain \<Rightarrow> nat list \<Rightarrow> bool" where
  "pending_list d ns \<longleftrightarrow>
     seg (dr_nodes d) None (dr_pendingHead d) ns None \<and> distinct ns \<and>
     (\<forall>i < length (dr_nodes d). tc_pending (dr_nodes d ! i) \<longrightarrow> i \<in> set ns)"

lemma pending_new: "pending_list newDrainTracker []"
  by (simp add: pending_list_def newDrainTracker_def)

lemma removePending_nodes:
  "length (dr_nodes (removePendingLocked i d)) = length (dr_nodes d)"
  "j < length (dr_nodes d) \<Longrightarrow> tc_conn (dr_nodes (removePendingLocked i d) ! j) = tc_conn (dr_nodes d ! j)"
  "dr_connections (removePendingLocked i d) = dr_connections d" "dr_drained (removePendingLocked i d) = dr_drained d"
  by (auto simp: removePendingLocked_def set_next_def set_prev_def unlink_def Let_def nth_update_lt split: option.splits)

lemma removePending_list:
  assumes "pending_list d (xs @ i # ys)"
  shows "pending_list (removePendingLocked i d) (xs @ ys)"
proof -
  let ?h = "dr_nodes d" and ?prev = "if xs = [] then None else Some (last xs)"
  from assms have dist: "distinct (xs @ i # ys)"
    and all: "\<forall>j < length ?h. tc_pending (?h ! j) \<longrightarrow> j \<in> set (xs @ i # ys)"
    and segs: "seg ?h None (dr_pendingHead d) xs (Some i)" "seg ?h ?prev (Some i) (i # ys) None"
    by (auto simp: pending_list_def seg_append)
  have i: "i < length ?h" "tc_pending (?h ! i)" "tc_prev (?h ! i) = ?prev" using segs(2) by auto
  have nx: "seg ?h (Some i) (tc_next (?h ! i)) ys None" using segs(2) by simp
  then have hd_ys: "tc_next (?h ! i) = (if ys = [] then None else Some (hd ys))" by (cases ys) auto
  define d1 where "d1 = (case tc_prev (?h ! i) of None \<Rightarrow> d\<lparr>dr_pendingHead := tc_next (?h ! i)\<rparr>
    | Some p \<Rightarrow> set_next p (tc_next (?h ! i)) d)"
  have len1: "length (dr_nodes d1) = length ?h" by (simp add: d1_def set_next_def split: option.splits)
  have keep1: "j \<noteq> last xs \<or> xs = [] \<Longrightarrow> dr_nodes d1 ! j = ?h ! j" for j
    by (auto simp: d1_def set_next_def i(3))
  have xs1: "seg (dr_nodes d1) None (dr_pendingHead d1) xs (tc_next (?h ! i))"
  proof (cases xs rule: rev_cases)
    case Nil
    then show ?thesis by (simp add: d1_def i(3))
  next
    case (snoc xs' l)
    have "seg (?h[l := (?h ! l)\<lparr>tc_next := tc_next (?h ! i)\<rparr>]) None (dr_pendingHead d) (xs' @ [l]) (tc_next (?h ! i))"
      by (rule seg_set_next) (use segs(1) dist snoc in auto)
    then show ?thesis by (simp add: d1_def i(3) snoc set_next_def)
  qed
  have ys1: "seg (dr_nodes d1) (Some i) (tc_next (?h ! i)) ys None"
  proof (rule seg_cong [OF _ _ nx])
    show "\<forall>j \<in> set ys. dr_nodes d1 ! j = ?h ! j"
    proof
      fix j assume "j \<in> set ys"
      then show "dr_nodes d1 ! j = ?h ! j" using dist by (intro keep1) (cases xs rule: rev_cases, auto)
    qed
  qed (simp add: len1)
  define d2 where "d2 = (case tc_next (?h ! i) of None \<Rightarrow> d1 | Some n \<Rightarrow> set_prev n (tc_prev (?h ! i)) d1)"
  have len2: "length (dr_nodes d2) = length ?h" "dr_pendingHead d2 = dr_pendingHead d1"
    by (simp_all add: d2_def set_prev_def len1 split: option.splits)
  have xs2: "seg (dr_nodes d2) None (dr_pendingHead d2) xs (tc_next (?h ! i))"
  proof -
    have "dr_nodes d2 ! j = dr_nodes d1 ! j" if "j \<in> set xs" for j
      using that dist hd_ys hd_in_set [of ys] by (auto simp: d2_def set_prev_def intro!: nth_list_update_neq)
    then show ?thesis using seg_cong [OF _ _ xs1, of "dr_nodes d2"] len1 len2 by simp
  qed
  have ys2: "seg (dr_nodes d2) ?prev (tc_next (?h ! i)) ys None"
  proof (cases ys)
    case Nil
    then show ?thesis using hd_ys by simp
  next
    case (Cons y ys')
    have "seg ((dr_nodes d1)[y := (dr_nodes d1 ! y)\<lparr>tc_prev := ?prev\<rparr>]) ?prev (tc_next (?h ! i)) (y # ys') None"
      by (rule seg_set_prev) (use ys1 dist Cons in auto)
    moreover have "dr_nodes d2 = (dr_nodes d1)[y := (dr_nodes d1 ! y)\<lparr>tc_prev := ?prev\<rparr>]"
      using Cons hd_ys i(3) by (simp add: d2_def set_prev_def)
    ultimately show ?thesis using Cons by metis
  qed
  have fin: "removePendingLocked i d = unlink i d2"
    using i(2) unfolding removePendingLocked_def d2_def d1_def Let_def by simp
  have "seg (dr_nodes (unlink i d2)) None (dr_pendingHead (unlink i d2)) (xs @ ys) None"
  proof -
    have "seg (dr_nodes d2) None (dr_pendingHead d2) (xs @ ys) None" using xs2 ys2 by (auto simp: seg_append)
    then have "seg (dr_nodes (unlink i d2)) None (dr_pendingHead d2) (xs @ ys) None"
      by (rule seg_cong [rotated 2]) (use dist in \<open>auto simp: unlink_def intro!: nth_list_update_neq\<close>)
    then show ?thesis by (simp add: unlink_def)
  qed
  moreover have "tc_pending (dr_nodes (unlink i d2) ! j) \<longrightarrow> j \<in> set (xs @ ys)" if "j < length ?h" for j
  proof -
    have "tc_pending (dr_nodes d2 ! j) = tc_pending (?h ! j)"
      using that by (auto simp: d2_def d1_def set_prev_def set_next_def nth_update_lt split: option.splits)
    then show ?thesis using all that len2 by (auto simp: unlink_def nth_update_lt)
  qed
  ultimately show ?thesis using dist len2 by (auto simp: pending_list_def fin unlink_def)
qed

lemma addPending_list:
  assumes "pending_list d ns"
  shows "pending_list (addPending conn d) (length (dr_nodes d) # ns)"
    "tc_conn (dr_nodes (addPending conn d) ! length (dr_nodes d)) = conn"
    "j < length (dr_nodes d) \<Longrightarrow> tc_conn (dr_nodes (addPending conn d) ! j) = tc_conn (dr_nodes d ! j)"
proof -
  let ?h = "dr_nodes d" and ?i = "length (dr_nodes d)"
  let ?new = "\<lparr>tc_conn = conn, tc_prev = None, tc_next = dr_pendingHead d, tc_pending = True\<rparr>"
  from assms have s: "seg ?h None (dr_pendingHead d) ns None" and dist: "distinct ns"
    and all: "\<forall>j < length ?h. tc_pending (?h ! j) \<longrightarrow> j \<in> set ns" by (auto simp: pending_list_def)
  have new: "?i \<notin> set ns" using seg_bounds [OF s] by auto
  have s1: "seg (?h @ [?new]) None (dr_pendingHead d) ns None"
    by (rule seg_cong [OF _ _ s]) (use seg_bounds [OF s] in \<open>auto simp: nth_append\<close>)
  define h2 where "h2 = (case dr_pendingHead d of None \<Rightarrow> ?h @ [?new]
    | Some x \<Rightarrow> (?h @ [?new])[x := ((?h @ [?new]) ! x)\<lparr>tc_prev := Some ?i\<rparr>])"
  have len: "length h2 = Suc ?i" by (simp add: h2_def split: option.splits)
  have nodes: "dr_nodes (addPending conn d) = h2" by (simp add: addPending_def h2_def set_prev_def Let_def split: option.splits)
  have "seg h2 (Some ?i) (dr_pendingHead d) ns None"
  proof (cases ns)
    case Nil
    then show ?thesis using s by simp
  next
    case (Cons x xs)
    then have "dr_pendingHead d = Some x" using s by simp
    then have "h2 = (?h @ [?new])[x := ((?h @ [?new]) ! x)\<lparr>tc_prev := Some ?i\<rparr>]" by (simp add: h2_def)
    with seg_set_prev [OF s1 [unfolded Cons] dist [unfolded Cons], of "Some ?i"] show ?thesis unfolding Cons by metis
  qed
  moreover have "h2 ! ?i = ?new"
    using new s by (cases ns) (auto simp: h2_def nth_append nth_update_lt)
  moreover have "tc_pending (h2 ! j) = tc_pending (?h ! j)" "tc_conn (h2 ! j) = tc_conn (?h ! j)" if "j < ?i" for j
    using that by (auto simp: h2_def nth_append nth_update_lt split: option.splits)
  moreover have "dr_pendingHead (addPending conn d) = Some ?i" by (simp add: addPending_def Let_def)
  ultimately show "pending_list (addPending conn d) (?i # ns)"
      "tc_conn (dr_nodes (addPending conn d) ! ?i) = conn"
      "j < ?i \<Longrightarrow> tc_conn (dr_nodes (addPending conn d) ! j) = tc_conn (?h ! j)"
    using new dist all unfolding pending_list_def nodes len by (auto simp: len less_Suc_eq)
qed

lemma removePending_id: "\<not> tc_pending (dr_nodes d ! i) \<Longrightarrow> removePendingLocked i d = d"
  by (simp add: removePendingLocked_def)

lemma take_batch_list:
  "pending_list d ns \<Longrightarrow> take_batch n d = (batch, d') \<Longrightarrow>
   batch = map (\<lambda>i. tc_conn (dr_nodes d ! i)) (take n ns) \<and> pending_list d' (drop n ns) \<and>
   dr_connections d' = dr_connections d \<and> dr_drained d' = dr_drained d \<and> length (dr_nodes d') = length (dr_nodes d) \<and>
   (\<forall>j < length (dr_nodes d). tc_conn (dr_nodes d' ! j) = tc_conn (dr_nodes d ! j))"
proof (induction n d arbitrary: ns batch d' rule: take_batch.induct)
  case (2 room d)
  show ?case
  proof (cases ns)
    case Nil
    then show ?thesis using "2.prems" by (auto simp: pending_list_def)
  next
    case (Cons i ns')
    then have head: "dr_pendingHead d = Some i" and i: "i < length (dr_nodes d)" using "2.prems"(1) by (auto simp: pending_list_def)
    let ?d1 = "removePendingLocked i d"
    obtain b d2 where b: "take_batch room ?d1 = (b, d2)" by (rule prod.exhaust)
    have "pending_list ?d1 ns'" using removePending_list [of d "[]" i ns'] "2.prems"(1) Cons by simp
    note IH = "2.IH" [OF head this b]
    have "\<forall>j \<in> set (take room ns'). j < length (dr_nodes d)"
      using \<open>pending_list ?d1 ns'\<close> seg_bounds in_set_takeD removePending_nodes(1) by (metis pending_list_def)
    then have "map (\<lambda>i. tc_conn (dr_nodes ?d1 ! i)) (take room ns') = map (\<lambda>i. tc_conn (dr_nodes d ! i)) (take room ns')"
      by (simp add: removePending_nodes)
    then show ?thesis using IH "2.prems"(2) head b Cons by (auto simp: removePending_nodes Let_def)
  qed
qed simp

lemma wake_loop_list:
  "pending_list d ns \<Longrightarrow> \<not> dr_drained d \<Longrightarrow> wake_loop r d = (woken, d') \<Longrightarrow>
   woken = map (\<lambda>i. tc_conn (dr_nodes d ! i)) (take (r * batch_size) ns) \<and> pending_list d' (drop (r * batch_size) ns) \<and>
   dr_connections d' = dr_connections d \<and> length (dr_nodes d') = length (dr_nodes d) \<and>
   (\<forall>j < length (dr_nodes d). tc_conn (dr_nodes d' ! j) = tc_conn (dr_nodes d ! j))"
proof (induction r arbitrary: d ns woken d')
  case (Suc r)
  obtain b d1 where b: "take_batch batch_size d = (b, d1)" by (rule prod.exhaust)
  note B = take_batch_list [OF Suc.prems(1) b]
  show ?case
  proof (cases "ns = []")
    case True
    then show ?thesis using Suc.prems B b by simp
  next
    case False
    then have "b \<noteq> []" using B by (simp add: batch_size_def)
    obtain rest d2 where r: "wake_loop r d1 = (rest, d2)" by (rule prod.exhaust)
    have "\<not> dr_drained d1" using B Suc.prems(2) by simp
    note IH = Suc.IH [OF _ this r, of "drop batch_size ns"]
    have "\<forall>j \<in> set ns. j < length (dr_nodes d)" using Suc.prems(1) seg_bounds by (auto simp: pending_list_def)
    then have "map (\<lambda>i. tc_conn (dr_nodes d1 ! i)) (take (r * batch_size) (drop batch_size ns)) =
        map (\<lambda>i. tc_conn (dr_nodes d ! i)) (take (r * batch_size) (drop batch_size ns))"
      using B by (auto dest!: in_set_takeD in_set_dropD)
    moreover have "woken = b @ rest" "d' = d2" using Suc.prems(2,3) b r \<open>b \<noteq> []\<close> by auto
    ultimately show ?thesis using IH B by (auto simp: take_add add.commute)
  qed
qed simp

section \<open>The abstract list\<close>

datatype conn_op = CAccept nat "go_error option" int | CClosed nat | CDrain nat

fun conn_apply :: "conn_op \<Rightarrow> drain \<Rightarrow> nat list \<times> drain" where
  "conn_apply (CAccept c err maximum) d = ([], snd (accept (Some c) err maximum d))"
| "conn_apply (CClosed c) d = ([], connectionClosed (Some c) d)"
| "conn_apply (CDrain rounds) d = wake_loop rounds (signalDrainedLocked (stopAdmissionLocked d))"

record conn_spec =
  sp_connections :: "nat list"
  sp_pending :: "nat list"
  sp_draining :: bool

fun spec_apply :: "conn_op \<Rightarrow> conn_spec \<Rightarrow> nat list \<times> conn_spec" where
  "spec_apply (CAccept c err maximum) s =
     ([], if sp_draining s \<or> int (length (sp_connections s)) \<ge> maximum \<or> err \<noteq> None then s
          else s\<lparr>sp_connections := sp_connections s @ [c], sp_pending := c # sp_pending s\<rparr>)"
| "spec_apply (CClosed c) s =
     ([], s\<lparr>sp_connections := removeAll c (sp_connections s), sp_pending := removeAll c (sp_pending s)\<rparr>)"
| "spec_apply (CDrain rounds) s =
     (take (rounds * 128) (sp_pending s), s\<lparr>sp_pending := drop (rounds * 128) (sp_pending s), sp_draining := True\<rparr>)"

fun conn_run :: "conn_op list \<Rightarrow> drain \<Rightarrow> nat list list" where
  "conn_run [] d = []"
| "conn_run (op # ops) d = (let (woken, d') = conn_apply op d in woken # conn_run ops d')"

fun spec_run :: "conn_op list \<Rightarrow> conn_spec \<Rightarrow> nat list list" where
  "spec_run [] s = []"
| "spec_run (op # ops) s = (let (woken, s') = spec_apply op s in woken # spec_run ops s')"

fun accepted :: "conn_op list \<Rightarrow> nat list" where
  "accepted [] = []"
| "accepted (CAccept c err maximum # ops) = c # accepted ops"
| "accepted (_ # ops) = accepted ops"

definition conn_abs :: "drain \<Rightarrow> conn_spec \<Rightarrow> bool" where
  "conn_abs d s \<longleftrightarrow>
     (\<exists>ns. pending_list d ns \<and> sp_pending s = map (\<lambda>i. tc_conn (dr_nodes d ! i)) ns \<and>
        (\<forall>i \<in> set ns. (tc_conn (dr_nodes d ! i), i) \<in> set (dr_connections d))) \<and>
     (\<forall>c i. (c, i) \<in> set (dr_connections d) \<longrightarrow> i < length (dr_nodes d) \<and> tc_conn (dr_nodes d ! i) = c) \<and>
     sp_connections s = map fst (dr_connections d) \<and> distinct (map fst (dr_connections d)) \<and>
     sp_draining s = dr_draining d"


lemma conn_abs_frame:
  assumes "conn_abs d s" "dr_nodes d' = dr_nodes d" "dr_pendingHead d' = dr_pendingHead d" "dr_connections d' = dr_connections d"
  shows "conn_abs d' (s\<lparr>sp_draining := dr_draining d'\<rparr>)"
  using assms by (simp add: conn_abs_def pending_list_def)

lemma signal_frame [simp]:
  "dr_nodes (signalDrainedLocked d) = dr_nodes d" "dr_pendingHead (signalDrainedLocked d) = dr_pendingHead d"
  "dr_connections (signalDrainedLocked d) = dr_connections d" "dr_draining (signalDrainedLocked d) = dr_draining d"
  "dr_active (signalDrainedLocked d) = dr_active d" "dr_locked (signalDrainedLocked d) = dr_locked d"
  "dr_started (signalDrainedLocked d) = dr_started d" "dr_panic (signalDrainedLocked d) = dr_panic d"
  by (simp_all add: signalDrainedLocked_def)

lemma stop_frame [simp]:
  "dr_nodes (stopAdmissionLocked d) = dr_nodes d" "dr_pendingHead (stopAdmissionLocked d) = dr_pendingHead d"
  "dr_connections (stopAdmissionLocked d) = dr_connections d" "dr_draining (stopAdmissionLocked d)"
  "dr_active (stopAdmissionLocked d) = dr_active d" "dr_locked (stopAdmissionLocked d) = dr_locked d"
  "dr_drained (stopAdmissionLocked d) = dr_drained d" "dr_drainedOnce (stopAdmissionLocked d) = dr_drainedOnce d"
  by (simp_all add: stopAdmissionLocked_def panic_def)

lemma removePending_frame [simp]:
  "dr_draining (removePendingLocked i d) = dr_draining d" "dr_active (removePendingLocked i d) = dr_active d"
  "dr_locked (removePendingLocked i d) = dr_locked d" "dr_started (removePendingLocked i d) = dr_started d"
  "dr_panic (removePendingLocked i d) = dr_panic d" "dr_drainedOnce (removePendingLocked i d) = dr_drainedOnce d"
  by (simp_all add: removePendingLocked_def set_next_def set_prev_def unlink_def Let_def split: option.splits)

lemma addPending_frame [simp]:
  "dr_draining (addPending c d) = dr_draining d" "dr_active (addPending c d) = dr_active d"
  "dr_locked (addPending c d) = dr_locked d" "dr_started (addPending c d) = dr_started d"
  "dr_panic (addPending c d) = dr_panic d" "dr_drainedOnce (addPending c d) = dr_drainedOnce d"
  "dr_drained (addPending c d) = dr_drained d" "dr_connections (addPending c d) = AList.update c (length (dr_nodes d)) (dr_connections d)"
  by (simp_all add: addPending_def set_prev_def Let_def split: option.splits)

lemma update_fresh: "k \<notin> fst ` set al \<Longrightarrow> AList.update k v al = al @ [(k, v)]"
  by (induction al) auto

lemma accept_abs:
  assumes "conn_abs d s" "c \<notin> set (sp_connections s)"
  shows "conn_abs (addPending c d) (s\<lparr>sp_connections := sp_connections s @ [c], sp_pending := c # sp_pending s\<rparr>)"
proof -
  from assms(1) obtain ns where ns: "pending_list d ns" "sp_pending s = map (\<lambda>i. tc_conn (dr_nodes d ! i)) ns"
      "\<And>i. i \<in> set ns \<Longrightarrow> (tc_conn (dr_nodes d ! i), i) \<in> set (dr_connections d)"
    and conns: "\<And>c i. (c, i) \<in> set (dr_connections d) \<Longrightarrow> i < length (dr_nodes d) \<and> tc_conn (dr_nodes d ! i) = c"
      "sp_connections s = map fst (dr_connections d)" "distinct (map fst (dr_connections d))" "sp_draining s = dr_draining d"
    unfolding conn_abs_def by blast
  note A = addPending_list [OF ns(1), where conn = c]
  have fresh: "c \<notin> fst ` set (dr_connections d)" using assms(2) conns(2) by simp
  have len: "length (dr_nodes (addPending c d)) = Suc (length (dr_nodes d))"
    by (simp add: addPending_def set_prev_def Let_def split: option.splits)
  have lt: "\<And>i. i \<in> set ns \<Longrightarrow> i < length (dr_nodes d)" using ns(1) seg_bounds by (auto simp: pending_list_def)
  note con = update_fresh [OF fresh]
  have names: "tc_conn (dr_nodes (addPending c d) ! i) = tc_conn (dr_nodes d ! i)" if "i \<in> set ns" for i
    using A(3) [OF lt [OF that]] .
  have "c # sp_pending s = map (\<lambda>i. tc_conn (dr_nodes (addPending c d) ! i)) (length (dr_nodes d) # ns)"
    using A(2) ns(2) names by simp
  moreover have "(tc_conn (dr_nodes (addPending c d) ! i), i) \<in> set (dr_connections (addPending c d))"
    if "i \<in> set (length (dr_nodes d) # ns)" for i
    using that A(2) names ns(3) by (auto simp: con)
  moreover have "i < length (dr_nodes (addPending c d)) \<and> tc_conn (dr_nodes (addPending c d) ! i) = k"
    if "(k, i) \<in> set (dr_connections (addPending c d))" for k i
    using that conns(1) [of k i] A(2) A(3) [of i] by (auto simp: con len)
  moreover have "sp_connections s @ [c] = map fst (dr_connections (addPending c d))" "distinct (map fst (dr_connections (addPending c d)))"
    using conns(2,3) fresh by (auto simp: con)
  ultimately show ?thesis using A(1) conns(4) unfolding conn_abs_def by auto
qed

lemma closed_abs:
  assumes "conn_abs d s"
  shows "conn_abs (connectionClosed (Some c) d)
    (s\<lparr>sp_connections := removeAll c (sp_connections s), sp_pending := removeAll c (sp_pending s)\<rparr>)"
proof -
  from assms obtain ns where ns: "pending_list d ns" "sp_pending s = map (\<lambda>i. tc_conn (dr_nodes d ! i)) ns"
      "\<And>i. i \<in> set ns \<Longrightarrow> (tc_conn (dr_nodes d ! i), i) \<in> set (dr_connections d)"
    and conns: "\<And>c i. (c, i) \<in> set (dr_connections d) \<Longrightarrow> i < length (dr_nodes d) \<and> tc_conn (dr_nodes d ! i) = c"
      "sp_connections s = map fst (dr_connections d)" "distinct (map fst (dr_connections d))" "sp_draining s = dr_draining d"
    unfolding conn_abs_def by blast
  have lt: "\<And>i. i \<in> set ns \<Longrightarrow> i < length (dr_nodes d)" using ns(1) seg_bounds by (auto simp: pending_list_def)
  define d1 where "d1 = (case map_of (dr_connections d) c of None \<Rightarrow> d | Some i \<Rightarrow> removePendingLocked i d)"
  define ns' where "ns' = filter (\<lambda>i. tc_conn (dr_nodes d ! i) \<noteq> c) ns"
  have same: "dr_connections d1 = dr_connections d" "length (dr_nodes d1) = length (dr_nodes d)" "dr_draining d1 = dr_draining d"
    "\<And>j. j < length (dr_nodes d) \<Longrightarrow> tc_conn (dr_nodes d1 ! j) = tc_conn (dr_nodes d ! j)"
    by (simp_all add: d1_def removePending_nodes split: option.splits)
  have p: "pending_list d1 ns'"
  proof (cases "map_of (dr_connections d) c")
    case None
    then have "ns' = ns" using ns(3) by (force simp: ns'_def map_of_eq_None_iff intro!: filter_True)
    then show ?thesis using None ns(1) by (simp add: d1_def)
  next
    case (Some i)
    then have i: "(c, i) \<in> set (dr_connections d)" by (rule map_of_SomeD)
    have only: "j = i" if "j \<in> set ns" "tc_conn (dr_nodes d ! j) = c" for j
      using ns(3) that Some conns(3) by (metis map_of_is_SomeI option.inject)
    show ?thesis
    proof (cases "i \<in> set ns")
      case True
      then obtain xs ys where split: "ns = xs @ i # ys" by (meson split_list)
      then have d: "i \<notin> set xs" "i \<notin> set ys" using ns(1) by (auto simp: pending_list_def)
      have "filter (\<lambda>j. tc_conn (dr_nodes d ! j) \<noteq> c) xs = xs" "filter (\<lambda>j. tc_conn (dr_nodes d ! j) \<noteq> c) ys = ys"
        using only d split by (auto intro!: filter_True)
      then have "ns' = xs @ ys" using i conns(1) by (auto simp: ns'_def split)
      then show ?thesis using removePending_list ns(1) Some split by (simp add: d1_def)
    next
      case False
      then have "\<not> tc_pending (dr_nodes d ! i)" using ns(1) i conns(1) by (auto simp: pending_list_def)
      moreover have "ns' = ns" using only False by (auto simp: ns'_def intro!: filter_True)
      ultimately show ?thesis using Some ns(1) by (simp add: d1_def removePending_id)
    qed
  qed
  let ?d2 = "d1\<lparr>dr_connections := AList.delete c (dr_connections d1)\<rparr>"
  have del: "AList.delete c (dr_connections d1) = filter (\<lambda>(k, _). k \<noteq> c) (dr_connections d)"
    by (auto simp: AList.delete_eq same intro!: filter_cong)
  have "pending_list ?d2 ns'" using p by (simp add: pending_list_def)
  moreover have "removeAll c (sp_pending s) = map (\<lambda>i. tc_conn (dr_nodes ?d2 ! i)) ns'"
  proof -
    have "removeAll c (sp_pending s) = map (\<lambda>i. tc_conn (dr_nodes d ! i)) ns'"
      by (simp add: ns(2) ns'_def removeAll_filter_not_eq filter_map comp_def eq_commute)
    also have "\<dots> = map (\<lambda>i. tc_conn (dr_nodes d1 ! i)) ns'" using lt same(4) by (auto simp: ns'_def)
    finally show ?thesis by simp
  qed
  moreover have "(tc_conn (dr_nodes ?d2 ! i), i) \<in> set (dr_connections ?d2)" if "i \<in> set ns'" for i
    using that ns(3) [of i] lt [of i] same(4) [of i] by (auto simp: ns'_def del)
  moreover have "i < length (dr_nodes ?d2) \<and> tc_conn (dr_nodes ?d2 ! i) = k" if "(k, i) \<in> set (dr_connections ?d2)" for k i
    using that conns(1) [of k i] same(2) same(4) [of i] by (auto simp: del)
  moreover have "removeAll c (sp_connections s) = map fst (dr_connections ?d2)"
    by (simp add: conns(2) del removeAll_filter_not_eq filter_map comp_def case_prod_unfold eq_commute)
  moreover have "distinct (map fst (dr_connections ?d2))" using conns(3) by (simp add: del distinct_map_filter)
  ultimately have "conn_abs ?d2 (s\<lparr>sp_connections := removeAll c (sp_connections s), sp_pending := removeAll c (sp_pending s)\<rparr>)"
    using conns(4) same(3) unfolding conn_abs_def by auto
  from conn_abs_frame [OF this, of "signalDrainedLocked ?d2"]
  have "conn_abs (signalDrainedLocked ?d2) (s\<lparr>sp_connections := removeAll c (sp_connections s), sp_pending := removeAll c (sp_pending s)\<rparr>)"
    using conns(4) same(3) by (simp add: conn_abs_def)
  moreover have "connectionClosed (Some c) d = signalDrainedLocked ?d2" by (simp add: connectionClosed_def d1_def Let_def)
  ultimately show ?thesis by simp
qed

text \<open>Everything but the links of the nodes and the head of the list.\<close>

definition same_rest :: "drain \<Rightarrow> drain \<Rightarrow> bool" where
  "same_rest d d' \<longleftrightarrow>
     dr_draining d' = dr_draining d \<and> dr_drained d' = dr_drained d \<and> dr_active d' = dr_active d \<and>
     dr_locked d' = dr_locked d \<and> dr_started d' = dr_started d \<and> dr_panic d' = dr_panic d \<and>
     dr_drainedOnce d' = dr_drainedOnce d \<and> dr_connections d' = dr_connections d"

lemma same_rest_trans: "same_rest d d' \<Longrightarrow> same_rest d' d'' \<Longrightarrow> same_rest d d''"
  by (simp add: same_rest_def)

lemma removePending_rest: "same_rest d (removePendingLocked i d)"
  by (simp add: same_rest_def removePending_nodes)

lemma take_batch_rest: "same_rest d (snd (take_batch n d))"
proof (induction n d rule: take_batch.induct)
  case (2 room d)
  show ?case
  proof (cases "dr_pendingHead d")
    case (Some i)
    from same_rest_trans [OF removePending_rest "2.IH" [OF Some]] Some show ?thesis
      by (simp add: case_prod_unfold Let_def)
  qed (simp add: same_rest_def)
qed (simp add: same_rest_def)

lemma wake_loop_rest: "same_rest d (snd (wake_loop r d))"
proof (induction r arbitrary: d)
  case (Suc r)
  let ?b = "take_batch batch_size d"
  have b: "same_rest d (snd ?b)" by (rule take_batch_rest)
  then show ?case
    using same_rest_trans [OF b Suc.IH [of "snd ?b"]]
    by (simp add: case_prod_unfold Let_def) (simp add: same_rest_def)
qed (simp add: same_rest_def)

lemma wake_loop_frame:
  "wake_loop r d = (b, d') \<Longrightarrow> dr_draining d' = dr_draining d \<and> dr_drained d' = dr_drained d"
  using wake_loop_rest [of d r] by (simp add: same_rest_def)

lemma drain_abs:
  assumes "conn_abs d s" "wake_loop r (signalDrainedLocked (stopAdmissionLocked d)) = (woken, d')"
    "dr_drained d \<Longrightarrow> dr_connections d = []"
  shows "woken = take (r * 128) (sp_pending s)"
    "conn_abs d' (s\<lparr>sp_pending := drop (r * 128) (sp_pending s), sp_draining := True\<rparr>)"
    "dr_drained d' \<Longrightarrow> dr_connections d' = []"
proof -
  let ?d0 = "signalDrainedLocked (stopAdmissionLocked d)"
  have abs0: "conn_abs ?d0 (s\<lparr>sp_draining := True\<rparr>)" using conn_abs_frame [OF assms(1), of ?d0] by simp
  then obtain ns where ns: "pending_list ?d0 ns" "sp_pending s = map (\<lambda>i. tc_conn (dr_nodes ?d0 ! i)) ns"
      "\<And>i. i \<in> set ns \<Longrightarrow> (tc_conn (dr_nodes ?d0 ! i), i) \<in> set (dr_connections ?d0)"
    unfolding conn_abs_def by auto
  have lt: "i \<in> set ns \<Longrightarrow> i < length (dr_nodes ?d0)" for i using ns(1) seg_bounds by (auto simp: pending_list_def)
  have dr: "dr_drained ?d0 \<Longrightarrow> dr_connections d = []" using assms(3) by (auto simp: signalDrainedLocked_def split: if_splits)
  note F = wake_loop_frame [OF assms(2)]
  have W: "woken = map (\<lambda>i. tc_conn (dr_nodes ?d0 ! i)) (take (r * batch_size) ns) \<and> pending_list d' (drop (r * batch_size) ns) \<and>
      dr_connections d' = dr_connections ?d0 \<and> length (dr_nodes d') = length (dr_nodes ?d0) \<and>
      (\<forall>j < length (dr_nodes ?d0). tc_conn (dr_nodes d' ! j) = tc_conn (dr_nodes ?d0 ! j))"
  proof (cases "dr_drained ?d0")
    case True
    then have "ns = []" using dr ns(3) by (cases ns) auto
    moreover have "woken = [] \<and> d' = ?d0" using assms(2) True by (cases r) auto
    ultimately show ?thesis using ns(1) by simp
  next
    case False
    then show ?thesis using wake_loop_list [OF ns(1) _ assms(2)] by simp
  qed
  show "woken = take (r * 128) (sp_pending s)" using W ns(2) by (simp add: take_map batch_size_def)
  show "dr_drained d' \<Longrightarrow> dr_connections d' = []" using W F dr by simp
  have "drop (r * 128) (sp_pending s) = map (\<lambda>i. tc_conn (dr_nodes d' ! i)) (drop (r * batch_size) ns)"
    using W lt by (auto simp: ns(2) drop_map batch_size_def dest!: in_set_dropD)
  moreover have "(tc_conn (dr_nodes d' ! i), i) \<in> set (dr_connections d')" if "i \<in> set (drop (r * batch_size) ns)" for i
    using W ns(3) [of i] lt [of i] in_set_dropD [OF that] by simp
  ultimately show "conn_abs d' (s\<lparr>sp_pending := drop (r * 128) (sp_pending s), sp_draining := True\<rparr>)"
    using abs0 W F unfolding conn_abs_def by auto
qed

lemma conn_apply_abs:
  assumes "conn_abs d s" "dr_drained d \<Longrightarrow> dr_connections d = [] \<and> dr_draining d"
    "\<And>c err m. op = CAccept c err m \<Longrightarrow> c \<notin> set (sp_connections s)"
    "conn_apply op d = (woken, d')" "spec_apply op s = (woken', s')"
  shows "woken = woken' \<and> conn_abs d' s' \<and> (dr_drained d' \<longrightarrow> dr_connections d' = [] \<and> dr_draining d')"
proof (cases op)
  case (CAccept c err m)
  have "sp_draining s = dr_draining d" "sp_connections s = map fst (dr_connections d)" using assms(1) by (auto simp: conn_abs_def)
  with CAccept assms accept_abs [OF assms(1), of c] show ?thesis
    by (auto simp: accept_def split: option.splits if_splits)
next
  case (CClosed c)
  with assms closed_abs [OF assms(1), of c] show ?thesis
    by (auto simp: connectionClosed_def signalDrainedLocked_def removePending_nodes Let_def split: option.splits if_splits)
next
  case (CDrain r)
  then show ?thesis
    using assms drain_abs [OF assms(1), of r woken d'] wake_loop_frame [of r _ woken d'] by fastforce
qed

lemma spec_connections: "spec_apply op s = (woken, s') \<Longrightarrow> set (sp_connections s') \<subseteq> set (sp_connections s) \<union> set (accepted [op])"
  by (cases op) (auto split: if_splits)

lemma accepted_Cons: "accepted (op # ops) = accepted [op] @ accepted ops"
  by (cases op) auto

lemma conn_run_spec:
  "conn_abs d s \<Longrightarrow> (dr_drained d \<Longrightarrow> dr_connections d = [] \<and> dr_draining d) \<Longrightarrow> distinct (accepted ops) \<Longrightarrow>
   set (accepted ops) \<inter> set (sp_connections s) = {} \<Longrightarrow> conn_run ops d = spec_run ops s"
proof (induction ops arbitrary: d s)
  case (Cons op ops)
  obtain woken d' where 1: "conn_apply op d = (woken, d')" by (rule prod.exhaust)
  obtain woken' s' where 2: "spec_apply op s = (woken', s')" by (rule prod.exhaust)
  have "woken = woken' \<and> conn_abs d' s' \<and> (dr_drained d' \<longrightarrow> dr_connections d' = [] \<and> dr_draining d')"
    by (rule conn_apply_abs [OF Cons.prems(1,2) _ 1 2]) (use Cons.prems(4) in auto)
  moreover have "set (accepted ops) \<inter> set (sp_connections s') = {}"
    using spec_connections [OF 2] Cons.prems(3,4) unfolding accepted_Cons [of op ops] by auto
  moreover have "distinct (accepted ops)" using Cons.prems(3) unfolding accepted_Cons [of op ops] by simp
  ultimately show ?case using Cons.IH [of d' s'] 1 2 by auto
qed simp

text \<open>
  C15: For any sequence of accepted connections (each accepted once), closed connections and drains, the
  linked list of pending connections behaves as a plain list: a connection is put in front when accepted,
  taken out wherever it is linked when it closes, and the wake-up loop of \<^verbatim>\<open>beginDrain\<close> wakes the
  connections from the front in batches of 128, each exactly once.
\<close>

theorem pending_list_refines:
  assumes "distinct (accepted ops)"
  shows "conn_run ops newDrainTracker = spec_run ops \<lparr>sp_connections = [], sp_pending = [], sp_draining = False\<rparr>"
  by (rule conn_run_spec) (use assms pending_new in \<open>auto simp: conn_abs_def newDrainTracker_def\<close>)

theorem pending_list_refines_witness:
  "conn_run [CAccept 1 None 5, CAccept 2 None 5, CAccept 3 None 5, CClosed 2, CDrain 1, CAccept 4 None 5] newDrainTracker =
     [[], [], [], [], [3, 1], []]"
  using pending_list_refines [of "[CAccept 1 None 5, CAccept 2 None 5, CAccept 3 None 5, CClosed 2, CDrain 1, CAccept 4 None 5]"]
  by simp

end
