(* ===== verification/DrainSteps.thy ===== *)
theory DrainSteps
  imports DrainList
begin

text \<open>
  The drain tracker under concurrency. Every goroutine is a thread of atomic steps; the steps of a locked
  section that touch only what the mutex protects are one step, a section with two atomic operations on
  the handler counter keeps the lock between them, so that unlocked steps of \<^verbatim>\<open>beginHandler\<close> may come in
  between.
\<close>

section \<open>Threads\<close>

text \<open>
  \<open>Begin\<close> to \<open>Refused\<close> and \<open>Running\<close>: \<^verbatim>\<open>beginHandler\<close>; \<open>Running\<close> to \<open>Finished\<close>: \<^verbatim>\<open>finishHandler\<close> with
  \<^verbatim>\<open>prepareHandlerDone\<close> and \<^verbatim>\<open>completeDrainingHandler\<close>; \<open>StopNow\<close> and \<open>DrainFor\<close>: \<^verbatim>\<open>stopAdmission\<close> and
  \<^verbatim>\<open>beginDrain\<close> with the rounds that fit before its deadline; then \<^verbatim>\<open>accept\<close> and \<^verbatim>\<open>connectionClosed\<close>.
\<close>

datatype thread =
  Begin | Reserve | Recheck | Rollback | Repair | Refused |
  Running | Deadlines | Closing | Completing | Finished |
  StopNow | DrainFor nat | Stopping "nat option" | Wake nat | Waked |
  Accepting "nat option" "go_error option" int | Accepted bool | ConnClosing "nat option" | ConnClosed

text \<open>\<open>None\<close>: the thread is at its end or waits for the mutex.\<close>

fun thread_step :: "thread \<Rightarrow> drain \<Rightarrow> (thread \<times> drain) option" where
  "thread_step Begin d = Some (if dr_draining d then Refused else Reserve, d)"
| "thread_step Reserve d = Some (Recheck, reserve d)"
| "thread_step Recheck d = Some (if \<not> dr_draining d then Running else Rollback, d)"
| "thread_step Rollback d = Some (Repair, decrementActiveHandler d)"
| "thread_step Repair d = (if dr_locked d then None else Some (Refused, signalDrainedLocked d))"
| "thread_step Running d = Some (if dr_draining d then Closing else Deadlines, d)"
| "thread_step Deadlines d =
     (if dr_locked d then None
      else if dr_draining d then Some (Closing, d) else Some (Finished, decrementActiveHandler d))"
| "thread_step Closing d =
     (if dr_locked d then None
      else if \<not> dr_draining d then Some (Finished, panic d)
      else Some (Completing, (decrementActiveHandler d)\<lparr>dr_locked := True\<rparr>))"
| "thread_step Completing d = Some (Finished, (signalDrainedLocked d)\<lparr>dr_locked := False\<rparr>)"
| "thread_step StopNow d =
     (if dr_locked d then None else Some (Stopping None, (stopAdmissionLocked d)\<lparr>dr_locked := True\<rparr>))"
| "thread_step (DrainFor rounds) d =
     (if dr_locked d then None else Some (Stopping (Some rounds), (stopAdmissionLocked d)\<lparr>dr_locked := True\<rparr>))"
| "thread_step (Stopping r) d =
     Some (case r of None \<Rightarrow> Waked | Some rounds \<Rightarrow> Wake rounds, (signalDrainedLocked d)\<lparr>dr_locked := False\<rparr>)"
| "thread_step (Wake 0) d = Some (Waked, d)"
| "thread_step (Wake (Suc rounds)) d =
     (if dr_drained d then Some (Waked, d)
      else if dr_locked d then None
      else let (batch, d) = take_batch batch_size d in Some (if batch = [] then Waked else Wake rounds, d))"
| "thread_step (Accepting conn err maximum) d =
     (if conn \<noteq> None \<and> dr_locked d then None
      else let ((ok, _), d) = accept conn err maximum d in Some (Accepted ok, d))"
| "thread_step (ConnClosing conn) d =
     (if conn \<noteq> None \<and> dr_locked d then None else Some (ConnClosed, connectionClosed conn d))"
| "thread_step Refused d = None"
| "thread_step Finished d = None"
| "thread_step Waked d = None"
| "thread_step (Accepted ok) d = None"
| "thread_step ConnClosed d = None"

inductive dstep :: "thread list \<times> drain \<Rightarrow> thread list \<times> drain \<Rightarrow> bool" where
  step: "i < length ts \<Longrightarrow> thread_step (ts ! i) d = Some (t, d') \<Longrightarrow> dstep (ts, d) (ts[i := t], d')"

inductive_simps dstep_iff: "dstep (ts, d) (ts', d')"

fun starts :: "thread \<Rightarrow> bool" where
  "starts Begin = True"
| "starts StopNow = True"
| "starts (DrainFor _) = True"
| "starts (Accepting _ _ _) = True"
| "starts (ConnClosing _) = True"
| "starts _ = False"

fun ends :: "thread \<Rightarrow> bool" where
  "ends Refused = True"
| "ends Finished = True"
| "ends Waked = True"
| "ends (Accepted _) = True"
| "ends ConnClosed = True"
| "ends _ = False"

text \<open>Threads with a handler that was admitted and is not accounted for as done.\<close>

definition admitted :: "thread \<Rightarrow> bool" where
  "admitted t \<longleftrightarrow> t \<in> {Running, Deadlines, Closing}"

section \<open>Invariant\<close>

definition reserved :: "thread \<Rightarrow> bool" where
  "reserved t \<longleftrightarrow> admitted t \<or> t = Recheck \<or> t = Rollback"

fun holds :: "thread \<Rightarrow> bool" where
  "holds Completing = True"
| "holds (Stopping _) = True"
| "holds _ = False"

definition after_stop :: "thread \<Rightarrow> bool" where
  "after_stop t \<longleftrightarrow> holds t \<or> t \<in> {Rollback, Repair, Closing}"

text \<open>Threads whose next step signals.\<close>

definition signals :: "thread \<Rightarrow> bool" where
  "signals t \<longleftrightarrow> holds t \<or> t = Repair"

definition cnt :: "(thread \<Rightarrow> bool) \<Rightarrow> thread list \<Rightarrow> int" where
  "cnt P ts = int (length (filter P ts))"

lemma cnt_update: "i < length ts \<Longrightarrow> cnt P (ts[i := t]) = cnt P ts - of_bool (P (ts ! i)) + of_bool (P t)"
proof (induction ts arbitrary: i)
  case (Cons x ts)
  then show ?case by (cases i) (auto simp: cnt_def)
qed simp

lemma cnt_bounds: "0 \<le> cnt P ts" "cnt P ts \<le> int (length ts)"
  by (simp_all add: cnt_def)

lemma cnt_pos: "i < length ts \<Longrightarrow> P (ts ! i) \<Longrightarrow> 0 < cnt P ts"
  using nth_mem by (fastforce simp: cnt_def filter_empty_conv)

lemma cnt_less: "i < length ts \<Longrightarrow> \<not> P (ts ! i) \<Longrightarrow> cnt P ts < int (length ts)"
  unfolding cnt_def by (metis length_filter_less nth_mem of_nat_less_iff)

lemma cnt_zero: "cnt P ts = 0 \<longleftrightarrow> (\<forall>t \<in> set ts. \<not> P t)"
  by (auto simp: cnt_def filter_empty_conv)

definition drain_inv :: "thread list \<Rightarrow> drain \<Rightarrow> bool" where
  "drain_inv ts d \<longleftrightarrow>
     dr_active d = cnt reserved ts \<and> cnt holds ts = of_bool (dr_locked d) \<and> \<not> dr_panic d \<and>
     dr_started d = dr_draining d \<and> (\<not> dr_draining d \<longrightarrow> cnt after_stop ts = 0) \<and>
     (dr_drained d \<longrightarrow> dr_draining d \<and> dr_connections d = [] \<and> cnt admitted ts = 0) \<and>
     dr_drainedOnce d = dr_drained d \<and>
     (dr_draining d \<and> dr_active d = 0 \<and> dr_connections d = [] \<and> \<not> dr_drained d \<longrightarrow> 0 < cnt signals ts)"

lemma add64_inc: "0 \<le> a \<Longrightarrow> a < 2 ^ 63 - 1 \<Longrightarrow> add64 a 1 = a + 1"
  by (simp add: add64_def)

lemma add64_dec: "0 < a \<Longrightarrow> a < 2 ^ 63 \<Longrightarrow> add64 a (- 1) = a - 1"
  by (simp add: add64_def)

lemma drain_inv_init:
  assumes "list_all starts ts"
  shows "drain_inv ts newDrainTracker"
proof -
  have "\<not> reserved t" "\<not> holds t" "\<not> after_stop t" "\<not> admitted t" if "starts t" for t
    using that by (cases t; simp add: reserved_def after_stop_def admitted_def)+
  then have "cnt reserved ts = 0" "cnt holds ts = 0" "cnt after_stop ts = 0"
    using assms unfolding cnt_zero list_all_iff by blast+
  then show ?thesis by (simp add: drain_inv_def newDrainTracker_def)
qed
lemmas thread_sets = reserved_def admitted_def after_stop_def signals_def

lemma signal_drained:
  "dr_drained (signalDrainedLocked d) \<longleftrightarrow>
     dr_drained d \<or> (dr_draining d \<and> dr_active d = 0 \<and> dr_connections d = [] \<and> \<not> dr_drainedOnce d)"
  "dr_drainedOnce (signalDrainedLocked d) \<longleftrightarrow>
     dr_drainedOnce d \<or> (dr_draining d \<and> dr_active d = 0 \<and> dr_connections d = [])"
  by (auto simp: signalDrainedLocked_def)

lemma cnt_mono: "(\<And>t. P t \<Longrightarrow> Q t) \<Longrightarrow> cnt P ts \<le> cnt Q ts"
  unfolding cnt_def by (induction ts) auto

lemma reserved_cnt: "cnt admitted ts \<le> cnt reserved ts"
  by (rule cnt_mono) (simp add: reserved_def)

lemma reserve_eff:
  assumes "dr_active d = cnt reserved ts" "cnt reserved ts < int (length ts)" "int (length ts) < 2 ^ 63"
  shows "reserve d = d\<lparr>dr_active := dr_active d + 1\<rparr>"
proof -
  have "0 \<le> dr_active d" "dr_active d < 2 ^ 63 - 1" using assms cnt_bounds(1) [of reserved ts] by linarith+
  then show ?thesis by (simp add: reserve_def add64_inc)
qed

lemma decrement_eff:
  assumes "dr_active d = cnt reserved ts" "0 < cnt reserved ts" "int (length ts) < 2 ^ 63"
  shows "decrementActiveHandler d = d\<lparr>dr_active := dr_active d - 1\<rparr>"
proof -
  have "0 < dr_active d" "dr_active d < 2 ^ 63" using assms cnt_bounds(2) [of reserved ts] by linarith+
  then show ?thesis by (simp add: decrementActiveHandler_def add64_dec)
qed

lemma stop_eff: "dr_started d = dr_draining d \<Longrightarrow> stopAdmissionLocked d = d\<lparr>dr_draining := True, dr_started := True\<rparr>"
  by (simp add: stopAdmissionLocked_def)

lemma signal_inv:
  assumes "dr_active d = cnt reserved ts" "cnt holds ts = of_bool (dr_locked d)" "\<not> dr_panic d" "dr_started d = dr_draining d"
    "\<not> dr_draining d \<longrightarrow> cnt after_stop ts = 0"
    "dr_drained d \<longrightarrow> dr_draining d \<and> dr_connections d = [] \<and> cnt admitted ts = 0" "dr_drainedOnce d = dr_drained d"
  shows "drain_inv ts (signalDrainedLocked d)"
  using assms reserved_cnt [of ts] cnt_bounds(1) [of admitted ts]
  by (auto simp: drain_inv_def signal_drained)

lemma same_rest_inv: "drain_inv ts d \<Longrightarrow> same_rest d d' \<Longrightarrow> drain_inv ts d'"
  by (simp add: drain_inv_def same_rest_def)

lemma accept_eff:
  assumes "accept conn err m d = (r, d')"
  shows "d' = d \<or> (\<not> dr_draining d \<and> (\<exists>c. d' = addPending c d))"
  using assms by (auto simp: accept_def split: option.splits if_splits)

lemma closed_pre:
  assumes "drain_inv ts d"
  shows "drain_inv ts (connectionClosed (Some c) d)"
proof -
  let ?d1 = "case map_of (dr_connections d) c of None \<Rightarrow> d | Some i \<Rightarrow> removePendingLocked i d"
  have "same_rest d ?d1" using removePending_rest by (simp add: same_rest_def split: option.splits)
  with assms have "drain_inv ts (signalDrainedLocked (?d1\<lparr>dr_connections := AList.delete c (dr_connections ?d1)\<rparr>))"
    by (intro signal_inv) (auto simp: drain_inv_def same_rest_def)
  then show ?thesis by (simp add: connectionClosed_def Let_def)
qed

lemma cnt_same: "i < length ts \<Longrightarrow> P t = P (ts ! i) \<Longrightarrow> cnt P (ts[i := t]) = cnt P ts"
  by (simp add: cnt_update)

lemma cnt_none: "i < length ts \<Longrightarrow> cnt P ts = 0 \<Longrightarrow> (P t \<Longrightarrow> P (ts ! i)) \<Longrightarrow> cnt P (ts[i := t]) = 0"
  using cnt_pos [of i ts P] by (cases "P t") (auto simp: cnt_update)

lemma cnt_some: "i < length ts \<Longrightarrow> 0 < cnt P ts \<Longrightarrow> (P (ts ! i) \<Longrightarrow> P t) \<Longrightarrow> 0 < cnt P (ts[i := t])"
  by (cases "P t"; cases "P (ts ! i)") (simp_all add: cnt_update)

lemma replace_inv:
  assumes inv: "drain_inv ts d" and i: "i < length ts"
    and same: "reserved t = reserved (ts ! i)" "holds t = holds (ts ! i)"
    and adm: "dr_draining d \<Longrightarrow> admitted t \<Longrightarrow> admitted (ts ! i)"
    and stop: "\<not> dr_draining d \<Longrightarrow> after_stop t \<Longrightarrow> after_stop (ts ! i)"
    and sig: "signals (ts ! i) \<Longrightarrow> signals t"
  shows "drain_inv (ts[i := t]) d"
proof -
  have "cnt reserved (ts[i := t]) = cnt reserved ts" "cnt holds (ts[i := t]) = cnt holds ts"
    using cnt_same [OF i] same by simp_all
  moreover have "cnt after_stop (ts[i := t]) = 0" if "\<not> dr_draining d"
    using inv that stop by (intro cnt_none [OF i]) (simp_all add: drain_inv_def)
  moreover have "cnt admitted (ts[i := t]) = 0" if "dr_drained d"
    using inv that adm by (intro cnt_none [OF i]) (simp_all add: drain_inv_def)
  moreover have "0 < cnt signals (ts[i := t])" if "0 < cnt signals ts" using cnt_some [OF i that] sig by blast
  ultimately show ?thesis using inv by (simp add: drain_inv_def)
qed

text \<open>Where an invariant-breaking thread cannot be.\<close>

lemma inv_not_stopped: "drain_inv ts d \<Longrightarrow> i < length ts \<Longrightarrow> after_stop (ts ! i) \<Longrightarrow> dr_draining d"
  using cnt_pos [of i ts after_stop] by (auto simp: drain_inv_def)

lemma inv_not_drained: "drain_inv ts d \<Longrightarrow> i < length ts \<Longrightarrow> admitted (ts ! i) \<Longrightarrow> \<not> dr_drained d"
  using cnt_pos [of i ts admitted] by (auto simp: drain_inv_def)

lemma inv_decrement:
  assumes "drain_inv ts d" "i < length ts" "reserved (ts ! i)" "int (length ts) < 2 ^ 63"
  shows "decrementActiveHandler d = d\<lparr>dr_active := cnt reserved ts - 1\<rparr>"
  using decrement_eff [of d ts] cnt_pos [of i ts reserved] assms by (simp add: drain_inv_def)

lemma addPending_inv:
  assumes "drain_inv ts d" "\<not> dr_draining d"
  shows "drain_inv ts (addPending c d)"
  using assms by (auto simp: drain_inv_def)
section \<open>Every step keeps the invariant\<close>

lemma reserve_inv:
  assumes inv: "drain_inv ts d" and i: "i < length ts" and t: "ts ! i = Reserve" and n: "int (length ts) < 2 ^ 63"
  shows "drain_inv (ts[i := Recheck]) (reserve d)"
proof -
  have "cnt reserved ts < int (length ts)" using cnt_less [OF i, of reserved] t by (simp add: thread_sets)
  then have r: "reserve d = d\<lparr>dr_active := cnt reserved ts + 1\<rparr>"
    using reserve_eff [of d ts] inv n by (simp add: drain_inv_def)
  have "cnt reserved (ts[i := Recheck]) = cnt reserved ts + 1" using i t by (simp add: cnt_update thread_sets)
  moreover have "cnt P (ts[i := Recheck]) = cnt P ts" if "P \<in> {holds, after_stop, admitted}" for P
    using that t by (intro cnt_same [OF i]) (auto simp: thread_sets)
  moreover note cnt_bounds(1) [of reserved ts]
  ultimately show ?thesis using inv by (simp add: drain_inv_def r)
qed

lemma rollback_inv:
  assumes inv: "drain_inv ts d" and i: "i < length ts" and t: "ts ! i = Rollback" and n: "int (length ts) < 2 ^ 63"
  shows "drain_inv (ts[i := Repair]) (decrementActiveHandler d)"
proof -
  have d: "decrementActiveHandler d = d\<lparr>dr_active := cnt reserved ts - 1\<rparr>"
    using inv_decrement [OF inv i _ n] t by (simp add: thread_sets)
  have "cnt reserved (ts[i := Repair]) = cnt reserved ts - 1" using i t by (simp add: cnt_update thread_sets)
  moreover have "cnt P (ts[i := Repair]) = cnt P ts" if "P \<in> {holds, after_stop, admitted}" for P
    using that t by (intro cnt_same [OF i]) (auto simp: thread_sets)
  moreover have "0 < cnt signals (ts[i := Repair])" using cnt_pos [of i "ts[i := Repair]" signals] i by (simp add: thread_sets)
  ultimately show ?thesis using inv by (simp add: drain_inv_def d)
qed

lemma finish_inv:
  assumes inv: "drain_inv ts d" and i: "i < length ts" and t: "ts ! i = Deadlines" and n: "int (length ts) < 2 ^ 63"
    and open_: "\<not> dr_draining d"
  shows "drain_inv (ts[i := Finished]) (decrementActiveHandler d)"
proof -
  have d: "decrementActiveHandler d = d\<lparr>dr_active := cnt reserved ts - 1\<rparr>"
    using inv_decrement [OF inv i _ n] t by (simp add: thread_sets)
  have "cnt reserved (ts[i := Finished]) = cnt reserved ts - 1" using i t by (simp add: cnt_update thread_sets)
  moreover have "cnt P (ts[i := Finished]) = cnt P ts" if "P \<in> {holds, after_stop}" for P
    using that t by (intro cnt_same [OF i]) (auto simp: thread_sets)
  ultimately show ?thesis using inv open_ by (simp add: drain_inv_def d)
qed

lemma close_inv:
  assumes inv: "drain_inv ts d" and i: "i < length ts" and t: "ts ! i = Closing" and n: "int (length ts) < 2 ^ 63"
    and free: "\<not> dr_locked d"
  shows "dr_draining d" "drain_inv (ts[i := Completing]) ((decrementActiveHandler d)\<lparr>dr_locked := True\<rparr>)"
proof -
  show dr: "dr_draining d" using inv_not_stopped [OF inv i] t by (simp add: thread_sets)
  have d: "decrementActiveHandler d = d\<lparr>dr_active := cnt reserved ts - 1\<rparr>"
    using inv_decrement [OF inv i _ n] t by (simp add: thread_sets)
  have "\<not> dr_drained d" using inv_not_drained [OF inv i] t by (simp add: thread_sets)
  moreover have "cnt reserved (ts[i := Completing]) = cnt reserved ts - 1" "cnt holds (ts[i := Completing]) = cnt holds ts + 1"
    using i t by (simp_all add: cnt_update thread_sets)
  moreover have "0 < cnt signals (ts[i := Completing])"
    using cnt_pos [of i "ts[i := Completing]" signals] i by (simp add: thread_sets)
  ultimately show "drain_inv (ts[i := Completing]) ((decrementActiveHandler d)\<lparr>dr_locked := True\<rparr>)"
    using inv free dr by (simp add: drain_inv_def d)
qed

lemma stop_inv:
  assumes inv: "drain_inv ts d" and i: "i < length ts" and t: "ts ! i \<in> insert StopNow (range DrainFor)" and free: "\<not> dr_locked d"
  shows "drain_inv (ts[i := Stopping r]) ((stopAdmissionLocked d)\<lparr>dr_locked := True\<rparr>)"
proof -
  have d: "stopAdmissionLocked d = d\<lparr>dr_draining := True, dr_started := True\<rparr>"
    using inv by (simp add: stop_eff drain_inv_def)
  have "cnt P (ts[i := Stopping r]) = cnt P ts" if "P \<in> {reserved, admitted}" for P
    using that t by (intro cnt_same [OF i]) (auto simp: thread_sets)
  moreover have "cnt holds (ts[i := Stopping r]) = cnt holds ts + 1" using i t by (auto simp: cnt_update)
  moreover have "0 < cnt signals (ts[i := Stopping r])"
    using cnt_pos [of i "ts[i := Stopping r]" signals] i by (simp add: thread_sets)
  ultimately show ?thesis using inv free by (auto simp: drain_inv_def d)
qed

text \<open>A signalling step, which releases the mutex if the thread holds it.\<close>

lemma signal_step_inv:
  assumes inv: "drain_inv ts d" and i: "i < length ts" and sig: "signals (ts ! i)" and e: "ends t \<or> (\<exists>r. t = Wake r)"
    and l: "l = (dr_locked d \<and> \<not> holds (ts ! i))"
  shows "drain_inv (ts[i := t]) (signalDrainedLocked (d\<lparr>dr_locked := l\<rparr>))"
proof -
  have t: "\<not> reserved t" "\<not> holds t" "\<not> admitted t" using e by (cases t; simp add: thread_sets)+
  have o: "\<not> reserved (ts ! i)" "\<not> admitted (ts ! i)" "after_stop (ts ! i)" using sig by (cases "ts ! i"; simp add: thread_sets)+
  have h: "holds (ts ! i) \<Longrightarrow> dr_locked d" using cnt_pos [OF i, of holds] inv by (auto simp: drain_inv_def)
  have dr: "dr_draining d" by (rule inv_not_stopped [OF inv i o(3)])
  have c: "cnt reserved (ts[i := t]) = cnt reserved ts" "cnt admitted (ts[i := t]) = cnt admitted ts"
    using cnt_same [OF i] t o by simp_all
  have "cnt holds (ts[i := t]) = cnt holds ts - of_bool (holds (ts ! i))" using i t by (simp add: cnt_update)
  then have l': "cnt holds (ts[i := t]) = of_bool l"
    using inv h l by (cases "holds (ts ! i)") (simp_all add: drain_inv_def)
  show ?thesis by (rule signal_inv) (use inv c dr l' in \<open>simp_all add: drain_inv_def\<close>)
qed

lemma signal_locked: "(signalDrainedLocked d)\<lparr>dr_locked := l\<rparr> = signalDrainedLocked (d\<lparr>dr_locked := l\<rparr>)"
  by (simp add: signalDrainedLocked_def)

lemma holder_locks: "drain_inv ts d \<Longrightarrow> i < length ts \<Longrightarrow> holds (ts ! i) \<Longrightarrow> dr_locked d"
  using cnt_pos [of i ts holds] by (auto simp: drain_inv_def)

lemma wake_inv:
  assumes inv: "drain_inv ts d" and i: "i < length ts" and t: "ts ! i = Wake r" and rest: "same_rest d d'"
    and e: "t = Waked \<or> (\<exists>r. t = Wake r)"
  shows "drain_inv (ts[i := t]) d'"
  by (rule replace_inv [OF same_rest_inv [OF inv rest] i]) (use t e in \<open>auto simp: thread_sets\<close>)

lemma accepting_inv:
  assumes inv: "drain_inv ts d" and i: "i < length ts" and t: "ts ! i = Accepting c err m" and a: "accept c err m d = (r, d')"
  shows "drain_inv (ts[i := Accepted b]) d'"
proof -
  have "drain_inv ts d'" using accept_eff [OF a] inv addPending_inv by blast
  then show ?thesis by (rule replace_inv [OF _ i]) (use t in \<open>auto simp: thread_sets\<close>)
qed

lemma closing_inv:
  assumes inv: "drain_inv ts d" and i: "i < length ts" and t: "ts ! i = ConnClosing c"
  shows "drain_inv (ts[i := ConnClosed]) (connectionClosed c d)"
proof -
  have "drain_inv ts (connectionClosed c d)" using closed_pre [OF inv] inv by (cases c) (simp_all add: connectionClosed_def)
  then show ?thesis by (rule replace_inv [OF _ i]) (use t in \<open>auto simp: thread_sets\<close>)
qed

lemma thread_step_inv:
  assumes inv: "drain_inv ts d" and i: "i < length ts" and n: "int (length ts) < 2 ^ 63"
    and run: "thread_step (ts ! i) d = Some (t, d')"
  shows "drain_inv (ts[i := t]) d'"
proof (cases "ts ! i")
  case Begin
  then show ?thesis using run inv by (auto intro!: replace_inv [OF _ i] simp: thread_sets split: if_splits)
next
  case Reserve
  then show ?thesis using run reserve_inv [OF inv i _ n] by simp
next
  case Recheck
  then show ?thesis using run inv by (auto intro!: replace_inv [OF _ i] simp: thread_sets split: if_splits)
next
  case Rollback
  then show ?thesis using run rollback_inv [OF inv i _ n] by simp
next
  case Repair
  have "d\<lparr>dr_locked := dr_locked d\<rparr> = d" by simp
  then show ?thesis
    using run Repair signal_step_inv [OF inv i _ _ refl, of Refused] by (auto simp: thread_sets split: if_splits)
next
  case Running
  then show ?thesis using run inv by (auto intro!: replace_inv [OF _ i] simp: thread_sets split: if_splits)
next
  case Deadlines
  then show ?thesis
    using run inv finish_inv [OF inv i _ n] by (auto intro!: replace_inv [OF _ i] simp: thread_sets split: if_splits)
next
  case Closing
  then show ?thesis using run close_inv [OF inv i _ n] by (auto split: if_splits)
next
  case Completing
  then show ?thesis
    using run signal_step_inv [OF inv i _ _ refl, of Finished] by (simp add: thread_sets signal_locked)
next
  case StopNow
  then show ?thesis using run stop_inv [OF inv i, of None] by (auto split: if_splits)
next
  case (DrainFor r)
  then show ?thesis using run stop_inv [OF inv i, of "Some r"] by (auto split: if_splits)
next
  case (Stopping r)
  then show ?thesis
    using run signal_step_inv [OF inv i _ _ refl, of t] by (auto simp: thread_sets signal_locked split: option.splits)
next
  case (Wake r)
  have "same_rest d d" by (simp add: same_rest_def)
  then show ?thesis
    using run Wake wake_inv [OF inv i Wake] take_batch_rest [of d batch_size]
    by (cases r) (auto simp: case_prod_unfold Let_def split: if_splits)
next
  case (Accepting c err m)
  obtain ok e d1 where a: "accept c err m d = ((ok, e), d1)" by (metis prod.exhaust)
  then show ?thesis using run Accepting accepting_inv [OF inv i Accepting a] by (auto split: if_splits)
next
  case (ConnClosing c)
  then show ?thesis using run closing_inv [OF inv i ConnClosing] by (auto split: if_splits)
qed (use run in simp_all)

lemma dsteps_inv:
  assumes "dstep\<^sup>*\<^sup>* (ts, d) (ts', d')" "drain_inv ts d" "int (length ts) < 2 ^ 63"
  shows "drain_inv ts' d' \<and> length ts' = length ts"
  using assms(1)
proof (induction "(ts', d')" arbitrary: ts' d' rule: rtranclp_induct)
  case base
  then show ?case using assms(2) by simp
next
  case (step y)
  obtain us e where y: "y = (us, e)" by (rule prod.exhaust)
  with step have IH: "drain_inv us e" "length us = length ts" by auto
  from step(2) show ?case unfolding y dstep_iff using thread_step_inv [OF IH(1)] IH(2) assms(3) by auto
qed
section \<open>Safety\<close>

lemma reachable_inv:
  assumes "list_all starts ts" "int (length ts) < 2 ^ 63" "dstep\<^sup>*\<^sup>* (ts, newDrainTracker) (ts', d)"
  shows "drain_inv ts' d"
  using dsteps_inv [OF assms(3) drain_inv_init [OF assms(1)] assms(2)] by simp

lemma no_admission:
  assumes "dstep (ts, d) (ts', d')" "dr_draining d" "j < length ts" "admitted (ts' ! j)"
  shows "admitted (ts ! j)"
proof -
  from assms(1) obtain i t where i: "i < length ts" "thread_step (ts ! i) d = Some (t, d')" "ts' = ts[i := t]"
    by (auto simp: dstep_iff)
  have "admitted t \<Longrightarrow> admitted (ts ! i)"
    using i(2) assms(2) by (cases "(ts ! i, d)" rule: thread_step.cases) (auto simp: admitted_def Let_def split: if_splits option.splits prod.splits)
  then show ?thesis using assms(3,4) i by (cases "i = j") auto
qed

text \<open>
  C6: Whatever number of handlers, accepted and closed connections, drains and forced stops interleave,
  step by atomic step, the drain tracker never panics; its handler counter is the number of handlers
  admitted or in a rolled-back reservation; once draining is set no handler is admitted any more; and
  the drained signal is given only when admission is closed, no connection is registered and no
  admitted handler is left.
\<close>

theorem drain_safe:
  assumes "list_all starts ts" "int (length ts) < 2 ^ 63" "dstep\<^sup>*\<^sup>* (ts, newDrainTracker) (ts', d)"
  shows "\<not> dr_panic d \<and> dr_active d = cnt reserved ts' \<and>
    (dr_drained d \<longrightarrow> dr_draining d \<and> dr_connections d = [] \<and> list_all (\<lambda>t. \<not> admitted t) ts') \<and>
    (\<forall>ts'' d' j. dr_draining d \<longrightarrow> dstep (ts', d) (ts'', d') \<longrightarrow> j < length ts' \<longrightarrow> admitted (ts'' ! j) \<longrightarrow> admitted (ts' ! j))"
proof -
  have inv: "drain_inv ts' d" by (rule reachable_inv [OF assms])
  then have "dr_drained d \<Longrightarrow> list_all (\<lambda>t. \<not> admitted t) ts'"
    using cnt_zero [of admitted ts'] by (auto simp: drain_inv_def list_all_iff)
  then show ?thesis using inv no_admission [of ts' d] by (auto simp: drain_inv_def)
qed

section \<open>Progress\<close>

fun weight :: "thread \<Rightarrow> nat" where
  "weight Begin = 11"
| "weight Reserve = 10"
| "weight Recheck = 9"
| "weight Running = 8"
| "weight Deadlines = 7"
| "weight Closing = 6"
| "weight Completing = 5"
| "weight Rollback = 3"
| "weight Repair = 2"
| "weight StopNow = 3"
| "weight (DrainFor r) = r + 3"
| "weight (Stopping None) = 2"
| "weight (Stopping (Some r)) = r + 2"
| "weight (Wake r) = r + 1"
| "weight (Accepting _ _ _) = 1"
| "weight (ConnClosing _) = 1"
| "weight _ = 0"

lemma thread_step_weight: "thread_step t d = Some (t', d') \<Longrightarrow> weight t' < weight t"
  by (cases "(t, d)" rule: thread_step.cases) (auto simp: Let_def split: if_splits option.splits prod.splits)

lemma dstep_weight:
  assumes "dstep (ts, d) (ts', d')"
  shows "sum_list (map weight ts') < sum_list (map weight ts)"
proof -
  from assms obtain i t where i: "i < length ts" "thread_step (ts ! i) d = Some (t, d')" "ts' = ts[i := t]"
    by (auto simp: dstep_iff)
  have ts: "ts = take i ts @ ts ! i # drop (Suc i) ts" using i(1) by (rule id_take_nth_drop)
  have "ts' = take i ts @ t # drop (Suc i) ts" using i by (simp add: upd_conv_take_nth_drop)
  then show ?thesis using thread_step_weight [OF i(2)] by (subst ts) simp
qed

lemma blocked: "thread_step t d = None \<Longrightarrow> ends t \<or> (dr_locked d \<and> \<not> holds t)"
  by (cases "(t, d)" rule: thread_step.cases) (auto simp: Let_def split: if_splits prod.splits)

lemma stuck_ends:
  assumes inv: "drain_inv ts d" and stuck: "\<And>x. \<not> dstep (ts, d) x"
  shows "list_all ends ts"
proof (rule ccontr)
  have none: "thread_step (ts ! i) d = None" if "i < length ts" for i
    using stuck dstep.intros [OF that] by (metis not_None_eq surj_pair)
  assume "\<not> list_all ends ts"
  then obtain i where i: "i < length ts" "\<not> ends (ts ! i)" by (auto simp: list_all_length)
  then have "dr_locked d" using blocked [OF none] by blast
  then have "0 < cnt holds ts" using inv by (simp add: drain_inv_def)
  then obtain t where "t \<in> set ts" "holds t" using cnt_zero [of holds ts] by auto
  then obtain j where j: "j < length ts" "holds (ts ! j)" by (auto simp: in_set_conv_nth)
  then have "ends (ts ! j)" using blocked [OF none [OF j(1)]] by blast
  with j(2) show False by (cases "ts ! j") simp_all
qed

text \<open>
  C7: The protocol always completes: no interleaving runs forever, a state without a further step has
  every goroutine at its end (there is no deadlock on the mutex), and then the drained signal has been
  given if draining was started and every connection has been closed. No wake-up is lost, in particular
  not to a handler that reserved its place while draining began.
\<close>

theorem drain_completes:
  assumes "list_all starts ts" "int (length ts) < 2 ^ 63" "dstep\<^sup>*\<^sup>* (ts, newDrainTracker) (ts', d)"
  shows "wf {(y, x). dstep x y} \<and>
    ((\<forall>x. \<not> dstep (ts', d) x) \<longrightarrow> list_all ends ts' \<and> dr_drained d = (dr_draining d \<and> dr_connections d = []))"
proof (intro conjI impI)
  show "wf {(y, x). dstep x y}"
    by (rule wf_subset [OF wf_measure [of "\<lambda>(ts, d). sum_list (map weight ts)"]]) (auto simp: dstep_weight)
next
  assume stuck: "\<forall>x. \<not> dstep (ts', d) x"
  have inv: "drain_inv ts' d" by (rule reachable_inv [OF assms])
  show e: "list_all ends ts'" by (rule stuck_ends [OF inv]) (use stuck in blast)
  have "\<not> reserved t" "\<not> signals t" if "ends t" for t using that by (cases t; simp add: thread_sets)+
  then have "cnt reserved ts' = 0" "cnt signals ts' = 0" using e unfolding cnt_zero list_all_iff by blast+
  moreover have "dr_active d = cnt reserved ts'" "dr_drained d \<Longrightarrow> dr_draining d \<and> dr_connections d = []"
    "dr_draining d \<Longrightarrow> dr_active d = 0 \<Longrightarrow> dr_connections d = [] \<Longrightarrow> \<not> dr_drained d \<Longrightarrow> 0 < cnt signals ts'"
    using inv by (simp_all add: drain_inv_def)
  ultimately show "dr_drained d = (dr_draining d \<and> dr_connections d = [])" by (metis less_irrefl)
qed

text \<open>
  A schedule names the thread of each step. In the example a handler reserves its place just before
  draining begins, sees it afterwards and repairs the signal.
\<close>

fun dr_sched :: "nat list \<Rightarrow> thread list \<times> drain \<Rightarrow> thread list \<times> drain" where
  "dr_sched [] x = x"
| "dr_sched (i # is) (ts, d) =
     (if i < length ts
      then (case thread_step (ts ! i) d of None \<Rightarrow> (ts, d) | Some (t, d') \<Rightarrow> dr_sched is (ts[i := t], d'))
      else (ts, d))"

lemma dr_sched_steps: "dstep\<^sup>*\<^sup>* x (dr_sched is x)"
proof (induction "is" x rule: dr_sched.induct)
  case (2 i "is" ts d)
  show ?case
  proof (cases "i < length ts")
    case True
    show ?thesis
    proof (cases "thread_step (ts ! i) d")
      case (Some r)
      obtain t d' where r: "r = (t, d')" by (rule prod.exhaust)
      have "dstep (ts, d) (ts[i := t], d')" using dstep.intros [OF True] Some r by simp
      moreover have "dstep\<^sup>*\<^sup>* (ts[i := t], d') (dr_sched is (ts[i := t], d'))" using "2.IH" [OF True Some r [symmetric]] .
      ultimately show ?thesis using True Some r by (simp add: converse_rtranclp_into_rtranclp)
    qed (use True in simp)
  qed simp
qed simp

definition drain_race_ts :: "thread list" where "drain_race_ts = [Refused, Waked]"

definition drain_race :: "thread list \<times> drain" where
  "drain_race = dr_sched [0, 0, 1, 1, 0, 0, 0] ([Begin, StopNow], newDrainTracker)"

lemma drain_race_eval: "fst drain_race = drain_race_ts" "dr_drained (snd drain_race)" "\<not> dr_locked (snd drain_race)"
  by code_simp+

lemma drain_race_run: "\<exists>d. dstep\<^sup>*\<^sup>* ([Begin, StopNow], newDrainTracker) (drain_race_ts, d) \<and> dr_drained d"
  using dr_sched_steps [of "([Begin, StopNow], newDrainTracker)" "[0, 0, 1, 1, 0, 0, 0]"] drain_race_eval
  unfolding drain_race_def by (metis prod.collapse)

theorem drain_safe_witness:
  "\<exists>d. dstep\<^sup>*\<^sup>* ([Begin, StopNow], newDrainTracker) (drain_race_ts, d) \<and> dr_drained d \<and> dr_draining d \<and> \<not> dr_panic d"
proof -
  obtain d where d: "dstep\<^sup>*\<^sup>* ([Begin, StopNow], newDrainTracker) (drain_race_ts, d)" "dr_drained d" using drain_race_run by blast
  with drain_safe [OF _ _ d(1)] show ?thesis by auto
qed

theorem drain_completes_witness:
  "\<exists>d. dstep\<^sup>*\<^sup>* ([Begin, StopNow], newDrainTracker) (drain_race_ts, d) \<and> list_all ends drain_race_ts \<and>
     dr_drained d = (dr_draining d \<and> dr_connections d = [])"
proof -
  obtain d where d: "dstep\<^sup>*\<^sup>* ([Begin, StopNow], newDrainTracker) (drain_race_ts, d)" "dr_drained d" using drain_race_run by blast
  have "\<not> dstep (drain_race_ts, d) x" for x
    by (cases x) (auto simp: dstep_iff drain_race_ts_def less_Suc_eq nth_Cons')
  with drain_completes [OF _ _ d(1)] d(1) show ?thesis by auto
qed

end
