(* ===== verification/Interleave.thy ===== *)
theory Interleave
  imports ServiceRuns
begin

text \<open>
  Concurrent clients of the service: GET and MGET readers, the shared flights of
  \<^verbatim>\<open>singleflight\<close>, writers, purges and pass-through commands, each a thread that
  executes the method of \<^verbatim>\<open>service.go\<close> one step at a time. A step is one critical section (of a stripe,
  the tracker or a cache), one atomic load, one channel operation or one upstream call; an upstream call
  takes effect at one instant. Which thread moves next is arbitrary.
\<close>

section \<open>Reading the tiers\<close>

text \<open>
  Where a reader is in the observation of a key and in \<^verbatim>\<open>getFreshCachedInState\<close>. The transitions of an
  observation are applied one by one, each under its own stripe; the Boolean is \<^verbatim>\<open>cacheChanged\<close>.
\<close>

datatype local =
  LObserve |
  LApply hstate observation "transition list" bool |
  LProtected hstate |
  LProbe hstate |
  LHot hstate |
  LReread hstate |
  LStripe hstate |
  LSettle hstate "entry_snapshot option" observation "transition list" bool |
  LEnd hstate "entry_snapshot option"

text \<open>The end of \<^verbatim>\<open>applyTransitions\<close> and the rest of \<^verbatim>\<open>handleObservation\<close>.\<close>

definition publish :: "observation \<Rightarrow> bool \<Rightarrow> 'w service \<Rightarrow> 'w service" where
  "publish ob changed s =
     (let s = (if changed then observeCache s else s);
          s = (if o_Transitions ob \<noteq> [] then on_metrics (SetHotKeys (snd (Stats_tracker (sv_tracker s)))) s else s);
          s = (if o_OversizedObservationDropped ob
               then on_metrics (ObserveHotnessOversizedDrops (o_OversizedObservationsDropped ob)) s else s)
      in if o_CapacityObservationDropped ob then on_metrics (ObserveHotnessCapacityDrops (o_CapacityDrops ob)) s else s)"

text \<open>The promotion of a candidate up to the release of the stripe.\<close>

definition promote_locked :: "'w senv \<Rightarrow> bytes \<Rightarrow> entry_snapshot \<Rightarrow> 'w service \<Rightarrow> observation \<times> bool \<times> 'w service" where
  "promote_locked E key candidate s =
     (let (now, s) = Now E s;
          (ob, t) = Admit (en_arith E) (sv_tracker s) now key;
          s = s\<lparr>sv_tracker := t\<rparr>;
          promoting = (o_State ob = StateHot);
          i = cacheEpochStripe key;
          s = (if promoting then s\<lparr>sv_promoting := (sv_promoting s)[i := True]\<rparr> else s);
          (_, s) = probationary_Delete key s;
          (stored, s) =
            (if promoting
             then let (now, s) = Now E s; (b, c) = PutUntil (sv_cache s) now key (sn_Value candidate) (sn_ExpiresAt candidate)
                  in (b, s\<lparr>sv_cache := c\<rparr>)
             else (False, s));
          s = (if promoting then s\<lparr>sv_promoting := (sv_promoting s)[i := False]\<rparr> else s)
      in (ob, stored, s))"

text \<open>The critical section that re-reads both tiers.\<close>

definition stripe_section :: "'w senv \<Rightarrow> bytes \<Rightarrow> hstate \<Rightarrow> 'w service \<Rightarrow> local \<times> 'w service" where
  "stripe_section E key state s =
     (let (item, s) = (if IsHot (sv_tracker s) key then getFreshProtected E key s else (None, s))
      in case item of
           Some item \<Rightarrow> (LEnd state (Some item), s)
         | None \<Rightarrow>
             let (candidate, s) = probationary_Get E key s
             in case candidate of
                  None \<Rightarrow> (LEnd state None, s)
                | Some candidate \<Rightarrow>
                    let (ob, stored, s) = promote_locked E key candidate s
                    in (LSettle state (if stored then Some candidate else None) ob (o_Transitions ob) False, s))"

fun local_step :: "'w senv \<Rightarrow> decision \<Rightarrow> bytes \<Rightarrow> local \<Rightarrow> 'w service \<Rightarrow> local \<times> 'w service" where
  "local_step E policy key LObserve s =
     (if d_Mode policy = ModeDeny then (LEnd StateUnset None, s)
      else
        let (now, s) = Now E s;
            (ob, t) = ObserveWithState (en_arith E) (sv_tracker s) now key
        in (LApply (o_State ob) ob (o_Transitions ob) False, s\<lparr>sv_tracker := t\<rparr>))"
| "local_step E policy key (LApply state ob (tr # trs) changed) s =
     (let (changed, s) = apply_transition tr (changed, s) in (LApply state ob trs changed, s))"
| "local_step E policy key (LApply state ob [] changed) s =
     (if d_Mode policy = ModeCache then LProtected state else LEnd state None, publish ob changed s)"
| "local_step E policy key (LProtected state) s =
     (let (item, s) = (if state = StateHot then getFreshProtected E key s else (None, s))
      in (if item \<noteq> None \<or> sv_probationary s = None then LEnd state item else LProbe state, s))"
| "local_step E policy key (LProbe state) s =
     (let (found, s) = probationary_Get E key s in (if found = None then LHot state else LStripe state, s))"
| "local_step E policy key (LHot state) s = (if IsHot (sv_tracker s) key then LReread state else LEnd state None, s)"
| "local_step E policy key (LReread state) s = (let (item, s) = getFreshProtected E key s in (LEnd state item, s))"
| "local_step E policy key (LStripe state) s = stripe_section E key state s"
| "local_step E policy key (LSettle state item ob (tr # trs) changed) s =
     (let (changed, s) = apply_transition tr (changed, s) in (LSettle state item ob trs changed, s))"
| "local_step E policy key (LSettle state item ob [] changed) s = (LEnd state item, observeCache (publish ob changed s))"
| "local_step E policy key (LEnd state item) s = (LEnd state item, s)"

section \<open>Threads\<close>

text \<open>GET: \<open>RAwait f\<close> waits for the flight with number \<open>f\<close>.\<close>

datatype reader =
  RStart | RLocal local | RFetch | REpoch | RCall u64 | RAwait nat | RStale go_error | RDone "go_error + upstream_value"

datatype flight_phase = FFetch | FStore upstream_value | FDone "go_error + upstream_value"

text \<open>MGET: the position, the state of the local read there, the answers and the missing reads so far.\<close>

datatype batch =
  MScan nat local "upstream_value list" "missing_read list" |
  MFetch "upstream_value list" "missing_read list" |
  MStale "missing_read list" nat nat "upstream_value list" go_error |
  MStore "upstream_value list" "missing_read list" "upstream_value list" |
  MDone "go_error + upstream_value list" |
  MPanic

record write_request =
  wr_command :: bytes
  wr_args :: "bytes list"
  wr_keys :: "bytes list"

text \<open>
  A write: stripes acquired and still to acquire; the loops of \<^verbatim>\<open>invalidateCacheKeys\<close> with the advanced
  stripes, the count and the keys left; the upstream call; \<^verbatim>\<open>finalizeWrite\<close>; \<^verbatim>\<open>Forget\<close>; the release.
\<close>

datatype writer =
  WAcquire "nat list" "nat list" |
  WDrop "nat list" nat "bytes list" |
  WSend nat |
  WFinish nat "go_error + reply" |
  WClean "nat list" nat "bytes list" "go_error + reply" |
  WForget nat "bytes list" "go_error + reply" |
  WRelease "nat list" "go_error + reply" |
  WDone "go_error + reply"

datatype cthread =
  Reader bytes reader |
  Flight bytes u64 decision flight_phase bool |
  Batch "bytes list" batch |
  Writer write_request writer |
  Purger bytes |
  Passer bytes "bytes list" |
  Ended

text \<open>The decision of \<^verbatim>\<open>finalizeWrite\<close>.\<close>

definition through :: "unicode \<Rightarrow> write_request \<Rightarrow> go_error + reply \<Rightarrow> (bytes \<times> bytes) option" where
  "through u wr result =
     (case (result, wr_args wr, wr_keys wr) of
        (Inr (ReplyString status), [key, v], [key']) \<Rightarrow>
          if EqualFold u status ''OK'' \<and> EqualFold u (wr_command wr) ''SET'' \<and> key' = key then Some (key, v) else None
      | _ \<Rightarrow> None)"

text \<open>
  \<^verbatim>\<open>Forget\<close> makes later calls start a flight of their own: no call joins a forgotten flight. A call joins
  an unfinished flight of its key that is not forgotten and starts a new one when there is none.
\<close>

fun forget :: "bytes \<Rightarrow> cthread \<Rightarrow> cthread" where
  "forget key (Flight key' e p ph f) = Flight key' e p ph (f \<or> key' = key)"
| "forget key t = t"

fun joinable :: "bytes \<Rightarrow> cthread \<Rightarrow> bool" where
  "joinable key (Flight key' e p (FDone r) f) = False"
| "joinable key (Flight key' e p ph f) = (key' = key \<and> \<not> f)"
| "joinable key t = False"

section \<open>Steps of one thread\<close>

definition read_end :: "'w senv \<Rightarrow> bytes \<Rightarrow> decision \<Rightarrow> hstate \<Rightarrow> entry_snapshot option \<Rightarrow> 'w service \<Rightarrow> reader \<times> 'w service" where
  "read_end E key policy state item s =
     (case item of
        Some item \<Rightarrow> (RDone (Inr (cached_value item)), on_metrics (CacheHit (en_unicode E) ''GET'') s)
      | None \<Rightarrow> (if d_Mode policy \<noteq> ModeCache then RFetch else REpoch,
                 on_metrics (CacheMissWithReason (en_unicode E) ''GET'' (cacheMissReason policy state)) s))"

definition scan_end ::
  "'w senv \<Rightarrow> bytes list \<Rightarrow> decision \<Rightarrow> nat \<Rightarrow> hstate \<Rightarrow> entry_snapshot option \<Rightarrow> upstream_value list \<Rightarrow> missing_read list \<Rightarrow>
     'w service \<Rightarrow> batch \<times> 'w service"
where
  "scan_end E keys policy i state item out missing s =
     (let key = keys ! i;
          (out, missing, s) =
            (case item of
               Some item \<Rightarrow> (out[i := cached_value item], missing, on_metrics (CacheHit (en_unicode E) ''MGET'') s)
             | None \<Rightarrow>
                 (out, missing @ [\<lparr>mr_key = key, mr_position = i,
                    mr_epoch = (if d_Mode policy = ModeCache then cacheEpoch key s else 0), mr_policy = policy\<rparr>],
                  on_metrics (CacheMissWithReason (en_unicode E) ''MGET'' (cacheMissReason policy state)) s))
      in (if Suc i < length keys then MScan (Suc i) LObserve out missing
          else if missing = [] then MDone (Inr out) else MFetch out missing, s))"

definition mget_upstream ::
  "'w senv \<Rightarrow> bytes list \<Rightarrow> 'w service \<Rightarrow> (go_error + upstream_value list) option \<times> 'w service"
where
  "mget_upstream E keys s =
     (let (start, s) = Now E s;
          (r, w) = cl_MGet (en_client E) keys (sv_world s);
          s = s\<lparr>sv_world := w\<rparr>;
          (end', s) = Now E s
      in (r, case r of None \<Rightarrow> s
             | Some r \<Rightarrow> on_metrics (ObserveUpstream (en_unicode E) ''MGET'' (time_sub end' start) (failed r)) s))"

fun batch_step :: "'w senv \<Rightarrow> bytes list \<Rightarrow> batch \<Rightarrow> 'w service \<Rightarrow> batch \<times> 'w service" where
  "batch_step E keys (MScan i (LEnd state item) out missing) s =
     scan_end E keys (Match (sv_policies s) (keys ! i)) i state item out missing s"
| "batch_step E keys (MScan i lp out missing) s =
     (let (lp, s) = local_step E (Match (sv_policies s) (keys ! i)) (keys ! i) lp s in (MScan i lp out missing, s))"
| "batch_step E keys (MFetch out missing) s =
     (case mget_upstream E (map mr_key missing) s of
        (None, s) \<Rightarrow> (MPanic, s)
      | (Some (Inl err), s) \<Rightarrow>
          (if cc_AllowStaleOnUpstreamError (cf_Cache (sv_cfg s)) then MStale missing (length missing) 0 out err
           else MDone (Inl err), s)
      | (Some (Inr vs), s) \<Rightarrow> (MStore vs missing out, s))"
| "batch_step E keys (MStale [] n staleCount out err) s = (MDone (if staleCount = n then Inr out else Inl err), s)"
| "batch_step E keys (MStale (read # reads) n staleCount out err) s =
     (if d_Mode (mr_policy read) \<noteq> ModeCache then (MStale reads n staleCount out err, s)
      else
        case cache_GetStale E (mr_key read) (cc_StaleGrace (cf_Cache (sv_cfg s))) s of
          (Some item, s) \<Rightarrow> (MStale reads n (Suc staleCount) (out[mr_position read := cached_value item]) err, s)
        | (None, s) \<Rightarrow> (MStale reads n staleCount out err, s))"
| "batch_step E keys (MStore [] reads out) s = (MDone (Inr out), observeCache s)"
| "batch_step E keys (MStore (v # vs) [] out) s = (MPanic, s)"
| "batch_step E keys (MStore (v # vs) (read # reads) out) s =
     (MStore vs reads (out[mr_position read := v]),
      if d_Mode (mr_policy read) = ModeCache
      then reconcileLocalIfCurrent E (mr_key read) v (mr_epoch read) (mr_policy read) s else s)"
| "batch_step E keys ph s = (ph, s)"

fun flight_step :: "'w senv \<Rightarrow> bytes \<Rightarrow> u64 \<Rightarrow> decision \<Rightarrow> flight_phase \<Rightarrow> 'w service \<Rightarrow> flight_phase \<times> 'w service" where
  "flight_step E key epoch policy FFetch s =
     (case fetchUpstreamGet E key s of
        (Inl err, s) \<Rightarrow> (FDone (Inl err), s)
      | (Inr v, s) \<Rightarrow> (FStore v, s))"
| "flight_step E key epoch policy (FStore v) s = (FDone (Inr v), reconcileLocalIfCurrent E key v epoch policy s)"
| "flight_step E key epoch policy (FDone r) s = (FDone r, s)"

text \<open>The steps of a write that touch the service only; acquiring waits for a gate and \<^verbatim>\<open>Forget\<close> acts on flights.\<close>

fun writer_step :: "'w senv \<Rightarrow> write_request \<Rightarrow> writer \<Rightarrow> 'w service \<Rightarrow> writer \<times> 'w service" where
  "writer_step E wr (WAcquire acquired []) s = (WDrop [] 0 (wr_keys wr), s)"
| "writer_step E wr (WAcquire acquired (g # gs)) s =
     (WAcquire (acquired @ [g]) gs, s\<lparr>sv_gates := (sv_gates s)[g := True]\<rparr>)"
| "writer_step E wr (WDrop advanced n []) s = (WSend n, s)"
| "writer_step E wr (WDrop advanced n (key # keys)) s =
     (let (advanced, n, s) = invalidate_key key (advanced, n, s) in (WDrop advanced n keys, s))"
| "writer_step E wr (WSend n) s =
     (let (r, s) = upstream_Do E (wr_command wr) (wr_args wr) s in (WFinish n r, s))"
| "writer_step E wr (WFinish n r) s =
     (case through (en_unicode E) wr r of
        Some (key, v) \<Rightarrow> let (n', s) = writeThroughSet E key v s in (WForget (n + n') (wr_keys wr) r, s)
      | None \<Rightarrow> (WClean [] n (wr_keys wr) r, s))"
| "writer_step E wr (WClean advanced n [] r) s = (WForget n (wr_keys wr) r, s)"
| "writer_step E wr (WClean advanced n (key # keys) r) s =
     (let (advanced, n, s) = invalidate_key key (advanced, n, s) in (WClean advanced n keys r, s))"
| "writer_step E wr (WForget n (key # keys) r) s = (WForget n keys r, s)"
| "writer_step E wr (WForget n [] r) s =
     (WRelease (rev (needed_stripes (wr_keys wr))) r, observeCache ((on_metrics (Invalidation ''write'') ^^ n) s))"
| "writer_step E wr (WRelease (g # gs) r) s = (WRelease gs r, s\<lparr>sv_gates := (sv_gates s)[g := False]\<rparr>)"
| "writer_step E wr (WRelease [] r) s = (WDone r, s)"
| "writer_step E wr (WDone r) s = (WDone r, s)"

fun blocked :: "bool list \<Rightarrow> writer \<Rightarrow> bool" where
  "blocked gates (WAcquire acquired (g # gs)) = gates ! g"
| "blocked gates ph = False"

section \<open>Interleavings\<close>

text \<open>\<open>cancel i = Some err\<close>: the context of thread \<open>i\<close> may end, with that error.\<close>

inductive cstep ::
  "'w senv \<Rightarrow> (nat \<Rightarrow> go_error option) \<Rightarrow> cthread list \<times> 'w service \<Rightarrow> cthread list \<times> 'w service \<Rightarrow> bool"
  for E :: "'w senv" and cancel :: "nat \<Rightarrow> go_error option"
where
  read_nokey: "i < length ts \<Longrightarrow> ts ! i = Reader [] RStart \<Longrightarrow>
     cstep E cancel (ts, s) (ts[i := Reader [] (RDone (Inl (OtherError ''key is required'')))], s)"
| read_start: "i < length ts \<Longrightarrow> ts ! i = Reader key RStart \<Longrightarrow> key \<noteq> [] \<Longrightarrow>
     cstep E cancel (ts, s) (ts[i := Reader key (RLocal LObserve)], s)"
| read_cancelled: "i < length ts \<Longrightarrow> ts ! i = Reader key RStart \<Longrightarrow> key \<noteq> [] \<Longrightarrow> cancel i = Some err \<Longrightarrow>
     cstep E cancel (ts, s) (ts[i := Reader key (RDone (Inl err))], s)"
| read_local: "i < length ts \<Longrightarrow> ts ! i = Reader key (RLocal lp) \<Longrightarrow> (\<forall>state item. lp \<noteq> LEnd state item) \<Longrightarrow>
     local_step E (Match (sv_policies s) key) key lp s = (lp', s') \<Longrightarrow>
     cstep E cancel (ts, s) (ts[i := Reader key (RLocal lp')], s')"
| read_end: "i < length ts \<Longrightarrow> ts ! i = Reader key (RLocal (LEnd state item)) \<Longrightarrow>
     read_end E key (Match (sv_policies s) key) state item s = (ph, s') \<Longrightarrow>
     cstep E cancel (ts, s) (ts[i := Reader key ph], s')"
| read_fetch: "i < length ts \<Longrightarrow> ts ! i = Reader key RFetch \<Longrightarrow> fetchUpstreamGet E key s = (r, s') \<Longrightarrow>
     cstep E cancel (ts, s) (ts[i := Reader key (RDone r)], observeCache s')"
| read_epoch: "i < length ts \<Longrightarrow> ts ! i = Reader key REpoch \<Longrightarrow>
     cstep E cancel (ts, s) (ts[i := Reader key (RCall (cacheEpoch key s))], s)"
| read_lead: "i < length ts \<Longrightarrow> ts ! i = Reader key (RCall epoch) \<Longrightarrow> \<not> list_ex (joinable key) ts \<Longrightarrow>
     cstep E cancel (ts, s)
       (ts[i := Reader key (RAwait (length ts))] @ [Flight key epoch (Match (sv_policies s) key) FFetch False], s)"
| read_join: "i < length ts \<Longrightarrow> ts ! i = Reader key (RCall epoch) \<Longrightarrow> f < length ts \<Longrightarrow> joinable key (ts ! f) \<Longrightarrow>
     cstep E cancel (ts, s) (ts[i := Reader key (RAwait f)], s)"
| read_result: "i < length ts \<Longrightarrow> ts ! i = Reader key (RAwait f) \<Longrightarrow> f < length ts \<Longrightarrow>
     ts ! f = Flight key epoch policy (FDone (Inr v)) forgotten \<Longrightarrow>
     s' = (if shared then on_metrics Coalesced s else s) \<Longrightarrow>
     cstep E cancel (ts, s) (ts[i := Reader key (RDone (Inr v))], observeCache s')"
| read_error: "i < length ts \<Longrightarrow> ts ! i = Reader key (RAwait f) \<Longrightarrow> f < length ts \<Longrightarrow>
     ts ! f = Flight key epoch policy (FDone (Inl err)) forgotten \<Longrightarrow>
     s' = (if shared then on_metrics Coalesced s else s) \<Longrightarrow>
     cstep E cancel (ts, s)
       (ts[i := Reader key (if cc_AllowStaleOnUpstreamError (cf_Cache (sv_cfg s)) then RStale err else RDone (Inl err))], s')"
| read_timeout: "i < length ts \<Longrightarrow> ts ! i = Reader key (RAwait f) \<Longrightarrow> cancel i = Some err \<Longrightarrow>
     cstep E cancel (ts, s) (ts[i := Reader key (RDone (Inl err))], s)"
| read_stale: "i < length ts \<Longrightarrow> ts ! i = Reader key (RStale err) \<Longrightarrow>
     cache_GetStale E key (cc_StaleGrace (cf_Cache (sv_cfg s))) s = (item, s') \<Longrightarrow>
     cstep E cancel (ts, s)
       (ts[i := Reader key (RDone (case item of Some item \<Rightarrow> Inr (cached_value item) | None \<Rightarrow> Inl err))], s')"
| flight: "i < length ts \<Longrightarrow> ts ! i = Flight key epoch policy ph forgotten \<Longrightarrow> (\<forall>r. ph \<noteq> FDone r) \<Longrightarrow>
     flight_step E key epoch policy ph s = (ph', s') \<Longrightarrow>
     cstep E cancel (ts, s) (ts[i := Flight key epoch policy ph' forgotten], s')"
| batch: "i < length ts \<Longrightarrow> ts ! i = Batch keys ph \<Longrightarrow> (\<forall>r. ph \<noteq> MDone r) \<Longrightarrow> ph \<noteq> MPanic \<Longrightarrow>
     batch_step E keys ph s = (ph', s') \<Longrightarrow>
     cstep E cancel (ts, s) (ts[i := Batch keys ph'], s')"
| writer: "i < length ts \<Longrightarrow> ts ! i = Writer wr ph \<Longrightarrow> (\<forall>r. ph \<noteq> WDone r) \<Longrightarrow> (\<forall>n key keys r. ph \<noteq> WForget n (key # keys) r) \<Longrightarrow>
     \<not> blocked (sv_gates s) ph \<Longrightarrow> writer_step E wr ph s = (ph', s') \<Longrightarrow>
     cstep E cancel (ts, s) (ts[i := Writer wr ph'], s')"
| write_forget: "i < length ts \<Longrightarrow> ts ! i = Writer wr (WForget n (key # keys) r) \<Longrightarrow>
     cstep E cancel (ts, s) (map (forget key) (ts[i := Writer wr (WForget n keys r)]), s)"
| write_cancelled: "i < length ts \<Longrightarrow> ts ! i = Writer wr (WAcquire acquired (g # gs)) \<Longrightarrow> cancel i = Some err \<Longrightarrow>
     cstep E cancel (ts, s) (ts[i := Writer wr (WRelease (rev acquired) (Inl err))], s)"
| purge: "i < length ts \<Longrightarrow> ts ! i = Purger key \<Longrightarrow> PurgeCache key s = (b, s') \<Longrightarrow>
     cstep E cancel (ts, s) (if key = [] then ts[i := Ended] else map (forget key) (ts[i := Ended]), s')"
| pass: "i < length ts \<Longrightarrow> ts ! i = Passer command args \<Longrightarrow> PassThrough E command args s = (r, s') \<Longrightarrow>
     cstep E cancel (ts, s) (ts[i := Ended], s')"

text \<open>A client call that has not begun.\<close>

fun fresh :: "cthread \<Rightarrow> bool" where
  "fresh (Reader key ph) = (ph = RStart)"
| "fresh (Flight _ _ _ _ _) = False"
| "fresh (Batch keys ph) = (ph = (if keys = [] then MDone (Inr []) else MScan 0 LObserve (replicate (length keys) no_value) []))"
| "fresh (Writer wr ph) = (ph = WAcquire [] (needed_stripes (wr_keys wr)))"
| "fresh (Purger key) = True"
| "fresh (Passer command args) = True"
| "fresh Ended = True"

fun finished :: "cthread \<Rightarrow> bool" where
  "finished (Reader key ph) = (case ph of RDone _ \<Rightarrow> True | _ \<Rightarrow> False)"
| "finished (Flight _ _ _ ph _) = (case ph of FDone _ \<Rightarrow> True | _ \<Rightarrow> False)"
| "finished (Batch keys ph) = (case ph of MDone _ \<Rightarrow> True | MPanic \<Rightarrow> True | _ \<Rightarrow> False)"
| "finished (Writer wr ph) = (case ph of WDone _ \<Rightarrow> True | _ \<Rightarrow> False)"
| "finished (Purger key) = False"
| "finished (Passer command args) = False"
| "finished Ended = True"

end
