(* ===== verification/InterleaveEff.thy ===== *)
theory InterleaveEff
  imports Interleave
begin

text \<open>
  What the steps of concurrent clients do to the cached values, the epochs, the gates and the upstream.
\<close>

section \<open>Cached values\<close>

definition cached :: "'w service \<Rightarrow> bytes \<Rightarrow> bytes \<Rightarrow> bool" where
  "cached s k x \<longleftrightarrow> (\<exists>e. protected s k = Some (x, e)) \<or> (\<exists>e. probation s k = Some (x, e))"

definition frame :: "'w service \<Rightarrow> 'w service \<Rightarrow> bool" where
  "frame s s' \<longleftrightarrow> sv_world s' = sv_world s \<and> sv_epochs s' = sv_epochs s \<and> sv_gates s' = sv_gates s"

text \<open>No value appears.\<close>

definition quiet :: "config \<Rightarrow> 'w service \<Rightarrow> 'w service \<Rightarrow> bool" where
  "quiet cfg s s' \<longleftrightarrow> static_ok cfg s' \<and> frame s s' \<and> (\<forall>k x. cached s' k x \<longrightarrow> cached s k x)"

text \<open>The only value left for \<open>key\<close> is \<open>v\<close>.\<close>

definition rebinds :: "bytes \<Rightarrow> bytes option \<Rightarrow> 'w service \<Rightarrow> 'w service \<Rightarrow> bool" where
  "rebinds key v s s' \<longleftrightarrow> (\<forall>k x. cached s' k x \<longrightarrow> (if k = key then v = Some x else cached s k x))"

lemma map_le_Some: "m' \<subseteq>\<^sub>m m \<Longrightarrow> m' k = Some y \<Longrightarrow> m k = Some y"
  by (force simp: map_le_def dom_def)

lemma cached_le:
  "cached s' k x \<Longrightarrow> protected s' \<subseteq>\<^sub>m protected s \<Longrightarrow> probation s' \<subseteq>\<^sub>m probation s \<Longrightarrow> cached s k x"
  unfolding cached_def using map_le_Some by metis

lemma shrink_cached: "shrink cfg s s' \<Longrightarrow> cached s' k x \<Longrightarrow> cached s k x"
  using cached_le [of s' k x s] by (simp add: shrink_def)

lemma frame_refl [simp]: "frame s s"
  by (simp add: frame_def)

lemma frame_trans: "frame s s' \<Longrightarrow> frame s' s'' \<Longrightarrow> frame s s''"
  by (simp add: frame_def)

lemma frame_simps [simp]:
  "frame s (on_metrics f s') = frame s s'" "frame s (observeCache s') = frame s s'"
  "frame s (s'\<lparr>sv_ticks := n\<rparr>) = frame s s'" "frame s (s'\<lparr>sv_cache := c\<rparr>) = frame s s'"
  "frame s (s'\<lparr>sv_probationary := p\<rparr>) = frame s s'" "frame s (s'\<lparr>sv_tracker := t\<rparr>) = frame s s'"
  "frame s (s'\<lparr>sv_promoting := ps\<rparr>) = frame s s'"
  by (simp_all add: frame_def observeCache_def on_metrics_def Let_def)

lemma cached_simps [simp]:
  "cached (on_metrics f s) = cached s" "cached (observeCache s) = cached s" "cached (bump i s) = cached s"
  "cached (s\<lparr>sv_ticks := n\<rparr>) = cached s" "cached (s\<lparr>sv_world := w\<rparr>) = cached s" "cached (s\<lparr>sv_gates := g\<rparr>) = cached s"
  "cached (s\<lparr>sv_tracker := t\<rparr>) = cached s" "cached (s\<lparr>sv_promoting := ps\<rparr>) = cached s"
  by (simp_all add: cached_def fun_eq_iff observeCache_def Let_def)

lemma static_observeCache [simp]: "static_ok cfg (observeCache s) = static_ok cfg s"
  by (simp add: observeCache_def Let_def)

lemma quiet_simps [simp]:
  "quiet cfg s (on_metrics f s') = quiet cfg s s'" "quiet cfg s (observeCache s') = quiet cfg s s'"
  "quiet cfg s (s'\<lparr>sv_ticks := n\<rparr>) = quiet cfg s s'" "quiet cfg s (s'\<lparr>sv_tracker := t\<rparr>) = quiet cfg s s'"
  "quiet cfg s (s'\<lparr>sv_promoting := ps\<rparr>) = quiet cfg s s'"
  "quiet cfg s s = static_ok cfg s"
  by (simp_all add: quiet_def)

lemma quiet_trans: "quiet cfg s s' \<Longrightarrow> quiet cfg s' s'' \<Longrightarrow> quiet cfg s s''"
  unfolding quiet_def using frame_trans by blast

lemma quiet_static: "quiet cfg s s' \<Longrightarrow> static_ok cfg s'"
  by (simp add: quiet_def)

lemma shrink_quiet: "shrink cfg s s' \<Longrightarrow> frame s s' \<Longrightarrow> quiet cfg s s'"
  using shrink_cached shrink_static by (auto simp: quiet_def)

section \<open>Local steps\<close>

lemma tier_frames:
  "cache_Delete k s = (b, s') \<Longrightarrow> frame s s'" "probationary_Delete k s = (b, s') \<Longrightarrow> frame s s'"
  "probationary_Get E k s = (r, s') \<Longrightarrow> frame s s'" "cache_GetStale E k g s = (r, s') \<Longrightarrow> frame s s'"
  by (auto simp: cache_Delete_def probationary_Delete_def probationary_Get_def cache_GetStale_def Now_def Let_def
      split: prod.splits option.splits)

lemma getFresh_frame: "getFreshProtected E k s = (r, s') \<Longrightarrow> frame s s'"
  by (auto simp: getFreshProtected_def Now_def Let_def tier_frames(4) split: prod.splits if_splits)

lemma cache_Delete_quiet: "static_ok cfg s \<Longrightarrow> cache_Delete k s = (b, s') \<Longrightarrow> quiet cfg s s'"
  by (intro shrink_quiet cache_Delete_eff(1) tier_frames(1))

lemma probationary_Delete_quiet: "static_ok cfg s \<Longrightarrow> probationary_Delete k s = (b, s') \<Longrightarrow> quiet cfg s s'"
  by (intro shrink_quiet probationary_Delete_eff(1) tier_frames(2))

lemma probationary_Get_quiet:
  assumes "static_ok cfg s" "probationary_Get E k s = (r, s')"
  shows "quiet cfg s s'" "r = Some item \<Longrightarrow> cached s k (sn_Value item)"
  using shrink_quiet [OF probationary_Get_eff(1) [OF assms] tier_frames(3) [OF assms(2)]]
    probationary_Get_eff(2) [OF assms, of item] by (auto simp: cached_def)

lemma cache_GetStale_quiet:
  assumes "static_ok cfg s" "cache_GetStale E k g s = (r, s')"
  shows "quiet cfg s s'" "r = Some item \<Longrightarrow> cached s k (sn_Value item)"
  using shrink_quiet [OF cache_GetStale_eff(1) [OF assms] tier_frames(4) [OF assms(2)]]
    cache_GetStale_eff(2) [OF assms, of item] by (auto simp: cached_def)

lemma getFresh_quiet:
  assumes "static_ok cfg s" "getFreshProtected E k s = (r, s')"
  shows "quiet cfg s s'" "r = Some item \<Longrightarrow> cached s k (sn_Value item)"
  using shrink_quiet [OF getFreshProtected_eff(1) [OF assms] getFresh_frame [OF assms(2)]]
    getFreshProtected_eff(2) [OF assms, of item] by (auto simp: cached_def)

lemma apply_transition_quiet:
  assumes "static_ok cfg s" "apply_transition tr (b, s) = (b', s')"
  shows "quiet cfg s s'"
proof -
  obtain b1 s1 where 1: "cache_Delete (tr_Key tr) s = (b1, s1)" by (rule prod.exhaust)
  obtain b2 s2 where 2: "probationary_Delete (tr_Key tr) s1 = (b2, s2)" by (rule prod.exhaust)
  note q1 = cache_Delete_quiet [OF assms(1) 1]
  have "quiet cfg s s2" using quiet_trans [OF q1 probationary_Delete_quiet [OF quiet_static [OF q1] 2]] .
  then show ?thesis using assms 1 2 by (auto simp: apply_transition_def Let_def split: if_splits)
qed

lemma publish_quiet [simp]: "quiet cfg s (publish ob changed s') = quiet cfg s s'"
  by (simp add: publish_def Let_def)

lemma promote_locked_eff:
  assumes "static_ok cfg s" "promote_locked E key candidate s = (ob, stored, s')"
  shows "static_ok cfg s' \<and> frame s s' \<and> (\<forall>k x. cached s' k x \<longrightarrow> cached s k x \<or> (k = key \<and> x = sn_Value candidate))"
proof -
  let ?now = "en_clock E (sv_ticks s)"
  obtain o' t where ob: "Admit (en_arith E) (sv_tracker s) ?now key = (o', t)" by (rule prod.exhaust)
  define s1 where "s1 = s\<lparr>sv_ticks := Suc (sv_ticks s), sv_tracker := t\<rparr>"
  define s2 where "s2 = (if o_State o' = StateHot then s1\<lparr>sv_promoting := (sv_promoting s1)[cacheEpochStripe key := True]\<rparr> else s1)"
  have q2: "quiet cfg s s2" using assms(1) by (simp add: s2_def s1_def)
  obtain b s3 where 3: "probationary_Delete key s2 = (b, s3)" by (rule prod.exhaust)
  have q3: "quiet cfg s s3" using quiet_trans [OF q2 probationary_Delete_quiet [OF quiet_static [OF q2] 3]] .
  show ?thesis
  proof (cases "o_State o' = StateHot")
    case False
    then have "s' = s3" using assms(2) ob 3 by (simp add: promote_locked_def Now_def Let_def s2_def s1_def)
    then show ?thesis using q3 by (simp add: quiet_def)
  next
    case True
    let ?n = "en_clock E (sv_ticks s3)"
    obtain b4 c where 4: "PutUntil (sv_cache s3) ?n key (sn_Value candidate) (sn_ExpiresAt candidate) = (b4, c)" by (rule prod.exhaust)
    define s5 where "s5 = s3\<lparr>sv_ticks := Suc (sv_ticks s3), sv_cache := c\<rparr>"
    have s': "s' = s5\<lparr>sv_promoting := (sv_promoting s5)[cacheEpochStripe key := False]\<rparr>"
      using assms(2) ob 3 4 True by (simp add: promote_locked_def Now_def Let_def s2_def s1_def s5_def)
    note T = tier_PutUntil [OF static_tier [OF quiet_static [OF q3]] 4]
    have "static_ok cfg (s3\<lparr>sv_ticks := Suc (sv_ticks s3)\<rparr>)" using quiet_static [OF q3] by simp
    note U = cache_update [OF this T(1)]
    have "protected s5 \<subseteq>\<^sub>m (protected s3)(key \<mapsto> (sn_Value candidate, sn_ExpiresAt candidate))"
      using T(2) U(2) by (simp add: s5_def protected_def)
    then have "cached s5 k x \<Longrightarrow> cached s3 k x \<or> (k = key \<and> x = sn_Value candidate)" for k x
      using map_le_bind [of "protected s5" "protected s3" key "sn_Value candidate" "sn_ExpiresAt candidate" k x] U(3)
      by (auto simp: cached_def s5_def)
    then show ?thesis using q3 U(1) by (auto simp: s' quiet_def s5_def)
  qed
qed

text \<open>The value a local read is about to answer.\<close>

fun local_item :: "local \<Rightarrow> entry_snapshot option" where
  "local_item (LSettle _ item _ _ _) = item"
| "local_item (LEnd _ item) = item"
| "local_item _ = None"

lemma stripe_section_quiet:
  assumes "static_ok cfg s" "stripe_section E key state s = (lp', s')"
  shows "quiet cfg s s' \<and> (\<forall>item. local_item lp' = Some item \<longrightarrow> cached s key (sn_Value item))"
proof -
  define r where "r = (if IsHot (sv_tracker s) key then getFreshProtected E key s else (None, s))"
  obtain i1 s1 where 1: "r = (i1, s1)" by (rule prod.exhaust)
  have q1: "quiet cfg s s1" "i1 = Some item \<Longrightarrow> cached s key (sn_Value item)" for item
    using getFresh_quiet [OF assms(1), of E key i1 s1] 1 assms(1) by (auto simp: r_def split: if_splits)
  obtain i2 s2 where 2: "probationary_Get E key s1 = (i2, s2)" by (rule prod.exhaust)
  note q2 = probationary_Get_quiet [OF quiet_static [OF q1(1)] 2]
  have c1: "cached s1 k x \<Longrightarrow> cached s k x" for k x using q1(1) by (simp add: quiet_def)
  show ?thesis
  proof (cases i1)
    case (Some item)
    then show ?thesis using assms(2) 1 q1 by (auto simp: stripe_section_def r_def)
  next
    case n1: None
    show ?thesis
    proof (cases i2)
      case None
      then show ?thesis using assms(2) 1 2 n1 quiet_trans [OF q1(1) q2(1)] by (auto simp: stripe_section_def r_def)
    next
      case (Some cand)
      obtain ob stored s3 where 3: "promote_locked E key cand s2 = (ob, stored, s3)" by (rule prod_cases3)
      note P = promote_locked_eff [OF quiet_static [OF q2(1)] 3]
      have c: "cached s key (sn_Value cand)" using q2(2) [OF Some] c1 by simp
      have r: "lp' = LSettle state (if stored then Some cand else None) ob (o_Transitions ob) False" "s' = s3"
        using assms(2) 1 2 3 n1 Some by (simp_all add: stripe_section_def r_def)
      have "quiet cfg s s3"
        using quiet_trans [OF q1(1) q2(1)] P c frame_trans [of s s2 s3] by (auto simp: quiet_def)
      then show ?thesis using r c by (auto split: if_splits)
    qed
  qed
qed

lemma local_step_quiet:
  assumes "static_ok cfg s" "local_step E policy key lp s = (lp', s')"
  shows "quiet cfg s s' \<and> (\<forall>item. local_item lp' = Some item \<longrightarrow> local_item lp = Some item \<or> cached s key (sn_Value item))"
proof (cases lp)
  case LObserve
  then show ?thesis using assms by (auto simp: Now_def Let_def split: if_splits prod.splits)
next
  case (LApply st ob trs ch)
  then show ?thesis
    using assms apply_transition_quiet [OF assms(1)] by (cases trs) (auto split: prod.splits if_splits)
next
  case (LProtected st)
  then show ?thesis using assms getFresh_quiet [OF assms(1)] by (auto split: if_splits prod.splits)
next
  case (LProbe st)
  then show ?thesis using assms probationary_Get_quiet(1) [OF assms(1)] by (auto split: if_splits prod.splits)
next
  case (LReread st)
  then show ?thesis using assms getFresh_quiet [OF assms(1)] by (auto split: if_splits prod.splits)
next
  case (LStripe st)
  then show ?thesis using assms stripe_section_quiet [OF assms(1)] by auto
next
  case (LSettle st item ob trs ch)
  then show ?thesis
    using assms apply_transition_quiet [OF assms(1)] by (cases trs) (auto split: prod.splits if_splits)
qed (use assms in \<open>auto split: if_splits\<close>)

section \<open>Stores\<close>

lemma rebinds_quiet: "quiet cfg s s1 \<Longrightarrow> rebinds key v s1 s' \<Longrightarrow> rebinds key v s s'"
  unfolding rebinds_def quiet_def by meson

lemma rebinds_simps [simp]:
  "rebinds key v s (on_metrics f s') = rebinds key v s s'" "rebinds key v s (observeCache s') = rebinds key v s s'"
  "rebinds key v (bump i s) s' = rebinds key v s s'" "rebinds key v (s\<lparr>sv_ticks := n\<rparr>) s' = rebinds key v s s'"
  by (simp_all add: rebinds_def)

lemma rebindsI:
  assumes "protected s' \<subseteq>\<^sub>m (protected s)(key \<mapsto> (v, ex))" "probation s' \<subseteq>\<^sub>m (probation s)(key \<mapsto> (v, ex'))"
  shows "rebinds key (Some v) s s'"
  unfolding rebinds_def cached_def using map_le_bind [OF assms(1)] map_le_bind [OF assms(2)] by fastforce

lemma map_le_delete: "m' \<subseteq>\<^sub>m m(k := None) \<Longrightarrow> m' \<subseteq>\<^sub>m m(k \<mapsto> y)"
  by (auto simp: map_le_def dom_def split: if_splits)

lemma storeLocal_eff:
  assumes "static_ok cfg s" "storeLocal E key v policy s = (b, s')"
  shows "static_ok cfg s' \<and> frame s s' \<and> probation s' = probation s \<and>
    (\<exists>ex. protected s' \<subseteq>\<^sub>m (protected s)(key \<mapsto> (uv_Data v, ex)))"
proof -
  consider (deleted) "s' = snd (cache_Delete key s)"
    | (put) now ttl c where "0 < ttl" "Put (sv_cache s) now key (uv_Data v) ttl = (b, c)"
        "s' = s\<lparr>sv_ticks := Suc (sv_ticks s), sv_cache := c\<rparr>"
    using assms(2) by (auto simp: storeLocal_def Now_def Let_def not_le split: if_splits prod.splits)
  then show ?thesis
  proof cases
    case deleted
    obtain b1 s1 where 1: "cache_Delete key s = (b1, s1)" by (rule prod.exhaust)
    from cache_Delete_eff [OF assms(1) 1] deleted 1 tier_frames(1) [OF 1] show ?thesis
      by (auto simp: shrink_def intro!: exI map_le_delete)
  next
    case put
    note T = tier_Put [OF static_tier [OF assms(1)] put(2,1)]
    have "static_ok cfg (s\<lparr>sv_ticks := Suc (sv_ticks s)\<rparr>)" using assms(1) by simp
    note U = cache_update [OF this T(1)]
    show ?thesis using T(2) U put(3) by (auto simp: protected_def)
  qed
qed

text \<open>A refill adds at most the value it was given.\<close>

definition adds :: "bytes \<Rightarrow> upstream_value \<Rightarrow> 'w service \<Rightarrow> 'w service \<Rightarrow> bool" where
  "adds key v s s' \<longleftrightarrow> (\<forall>k x. cached s' k x \<longrightarrow> cached s k x \<or> (k = key \<and> answer v = Some x))"

lemma quiet_adds: "quiet cfg s s' \<Longrightarrow> adds key v s s'"
  by (simp add: quiet_def adds_def)

lemma storeProbationary_eff:
  assumes "static_ok cfg s" "storeProbationary E key v policy s = (b, s')" "uv_Exists v"
  shows "static_ok cfg s' \<and> frame s s' \<and> adds key v s s'"
proof -
  consider (same) "s' = s" | (deleted) "s' = snd (probationary_Delete key s)"
    | (put) p now ttl c where "0 < ttl" "sv_probationary s = Some p" "Put p now key (uv_Data v) ttl = (b, c)"
        "s' = s\<lparr>sv_ticks := Suc (sv_ticks s), sv_probationary := Some c\<rparr>"
    using assms(2) by (auto simp: storeProbationary_def Now_def Let_def not_le split: if_splits prod.splits option.splits)
  then show ?thesis
  proof cases
    case same
    then show ?thesis using assms(1) by (simp add: adds_def)
  next
    case deleted
    obtain b1 s1 where 1: "probationary_Delete key s = (b1, s1)" by (rule prod.exhaust)
    have "quiet cfg s s'" using probationary_Delete_quiet [OF assms(1) 1] deleted 1 by simp
    then show ?thesis using quiet_adds [of cfg s s'] by (simp add: quiet_def)
  next
    case put
    note T = tier_Put [OF static_probationary [OF assms(1) put(2)] put(3,1)]
    have st: "static_ok cfg (s\<lparr>sv_ticks := Suc (sv_ticks s)\<rparr>)"
      "sv_probationary (s\<lparr>sv_ticks := Suc (sv_ticks s)\<rparr>) = Some p" using assms(1) put(2) by simp_all
    note U = probationary_update [OF st T(1)]
    have "probation s' \<subseteq>\<^sub>m (probation s)(key \<mapsto> (uv_Data v, now + ttl))"
      using T(2) U put(2,4) by (simp add: probation_def)
    then have "adds key v s s'"
      using map_le_bind [of "probation s'" "probation s" key "uv_Data v" "now + ttl"] U(3) put(4) assms(3)
      by (fastforce simp: adds_def cached_def answer_def)
    then show ?thesis using U(1) put(4) by simp
  qed
qed

lemma reconcileLocal_eff:
  assumes "static_ok cfg s"
  shows "static_ok cfg (reconcileLocal E key v policy s) \<and> frame s (reconcileLocal E key v policy s) \<and>
    adds key v s (reconcileLocal E key v policy s)"
proof -
  obtain bc sc where c: "cache_Delete key s = (bc, sc)" by (rule prod.exhaust)
  obtain bp sp where p: "probationary_Delete key s = (bp, sp)" by (rule prod.exhaust)
  note qc = cache_Delete_quiet [OF assms c] and qp = probationary_Delete_quiet [OF assms p]
  have lift: "adds key v s u" if "quiet cfg s t" "adds key v t u" for t u
    using that unfolding quiet_def adds_def by blast
  consider (absent) "\<not> uv_Exists v" | (hot) "uv_Exists v" "IsHot (sv_tracker s) key" | (cold) "uv_Exists v" "\<not> IsHot (sv_tracker s) key"
    by blast
  then show ?thesis
  proof cases
    case absent
    obtain b2 s2 where 2: "probationary_Delete key sc = (b2, s2)" by (rule prod.exhaust)
    have q: "quiet cfg s s2" using quiet_trans [OF qc probationary_Delete_quiet [OF quiet_static [OF qc] 2]] .
    show ?thesis using absent c 2 q quiet_adds [OF q, of key v] by (simp add: reconcileLocal_def quiet_def)
  next
    case hot
    obtain b2 s2 where 2: "storeLocal E key v policy sp = (b2, s2)" by (rule prod.exhaust)
    obtain ex where S: "static_ok cfg s2" "frame sp s2" "probation s2 = probation sp"
        "protected s2 \<subseteq>\<^sub>m (protected sp)(key \<mapsto> (uv_Data v, ex))"
      using storeLocal_eff [OF quiet_static [OF qp] 2] by blast
    have "adds key v sp s2"
      using map_le_bind [OF S(4)] S(3) hot(1) by (fastforce simp: adds_def cached_def answer_def)
    then show ?thesis
      using hot p 2 S lift [OF qp] frame_trans [of s sp s2] qp by (simp add: reconcileLocal_def quiet_def)
  next
    case cold
    obtain b2 s2 where 2: "storeProbationary E key v policy sc = (b2, s2)" by (rule prod.exhaust)
    from storeProbationary_eff [OF quiet_static [OF qc] 2 cold(1)] show ?thesis
      using cold c 2 lift [OF qc] frame_trans [of s sc s2] qc by (simp add: reconcileLocal_def quiet_def)
  qed
qed

lemma reconcile_eff:
  assumes "static_ok cfg s" "s' = reconcileLocalIfCurrent E key v epoch policy s"
  shows "static_ok cfg s'" "frame s s'"
    "cached s' k x \<Longrightarrow> cached s k x \<or> (k = key \<and> answer v = Some x \<and> epoch = cacheEpoch key s)"
  using reconcileLocal_eff [OF assms(1), of E key v policy] assms
  by (auto simp: reconcileLocalIfCurrent_def withCurrentCacheEpoch_def cacheEpoch_def adds_def split: if_splits)

section \<open>Invalidation and write-through\<close>

text \<open>Bumping the epochs of the stripes \<open>is\<close>, whatever else happens to the service but for the gates and the world.\<close>

definition bumped :: "nat set \<Rightarrow> 'w service \<Rightarrow> 'w service \<Rightarrow> bool" where
  "bumped is s s' \<longleftrightarrow> sv_world s' = sv_world s \<and> sv_gates s' = sv_gates s \<and>
     length (sv_epochs s') = length (sv_epochs s) \<and>
     (\<forall>i < length (sv_epochs s). sv_epochs s' ! i = (if i \<in> is then sv_epochs s ! i + 1 else sv_epochs s ! i))"

lemma frame_bumped: "frame s s' \<Longrightarrow> bumped {} s s'"
  by (simp add: frame_def bumped_def)

lemma bumped_frame: "bumped is s s' \<Longrightarrow> frame s' s'' \<Longrightarrow> bumped is s s''"
  by (simp add: frame_def bumped_def)

lemma bump_bumped: "bumped {i} s (bump i s)"
  by (simp add: bumped_def bump_def nth_list_update)

lemma invalidate_key_eff:
  assumes "static_ok cfg s" "invalidate_key key (adv, n, s) = (adv', n', s')"
  shows "static_ok cfg s'" "rebinds key None s s'" "set adv' = insert (cacheEpochStripe key) (set adv)"
    "bumped (if cacheEpochStripe key \<in> set adv then {} else {cacheEpochStripe key}) s s'"
proof -
  let ?i = "cacheEpochStripe key"
  define s0 where "s0 = (if ?i \<notin> set adv then bump ?i s else s)"
  have st0: "static_ok cfg s0" using assms(1) by (simp add: s0_def)
  obtain b1 s1 where 1: "cache_Delete key s0 = (b1, s1)" by (rule prod.exhaust)
  note E1 = cache_Delete_eff [OF st0 1]
  obtain b2 s2 where 2: "probationary_Delete key s1 = (b2, s2)" by (rule prod.exhaust)
  note E2 = probationary_Delete_eff [OF shrink_static [OF E1(1)] 2]
  have r: "adv' = (if ?i \<notin> set adv then ?i # adv else adv)" "s' = s2"
    using assms(2) 1 2 by (auto simp: invalidate_key_def Let_def s0_def split: if_splits)
  show "static_ok cfg s'" using shrink_static [OF E2(1)] r by simp
  show "set adv' = insert ?i (set adv)" using r by auto
  have "protected s0 = protected s" "probation s0 = probation s" by (simp_all add: s0_def)
  then show "rebinds key None s s'"
    using E1(2,3) E2(2,3) r(2) unfolding rebinds_def cached_def by (auto split: if_splits)
  have "bumped (if ?i \<in> set adv then {} else {?i}) s s0"
    using bump_bumped [of ?i s] by (auto simp: s0_def frame_bumped)
  then show "bumped (if ?i \<in> set adv then {} else {?i}) s s'"
    using bumped_frame tier_frames(1) [OF 1] tier_frames(2) [OF 2] r(2) by metis
qed

lemma writeThroughSet_eff:
  assumes "static_ok cfg s" "writeThroughSet E key v s = (n, s')"
  shows "static_ok cfg s'" "rebinds key (Some v) s s'" "bumped {cacheEpochStripe key} s s'"
proof -
  let ?p = "Match (sv_policies s) key"
  define s1 where "s1 = (bump (cacheEpochStripe key) s)\<lparr>sv_ticks := Suc (sv_ticks s)\<rparr>"
  have st1: "static_ok cfg s1" "cached s1 = cached s" using assms(1) by (simp_all add: s1_def)
  obtain pr s2 where 2: "drop_probationary E key s1 = (pr, s2)" by (rule prod.exhaust)
  have e2: "static_ok cfg s2 \<and> frame s1 s2 \<and> protected s2 = protected s1 \<and> probation s2 = (probation s1)(key := None)"
  proof (cases "sv_probationary s1")
    case None
    then show ?thesis using 2 st1 by (auto simp: probation_def drop_probationary_def)
  next
    case (Some p)
    obtain b u where u: "probationary_Delete key (s1\<lparr>sv_ticks := Suc (sv_ticks s1)\<rparr>) = (b, u)" by (rule prod.exhaust)
    have "static_ok cfg (s1\<lparr>sv_ticks := Suc (sv_ticks s1)\<rparr>)" using st1 by simp
    note D = probationary_Delete_eff [OF this u]
    have "s2 = u" using 2 Some u by (simp add: Now_def Let_def drop_probationary_def)
    then show ?thesis using D tier_frames(2) [OF u] by (simp add: shrink_def frame_def)
  qed
  have "static_ok cfg s' \<and> frame s2 s' \<and> probation s' = probation s2 \<and>
    (\<exists>ex. protected s' \<subseteq>\<^sub>m (protected s2)(key \<mapsto> (v, ex)))"
  proof (cases "d_Mode ?p = ModeCache \<and> IsHot (sv_tracker s2) key")
    case True
    let ?v = "\<lparr>uv_Data = v, uv_Exists = True, uv_PTTL = - 1\<rparr>"
    obtain b s3 where 3: "storeLocal E key ?v ?p s2 = (b, s3)" by (rule prod.exhaust)
    have "s' = s3" using assms(2) 2 3 True unfolding s1_def by (simp add: writeThroughSet_def Let_def Now_def)
    then show ?thesis using storeLocal_eff [of cfg s2 E key ?v ?p b s3] 3 e2 by simp
  next
    case False
    obtain b s3 where 3: "cache_Delete key s2 = (b, s3)" by (rule prod.exhaust)
    have "s' = s3" using assms(2) 2 3 False unfolding s1_def by (simp add: writeThroughSet_def Let_def Now_def)
    then show ?thesis
      using cache_Delete_eff [of cfg s2 key b s3] 3 e2 tier_frames(1) [OF 3] by (auto simp: shrink_def intro!: exI map_le_delete)
  qed
  then obtain ex where e3: "static_ok cfg s'" "frame s2 s'" "probation s' = probation s2"
      "protected s' \<subseteq>\<^sub>m (protected s2)(key \<mapsto> (v, ex))" by blast
  show "static_ok cfg s'" by (rule e3(1))
  have "probation s' \<subseteq>\<^sub>m (probation s1)(key \<mapsto> (v, ex))" using e3(3) e2 by (auto intro!: map_le_delete)
  then have "rebinds key (Some v) s1 s'" using rebindsI [of s' s1 key v ex ex] e3(4) e2 by simp
  then show "rebinds key (Some v) s s'" using st1(2) by (auto simp: rebinds_def split: if_splits)
  have "bumped {cacheEpochStripe key} s s1" using bump_bumped [of "cacheEpochStripe key" s] by (simp add: s1_def bumped_def)
  then show "bumped {cacheEpochStripe key} s s'" using bumped_frame e2 e3(2) by metis
qed

lemma bumped_trans: "bumped A s s' \<Longrightarrow> bumped B s' s'' \<Longrightarrow> A \<inter> B = {} \<Longrightarrow> bumped (A \<union> B) s s''"
  unfolding bumped_def by auto

lemma fold_bump_bumped: "distinct is \<Longrightarrow> bumped (set is) s (fold bump is s)"
proof (induction "is" arbitrary: s)
  case (Cons i "is")
  then show ?case using bumped_trans [OF bump_bumped [of i s], of "set is"] by simp
qed (simp add: bumped_def)

lemma PurgeCache_eff:
  assumes "static_ok cfg s" "PurgeCache key s = (b, s')"
  shows "static_ok cfg s'" "cached s' k x \<Longrightarrow> cached s k x" "\<exists>is. bumped is s s'"
proof -
  have "static_ok cfg s' \<and> (\<forall>k x. cached s' k x \<longrightarrow> cached s k x) \<and> (\<exists>is. bumped is s s')"
  proof (cases "key = []")
    case True
    define s1 where "s1 = s\<lparr>sv_cache := Purge (sv_cache s), sv_probationary := map_option Purge (sv_probationary s)\<rparr>"
    have s': "s' = observeCache (fold bump [0 ..< length (sv_epochs s)] s1)"
      using assms(2) True by (simp add: PurgeCache_def purgeAllCache_def s1_def)
    have fold_simps': "static_ok cfg (fold bump is u) = static_ok cfg u" "cached (fold bump is u) = cached u" for "is" u
      by (induction "is" arbitrary: u) simp_all
    have st: "static_ok cfg s1" "cached s1 = (\<lambda>_ _. False)"
      using assms(1) tier_cleared(1)
      by (auto simp: s1_def static_ok_def cached_def protected_def probation_def fun_eq_iff split: option.splits)
    have "bumped (set [0 ..< length (sv_epochs s)]) s (fold bump [0 ..< length (sv_epochs s)] s1)"
      using fold_bump_bumped [of "[0 ..< length (sv_epochs s)]" s1] by (simp add: bumped_def s1_def)
    then have "bumped (set [0 ..< length (sv_epochs s)]) s s'"
      by (rule bumped_frame) (simp add: s')
    then show ?thesis using st by (auto simp: s' fold_simps')
  next
    case False
    obtain adv n u where 1: "invalidate_key key ([], 0, s) = (adv, n, u)" by (rule prod_cases3)
    note I = invalidate_key_eff [OF assms(1) 1]
    have "s' = observeCache u \<or> s' = observeCache (on_metrics (Invalidation ''admin_purge'') u)"
      using assms(2) False 1 by (auto simp: PurgeCache_def invalidateCacheKeys_def split: if_splits)
    moreover have "cached u k x \<longrightarrow> cached s k x" for k x using I(2) by (auto simp: rebinds_def split: if_splits)
    moreover have "bumped {cacheEpochStripe key} s s'" using calculation(1) bumped_frame [OF I(4), of s'] by auto
    ultimately show ?thesis using I(1) by auto
  qed
  then show "static_ok cfg s'" "cached s' k x \<Longrightarrow> cached s k x" "\<exists>is. bumped is s s'" by blast+
qed

section \<open>Upstream calls\<close>

text \<open>A call changes the world only.\<close>

definition calls :: "config \<Rightarrow> 'w service \<Rightarrow> 'w service \<Rightarrow> bool" where
  "calls cfg s s' \<longleftrightarrow> static_ok cfg s' \<and> sv_epochs s' = sv_epochs s \<and> sv_gates s' = sv_gates s \<and> cached s' = cached s"

lemma fetch_calls:
  assumes "static_ok cfg s" "fetchUpstreamGet E key s = (r, s')"
  shows "calls cfg s s'" "cl_Get (en_client E) key (sv_world s) = (r, sv_world s')"
  using assms by (auto simp: fetchUpstreamGet_def calls_def Now_def Let_def on_metrics_def static_ok_def cached_def
      protected_def probation_def fun_eq_iff split: prod.splits)

lemma mget_calls:
  assumes "static_ok cfg s" "mget_upstream E keys s = (r, s')"
  shows "calls cfg s s'" "cl_MGet (en_client E) keys (sv_world s) = (r, sv_world s')"
  using assms by (auto simp: mget_upstream_def calls_def Now_def Let_def on_metrics_def static_ok_def cached_def
      protected_def probation_def fun_eq_iff split: prod.splits option.splits)

lemma do_calls:
  assumes "static_ok cfg s" "upstream_Do E command args s = (r, s')"
  shows "calls cfg s s'" "cl_Do (en_client E) (command # args) (sv_world s) = (r, sv_world s')"
  using assms by (auto simp: upstream_Do_def calls_def Now_def Let_def on_metrics_def static_ok_def cached_def
      protected_def probation_def fun_eq_iff split: prod.splits)

end
