(* ===== verification/Coherence.thy ===== *)
theory Coherence
  imports InterleaveEff ServiceProps
begin

text \<open>
  Coherence of the cache under every interleaving of readers, flights, writers, purges and pass-through
  commands: the protocol of epochs, mutation gates and \<^verbatim>\<open>Forget\<close> keeps every cached value, every pending
  refill and every shareable flight result current except while a write of the key is being finalised.
\<close>

section \<open>What a thread owes\<close>

text \<open>Keys whose cached values a write has still to remove, and those whose epoch it has still to advance.\<close>

fun unsettled :: "cthread \<Rightarrow> bytes set" where
  "unsettled (Writer wr (WFinish n r)) = set (wr_keys wr)"
| "unsettled (Writer wr (WClean adv n keys r)) = set keys"
| "unsettled t = {}"

fun unbumped :: "cthread \<Rightarrow> bytes set" where
  "unbumped (Writer wr (WFinish n r)) = set (wr_keys wr)"
| "unbumped (Writer wr (WClean adv n keys r)) = {k \<in> set keys. cacheEpochStripe k \<notin> set adv}"
| "unbumped t = {}"

text \<open>Keys written whose flights are not yet all forgotten.\<close>

fun unforgotten :: "cthread \<Rightarrow> bytes set" where
  "unforgotten (Writer wr (WFinish n r)) = set (wr_keys wr)"
| "unforgotten (Writer wr (WClean adv n keys r)) = set (wr_keys wr)"
| "unforgotten (Writer wr (WForget n keys r)) = set keys"
| "unforgotten t = {}"

text \<open>Epochs captured by reads, refills about to be stored, results a later GET may share.\<close>

definition epochs_of :: "missing_read list \<Rightarrow> (bytes \<times> u64) set" where
  "epochs_of reads = (\<lambda>r. (mr_key r, mr_epoch r)) ` set reads"

fun captures :: "cthread \<Rightarrow> (bytes \<times> u64) set" where
  "captures (Reader key (RCall e)) = {(key, e)}"
| "captures (Flight key e p ph f) = {(key, e)}"
| "captures (Batch keys (MScan i lp out missing)) = epochs_of missing"
| "captures (Batch keys (MFetch out missing)) = epochs_of missing"
| "captures (Batch keys (MStore vs missing out)) = epochs_of missing"
| "captures t = {}"

fun refills :: "cthread \<Rightarrow> (bytes \<times> u64 \<times> upstream_value) set" where
  "refills (Flight key e p (FStore v) f) = {(key, e, v)}"
| "refills (Batch keys (MStore vs missing out)) = (\<lambda>(v, r). (mr_key r, mr_epoch r, v)) ` set (zip vs missing)"
| "refills t = {}"

fun fetched :: "cthread \<Rightarrow> (bytes \<times> upstream_value) set" where
  "fetched (Flight key e p (FStore v) False) = {(key, v)}"
| "fetched (Flight key e p (FDone (Inr v)) False) = {(key, v)}"
| "fetched t = {}"

text \<open>What a write has stored and is about to write through.\<close>

fun committed :: "unicode \<Rightarrow> cthread \<Rightarrow> (bytes \<times> bytes) set" where
  "committed u (Writer wr (WFinish n r)) = set_option (through u wr r)"
| "committed u t = {}"

text \<open>
  A thread is as its calls make it, and its commands do to the store what they should: a write changes
  the keys it names only and an acknowledged \<^verbatim>\<open>SET key value\<close> sets its key; a pass-through command
  changes nothing.
\<close>

fun faithful_thread :: "'w senv \<Rightarrow> ('w \<Rightarrow> bytes \<Rightarrow> bytes option) \<Rightarrow> cthread \<Rightarrow> bool" where
  "faithful_thread E db (Writer wr ph) =
     (\<forall>w r w'. cl_Do (en_client E) (wr_command wr # wr_args wr) w = (r, w') \<longrightarrow>
        (\<forall>k. k \<notin> set (wr_keys wr) \<longrightarrow> db w' k = db w k) \<and>
        (\<forall>key v. through (en_unicode E) wr r = Some (key, v) \<longrightarrow> db w' key = Some v))"
| "faithful_thread E db (Passer command args) = (\<forall>w. db (snd (cl_Do (en_client E) (command # args) w)) = db w)"
| "faithful_thread E db t = True"

fun shaped :: "cthread \<Rightarrow> bool" where
  "shaped (Writer wr (WAcquire acquired pending)) = (acquired @ pending = needed_stripes (wr_keys wr))"
| "shaped (Writer wr (WClean adv n keys r)) = (set keys \<subseteq> set (wr_keys wr))"
| "shaped (Writer wr (WForget n keys r)) = (set keys \<subseteq> set (wr_keys wr))"
| "shaped (Writer wr (WRelease gs r)) = (distinct gs \<and> set gs \<subseteq> set (needed_stripes (wr_keys wr)))"
| "shaped t = True"

section \<open>The invariant\<close>

abbreviation owed :: "(cthread \<Rightarrow> bytes set) \<Rightarrow> cthread list \<Rightarrow> bytes \<Rightarrow> bool" where
  "owed f ts k \<equiv> \<exists>t \<in> set ts. k \<in> f t"

definition coh ::
  "config \<Rightarrow> 'w senv \<Rightarrow> ('w \<Rightarrow> bytes \<Rightarrow> bytes option) \<Rightarrow> nat \<Rightarrow> cthread list \<Rightarrow> 'w service \<Rightarrow> bool"
where
  "coh cfg E db n ts s \<longleftrightarrow>
     static_ok cfg s \<and> (\<forall>t \<in> set ts. shaped t \<and> faithful_thread E db t) \<and>
     (\<forall>k x. cached s k x \<longrightarrow> db (sv_world s) k = Some x \<or> owed unsettled ts k) \<and>
     (\<forall>t \<in> set ts. \<forall>k e v. (k, e, v) \<in> refills t \<longrightarrow>
        e \<noteq> cacheEpoch k s \<or> answer v = db (sv_world s) k \<or> owed unbumped ts k) \<and>
     (\<forall>t \<in> set ts. \<forall>k e. (k, e) \<in> captures t \<longrightarrow> unat e \<le> unat (cacheEpoch k s)) \<and>
     (\<forall>t \<in> set ts. \<forall>k v. (k, v) \<in> fetched t \<longrightarrow> answer v = db (sv_world s) k \<or> owed unforgotten ts k) \<and>
     (\<forall>t \<in> set ts. \<forall>k v. (k, v) \<in> committed (en_unicode E) t \<longrightarrow> db (sv_world s) k = Some v) \<and>
     (\<forall>i < length (sv_epochs s). unat (sv_epochs s ! i) \<le> n)"

lemma stripe_less: "cacheEpochStripe key < cacheEpochStripeCount"
  using unat_mod_distrib [of "foldl fnv_step 2166136261 key" "256 :: u32"]
  by (simp add: cacheEpochStripe_def cacheEpochStripeCount_def)

lemma cohD:
  assumes "coh cfg E db n ts s"
  shows "static_ok cfg s"
    and "t \<in> set ts \<Longrightarrow> shaped t" "t \<in> set ts \<Longrightarrow> faithful_thread E db t"
    and "cached s k x \<Longrightarrow> db (sv_world s) k = Some x \<or> owed unsettled ts k"
    and "t \<in> set ts \<Longrightarrow> (k, e, v) \<in> refills t \<Longrightarrow> e \<noteq> cacheEpoch k s \<or> answer v = db (sv_world s) k \<or> owed unbumped ts k"
    and "t \<in> set ts \<Longrightarrow> (k, e) \<in> captures t \<Longrightarrow> unat e \<le> unat (cacheEpoch k s)"
    and "t \<in> set ts \<Longrightarrow> (k, v) \<in> fetched t \<Longrightarrow> answer v = db (sv_world s) k \<or> owed unforgotten ts k"
    and "t \<in> set ts \<Longrightarrow> (k, x) \<in> committed (en_unicode E) t \<Longrightarrow> db (sv_world s) k = Some x"
    and "i < length (sv_epochs s) \<Longrightarrow> unat (sv_epochs s ! i) \<le> n"
  using assms unfolding coh_def by blast+

lemma cohI:
  assumes "static_ok cfg s"
    and "\<And>t. t \<in> set ts \<Longrightarrow> shaped t \<and> faithful_thread E db t"
    and "\<And>k x. cached s k x \<Longrightarrow> db (sv_world s) k = Some x \<or> owed unsettled ts k"
    and "\<And>t k e v. t \<in> set ts \<Longrightarrow> (k, e, v) \<in> refills t \<Longrightarrow> e \<noteq> cacheEpoch k s \<or> answer v = db (sv_world s) k \<or> owed unbumped ts k"
    and "\<And>t k e. t \<in> set ts \<Longrightarrow> (k, e) \<in> captures t \<Longrightarrow> unat e \<le> unat (cacheEpoch k s)"
    and "\<And>t k v. t \<in> set ts \<Longrightarrow> (k, v) \<in> fetched t \<Longrightarrow> answer v = db (sv_world s) k \<or> owed unforgotten ts k"
    and "\<And>t k x. t \<in> set ts \<Longrightarrow> (k, x) \<in> committed (en_unicode E) t \<Longrightarrow> db (sv_world s) k = Some x"
    and "\<And>i. i < length (sv_epochs s) \<Longrightarrow> unat (sv_epochs s ! i) \<le> n"
  shows "coh cfg E db n ts s"
  unfolding coh_def using assms by (intro conjI ballI allI impI) blast+

section \<open>Replacing one thread\<close>

lemma replaced_old: "i < length ts \<Longrightarrow> u \<in> set ts \<Longrightarrow> u = ts ! i \<or> u \<in> set (ts[i := t'])"
  by (metis in_set_conv_nth length_list_update nth_list_update_neq)

lemma replaced_new: "i < length ts \<Longrightarrow> u \<in> set (ts[i := t']) \<Longrightarrow> u = t' \<or> (\<exists>j < length ts. j \<noteq> i \<and> u = ts ! j)"
  by (metis in_set_conv_nth length_list_update nth_list_update_eq nth_list_update_neq)

lemma owed_update:
  assumes "i < length ts" "owed f ts k" "k \<in> f (ts ! i) \<Longrightarrow> k \<in> f t'"
  shows "owed f (ts[i := t']) k"
  using assms replaced_old [OF assms(1)] set_update_memI [OF assms(1), of t'] by metis

lemma refills_captures: "(k, e, v) \<in> refills t \<Longrightarrow> (k, e) \<in> captures t"
  by (induction t rule: refills.induct) (auto simp: epochs_of_def dest: set_zip_rightD)

text \<open>
  The general step of one thread: \<open>B\<close> are the stripes whose epoch it advances, \<open>C\<close> the keys it writes in
  the upstream.
\<close>

lemma coh_step:
  assumes coh: "coh cfg E db n ts s" and i: "i < length ts"
    and st: "static_ok cfg s'" and ok: "shaped t'" "faithful_thread E db t'"
    and ep: "length (sv_epochs s') = length (sv_epochs s)"
      "\<And>j. j < length (sv_epochs s) \<Longrightarrow> sv_epochs s' ! j = (if j \<in> B then sv_epochs s ! j + 1 else sv_epochs s ! j)"
    and n: "Suc n < 2 ^ 64"
    and db: "\<And>k. k \<notin> C \<Longrightarrow> db (sv_world s') k = db (sv_world s) k"
    and C: "C \<subseteq> unsettled t'" "C \<subseteq> unbumped t'" "C \<subseteq> unforgotten t'"
      "\<And>j k v. j < length ts \<Longrightarrow> j \<noteq> i \<Longrightarrow> (k, v) \<in> committed (en_unicode E) (ts ! j) \<Longrightarrow> k \<notin> C"
    and cached: "\<And>k x. cached s' k x \<Longrightarrow>
       cached s k x \<and> (k \<in> unsettled (ts ! i) \<longrightarrow> k \<in> unsettled t') \<or> db (sv_world s') k = Some x \<or> owed unsettled (ts[i := t']) k"
    and refills: "\<And>k e v. (k, e, v) \<in> refills t' \<Longrightarrow>
       (k, e, v) \<in> refills (ts ! i) \<or> answer v = db (sv_world s') k"
    and bumps: "\<And>k. k \<in> unbumped (ts ! i) \<Longrightarrow> k \<in> unbumped t' \<or> cacheEpochStripe k \<in> B"
    and captures: "\<And>k e. (k, e) \<in> captures t' \<Longrightarrow> (k, e) \<in> captures (ts ! i) \<or> unat e \<le> unat (cacheEpoch k s')"
    and fetched: "\<And>k v. (k, v) \<in> fetched t' \<Longrightarrow> (k, v) \<in> fetched (ts ! i) \<or> answer v = db (sv_world s') k"
    and forgets: "unforgotten (ts ! i) \<subseteq> unforgotten t'"
    and committed: "\<And>k v. (k, v) \<in> committed (en_unicode E) t' \<Longrightarrow> (k, v) \<in> committed (en_unicode E) (ts ! i) \<and> C = {} \<or> db (sv_world s') k = Some v"
  shows "coh cfg E db (Suc n) (ts[i := t']) s'"
proof -
  have t': "t' \<in> set (ts[i := t'])" using i by (rule set_update_memI)
  have ti: "ts ! i \<in> set ts" using i by simp
  have len: "length (sv_epochs s) = cacheEpochStripeCount" using cohD(1) [OF coh] by (simp add: static_ok_def)
  have small: "unat (sv_epochs s ! j) \<le> n" if "j < length (sv_epochs s)" for j using cohD(9) [OF coh that] .
  have plus: "unat (sv_epochs s ! j + 1) = Suc (unat (sv_epochs s ! j))" if "j < length (sv_epochs s)" for j
    using small [OF that] n by (simp add: unat_word_ariths)
  have epoch: "cacheEpoch k s' = (if cacheEpochStripe k \<in> B then cacheEpoch k s + 1 else cacheEpoch k s)" for k
    using ep(2) [of "cacheEpochStripe k"] stripe_less [of k] len by (simp add: cacheEpoch_def)
  have mono: "unat (cacheEpoch k s) \<le> unat (cacheEpoch k s')" for k
    using epoch [of k] plus [of "cacheEpochStripe k"] stripe_less [of k] len by (auto simp: cacheEpoch_def)
  have less: "unat (cacheEpoch k s) < unat (cacheEpoch k s')" if "cacheEpochStripe k \<in> B" for k
    using that epoch [of k] plus [of "cacheEpochStripe k"] stripe_less [of k] len by (auto simp: cacheEpoch_def)
  have owedC: "owed unsettled (ts[i := t']) k \<and> owed unbumped (ts[i := t']) k \<and> owed unforgotten (ts[i := t']) k" if "k \<in> C" for k
    using C(1-3) that t' by blast
  have refill: "e \<noteq> cacheEpoch k s' \<or> answer v = db (sv_world s') k \<or> owed unbumped (ts[i := t']) k"
    if u: "u \<in> set ts" "(k, e, v) \<in> refills u" for u k e v
  proof (cases "cacheEpochStripe k \<in> B")
    case True
    then show ?thesis using less [OF True] cohD(6) [OF coh u(1) refills_captures [OF u(2)]] by auto
  next
    case False
    consider "e \<noteq> cacheEpoch k s" | "answer v = db (sv_world s) k" | "owed unbumped ts k" using cohD(5) [OF coh u] by blast
    then show ?thesis
    proof cases
      case 1
      then show ?thesis using epoch False by simp
    next
      case 2
      then show ?thesis using db owedC by metis
    next
      case 3
      from owed_update [OF i this] show ?thesis using bumps False by blast
    qed
  qed
  have old: "u = t' \<or> u \<in> set ts" if "u \<in> set (ts[i := t'])" for u
    using that set_update_subset_insert [of ts i t'] by blast
  show ?thesis
  proof (rule cohI)
    fix k x assume "cached s' k x"
    from cached [OF this] show "db (sv_world s') k = Some x \<or> owed unsettled (ts[i := t']) k"
    proof (elim disjE conjE)
      assume c: "cached s k x" "k \<in> unsettled (ts ! i) \<longrightarrow> k \<in> unsettled t'"
      show ?thesis
      proof (cases "k \<in> C")
        case False
        from cohD(4) [OF coh c(1)] show ?thesis
        proof
          assume "owed unsettled ts k"
          from owed_update [OF i this] c(2) show ?thesis by blast
        qed (use db [OF False] in simp)
      qed (use owedC in blast)
    qed blast+
  next
    fix u k e v assume u: "u \<in> set (ts[i := t'])" "(k, e, v) \<in> refills u"
    from old [OF u(1)] show "e \<noteq> cacheEpoch k s' \<or> answer v = db (sv_world s') k \<or> owed unbumped (ts[i := t']) k"
    proof
      assume "u = t'"
      then show ?thesis using refills u(2) refill [OF ti] by blast
    qed (use refill u(2) in blast)
  next
    fix u k e assume u: "u \<in> set (ts[i := t'])" "(k, e) \<in> captures u"
    have "unat e \<le> unat (cacheEpoch k s') \<or> (\<exists>u \<in> set ts. (k, e) \<in> captures u)"
      using old [OF u(1)] u(2) captures ti by blast
    then show "unat e \<le> unat (cacheEpoch k s')" using cohD(6) [OF coh] mono [of k] order_trans by blast
  next
    fix u k v assume u: "u \<in> set (ts[i := t'])" "(k, v) \<in> fetched u"
    have "answer v = db (sv_world s') k \<or> (\<exists>u \<in> set ts. (k, v) \<in> fetched u)"
      using old [OF u(1)] u(2) fetched ti by blast
    then show "answer v = db (sv_world s') k \<or> owed unforgotten (ts[i := t']) k"
    proof
      assume "\<exists>u \<in> set ts. (k, v) \<in> fetched u"
      then have "answer v = db (sv_world s) k \<or> owed unforgotten ts k" using cohD(7) [OF coh] by blast
      then show ?thesis
      proof
        assume "owed unforgotten ts k"
        from owed_update [OF i this] forgets show ?thesis by blast
      next
        assume "answer v = db (sv_world s) k"
        then show ?thesis using db [of k] owedC [of k] by (cases "k \<in> C") simp_all
      qed
    qed simp
  next
    fix u k x assume u: "u \<in> set (ts[i := t'])" "(k, x) \<in> committed (en_unicode E) u"
    from replaced_new [OF i u(1)] show "db (sv_world s') k = Some x"
    proof
      assume "u = t'"
      then show ?thesis using committed [of k x] u(2) cohD(8) [OF coh ti, of k x] db [of k] by auto
    next
      assume "\<exists>j < length ts. j \<noteq> i \<and> u = ts ! j"
      then obtain j where j: "j < length ts" "j \<noteq> i" "u = ts ! j" by blast
      then show ?thesis using C(4) [OF j(1,2)] u(2) cohD(8) [OF coh nth_mem [OF j(1)]] db [of k] by simp
    qed
  next
    fix j assume "j < length (sv_epochs s')"
    then show "unat (sv_epochs s' ! j) \<le> Suc n" using ep small [of j] plus [of j] by (auto simp: le_SucI)
  next
    fix u assume "u \<in> set (ts[i := t'])"
    from old [OF this] show "shaped u \<and> faithful_thread E db u" using ok cohD(2,3) [OF coh] by blast
  qed (rule st)
qed

text \<open>The same for a step that leaves the upstream's contents and the epochs alone.\<close>

lemma coh_quiet:
  assumes coh: "coh cfg E db n ts s" and i: "i < length ts" "ts ! i = t" and n: "Suc n < 2 ^ 64"
    and s': "static_ok cfg s'" "db (sv_world s') = db (sv_world s)" "sv_epochs s' = sv_epochs s"
      "\<And>k x. cached s' k x \<Longrightarrow> cached s k x"
    and ok: "shaped t'" "faithful_thread E db t'"
    and sub: "unsettled t \<subseteq> unsettled t'" "unbumped t \<subseteq> unbumped t'" "unforgotten t \<subseteq> unforgotten t'"
      "committed (en_unicode E) t' \<subseteq> committed (en_unicode E) t"
    and refills: "\<And>k e v. (k, e, v) \<in> refills t' \<Longrightarrow> (k, e, v) \<in> refills t \<or> answer v = db (sv_world s) k"
    and captures: "\<And>k e. (k, e) \<in> captures t' \<Longrightarrow> (k, e) \<in> captures t \<or> unat e \<le> unat (cacheEpoch k s)"
    and fetched: "\<And>k v. (k, v) \<in> fetched t' \<Longrightarrow> (k, v) \<in> fetched t \<or> answer v = db (sv_world s) k"
  shows "coh cfg E db (Suc n) (ts[i := t']) s'"
  by (rule coh_step [OF coh i(1) s'(1) ok, where B = "{}" and C = "{}"])
    (use assms in \<open>auto simp: cacheEpoch_def\<close>)

section \<open>Gates\<close>

fun holds :: "cthread \<Rightarrow> nat set" where
  "holds (Writer wr (WAcquire acquired pending)) = set acquired"
| "holds (Writer wr (WRelease gs r)) = set gs"
| "holds (Writer wr (WDone r)) = {}"
| "holds (Writer wr ph) = set (needed_stripes (wr_keys wr))"
| "holds t = {}"

text \<open>A gate is closed exactly while a write holds it, and no two writes hold the same one.\<close>

definition gates_inv :: "cthread list \<Rightarrow> 'w service \<Rightarrow> bool" where
  "gates_inv ts s \<longleftrightarrow>
     length (sv_gates s) = cacheEpochStripeCount \<and>
     (\<forall>i < length ts. \<forall>j < length ts. i \<noteq> j \<longrightarrow> holds (ts ! i) \<inter> holds (ts ! j) = {}) \<and>
     (\<forall>g < cacheEpochStripeCount. sv_gates s ! g = (\<exists>t \<in> set ts. g \<in> holds t))"

lemma needed_less: "g \<in> set (needed_stripes keys) \<Longrightarrow> g < cacheEpochStripeCount"
  by (simp add: needed_stripes_def)

lemma needed_iff: "cacheEpochStripe k \<in> set (needed_stripes keys) \<longleftrightarrow> (\<exists>k' \<in> set keys. cacheEpochStripe k' = cacheEpochStripe k)"
  using stripe_less [of k] by (auto simp: needed_stripes_def list_ex_iff)

lemma needed_sorted: "sorted (needed_stripes keys)" "distinct (needed_stripes keys)"
  by (simp_all add: needed_stripes_def sorted_wrt_filter)

lemma set_update_except: "i < length ts \<Longrightarrow> (\<exists>t \<in> set (ts[i := t']). P t) \<longleftrightarrow> P t' \<or> (\<exists>j < length ts. j \<noteq> i \<and> P (ts ! j))"
  by (metis in_set_conv_nth length_list_update nth_list_update_eq nth_list_update_neq)

lemma set_except: "i < length ts \<Longrightarrow> (\<exists>t \<in> set ts. P t) \<longleftrightarrow> P (ts ! i) \<or> (\<exists>j < length ts. j \<noteq> i \<and> P (ts ! j))"
  by (metis in_set_conv_nth)

text \<open>Gates outside \<open>G\<close> stay as they are; those in \<open>G\<close> were free or held by the thread itself.\<close>

lemma gates_step:
  assumes inv: "gates_inv ts s" and i: "i < length ts"
    and len: "length (sv_gates s') = length (sv_gates s)"
    and gates: "\<And>g. g < cacheEpochStripeCount \<Longrightarrow> g \<notin> G \<Longrightarrow> sv_gates s' ! g = sv_gates s ! g"
      "\<And>g. g < cacheEpochStripeCount \<Longrightarrow> g \<in> G \<Longrightarrow> sv_gates s' ! g = (g \<in> holds t')"
    and holds: "holds t' - G = holds (ts ! i) - G" "holds t' \<subseteq> {..< cacheEpochStripeCount}"
      "\<And>g. g \<in> G \<Longrightarrow> g \<in> holds (ts ! i) \<or> \<not> sv_gates s ! g"
  shows "gates_inv (ts[i := t']) s'"
proof -
  have others: "g \<notin> holds (ts ! j)" if "j < length ts" "j \<noteq> i" "g \<in> G" "g < cacheEpochStripeCount" for j g
    using that holds(3) [of g] inv i unfolding gates_inv_def by (metis disjoint_iff nth_mem)
  have d: "holds t' \<inter> holds (ts ! j) = {}" if "j < length ts" "j \<noteq> i" for j
  proof -
    have "g \<notin> holds (ts ! j)" if "g \<in> holds t'" for g
    proof (cases "g \<in> G")
      case True
      then show ?thesis using others [OF \<open>j < length ts\<close> \<open>j \<noteq> i\<close>] holds(2) that by blast
    next
      case False
      then have "g \<in> holds (ts ! i)" using that holds(1) by blast
      then show ?thesis using inv i \<open>j < length ts\<close> \<open>j \<noteq> i\<close> unfolding gates_inv_def by blast
    qed
    then show ?thesis by blast
  qed
  have "sv_gates s' ! g = (g \<in> holds t' \<or> (\<exists>j < length ts. j \<noteq> i \<and> g \<in> holds (ts ! j)))" if "g < cacheEpochStripeCount" for g
  proof (cases "g \<in> G")
    case True
    then show ?thesis using gates(2) [OF that True] others that by blast
  next
    case False
    have "sv_gates s ! g = (g \<in> holds (ts ! i) \<or> (\<exists>j < length ts. j \<noteq> i \<and> g \<in> holds (ts ! j)))"
      using inv that set_except [OF i, of "\<lambda>t. g \<in> holds t"] by (simp add: gates_inv_def)
    then show ?thesis using gates(1) [OF that False] holds(1) False by blast
  qed
  moreover have "holds (ts[i := t'] ! a) \<inter> holds (ts[i := t'] ! b) = {}" if "a < length ts" "b < length ts" "a \<noteq> b" for a b
    using that d [of a] d [of b] inv by (cases "a = i"; cases "b = i") (auto simp: gates_inv_def)
  ultimately show ?thesis
    using inv len by (simp add: gates_inv_def set_update_except [OF i])
qed

lemma gates_same:
  assumes "gates_inv ts s" "i < length ts" "sv_gates s' = sv_gates s" "holds t' = holds (ts ! i)" "holds t' \<subseteq> {..< cacheEpochStripeCount}"
  shows "gates_inv (ts[i := t']) s'"
  by (rule gates_step [where G = "{}", OF assms(1,2)]) (use assms in auto)

end
