(* ===== verification/CoherenceRuns.thy ===== *)
theory CoherenceRuns
  imports Coherence
begin

text \<open>Every step of every thread preserves the invariant of the concurrent service.\<close>

definition cinv ::
  "config \<Rightarrow> 'w senv \<Rightarrow> ('w \<Rightarrow> bytes \<Rightarrow> bytes option) \<Rightarrow> nat \<Rightarrow> cthread list \<times> 'w service \<Rightarrow> bool"
where
  "cinv cfg E db n = (\<lambda>(ts, s). coh cfg E db n ts s \<and> gates_inv ts s)"

lemma metrics_sel [simp]:
  "sv_epochs (on_metrics f s) = sv_epochs s" "sv_gates (on_metrics f s) = sv_gates s"
  "sv_epochs (observeCache s) = sv_epochs s" "sv_gates (observeCache s) = sv_gates s"
  by (simp_all add: on_metrics_def observeCache_def Let_def)

section \<open>Reads\<close>

text \<open>A step of a read, which owes nothing and holds no gate.\<close>

lemma read_inv:
  assumes inv: "cinv cfg E db n (ts, s)" and i: "i < length ts" "ts ! i = t" and n: "Suc n < 2 ^ 64"
    and s': "static_ok cfg s'" "db (sv_world s') = db (sv_world s)" "sv_epochs s' = sv_epochs s" "sv_gates s' = sv_gates s"
      "\<And>k x. cached s' k x \<Longrightarrow> cached s k x"
    and t: "unsettled t = {}" "unbumped t = {}" "unforgotten t = {}" "holds t = {}"
    and t': "shaped t'" "faithful_thread E db t'" "committed (en_unicode E) t' = {}" "holds t' = {}"
    and refills: "\<And>k e v. (k, e, v) \<in> refills t' \<Longrightarrow> (k, e, v) \<in> refills t \<or> answer v = db (sv_world s) k"
    and captures: "\<And>k e. (k, e) \<in> captures t' \<Longrightarrow> (k, e) \<in> captures t \<or> unat e \<le> unat (cacheEpoch k s)"
    and fetched: "\<And>k v. (k, v) \<in> fetched t' \<Longrightarrow> (k, v) \<in> fetched t \<or> answer v = db (sv_world s) k"
  shows "cinv cfg E db (Suc n) (ts[i := t'], s')"
proof -
  have c: "coh cfg E db n ts s" and g: "gates_inv ts s" using inv by (simp_all add: cinv_def)
  have "coh cfg E db (Suc n) (ts[i := t']) s'"
    by (rule coh_quiet [OF c i n s'(1-3,5) t'(1,2) _ _ _ _ refills captures fetched]) (use t t' in simp_all)
  moreover have "gates_inv (ts[i := t']) s'" by (rule gates_same [OF g i(1)]) (use i t t' s' in simp_all)
  ultimately show ?thesis by (simp add: cinv_def)
qed

lemma cinv_static: "cinv cfg E db n (ts, s) \<Longrightarrow> static_ok cfg s"
  by (simp add: cinv_def coh_def)

lemma quietD:
  assumes "quiet cfg s s'"
  shows "static_ok cfg s'" "sv_world s' = sv_world s" "sv_epochs s' = sv_epochs s" "sv_gates s' = sv_gates s"
    "cached s' k x \<Longrightarrow> cached s k x"
  using assms by (simp_all add: quiet_def frame_def)

lemma callsD:
  assumes "calls cfg s s'"
  shows "static_ok cfg s'" "sv_epochs s' = sv_epochs s" "sv_gates s' = sv_gates s" "cached s' k x \<Longrightarrow> cached s k x"
  using assms by (simp_all add: calls_def)

text \<open>A reader that changes nothing but metrics, the tracker and the contents of the tiers, downwards.\<close>

lemma reader_inv:
  assumes inv: "cinv cfg E db n (ts, s)" and i: "i < length ts" "ts ! i = Reader key ph" and n: "Suc n < 2 ^ 64"
    and q: "quiet cfg s s'" and c: "\<And>e. ph' = RCall e \<Longrightarrow> e = cacheEpoch key s"
  shows "cinv cfg E db (Suc n) (ts[i := Reader key ph'], s')"
  by (rule read_inv [OF inv i n]) (use quietD [OF q] c in \<open>cases ph'; auto\<close>)+

lemma fetch_reader_inv:
  assumes inv: "cinv cfg E db n (ts, s)" and i: "i < length ts" "ts ! i = Reader key ph" and n: "Suc n < 2 ^ 64"
    and kv: "kv_client E db" and r: "fetchUpstreamGet E key s = (r, s')"
  shows "cinv cfg E db (Suc n) (ts[i := Reader key (RDone r)], observeCache s')"
proof -
  note C = fetch_calls [OF cinv_static [OF inv] r]
  have "db (sv_world s') = db (sv_world s)" using kv C(2) unfolding kv_client_def by blast
  then show ?thesis
    by (intro read_inv [OF inv i n]) (use callsD [OF C(1)] in auto)
qed

lemma kv_get: "kv_client E db \<Longrightarrow> cl_Get (en_client E) k w = (r, w') \<Longrightarrow> db w' = db w \<and> (\<forall>v. r = Inr v \<longrightarrow> answer v = db w k)"
  by (simp add: kv_client_def)

lemma kv_mget:
  "kv_client E db \<Longrightarrow> cl_MGet (en_client E) ks w = (r, w') \<Longrightarrow>
    db w' = db w \<and> (\<forall>vs. r = Some (Inr vs) \<longrightarrow> map answer vs = map (db w) ks)"
  by (simp add: kv_client_def)

section \<open>Flights\<close>

lemma coh_append:
  assumes "coh cfg E db n ts s" "shaped u" "faithful_thread E db u" "refills u = {}" "fetched u = {}"
    "committed (en_unicode E) u = {}" "\<And>k e. (k, e) \<in> captures u \<Longrightarrow> \<exists>t \<in> set ts. (k, e) \<in> captures t"
  shows "coh cfg E db n (ts @ [u]) s"
proof -
  have o: "owed f ts k \<Longrightarrow> owed f (ts @ [u]) k" for f k by auto
  show ?thesis
  proof (rule cohI)
    fix k x assume "cached s k x"
    then show "db (sv_world s) k = Some x \<or> owed unsettled (ts @ [u]) k" using cohD(4) [OF assms(1)] o by blast
  next
    fix t k e v assume "t \<in> set (ts @ [u])" "(k, e, v) \<in> refills t"
    then have "t \<in> set ts" using assms(4) by auto
    then show "e \<noteq> cacheEpoch k s \<or> answer v = db (sv_world s) k \<or> owed unbumped (ts @ [u]) k"
      using cohD(5) [OF assms(1) _ \<open>(k, e, v) \<in> refills t\<close>] o by blast
  next
    fix t k e assume "t \<in> set (ts @ [u])" "(k, e) \<in> captures t"
    then show "unat e \<le> unat (cacheEpoch k s)" using cohD(6) [OF assms(1)] assms(7) [of k e] by fastforce
  next
    fix t k v assume "t \<in> set (ts @ [u])" "(k, v) \<in> fetched t"
    then have "t \<in> set ts" using assms(5) by auto
    then show "answer v = db (sv_world s) k \<or> owed unforgotten (ts @ [u]) k"
      using cohD(7) [OF assms(1) _ \<open>(k, v) \<in> fetched t\<close>] o by blast
  qed (use assms cohD(1,2,3,8,9) [OF assms(1)] in auto)
qed

lemma gates_append:
  assumes "gates_inv ts s" "holds u = {}"
  shows "gates_inv (ts @ [u]) s"
  using assms by (auto simp: gates_inv_def nth_append less_Suc_eq)

lemma lead_inv:
  assumes inv: "cinv cfg E db n (ts, s)" and i: "i < length ts" "ts ! i = Reader key (RCall e)" and n: "Suc n < 2 ^ 64"
  shows "cinv cfg E db (Suc n) (ts[i := Reader key (RAwait (length ts))] @ [Flight key e p FFetch False], s)"
proof -
  let ?u = "Flight key e p FFetch False"
  have "Reader key (RCall e) \<in> set ts" using i by (metis nth_mem)
  then have "\<exists>t \<in> set ts. (key, e) \<in> captures t" by force
  then have "cinv cfg E db n (ts @ [?u], s)"
    using inv coh_append [of cfg E db n ts s ?u] gates_append [of ts s ?u] by (simp add: cinv_def)
  from reader_inv [OF this, of i key "RCall e" s "RAwait (length ts)"] i n cinv_static [OF inv]
  show ?thesis by (simp add: nth_append list_update_append1)
qed

lemma unbumped_settle: "unbumped t \<subseteq> unsettled t"
  by (induction t rule: unbumped.induct) auto

lemma owed_settle:
  assumes "owed unbumped ts k" "i < length ts" "unsettled (ts ! i) = {}"
  shows "owed unsettled (ts[i := t']) k"
  using owed_update [OF assms(2), where f = unsettled and k = k and t' = t'] assms(1,3) unbumped_settle by blast

lemma flight_inv:
  assumes inv: "cinv cfg E db n (ts, s)" and i: "i < length ts" "ts ! i = Flight key e p ph f" and n: "Suc n < 2 ^ 64"
    and kv: "kv_client E db" and r: "flight_step E key e p ph s = (ph', s')"
  shows "cinv cfg E db (Suc n) (ts[i := Flight key e p ph' f], s')"
proof (cases ph)
  case FFetch
  obtain r' u where 1: "fetchUpstreamGet E key s = (r', u)" by (rule prod.exhaust)
  note C = fetch_calls [OF cinv_static [OF inv] 1]
  note K = kv_get [OF kv C(2)]
  have s': "s' = u" using r FFetch 1 by (auto split: sum.splits)
  have ph': "(\<exists>v. r' = Inr v \<and> ph' = FStore v) \<or> (\<exists>err. ph' = FDone (Inl err))" using r FFetch 1 by (auto split: sum.splits)
  show ?thesis
    by (rule read_inv [OF inv i n]) (use s' ph' K callsD [OF C(1)] FFetch in \<open>cases f; auto\<close>)+
next
  case (FStore v)
  have r': "ph' = FDone (Inr v)" "s' = reconcileLocalIfCurrent E key v e p s" using r FStore by simp_all
  note R = reconcile_eff [OF cinv_static [OF inv] r'(2)]
  have c: "coh cfg E db n ts s" and g: "gates_inv ts s" using inv by (simp_all add: cinv_def)
  have fr: "sv_world s' = sv_world s" "sv_epochs s' = sv_epochs s" "sv_gates s' = sv_gates s" using R(2) by (simp_all add: frame_def)
  have ti: "ts ! i \<in> set ts" using i(1) by simp
  have "coh cfg E db (Suc n) (ts[i := Flight key e p ph' f]) s'"
  proof (rule coh_step [OF c i(1) R(1), where B = "{}" and C = "{}"])
    fix k x assume "cached s' k x"
    from R(3) [OF this] show "cached s k x \<and> (k \<in> unsettled (ts ! i) \<longrightarrow> k \<in> unsettled (Flight key e p ph' f)) \<or>
        db (sv_world s') k = Some x \<or> owed unsettled (ts[i := Flight key e p ph' f]) k"
    proof
      assume "k = key \<and> answer v = Some x \<and> e = cacheEpoch key s"
      then show ?thesis using cohD(5) [OF c ti, of key e v] owed_settle [OF _ i(1), of key "Flight key e p ph' f"] by (auto simp: i(2) FStore fr)
    qed (simp add: i(2))
  qed (use fr n r' in \<open>cases f; auto simp: i(2) FStore\<close>)+
  moreover have "gates_inv (ts[i := Flight key e p ph' f]) s'" by (rule gates_same [OF g i(1)]) (use fr i in simp_all)
  ultimately show ?thesis by (simp add: cinv_def)
next
  case (FDone r')
  then show ?thesis using r
    by (intro read_inv [OF inv i n]) (use cinv_static [OF inv] in auto)
qed

section \<open>MGET\<close>

lemma batch_quiet:
  assumes inv: "cinv cfg E db n (ts, s)" and i: "i < length ts" "ts ! i = Batch keys ph" and n: "Suc n < 2 ^ 64"
    and q: "quiet cfg s s'" and r: "refills (Batch keys ph') \<subseteq> refills (Batch keys ph)"
    and c: "\<And>k e. (k, e) \<in> captures (Batch keys ph') \<Longrightarrow> (k, e) \<in> captures (Batch keys ph) \<or> e = 0 \<or> e = cacheEpoch k s"
  shows "cinv cfg E db (Suc n) (ts[i := Batch keys ph'], s')"
proof -
  have "(k, e) \<in> captures (Batch keys ph) \<or> unat e \<le> unat (cacheEpoch k s)" if "(k, e) \<in> captures (Batch keys ph')" for k e
    using c [OF that] by auto
  then show ?thesis by (intro read_inv [OF inv i n]) (use quietD [OF q] r in auto)
qed

lemma scan_end_quiet:
  assumes "static_ok cfg s" "scan_end E keys policy i state item out missing s = (ph', s')"
  shows "quiet cfg s s'" "refills (Batch keys ph') = {}"
    "(k, e) \<in> captures (Batch keys ph') \<Longrightarrow> (k, e) \<in> epochs_of missing \<or> e = 0 \<or> e = cacheEpoch k s"
  using assms by (auto simp: scan_end_def epochs_of_def Let_def split: option.splits if_splits)

lemma store_inv:
  assumes inv: "cinv cfg E db n (ts, s)" and i: "i < length ts" "ts ! i = Batch keys (MStore (v # vs) (read # reads) out)"
    and n: "Suc n < 2 ^ 64" and s': "s' = reconcileLocalIfCurrent E (mr_key read) v (mr_epoch read) (mr_policy read) s"
  shows "cinv cfg E db (Suc n) (ts[i := Batch keys (MStore vs reads out')], s')"
proof -
  let ?t' = "Batch keys (MStore vs reads out')"
  note R = reconcile_eff [OF cinv_static [OF inv] s']
  have c: "coh cfg E db n ts s" and g: "gates_inv ts s" using inv by (simp_all add: cinv_def)
  have fr: "sv_world s' = sv_world s" "sv_epochs s' = sv_epochs s" "sv_gates s' = sv_gates s" using R(2) by (simp_all add: frame_def)
  have ti: "ts ! i \<in> set ts" using i(1) by simp
  have "coh cfg E db (Suc n) (ts[i := ?t']) s'"
  proof (rule coh_step [OF c i(1) R(1), where B = "{}" and C = "{}"])
    fix k x assume "cached s' k x"
    from R(3) [OF this] show "cached s k x \<and> (k \<in> unsettled (ts ! i) \<longrightarrow> k \<in> unsettled ?t') \<or>
        db (sv_world s') k = Some x \<or> owed unsettled (ts[i := ?t']) k"
    proof
      assume "k = mr_key read \<and> answer v = Some x \<and> mr_epoch read = cacheEpoch (mr_key read) s"
      then show ?thesis using cohD(5) [OF c ti, of "mr_key read" "mr_epoch read" v] owed_settle [OF _ i(1), of "mr_key read" ?t'] by (auto simp: i(2) fr)
    qed (simp add: i(2))
  qed (use fr n in \<open>auto simp: i(2) epochs_of_def\<close>)
  moreover have "gates_inv (ts[i := ?t']) s'" by (rule gates_same [OF g i(1)]) (use fr i in simp_all)
  ultimately show ?thesis by (simp add: cinv_def)
qed

lemma batch_inv:
  assumes inv: "cinv cfg E db n (ts, s)" and i: "i < length ts" "ts ! i = Batch keys ph" and n: "Suc n < 2 ^ 64"
    and kv: "kv_client E db" and r: "batch_step E keys ph s = (ph', s')"
  shows "cinv cfg E db (Suc n) (ts[i := Batch keys ph'], s')"
proof -
  note st = cinv_static [OF inv]
  note quiet = batch_quiet [OF inv i n]
  show ?thesis
  proof (cases ph)
    case (MScan j lp out missing)
    show ?thesis
    proof (cases "\<exists>state item. lp = LEnd state item")
      case True
      then obtain state item where "scan_end E keys (Match (sv_policies s) (keys ! j)) j state item out missing s = (ph', s')"
        using r MScan by auto
      from scan_end_quiet [OF st this] MScan show ?thesis by (intro quiet) auto
    next
      case False
      then obtain lp' where lp': "local_step E (Match (sv_policies s) (keys ! j)) (keys ! j) lp s = (lp', s')"
          "ph' = MScan j lp' out missing"
        using r MScan by (cases lp) (auto split: prod.splits)
      from local_step_quiet [OF st lp'(1)] lp'(2) MScan show ?thesis by (intro quiet) auto
    qed
  next
    case (MFetch out missing)
    obtain r' u where 1: "mget_upstream E (map mr_key missing) s = (r', u)" by (rule prod.exhaust)
    note C = mget_calls [OF st 1]
    note K = kv_mget [OF kv C(2)]
    have s': "s' = u" using r MFetch 1 by (auto split: sum.splits option.splits)
    consider (stored) vs where "r' = Some (Inr vs)" "ph' = MStore vs missing out"
      | (failed) "refills (Batch keys ph') = {}" "captures (Batch keys ph') = {}"
      using r MFetch 1 by (auto split: sum.splits option.splits)
    then show ?thesis
    proof cases
      case stored
      have a: "map answer vs = map (db (sv_world s)) (map mr_key missing)" using K stored by simp
      have "answer v = db (sv_world s) (mr_key m)" if "(v, m) \<in> set (zip vs missing)" for v m
      proof -
        from that obtain j where "j < length vs" "j < length missing" "v = vs ! j" "m = missing ! j" by (auto simp: set_zip)
        then show ?thesis using arg_cong [OF a, of "\<lambda>xs. xs ! j"] by simp
      qed
      then show ?thesis
        by (intro read_inv [OF inv i n]) (use stored s' K callsD [OF C(1)] MFetch in auto)
    next
      case failed
      then show ?thesis
        by (intro read_inv [OF inv i n]) (use s' K callsD [OF C(1)] MFetch in auto)
    qed
  next
    case (MStale reads m c out err)
    have "quiet cfg s s' \<and> refills (Batch keys ph') = {} \<and> captures (Batch keys ph') = {}"
      using r MStale cache_GetStale_quiet(1) [OF st] st
      by (cases reads) (auto split: if_splits prod.splits option.splits)
    then show ?thesis by (intro quiet) auto
  next
    case (MStore vs reads out)
    show ?thesis
    proof (cases vs)
      case Nil
      then show ?thesis using r MStore st by (intro quiet) auto
    next
      case v: (Cons v vs')
      show ?thesis
      proof (cases reads)
        case Nil
        then show ?thesis using r MStore v st by (intro quiet) auto
      next
        case (Cons read reads')
        show ?thesis
        proof (cases "d_Mode (mr_policy read) = ModeCache")
          case True
          then show ?thesis using r MStore v Cons i by (auto intro: store_inv [OF inv _ _ n])
        next
          case False
          then show ?thesis using r MStore v Cons st by (intro quiet) (auto simp: epochs_of_def)
        qed
      qed
    qed
  qed (use r st in \<open>auto intro!: quiet\<close>)
qed

section \<open>Writes\<close>

lemma through_Some: "through u wr r = Some (key, v) \<Longrightarrow> wr_keys wr = [key]"
  by (auto simp: through_def split: sum.splits reply.splits list.splits if_splits)

lemma holds_less: "shaped t \<Longrightarrow> holds t \<subseteq> {..< cacheEpochStripeCount}"
proof (induction t rule: holds.induct)
  case (1 wr acquired pending)
  then have "set acquired \<subseteq> set (needed_stripes (wr_keys wr))" by (metis Un_upper1 set_append shaped.simps(1))
  then show ?case using needed_less by auto
next
  case (2 wr gs r)
  then show ?case using needed_less by auto
qed (auto dest: needed_less)

text \<open>Removing a key under its stripe, before the upstream call or after it.\<close>

lemma invalidate_inv:
  assumes coh: "coh cfg E db n ts s" and i: "i < length ts" and n: "Suc n < 2 ^ 64"
    and r: "invalidate_key key (adv, m, s) = (adv', m', s')"
    and ok: "shaped t'" "faithful_thread E db t'"
    and t: "unforgotten t' = unforgotten (ts ! i)" "refills t' = {}" "captures t' = {}" "fetched t' = {}"
      "committed (en_unicode E) t' = {}"
      "\<And>k. k \<in> unsettled (ts ! i) \<Longrightarrow> k \<in> unsettled t' \<or> k = key"
      "\<And>k. k \<in> unbumped (ts ! i) \<Longrightarrow> k \<in> unbumped t' \<or> (cacheEpochStripe k = cacheEpochStripe key \<and> cacheEpochStripe key \<notin> set adv)"
  shows "coh cfg E db (Suc n) (ts[i := t']) s'"
proof -
  note I = invalidate_key_eff [OF cohD(1) [OF coh] r]
  have w: "sv_world s' = sv_world s" using I(4) by (simp add: bumped_def)
  show ?thesis
  proof (rule coh_step [OF coh i I(1) ok, where B = "if cacheEpochStripe key \<in> set adv then {} else {cacheEpochStripe key}" and C = "{}"])
    fix k x assume "cached s' k x"
    then have "k \<noteq> key" "cached s k x" using I(2) by (auto simp: rebinds_def split: if_splits)
    then show "cached s k x \<and> (k \<in> unsettled (ts ! i) \<longrightarrow> k \<in> unsettled t') \<or> db (sv_world s') k = Some x \<or> owed unsettled (ts[i := t']) k"
      using t(6) by blast
  next
    fix k assume "k \<in> unbumped (ts ! i)"
    from t(7) [OF this] show "k \<in> unbumped t' \<or> cacheEpochStripe k \<in> (if cacheEpochStripe key \<in> set adv then {} else {cacheEpochStripe key})"
      by auto
  qed (use I(4) n t in \<open>auto simp: bumped_def\<close>)
qed

lemma send_inv:
  assumes coh: "coh cfg E db n ts s" and g: "gates_inv ts s" and i: "i < length ts" "ts ! i = Writer wr (WSend m)"
    and n: "Suc n < 2 ^ 64" and r: "upstream_Do E (wr_command wr) (wr_args wr) s = (r, s')"
  shows "coh cfg E db (Suc n) (ts[i := Writer wr (WFinish m r)]) s'"
proof -
  note D = do_calls [OF cohD(1) [OF coh] r]
  have ti: "ts ! i \<in> set ts" using i(1) by simp
  have f: "faithful_thread E db (Writer wr (WSend m))" using cohD(3) [OF coh ti] i(2) by simp
  have db: "db (sv_world s') k = db (sv_world s) k" if "k \<notin> set (wr_keys wr)" for k
    using f D(2) that by simp
  have set: "db (sv_world s') k = Some v" if "through (en_unicode E) wr r = Some (k, v)" for k v
    using f D(2) that by simp
  have dis: "k \<notin> set (wr_keys wr)" if j: "j < length ts" "j \<noteq> i" and c: "(k, v) \<in> committed (en_unicode E) (ts ! j)" for j k v
  proof
    assume k: "k \<in> set (wr_keys wr)"
    obtain wr' m' r' where w: "ts ! j = Writer wr' (WFinish m' r')" "through (en_unicode E) wr' r' = Some (k, v)"
      using c by (cases "(en_unicode E, ts ! j)" rule: committed.cases) auto
    have "cacheEpochStripe k \<in> holds (ts ! j)" using w(1) through_Some [OF w(2)] by (simp add: needed_iff)
    moreover have "cacheEpochStripe k \<in> holds (ts ! i)" using i(2) k by (auto simp: needed_iff)
    ultimately show False using g j i(1) unfolding gates_inv_def by blast
  qed
  show ?thesis
    by (rule coh_step [OF coh i(1), where B = "{}" and C = "set (wr_keys wr)"])
      (use db set dis callsD [OF D(1)] n f i in auto)
qed

lemma through_inv:
  assumes coh: "coh cfg E db n ts s" and i: "i < length ts" "ts ! i = Writer wr (WFinish m r)"
    and n: "Suc n < 2 ^ 64" and th: "through (en_unicode E) wr r = Some (key, v)" and r: "writeThroughSet E key v s = (m', s')"
  shows "coh cfg E db (Suc n) (ts[i := Writer wr (WForget m'' (wr_keys wr) r)]) s'"
proof -
  note T = writeThroughSet_eff [OF cohD(1) [OF coh] r]
  have ti: "ts ! i \<in> set ts" using i(1) by simp
  have f: "faithful_thread E db (Writer wr (WFinish m r))" using cohD(3) [OF coh ti] i(2) by simp
  have v: "db (sv_world s) key = Some v" using cohD(8) [OF coh ti] i(2) th by simp
  have w: "sv_world s' = sv_world s" using T(3) by (simp add: bumped_def)
  note k = through_Some [OF th]
  show ?thesis
  proof (rule coh_step [OF coh i(1) T(1), where B = "{cacheEpochStripe key}" and C = "{}"])
    fix k x assume "cached s' k x"
    then have "if k = key then v = x else cached s k x" using T(2) by (auto simp: rebinds_def split: if_splits)
    then show "cached s k x \<and> (k \<in> unsettled (ts ! i) \<longrightarrow> k \<in> unsettled (Writer wr (WForget m'' (wr_keys wr) r))) \<or>
        db (sv_world s') k = Some x \<or> owed unsettled (ts[i := Writer wr (WForget m'' (wr_keys wr) r)]) k"
      using v w \<open>wr_keys wr = [key]\<close> by (auto simp: i(2) split: if_splits)
  qed (use T(3) n f i k in \<open>auto simp: bumped_def\<close>)
qed

lemma writer_coh:
  assumes coh: "coh cfg E db n ts s" and g: "gates_inv ts s" and i: "i < length ts" "ts ! i = Writer wr ph" and n: "Suc n < 2 ^ 64"
    and ph: "\<And>m key keys r. ph \<noteq> WForget m (key # keys) r" and r: "writer_step E wr ph s = (ph', s')"
  shows "coh cfg E db (Suc n) (ts[i := Writer wr ph']) s'"
proof -
  have ti: "ts ! i \<in> set ts" using i(1) by simp
  have ok: "shaped (Writer wr ph)" "\<And>ph. faithful_thread E db (Writer wr ph)"
    using cohD(2,3) [OF coh ti] i(2) by simp_all
  note st = cohD(1) [OF coh]
  note quiet = coh_quiet [OF coh i n]
  note inval = invalidate_inv [OF coh i(1) n]
  show ?thesis
  proof (cases "(E, wr, ph, s)" rule: writer_step.cases)
    case (1 E' wr' acquired s'')
    then show ?thesis by (intro quiet) (use r ok st in auto)
  next
    case (2 E' wr' acquired gt gs s'')
    then show ?thesis by (intro quiet) (use r ok st in auto)
  next
    case (3 E' wr' advanced m s'')
    then show ?thesis by (intro quiet) (use r ok st in auto)
  next
    case (4 E' wr' advanced m key keys s'')
    obtain a b u where 1: "invalidate_key key (advanced, m, s) = (a, b, u)" by (rule prod_cases3)
    then have e: "ph' = WDrop a b keys" "s' = u" using r 4 by simp_all
    show ?thesis unfolding e by (rule inval [OF 1]) (use 4 ok(2) [of "WDrop a b keys"] i in auto)
  next
    case (5 E' wr' m s'')
    obtain r' u where 1: "upstream_Do E (wr_command wr) (wr_args wr) s = (r', u)" by (rule prod.exhaust)
    then have e: "ph' = WFinish m r'" "s' = u" using r 5 by simp_all
    show ?thesis unfolding e by (rule send_inv [OF coh g i(1) _ n 1]) (use 5 i in simp)
  next
    case (6 E' wr' m r' s'')
    show ?thesis
    proof (cases "through (en_unicode E) wr r'")
      case None
      then show ?thesis using 6 by (intro quiet) (use r ok st in auto)
    next
      case (Some kv)
      obtain key v where kv: "kv = (key, v)" by (rule prod.exhaust)
      obtain b u where 1: "writeThroughSet E key v s = (b, u)" by (rule prod.exhaust)
      have e: "ph' = WForget (m + b) (wr_keys wr) r'" "s' = u" using r 6 Some kv 1 by simp_all
      show ?thesis unfolding e by (rule through_inv [OF coh i(1) _ n Some [unfolded kv] 1]) (use 6 i in simp)
    qed
  next
    case (7 E' wr' advanced m r' s'')
    then show ?thesis by (intro quiet) (use r ok st in auto)
  next
    case (8 E' wr' advanced m key keys r' s'')
    obtain a b u where 1: "invalidate_key key (advanced, m, s) = (a, b, u)" by (rule prod_cases3)
    then have e: "ph' = WClean a b keys r'" "s' = u" using r 8 by simp_all
    note A = invalidate_key_eff(3) [OF st 1]
    show ?thesis unfolding e by (rule inval [OF 1]) (use 8 ok ok(2) [of "WClean a b keys r'"] i A in auto)
  next
    case (9 E' wr' m key keys r' s'')
    then show ?thesis using ph by simp
  next
    case (10 E' wr' m r' s'')
    have "sv_world ((on_metrics f ^^ k) s) = sv_world s \<and> sv_epochs ((on_metrics f ^^ k) s) = sv_epochs s \<and>
        cached ((on_metrics f ^^ k) s) = cached s \<and> static_ok cfg ((on_metrics f ^^ k) s) = static_ok cfg s" for f k
      by (induction k) simp_all
    then show ?thesis using 10 by (intro quiet) (use r ok st needed_sorted in auto)
  next
    case (11 E' wr' gt gs r' s'')
    then show ?thesis by (intro quiet) (use r ok st in auto)
  next
    case (12 E' wr' r' s'')
    then show ?thesis by (intro quiet) (use r ok st in auto)
  next
    case (13 E' wr' r' s'')
    then show ?thesis by (intro quiet) (use r ok st in auto)
  qed
qed

end
