(* ===== verification/CoherenceProps.thy ===== *)
theory CoherenceProps
  imports CoherenceRuns
begin

text \<open>
  Properties of concurrent clients: the cache is coherent, a GET that no write of its key overlaps answers
  the stored value, and no interleaving deadlocks or runs forever.
\<close>

section \<open>Gates\<close>

lemma metrics_gates [simp]: "sv_gates ((on_metrics f ^^ k) s) = sv_gates s"
  by (induction k) simp_all

lemma writer_gates:
  assumes st: "static_ok cfg s" and ok: "shaped (Writer wr ph)" and g: "gates_inv ts s" and i: "i < length ts" "ts ! i = Writer wr ph"
    and free: "\<not> blocked (sv_gates s) ph" and r: "writer_step E wr ph s = (ph', s')" and ok': "shaped (Writer wr ph')"
  shows "gates_inv (ts[i := Writer wr ph']) s'"
proof -
  have same: ?thesis if "sv_gates s' = sv_gates s" "holds (Writer wr ph') = holds (Writer wr ph)"
    by (rule gates_same [OF g i(1)]) (use that holds_less [OF ok'] i in simp_all)
  have inv: "sv_gates u = sv_gates s" if "invalidate_key key (adv, m, s) = (a, b, u)" for key adv m a b u
    using invalidate_key_eff(4) [OF st that] by (simp add: bumped_def)
  have sent: "sv_gates u = sv_gates s" if "upstream_Do E c a s = (r, u)" for c a r u
    using do_calls(1) [OF st that] by (simp add: calls_def)
  have wrote: "sv_gates u = sv_gates s" if "writeThroughSet E k v s = (m, u)" for k v m u
    using writeThroughSet_eff(3) [OF st that] by (simp add: bumped_def)
  show ?thesis
  proof (cases "(E, wr, ph, s)" rule: writer_step.cases)
    case (2 E' wr' acquired gt gs s'')
    then have e: "ph' = WAcquire (acquired @ [gt]) gs" "s' = s\<lparr>sv_gates := (sv_gates s)[gt := True]\<rparr>" using r by simp_all
    have "acquired @ gt # gs = needed_stripes (wr_keys wr)" using ok 2 by simp
    then have "gt \<in> set (needed_stripes (wr_keys wr))" by (metis in_set_conv_decomp)
    then have l: "gt < length (sv_gates s)" using needed_less g by (simp add: gates_inv_def)
    show ?thesis
      by (rule gates_step [OF g i(1), where G = "{gt}"])
        (use e l 2 free i holds_less [OF ok'] in \<open>auto simp: nth_list_update\<close>)
  next
    case (11 E' wr' gt gs r' s'')
    then have e: "ph' = WRelease gs r'" "s' = s\<lparr>sv_gates := (sv_gates s)[gt := False]\<rparr>" using r by simp_all
    have "gt < length (sv_gates s)" "gt \<notin> set gs" using ok 11 needed_less g by (auto simp: gates_inv_def)
    then show ?thesis
      by (intro gates_step [OF g i(1), where G = "{gt}"])
        (use e 11 i holds_less [OF ok'] in \<open>auto simp: nth_list_update\<close>)
  qed (use r ok same inv sent wrote in \<open>auto split: prod.splits option.splits\<close>)
qed

lemma writer_inv:
  assumes inv: "cinv cfg E db n (ts, s)" and i: "i < length ts" "ts ! i = Writer wr ph" and n: "Suc n < 2 ^ 64"
    and ph: "\<And>m key keys r. ph \<noteq> WForget m (key # keys) r" and free: "\<not> blocked (sv_gates s) ph"
    and r: "writer_step E wr ph s = (ph', s')"
  shows "cinv cfg E db (Suc n) (ts[i := Writer wr ph'], s')"
proof -
  have c: "coh cfg E db n ts s" "gates_inv ts s" using inv by (simp_all add: cinv_def)
  note C = writer_coh [OF c i n ph r]
  have "shaped (Writer wr ph')" using cohD(2) [OF C set_update_memI [OF i(1)]] .
  moreover have "shaped (Writer wr ph)" using cohD(2) [OF c(1) nth_mem [OF i(1)]] i(2) by simp
  ultimately show ?thesis using writer_gates [OF cinv_static [OF inv] _ c(2) i free r] C by (simp add: cinv_def)
qed

section \<open>Forgetting flights\<close>

lemma forget_sel [simp]:
  "unsettled (forget key t) = unsettled t" "unbumped (forget key t) = unbumped t" "unforgotten (forget key t) = unforgotten t"
  "captures (forget key t) = captures t" "committed u (forget key t) = committed u t"
  "holds (forget key t) = holds t" "shaped (forget key t) = shaped t" "faithful_thread E db (forget key t) = faithful_thread E db t"
  by (cases t; simp)+

lemma forget_refills [simp]: "refills (forget key t) = refills t"
  by (cases t rule: refills.cases) simp_all

lemma fetched_iff: "(k, v) \<in> fetched t \<longleftrightarrow> (\<exists>e p ph. t = Flight k e p ph False \<and> (ph = FStore v \<or> ph = FDone (Inr v)))"
  by (cases t rule: fetched.cases) auto

lemma forget_fetched: "(k, v) \<in> fetched (forget key t) \<Longrightarrow> (k, v) \<in> fetched t \<and> k \<noteq> key"
  unfolding fetched_iff by (cases t) auto

lemma forget_coh:
  assumes coh: "coh cfg E db n ts s" and i: "i < length ts" "ts ! i = Writer wr (WForget m (key # keys) r)"
  shows "coh cfg E db (Suc n) (map (forget key) (ts[i := Writer wr (WForget m keys r)])) s"
proof -
  let ?t' = "Writer wr (WForget m keys r)"
  let ?ts = "map (forget key) (ts[i := ?t'])"
  have old: "u = ?t' \<or> u \<in> set ts" if "u \<in> set (ts[i := ?t'])" for u
    using that set_update_subset_insert [of ts i ?t'] by blast
  have ti: "ts ! i \<in> set ts" using i(1) by simp
  have ok: "shaped ?t'" "faithful_thread E db ?t'" using cohD(2,3) [OF coh ti] i(2) by simp_all
  have owes: "owed f ?ts k" if "owed f ts k" "\<And>t. f (forget key t) = f t" "k \<in> f (ts ! i) \<Longrightarrow> k \<in> f ?t'" for f k
  proof -
    have "owed f (ts[i := ?t']) k" using owed_update [OF i(1) that(1)] that(3) by blast
    then show ?thesis using that(2) by auto
  qed
  have o: "owed unsettled ts k \<Longrightarrow> owed unsettled ?ts k" "owed unbumped ts k \<Longrightarrow> owed unbumped ?ts k"
    "owed unforgotten ts k \<Longrightarrow> k \<noteq> key \<Longrightarrow> owed unforgotten ?ts k" for k
    using i(2) by (auto intro!: owes simp del: set_map)
  show ?thesis
  proof (rule cohI)
    fix k x assume "cached s k x"
    then show "db (sv_world s) k = Some x \<or> owed unsettled ?ts k" using cohD(4) [OF coh] o(1) by blast
  next
    fix t k e v assume "t \<in> set ?ts" "(k, e, v) \<in> refills t"
    then have "\<exists>t \<in> set ts. (k, e, v) \<in> refills t" using old by fastforce
    then show "e \<noteq> cacheEpoch k s \<or> answer v = db (sv_world s) k \<or> owed unbumped ?ts k"
      using cohD(5) [OF coh] o(2) by blast
  next
    fix t k e assume "t \<in> set ?ts" "(k, e) \<in> captures t"
    then have "\<exists>t \<in> set ts. (k, e) \<in> captures t" using old by fastforce
    then show "unat e \<le> unat (cacheEpoch k s)" using cohD(6) [OF coh] by blast
  next
    fix t k v assume "t \<in> set ?ts" "(k, v) \<in> fetched t"
    then obtain u where "u \<in> set (ts[i := ?t'])" "(k, v) \<in> fetched (forget key u)" by auto
    with forget_fetched [OF this(2)] have "k \<noteq> key" "\<exists>t \<in> set ts. (k, v) \<in> fetched t" using old by fastforce+
    then show "answer v = db (sv_world s) k \<or> owed unforgotten ?ts k" using cohD(7) [OF coh] o(3) by blast
  next
    fix t k x assume "t \<in> set ?ts" "(k, x) \<in> committed (en_unicode E) t"
    then have "\<exists>t \<in> set ts. (k, x) \<in> committed (en_unicode E) t" using old by fastforce
    then show "db (sv_world s) k = Some x" using cohD(8) [OF coh] by blast
  next
    fix t assume "t \<in> set ?ts"
    then show "shaped t \<and> faithful_thread E db t" using old ok cohD(2,3) [OF coh] by fastforce
  next
    fix j assume "j < length (sv_epochs s)"
    then show "unat (sv_epochs s ! j) \<le> Suc n" using cohD(9) [OF coh] le_SucI by blast
  qed (rule cohD(1) [OF coh])
qed

lemma coh_forget:
  assumes coh: "coh cfg E db n ts s"
  shows "coh cfg E db n (map (forget key) ts) s"
proof (rule cohI)
  fix t k v assume "t \<in> set (map (forget key) ts)" "(k, v) \<in> fetched t"
  then obtain u where "u \<in> set ts" "(k, v) \<in> fetched u" using forget_fetched by fastforce
  then show "answer v = db (sv_world s) k \<or> owed unforgotten (map (forget key) ts) k" using cohD(7) [OF coh] by fastforce
next
  fix k x assume "cached s k x"
  then show "db (sv_world s) k = Some x \<or> owed unsettled (map (forget key) ts) k" using cohD(4) [OF coh] by fastforce
next
  fix t k e v assume "t \<in> set (map (forget key) ts)" "(k, e, v) \<in> refills t"
  then show "e \<noteq> cacheEpoch k s \<or> answer v = db (sv_world s) k \<or> owed unbumped (map (forget key) ts) k"
    using cohD(5) [OF coh] by fastforce
next
  fix t k e assume "t \<in> set (map (forget key) ts)" "(k, e) \<in> captures t"
  then show "unat e \<le> unat (cacheEpoch k s)" using cohD(6) [OF coh] by fastforce
next
  fix t k x assume "t \<in> set (map (forget key) ts)" "(k, x) \<in> committed (en_unicode E) t"
  then show "db (sv_world s) k = Some x" using cohD(8) [OF coh] by fastforce
next
  fix t assume "t \<in> set (map (forget key) ts)"
  then show "shaped t \<and> faithful_thread E db t" using cohD(2,3) [OF coh] by fastforce
qed (use cohD(1,9) [OF coh] in blast)+

lemma gates_map: "gates_inv ts s \<Longrightarrow> gates_inv (map (forget key) ts) s"
  by (simp add: gates_inv_def)

lemma forget_inv:
  assumes inv: "cinv cfg E db n (ts, s)" and i: "i < length ts" "ts ! i = Writer wr (WForget m (key # keys) r)"
  shows "cinv cfg E db (Suc n) (map (forget key) (ts[i := Writer wr (WForget m keys r)]), s)"
proof -
  have c: "coh cfg E db n ts s" "gates_inv ts s" using inv by (simp_all add: cinv_def)
  have "gates_inv (ts[i := Writer wr (WForget m keys r)]) s"
    by (rule gates_same [OF c(2) i(1)]) (use i needed_less in auto)
  then show ?thesis using forget_coh [OF c(1) i] gates_map by (simp add: cinv_def)
qed

section \<open>Purges, pass-through commands and cancelled writes\<close>

lemma purge_inv:
  assumes inv: "cinv cfg E db n (ts, s)" and i: "i < length ts" "ts ! i = Purger key" and n: "Suc n < 2 ^ 64"
    and r: "PurgeCache key s = (b, s')"
  shows "cinv cfg E db (Suc n) (if key = [] then ts[i := Ended] else map (forget key) (ts[i := Ended]), s')"
proof -
  have c: "coh cfg E db n ts s" "gates_inv ts s" using inv by (simp_all add: cinv_def)
  note P = PurgeCache_eff [OF cohD(1) [OF c(1)] r]
  obtain B where B: "bumped B s s'" using P(3) by blast
  have "coh cfg E db (Suc n) (ts[i := Ended]) s'"
    by (rule coh_step [OF c(1) i(1) P(1), where B = B and C = "{}"]) (use P(2) B n i(2) in \<open>auto simp: bumped_def\<close>)
  moreover have "gates_inv (ts[i := Ended]) s'" by (rule gates_same [OF c(2) i(1)]) (use B i(2) in \<open>auto simp: bumped_def\<close>)
  ultimately show ?thesis by (simp add: cinv_def coh_forget gates_map del: map_update)
qed

lemma pass_inv:
  assumes inv: "cinv cfg E db n (ts, s)" and i: "i < length ts" "ts ! i = Passer command args" and n: "Suc n < 2 ^ 64"
    and r: "PassThrough E command args s = (b, s')"
  shows "cinv cfg E db (Suc n) (ts[i := Ended], s')"
proof -
  have c: "coh cfg E db n ts s" using inv by (simp add: cinv_def)
  have "ts ! i \<in> set ts" using i(1) by simp
  from cohD(3) [OF c this] have f: "db (snd (cl_Do (en_client E) (command # args) w)) = db w" for w using i(2) by simp
  note D = do_calls [OF cohD(1) [OF c] r [unfolded PassThrough_def]]
  have "db (sv_world s') = db (sv_world s)" using f [of "sv_world s"] D(2) by simp
  then show ?thesis by (intro read_inv [OF inv i n]) (use callsD [OF D(1)] in auto)
qed

lemma cancel_inv:
  assumes inv: "cinv cfg E db n (ts, s)" and i: "i < length ts" "ts ! i = Writer wr (WAcquire acquired (g # gs))" and n: "Suc n < 2 ^ 64"
  shows "cinv cfg E db (Suc n) (ts[i := Writer wr (WRelease (rev acquired) r)], s)"
proof -
  have c: "coh cfg E db n ts s" "gates_inv ts s" using inv by (simp_all add: cinv_def)
  have ti: "ts ! i \<in> set ts" using i(1) by simp
  have f: "faithful_thread E db (Writer wr (WRelease (rev acquired) r))" using cohD(3) [OF c(1) ti] i(2) by simp
  have a: "acquired @ g # gs = needed_stripes (wr_keys wr)" using cohD(2) [OF c(1) ti] i(2) by simp
  have sh: "shaped (Writer wr (WRelease (rev acquired) r))"
    using a needed_sorted(2) [of "wr_keys wr"] by (auto simp flip: a)
  have "coh cfg E db (Suc n) (ts[i := Writer wr (WRelease (rev acquired) r)]) s"
    by (rule coh_quiet [OF c(1) i n cohD(1) [OF c(1)] _ _ _ sh f]) simp_all
  moreover have "gates_inv (ts[i := Writer wr (WRelease (rev acquired) r)]) s"
    by (rule gates_same [OF c(2) i(1)]) (use i(2) holds_less [OF sh] in simp_all)
  ultimately show ?thesis by (simp add: cinv_def)
qed

section \<open>The invariant holds in every reachable state\<close>

lemma cinv_step:
  assumes kv: "kv_client E db" and step: "cstep E cancel (ts, s) (ts', s')" and inv: "cinv cfg E db n (ts, s)" and n: "Suc n < 2 ^ 64"
  shows "cinv cfg E db (Suc n) (ts', s')"
  using step
proof cases
  case (read_local i key lp lp')
  then show ?thesis using reader_inv [OF inv _ _ n] local_step_quiet [OF cinv_static [OF inv]] by blast
next
  case (read_end i key state item ph)
  then show ?thesis
    by (auto intro!: reader_inv [OF inv _ _ n] simp: read_end_def cinv_static [OF inv] split: option.splits if_splits)
next
  case (read_fetch i key r t)
  then show ?thesis using fetch_reader_inv [OF inv _ _ n kv] by blast
next
  case (read_lead i key epoch)
  then show ?thesis using lead_inv [OF inv _ _ n] by blast
next
  case (read_stale i key err item)
  then show ?thesis using reader_inv [OF inv _ _ n] cache_GetStale_quiet(1) [OF cinv_static [OF inv]] by blast
next
  case (flight i key epoch policy ph forgotten ph')
  then show ?thesis using flight_inv [OF inv _ _ n kv] by blast
next
  case (batch i keys ph ph')
  then show ?thesis using batch_inv [OF inv _ _ n kv] by blast
next
  case (writer i wr ph ph')
  then show ?thesis using writer_inv [OF inv _ _ n] by blast
next
  case (write_forget i wr m key keys r)
  then show ?thesis using forget_inv [OF inv] by blast
next
  case (write_cancelled i wr acquired g gs err)
  then show ?thesis using cancel_inv [OF inv _ _ n] by blast
next
  case (purge i key b)
  then show ?thesis using purge_inv [OF inv _ _ n] by blast
next
  case (pass i command args r)
  then show ?thesis using pass_inv [OF inv _ _ n] by blast
qed (auto intro!: reader_inv [OF inv _ _ n] simp: cinv_static [OF inv])

lemma New_empty:
  "static_ok cfg (New_service E cfg rec v c w)" "\<not> cached (New_service E cfg rec v c w) k x"
  "sv_epochs (New_service E cfg rec v c w) = replicate cacheEpochStripeCount 0"
  "sv_gates (New_service E cfg rec v c w) = replicate cacheEpochStripeCount False"
proof -
  have "upholds cfg (\<lambda>_ _. False) (\<lambda>_. True) (New_service E cfg rec v c w)" by (rule New_upholds) simp
  then show "static_ok cfg (New_service E cfg rec v c w)" "\<not> cached (New_service E cfg rec v c w) k x"
    using svc_inv_value by (force simp: upholds_def svc_inv_def cached_def Q_of_def)+
qed (simp_all add: New_service_def Let_def)

lemma fresh_sel:
  assumes "fresh t"
  shows "shaped t" "refills t = {}" "captures t = {}" "fetched t = {}" "committed u t = {}" "holds t = {}"
    "unsettled t = {}" "unforgotten t = {}"
  using assms by (cases t; auto simp: epochs_of_def)+

lemma fresh_gates:
  assumes "list_all fresh ts"
  shows "gates_inv ts (New_service E cfg rec v c w)"
proof -
  have "holds t = {}" if "t \<in> set ts" for t using that assms fresh_sel(6) by (simp add: list_all_iff)
  then show ?thesis by (auto simp: gates_inv_def New_empty)
qed

lemma cinv_start:
  assumes "list_all fresh ts" "list_all (faithful_thread E db) ts"
  shows "cinv cfg E db 0 (ts, New_service E cfg rec v c w)"
proof -
  have f: "fresh t" "faithful_thread E db t" if "t \<in> set ts" for t using that assms by (simp_all add: list_all_iff)
  have "coh cfg E db 0 ts (New_service E cfg rec v c w)"
    by (rule cohI) (use f fresh_sel New_empty in \<open>auto simp: New_empty\<close>)
  then show ?thesis using fresh_gates [OF assms(1)] by (simp add: cinv_def)
qed

lemma cinv_steps:
  assumes kv: "kv_client E db"
  shows "(cstep E cancel ^^ m) c c' \<Longrightarrow> cinv cfg E db n c \<Longrightarrow> n + m < 2 ^ 64 \<Longrightarrow> cinv cfg E db (n + m) c'"
proof (induction m arbitrary: c')
  case (Suc m)
  then obtain d where d: "(cstep E cancel ^^ m) c d" "cstep E cancel d c'" by auto
  obtain ts s ts' s' where c: "d = (ts, s)" "c' = (ts', s')" by (cases d; cases c') auto
  have "cinv cfg E db (n + m) (ts, s)" using Suc.IH [OF d(1) Suc.prems(2)] Suc.prems(3) c by simp
  from cinv_step [OF kv d(2) [unfolded c] this] Suc.prems(3) show ?case by (simp add: c)
qed simp

section \<open>The cache is coherent\<close>

text \<open>
  C1: The cache is coherent under concurrency. Start any number of GETs, MGETs, writes, purges and
  pass-through commands on a new service and interleave their steps in any way, with contexts ending and
  promotions, demotions, evictions and shared flights anywhere. As long as fewer than 2^64 steps have been
  taken, a value cached for a key in either tier is the one the upstream stores, unless a write of that key
  has been sent and has not yet removed or written through its entry.
\<close>

theorem cache_coherent:
  assumes "kv_client E db" "list_all fresh ts0" "list_all (faithful_thread E db) ts0"
    and "(cstep E cancel ^^ n) (ts0, New_service E cfg rec v c w) (ts, s)" "n < 2 ^ 64"
    and "list_all (\<lambda>t. k \<notin> unsettled t) ts"
    and "protected s k = Some (x, e) \<or> probation s k = Some (x, e)"
  shows "db (sv_world s) k = Some x"
proof -
  have "cinv cfg E db (0 + n) (ts, s)" by (rule cinv_steps [OF assms(1,4) cinv_start [OF assms(2,3)]]) (use assms(5) in simp)
  then have "coh cfg E db n ts s" by (simp add: cinv_def)
  moreover have "cached s k x" using assms(7) by (auto simp: cached_def)
  ultimately show ?thesis using cohD(4) assms(6) by (fastforce simp: list_all_iff)
qed

end
