(* ===== verification/FreshReads.thy ===== *)
theory FreshReads
  imports CoherenceProps
begin

text \<open>A GET that no write of its key overlaps answers the stored value.\<close>

section \<open>What a GET may answer\<close>

text \<open>\<open>d\<close> is what the upstream stores for the key.\<close>

fun flight_ok :: "bytes \<Rightarrow> bytes option \<Rightarrow> cthread \<Rightarrow> bool" where
  "flight_ok key d (Flight key' e p ph f) =
     (key' = key \<and> (case ph of FFetch \<Rightarrow> True | FStore v \<Rightarrow> answer v = d | FDone r \<Rightarrow> (\<forall>v. r = Inr v \<longrightarrow> answer v = d)))"
| "flight_ok key d t = False"

fun reader_ok :: "bytes \<Rightarrow> bytes option \<Rightarrow> cthread list \<Rightarrow> reader \<Rightarrow> bool" where
  "reader_ok key d ts (RLocal lp) = (\<forall>item. local_item lp = Some item \<longrightarrow> d = Some (sn_Value item))"
| "reader_ok key d ts (RAwait f) = (f < length ts \<and> flight_ok key d (ts ! f))"
| "reader_ok key d ts (RDone r) = (\<forall>v. r = Inr v \<longrightarrow> answer v = d)"
| "reader_ok key d ts ph = True"

definition calm :: "bytes \<Rightarrow> cthread list \<Rightarrow> bool" where
  "calm key ts \<longleftrightarrow> list_all (\<lambda>t. key \<notin> unforgotten t) ts"

lemma local_step_frame: "static_ok cfg s \<Longrightarrow> local_step E p key lp s = (lp', s') \<Longrightarrow> sv_world s' = sv_world s"
  using local_step_quiet [of cfg s E p key lp lp' s'] by (simp add: quiet_def frame_def)

text \<open>Only a write of the key changes what is stored for it.\<close>

lemma writer_db:
  assumes "static_ok cfg s" "writer_step E wr ph s = (ph', s')" "faithful_thread E db (Writer wr ph)"
    and "key \<notin> unforgotten (Writer wr ph')"
  shows "db (sv_world s') key = db (sv_world s) key"
proof (cases "(E, wr, ph, s)" rule: writer_step.cases)
  case (4 E' wr' advanced m k keys s'')
  obtain a b u where 1: "invalidate_key k (advanced, m, s) = (a, b, u)" by (rule prod_cases3)
  from invalidate_key_eff(4) [OF assms(1) 1] 1 4 assms(2) show ?thesis by (auto simp: bumped_def)
next
  case (5 E' wr' m s'')
  obtain r u where 1: "upstream_Do E (wr_command wr) (wr_args wr) s = (r, u)" by (rule prod.exhaust)
  from do_calls(2) [OF assms(1) 1] 1 5 assms(2,3,4) show ?thesis by auto
next
  case (6 E' wr' m r s'')
  show ?thesis
  proof (cases "through (en_unicode E) wr r")
    case (Some kv)
    obtain b u where 1: "writeThroughSet E (fst kv) (snd kv) s = (b, u)" by (rule prod.exhaust)
    from writeThroughSet_eff(3) [OF assms(1) 1] 1 6 Some assms(2) show ?thesis
      by (auto simp: bumped_def split: prod.splits)
  qed (use 6 assms(2) in auto)
next
  case (8 E' wr' advanced m k keys r s'')
  obtain a b u where 1: "invalidate_key k (advanced, m, s) = (a, b, u)" by (rule prod_cases3)
  from invalidate_key_eff(4) [OF assms(1) 1] 1 8 assms(2) show ?thesis by (auto simp: bumped_def)
next
  case (10 E' wr' m r s'')
  then show ?thesis using assms(2) by (auto simp: metrics_iter)
qed (use assms(2) in auto)

lemma flight_db:
  assumes "static_ok cfg s" "kv_client E db" "flight_step E k e p ph s = (ph', s')"
  shows "db (sv_world s') = db (sv_world s)"
    "(ph = FFetch \<and> (\<forall>v. ph' = FStore v \<longrightarrow> answer v = db (sv_world s) k) \<and> (\<forall>v. ph' \<noteq> FDone (Inr v))) \<or>
     (\<exists>v. ph = FStore v \<and> ph' = FDone (Inr v)) \<or> ph' = ph"
proof -
  obtain r u where 1: "fetchUpstreamGet E k s = (r, u)" by (rule prod.exhaust)
  note K = kv_get [OF assms(2) fetch_calls(2) [OF assms(1) 1]]
  show "db (sv_world s') = db (sv_world s)"
    using assms(3) 1 K reconcile_eff(2) [OF assms(1) refl, of E k _ e p]
    by (cases ph) (auto simp: frame_def split: sum.splits)
  show "(ph = FFetch \<and> (\<forall>v. ph' = FStore v \<longrightarrow> answer v = db (sv_world s) k) \<and> (\<forall>v. ph' \<noteq> FDone (Inr v))) \<or>
     (\<exists>v. ph = FStore v \<and> ph' = FDone (Inr v)) \<or> ph' = ph"
    using assms(3) 1 K by (cases ph) (auto split: sum.splits)
qed

lemma batch_db:
  assumes "static_ok cfg s" "kv_client E db" "batch_step E keys ph s = (ph', s')"
  shows "db (sv_world s') = db (sv_world s)"
proof (cases ph)
  case (MScan j lp out missing)
  show ?thesis
  proof (cases "\<exists>state item. lp = LEnd state item")
    case True
    then obtain state item where "scan_end E keys (Match (sv_policies s) (keys ! j)) j state item out missing s = (ph', s')"
      using assms(3) MScan by auto
    from scan_end_quiet(1) [OF assms(1) this] show ?thesis by (simp add: quiet_def frame_def)
  next
    case False
    then obtain lp' where "local_step E (Match (sv_policies s) (keys ! j)) (keys ! j) lp s = (lp', s')"
      using assms(3) MScan by (cases lp) (auto split: prod.splits)
    from local_step_frame [OF assms(1) this] show ?thesis by simp
  qed
next
  case (MFetch out missing)
  obtain r u where 1: "mget_upstream E (map mr_key missing) s = (r, u)" by (rule prod.exhaust)
  from kv_mget [OF assms(2) mget_calls(2) [OF assms(1) 1]] MFetch 1 assms(3) show ?thesis
    by (auto split: option.splits sum.splits)
next
  case (MStale reads m c out err)
  then show ?thesis
    using assms(3) quietD(2) [OF cache_GetStale_quiet(1) [OF assms(1)]]
    by (cases reads) (auto split: if_splits prod.splits option.splits)
next
  case (MStore vs reads out)
  have "sv_world (reconcileLocalIfCurrent E k v e p s) = sv_world s" for k v e p
    using reconcile_eff(2) [OF assms(1) refl, of E k v e p] by (simp add: frame_def)
  then show ?thesis using MStore assms(3) by (cases vs; cases reads) auto
qed (use assms(3) in auto)

lemma step_db:
  assumes kv: "kv_client E db" and inv: "cinv cfg E db n (ts, s)" and step: "cstep E cancel (ts, s) (ts', s')" and calm: "calm key ts'"
  shows "db (sv_world s') key = db (sv_world s) key"
proof -
  note st = cinv_static [OF inv]
  have f: "faithful_thread E db t" if "t \<in> set ts" for t using inv that cohD(3) by (fastforce simp: cinv_def)
  from step show ?thesis
  proof cases
    case (read_local i k lp lp')
    then show ?thesis using local_step_frame [OF st] by metis
  next
    case (read_end i k state item ph)
    then show ?thesis by (auto simp: read_end_def split: option.splits)
  next
    case (read_fetch i k r t)
    then show ?thesis using kv_get [OF kv fetch_calls(2) [OF st]] by simp
  next
    case (read_stale i k err item)
    then show ?thesis using quietD(2) [OF cache_GetStale_quiet(1) [OF st]] by metis
  next
    case (flight i k epoch policy ph forgotten ph')
    then show ?thesis using flight_db(1) [OF st kv] by metis
  next
    case (batch i keys ph ph')
    then show ?thesis using batch_db [OF st kv] by metis
  next
    case (writer i wr ph ph')
    have "Writer wr ph' \<in> set ts'" using writer by (simp add: set_update_memI)
    then have "key \<notin> unforgotten (Writer wr ph')" using calm by (simp add: calm_def list_all_iff)
    moreover have "faithful_thread E db (Writer wr ph)" using f writer nth_mem by metis
    ultimately show ?thesis using writer_db [OF st] writer by metis
  next
    case (purge i k b)
    then show ?thesis using PurgeCache_eff(3) [OF st] by (fastforce simp: bumped_def)
  next
    case (pass i command args r)
    have "faithful_thread E db (Passer command args)" using f pass nth_mem by metis
    then show ?thesis using pass do_calls(2) [OF st, of E command args r s'] by (metis PassThrough_def faithful_thread.simps(2) snd_conv)
  qed auto
qed

section \<open>Flights and readers keep their promise\<close>

lemma flight_ok_step:
  assumes kv: "kv_client E db" and st: "static_ok cfg s" and step: "cstep E cancel (ts, s) (ts', s')"
    and f: "f < length ts" "flight_ok key (db (sv_world s) key) (ts ! f)"
  shows "f < length ts' \<and> flight_ok key (db (sv_world s) key) (ts' ! f)"
proof -
  obtain e p ph fg where t: "ts ! f = Flight key e p ph fg"
    using f(2) by (cases "ts ! f") auto
  from step show ?thesis
  proof cases
    case (read_lead i k epoch)
    then show ?thesis using f t by (auto simp: nth_append nth_list_update)
  next
    case (flight i k e' policy ph' forgotten ph'')
    then show ?thesis using f t flight_db(2) [OF st kv flight(5)] by (auto simp: nth_list_update split: flight_phase.splits)
  next
    case (write_forget i wr n k keys r)
    then show ?thesis using f t by (auto simp: nth_list_update)
  next
    case (purge i k b)
    then show ?thesis using f t by (auto simp: nth_list_update)
  qed (use f t in \<open>auto simp: nth_list_update\<close>)
qed

lemma unsettled_unforgotten: "shaped t \<Longrightarrow> unsettled t \<subseteq> unforgotten t"
  by (cases t rule: unsettled.cases) auto

lemma join_ok:
  assumes coh: "coh cfg E db n ts s" and calm: "calm key ts" and f: "f < length ts" "joinable key (ts ! f)"
  shows "flight_ok key (db (sv_world s) key) (ts ! f)"
proof -
  obtain e p ph where t: "ts ! f = Flight key e p ph False" "\<forall>r. ph \<noteq> FDone r"
    using f(2) by (cases "(key, ts ! f)" rule: joinable.cases) auto
  have "answer v = db (sv_world s) key" if "ph = FStore v" for v
  proof -
    have "(key, v) \<in> fetched (ts ! f)" using t that by simp
    then show ?thesis using cohD(7) [OF coh nth_mem [OF f(1)]] calm by (fastforce simp: calm_def list_all_iff)
  qed
  then show ?thesis using t by (cases ph) auto
qed

lemma reader_ok_step:
  assumes kv: "kv_client E db" and inv: "cinv cfg E db n (ts, s)" and step: "cstep E cancel (ts, s) (ts', s')" and calm: "calm key ts"
    and i: "i < length ts" "ts ! i = Reader key ph" "reader_ok key (db (sv_world s) key) ts ph"
  shows "i < length ts' \<and> (\<exists>ph'. ts' ! i = Reader key ph' \<and> reader_ok key (db (sv_world s) key) ts' ph')"
proof -
  let ?d = "db (sv_world s) key"
  note st = cinv_static [OF inv]
  have coh: "coh cfg E db n ts s" using inv by (simp add: cinv_def)
  have cached: "?d = Some x" if "cached s key x" for x
    using cohD(4) [OF coh that] calm unsettled_unforgotten cohD(2) [OF coh] by (fastforce simp: calm_def list_all_iff)
  have keep: "reader_ok key ?d ts' ph" using i(3) flight_ok_step [OF kv st step] by (cases ph) auto
  from step show ?thesis
  proof cases
    case (read_local j k lp lp')
    show ?thesis
    proof (cases "j = i")
      case True
      then have "ph = RLocal lp" "k = key" using read_local i by auto
      then have "reader_ok key ?d ts' (RLocal lp')"
        using local_step_quiet [OF st read_local(5)] i(3) cached by fastforce
      then show ?thesis using read_local True i \<open>k = key\<close> by auto
    qed (use read_local i keep in auto)
  next
    case (read_end j k state item ph')
    show ?thesis
    proof (cases "j = i")
      case True
      then have "ph = RLocal (LEnd state item)" "k = key" using read_end i by auto
      then have "reader_ok key ?d ts' ph'"
        using read_end(4) i(3) by (auto simp: read_end_def cached_answer split: option.splits if_splits)
      then show ?thesis using read_end True i \<open>k = key\<close> by auto
    qed (use read_end i keep in auto)
  next
    case (read_fetch j k r u)
    then show ?thesis using i keep kv_get [OF kv fetch_calls(2) [OF st read_fetch(5)]] by (cases "j = i") auto
  next
    case (read_lead j k epoch)
    then show ?thesis using i keep by (cases "j = i") (auto simp: nth_append)
  next
    case (read_join j k epoch f)
    show ?thesis
    proof (cases "j = i")
      case True
      then have k: "k = key" using read_join i by auto
      have "f \<noteq> j" using read_join by auto
      then have "reader_ok key ?d ts' (RAwait f)" using join_ok [OF coh calm read_join(5)] read_join k by simp
      then show ?thesis using read_join True i k by auto
    qed (use read_join i keep in auto)
  next
    case (read_result j k f epoch policy v forgotten s'' shared)
    show ?thesis
    proof (cases "j = i")
      case True
      then have "ph = RAwait f" "k = key" using read_result i by auto
      then show ?thesis using read_result True i by auto
    qed (use read_result i keep in auto)
  next
    case (read_stale j k err item)
    show ?thesis
    proof (cases "j = i")
      case True
      then have k: "k = key" using read_stale i by auto
      have "reader_ok key ?d ts' (RDone (case item of Some item \<Rightarrow> Inr (cached_value item) | None \<Rightarrow> Inl err))"
        using cache_GetStale_quiet(2) [OF st read_stale(4)] cached k by (auto simp: cached_answer split: option.splits)
      then show ?thesis using read_stale True i k by auto
    qed (use read_stale i keep in auto)
  next
    case (write_forget j wr m k keys r)
    then show ?thesis using i keep by (cases "j = i") auto
  next
    case (purge j k b)
    then show ?thesis using i keep by (cases "j = i") auto
  qed (use i keep in \<open>auto simp: nth_list_update\<close>)
qed

section \<open>Reads are fresh\<close>

definition calm_step where
  "calm_step E cancel key c c' \<longleftrightarrow> cstep E cancel c c' \<and> calm key (fst c')"

lemma calm_run:
  assumes kv: "kv_client E db" and "calm key (fst c)" "cinv cfg E db n c" "i < length (fst c)" "fst c ! i = Reader key ph"
    "reader_ok key (db (sv_world (snd c)) key) (fst c) ph"
  shows "(calm_step E cancel key ^^ m) c c' \<Longrightarrow> n + m < 2 ^ 64 \<Longrightarrow>
    calm key (fst c') \<and> cinv cfg E db (n + m) c' \<and> i < length (fst c') \<and>
    (\<exists>ph. fst c' ! i = Reader key ph \<and> reader_ok key (db (sv_world (snd c')) key) (fst c') ph)"
proof (induction m arbitrary: c')
  case (Suc m)
  then obtain d where d: "(calm_step E cancel key ^^ m) c d" "calm_step E cancel key d c'" by auto
  obtain ts s ts' s' where c: "d = (ts, s)" "c' = (ts', s')" by (cases d; cases c') auto
  from Suc.IH [OF d(1)] Suc.prems(2) obtain ph where IH: "calm key ts" "cinv cfg E db (n + m) (ts, s)" "i < length ts"
      "ts ! i = Reader key ph" "reader_ok key (db (sv_world s) key) ts ph" by (auto simp: c)
  have step: "cstep E cancel (ts, s) (ts', s')" "calm key ts'" using d(2) by (simp_all add: c calm_step_def)
  have "cinv cfg E db (Suc (n + m)) (ts', s')" using cinv_step [OF kv step(1) IH(2)] Suc.prems(2) by simp
  then show ?case
    using reader_ok_step [OF kv IH(2) step(1) IH(1,3-5)] step_db [OF kv IH(2) step] step(2) by (simp add: c)
qed (use assms in auto)

text \<open>
  C2: Reads are fresh. Let a GET begin in any reachable state of any interleaving while no write of its key
  is between being sent and having forgotten the key's flights, and let none be until it answers. Then a
  value it answers, from either tier, from a promoted or stale entry, from its own flight or from one it
  joined that was started long before, is the one the upstream stores for the key.
\<close>

theorem get_fresh:
  assumes "kv_client E db" "list_all fresh ts0" "list_all (faithful_thread E db) ts0"
    and "(cstep E cancel ^^ n) (ts0, New_service E cfg rec v c w) (ts1, s1)"
    and "i < length ts1" "ts1 ! i = Reader key RStart" "calm key ts1"
    and "(calm_step E cancel key ^^ m) (ts1, s1) (ts2, s2)" "n + m < 2 ^ 64"
    and "ts2 ! i = Reader key (RDone (Inr x))"
  shows "answer x = db (sv_world s2) key"
proof -
  have "cinv cfg E db (0 + n) (ts1, s1)" by (rule cinv_steps [OF assms(1,4) cinv_start [OF assms(2,3)]]) (use assms(9) in simp)
  then have "cinv cfg E db n (ts1, s1)" by simp
  from calm_run [OF assms(1) _ this _ _ _ assms(8,9), where i = i and ph = RStart] assms(5-7,10) show ?thesis by simp
qed

end
