(* ===== verification/Progress.thy ===== *)
theory Progress
  imports FreshReads "HOL-Library.Multiset"
begin

text \<open>No interleaving of concurrent clients deadlocks or runs forever, whatever the upstream answers.\<close>

section \<open>Termination\<close>

fun lrank :: "local \<Rightarrow> nat \<times> nat" where
  "lrank LObserve = (9, 0)"
| "lrank (LApply _ _ trs _) = (8, length trs)"
| "lrank (LProtected _) = (7, 0)"
| "lrank (LProbe _) = (6, 0)"
| "lrank (LHot _) = (5, 0)"
| "lrank (LReread _) = (4, 0)"
| "lrank (LStripe _) = (4, 0)"
| "lrank (LSettle _ _ _ trs _) = (3, length trs)"
| "lrank (LEnd _ _) = (0, 0)"

text \<open>A rank that falls with every step of a thread, in the lexicographic order.\<close>

fun rank :: "cthread \<Rightarrow> nat \<times> nat" where
  "rank (Reader key RStart) = (30, 0)"
| "rank (Reader key (RLocal lp)) = (15 + fst (lrank lp), snd (lrank lp))"
| "rank (Reader key RFetch) = (5, 0)"
| "rank (Reader key REpoch) = (12, 0)"
| "rank (Reader key (RCall e)) = (11, 0)"
| "rank (Reader key (RAwait f)) = (2, 0)"
| "rank (Reader key (RStale err)) = (1, 0)"
| "rank (Reader key (RDone r)) = (0, 0)"
| "rank (Flight key e p FFetch f) = (3, 0)"
| "rank (Flight key e p (FStore v) f) = (2, 0)"
| "rank (Flight key e p (FDone r) f) = (0, 0)"
| "rank (Batch keys (MScan i lp out missing)) = (5 + 20 * (length keys - i) + fst (lrank lp), snd (lrank lp))"
| "rank (Batch keys (MFetch out missing)) = (4, 0)"
| "rank (Batch keys (MStale reads n c out err)) = (3, length reads)"
| "rank (Batch keys (MStore vs missing out)) = (2, length vs)"
| "rank (Batch keys (MDone r)) = (0, 0)"
| "rank (Batch keys MPanic) = (0, 0)"
| "rank (Writer wr (WAcquire acquired pending)) = (8, length pending)"
| "rank (Writer wr (WDrop adv n keys)) = (7, length keys)"
| "rank (Writer wr (WSend n)) = (6, 0)"
| "rank (Writer wr (WFinish n r)) = (5, 0)"
| "rank (Writer wr (WClean adv n keys r)) = (4, length keys)"
| "rank (Writer wr (WForget n keys r)) = (3, length keys)"
| "rank (Writer wr (WRelease gs r)) = (2, length gs)"
| "rank (Writer wr (WDone r)) = (0, 0)"
| "rank (Purger key) = (1, 0)"
| "rank (Passer command args) = (1, 0)"
| "rank Ended = (0, 0)"

abbreviation below :: "((nat \<times> nat) \<times> (nat \<times> nat)) set" where
  "below \<equiv> less_than <*lex*> less_than"

definition ranks :: "cthread list \<Rightarrow> (nat \<times> nat) multiset" where
  "ranks ts = mset (map rank ts)"

lemma ranks_update:
  assumes "i < length ts" "(rank t', rank (ts ! i)) \<in> below" "\<forall>u \<in> set us. (rank u, rank (ts ! i)) \<in> below"
  shows "(ranks (ts[i := t'] @ us), ranks ts) \<in> mult below"
proof -
  define M where "M = mset (map rank ts) - {#rank (ts ! i)#}"
  have "ranks ts = add_mset (rank (ts ! i)) M" using assms(1) by (simp add: ranks_def M_def)
  moreover have "ranks (ts[i := t'] @ us) = M + add_mset (rank t') (mset (map rank us))"
    using assms(1) by (simp add: ranks_def M_def map_update mset_update)
  moreover have "\<forall>k \<in> set_mset (add_mset (rank t') (mset (map rank us))). (k, rank (ts ! i)) \<in> below" using assms(2,3) by auto
  ultimately have "(ranks (ts[i := t'] @ us), ranks ts) \<in> mult1 below" unfolding mult1_def by blast
  then show ?thesis unfolding mult_def by blast
qed

lemma ranks_one: "i < length ts \<Longrightarrow> (rank t', rank (ts ! i)) \<in> below \<Longrightarrow> (ranks (ts[i := t']), ranks ts) \<in> mult below"
  using ranks_update [of i ts t' "[]"] by simp

lemma rank_forget: "ranks (map (forget key) ts) = ranks ts"
proof -
  have "rank (forget key t) = rank t" for t by (cases t rule: rank.cases) simp_all
  then show ?thesis by (simp add: ranks_def comp_def)
qed

lemma local_rank:
  assumes "local_step E p key lp s = (lp', s')" "\<forall>state item. lp \<noteq> LEnd state item"
  shows "fst (lrank lp') < fst (lrank lp) \<or> fst (lrank lp') = fst (lrank lp) \<and> snd (lrank lp') < snd (lrank lp)"
proof (cases lp)
  case (LApply st ob trs ch)
  then show ?thesis using assms by (cases trs) (auto split: prod.splits)
next
  case (LStripe st)
  then show ?thesis
    using assms by (auto simp: stripe_section_def Let_def split: prod.splits option.splits)
next
  case (LSettle st item ob trs ch)
  then show ?thesis using assms by (cases trs) (auto split: prod.splits)
qed (use assms in \<open>auto split: prod.splits if_splits\<close>)

lemma batch_rank:
  assumes "batch_step E keys ph s = (ph', s')" "\<forall>r. ph \<noteq> MDone r" "ph \<noteq> MPanic"
  shows "(rank (Batch keys ph'), rank (Batch keys ph)) \<in> below"
proof (cases ph)
  case (MScan j lp out missing)
  show ?thesis
  proof (cases "\<exists>state item. lp = LEnd state item")
    case True
    then show ?thesis
      using assms(1) MScan by (auto simp: scan_end_def Let_def split: option.splits if_splits)
  next
    case False
    then obtain lp' where lp': "local_step E (Match (sv_policies s) (keys ! j)) (keys ! j) lp s = (lp', s')"
        "ph' = MScan j lp' out missing"
      using assms(1) MScan by (cases lp) (auto split: prod.splits)
    then show ?thesis using local_rank [OF lp'(1)] False MScan by auto
  qed
next
  case (MFetch out missing)
  then show ?thesis using assms by (auto split: prod.splits option.splits sum.splits if_splits)
next
  case (MStale reads m c out err)
  then show ?thesis using assms by (cases reads) (auto split: prod.splits option.splits if_splits)
next
  case (MStore vs reads out)
  then show ?thesis using assms by (cases vs; cases reads) auto
qed (use assms in auto)

lemma writer_rank:
  assumes "writer_step E wr ph s = (ph', s')" "\<forall>r. ph \<noteq> WDone r"
  shows "(rank (Writer wr ph'), rank (Writer wr ph)) \<in> below"
  using assms by (cases "(E, wr, ph, s)" rule: writer_step.cases) (auto split: prod.splits option.splits)

lemma step_rank:
  assumes "cstep E cancel (ts, s) (ts', s')"
  shows "(ranks ts', ranks ts) \<in> mult below"
  using assms
proof cases
  case (read_local i key lp lp')
  then show ?thesis using local_rank [OF read_local(5,4)] by (auto intro!: ranks_one)
next
  case (read_end i key state item ph)
  then show ?thesis by (auto intro!: ranks_one simp: read_end_def split: option.splits if_splits)
next
  case (read_lead i key epoch)
  then show ?thesis using ranks_update [of i ts] by simp
next
  case (flight i key epoch policy ph forgotten ph')
  then show ?thesis by (cases ph) (auto intro!: ranks_one split: prod.splits sum.splits)
next
  case (batch i keys ph ph')
  then show ?thesis using batch_rank [OF batch(6,4,5)] by (auto intro!: ranks_one)
next
  case (writer i wr ph ph')
  then show ?thesis using writer_rank [OF writer(7,4)] by (auto intro!: ranks_one)
next
  case (write_forget i wr n key keys r)
  then show ?thesis using ranks_one [of i ts "Writer wr (WForget n keys r)"] by (simp only: rank_forget) simp
next
  case (purge i key b)
  then show ?thesis using ranks_one [of i ts Ended] by (auto simp: rank_forget)
qed (auto intro!: ranks_one)

section \<open>Waiting\<close>

fun is_flight :: "bytes \<Rightarrow> cthread \<Rightarrow> bool" where
  "is_flight key (Flight key' e p ph f) = (key' = key)"
| "is_flight key t = False"

text \<open>A GET waits for a flight of its key.\<close>

definition awaits :: "cthread list \<Rightarrow> bool" where
  "awaits ts \<longleftrightarrow> (\<forall>t \<in> set ts. \<forall>key f. t = Reader key (RAwait f) \<longrightarrow> f < length ts \<and> is_flight key (ts ! f))"

lemma is_flight_step:
  assumes "cstep E cancel (ts, s) (ts', s')" "f < length ts" "is_flight key (ts ! f)"
  shows "f < length ts' \<and> is_flight key (ts' ! f)"
proof -
  obtain e p ph fg where t: "ts ! f = Flight key e p ph fg" using assms(3) by (cases "ts ! f") auto
  from assms(1) show ?thesis
    by cases (use assms(2) t in \<open>auto simp: nth_list_update nth_append\<close>)
qed

lemma joinable_flight: "joinable key t \<Longrightarrow> is_flight key t"
  by (cases "(key, t)" rule: joinable.cases) auto

lemma awaits_new:
  assumes step: "cstep E cancel (ts, s) (ts', s')" and aw: "awaits ts"
    and new: "\<And>t key f. t \<in> set ts' \<Longrightarrow> t = Reader key (RAwait f) \<Longrightarrow> t \<in> set ts \<or> f < length ts' \<and> is_flight key (ts' ! f)"
  shows "awaits ts'"
  unfolding awaits_def using new aw is_flight_step [OF step] unfolding awaits_def by metis

lemma awaits_step:
  assumes step: "cstep E cancel (ts, s) (ts', s')" and aw: "awaits ts"
  shows "awaits ts'"
proof (rule awaits_new [OF step aw])
  fix t key f assume t: "t \<in> set ts'" "t = Reader key (RAwait f)"
  have upd: "t \<in> set ts \<or> t = u" if "t \<in> set (ts[i := u])" for i u using that set_update_subset_insert [of ts i u] by blast
  from step show "t \<in> set ts \<or> f < length ts' \<and> is_flight key (ts' ! f)"
  proof cases
    case (read_end i k state item ph)
    then show ?thesis using t upd by (auto simp: read_end_def split: option.splits if_splits)
  next
    case (read_lead i k epoch)
    then show ?thesis using t upd [of i "Reader k (RAwait (length ts))"] by (auto simp: nth_append)
  next
    case (read_join i k epoch g)
    then have "g \<noteq> i" by auto
    then show ?thesis using t read_join joinable_flight upd [of i "Reader k (RAwait g)"] by auto
  next
    case (read_error i k g epoch policy err forgotten shared)
    then show ?thesis using t upd by (auto split: if_splits)
  next
    case (write_forget i wr n k keys r)
    then obtain u where u: "u \<in> set (ts[i := Writer wr (WForget n keys r)])" "t = forget k u" using t by auto
    have "u = t" using u(2) t(2) by (cases u rule: cthread.exhaust) auto
    then show ?thesis using u(1) t upd by auto
  next
    case (purge i k b)
    have u: "u = t" if "t = forget k u" for u using that t(2) by (cases u rule: cthread.exhaust) auto
    have "t \<in> set (ts[i := Ended])"
    proof (cases "k = []")
      case False
      then obtain v where v: "v \<in> set (ts[i := Ended])" "t = forget k v" using t(1) purge(1) by auto
      show ?thesis using v(1) u [OF v(2)] by simp
    qed (use t(1) purge(1) in simp)
    then show ?thesis using t(2) upd by auto
  next
    case (writer i wr ph ph')
    then show ?thesis using t upd [of i "Writer wr ph'"] by auto
  qed (use t upd in auto)
qed

section \<open>Gates, whatever the upstream does\<close>

definition ginv :: "config \<Rightarrow> cthread list \<Rightarrow> 'w service \<Rightarrow> bool" where
  "ginv cfg ts s \<longleftrightarrow> static_ok cfg s \<and> (\<forall>t \<in> set ts. shaped t) \<and> gates_inv ts s"

lemma ginv_other:
  assumes inv: "ginv cfg ts s" and i: "i < length ts" "ts ! i = t" "holds t = {}" "holds t' = {}" "shaped t'"
    and s': "static_ok cfg s'" "sv_gates s' = sv_gates s"
  shows "ginv cfg (ts[i := t']) s'"
proof -
  have "gates_inv (ts[i := t']) s'" by (rule gates_same) (use inv i s' in \<open>auto simp: ginv_def\<close>)
  moreover have "shaped u" if "u \<in> set (ts[i := t'])" for u
    using that set_update_subset_insert [of ts i t'] inv i(5) by (auto simp: ginv_def)
  ultimately show ?thesis using s' by (simp add: ginv_def)
qed

lemma writer_shaped:
  assumes "shaped (Writer wr ph)" "writer_step E wr ph s = (ph', s')"
  shows "shaped (Writer wr ph')"
  using assms by (cases "(E, wr, ph, s)" rule: writer_step.cases) (auto simp: needed_sorted split: prod.splits option.splits)

lemma writer_static:
  assumes st: "static_ok cfg s" and r: "writer_step E wr ph s = (ph', s')"
  shows "static_ok cfg s'"
proof -
  have "static_ok cfg ((on_metrics f ^^ k) s) = static_ok cfg s" for f k by (induction k) simp_all
  then show ?thesis
    using r st invalidate_key_eff(1) [OF st] callsD(1) [OF do_calls(1) [OF st]] writeThroughSet_eff(1) [OF st]
    by (cases "(E, wr, ph, s)" rule: writer_step.cases) (auto split: prod.splits option.splits)
qed

lemma batch_static:
  assumes st: "static_ok cfg s" and r: "batch_step E keys ph s = (ph', s')"
  shows "static_ok cfg s' \<and> sv_gates s' = sv_gates s"
proof (cases ph)
  case (MScan j lp out missing)
  show ?thesis
  proof (cases "\<exists>state item. lp = LEnd state item")
    case True
    then obtain state item where "scan_end E keys (Match (sv_policies s) (keys ! j)) j state item out missing s = (ph', s')"
      using r MScan by auto
    from scan_end_quiet(1) [OF st this] show ?thesis by (simp add: quiet_def frame_def)
  next
    case False
    then obtain lp' where "local_step E (Match (sv_policies s) (keys ! j)) (keys ! j) lp s = (lp', s')"
      using r MScan by (cases lp) (auto split: prod.splits)
    from local_step_quiet [OF st this] show ?thesis by (simp add: quiet_def frame_def)
  qed
next
  case (MFetch out missing)
  obtain r' u where 1: "mget_upstream E (map mr_key missing) s = (r', u)" by (rule prod.exhaust)
  from callsD [OF mget_calls(1) [OF st 1]] MFetch 1 r show ?thesis by (auto split: option.splits sum.splits)
next
  case (MStale reads m c out err)
  then show ?thesis
    using r st quietD [OF cache_GetStale_quiet(1) [OF st]]
    by (cases reads) (auto split: if_splits prod.splits option.splits)
next
  case (MStore vs reads out)
  have "static_ok cfg (reconcileLocalIfCurrent E k v e p s) \<and> sv_gates (reconcileLocalIfCurrent E k v e p s) = sv_gates s" for k v e p
    using reconcile_eff(1,2) [OF st refl, of E k v e p] by (simp add: frame_def)
  then show ?thesis using MStore r st by (cases vs; cases reads) auto
qed (use r st in auto)

lemma ginv_writer:
  assumes inv: "ginv cfg ts s" and i: "i < length ts" "ts ! i = Writer wr ph" and free: "\<not> blocked (sv_gates s) ph"
    and r: "writer_step E wr ph s = (ph', s')"
  shows "ginv cfg (ts[i := Writer wr ph']) s'"
proof -
  have st: "static_ok cfg s" and sh: "\<forall>t \<in> set ts. shaped t" and g: "gates_inv ts s" using inv by (simp_all add: ginv_def)
  have ok: "shaped (Writer wr ph)" using bspec [OF sh nth_mem [OF i(1)]] i(2) by simp
  note ok' = writer_shaped [OF ok r]
  have "shaped u" if "u \<in> set (ts[i := Writer wr ph'])" for u
    using that set_update_subset_insert [of ts i "Writer wr ph'"] sh ok' by auto
  then show ?thesis using writer_gates [OF st ok g i free r ok'] writer_static [OF st r] by (simp add: ginv_def)
qed

lemma ginv_forget:
  assumes inv: "ginv cfg ts s" and i: "i < length ts" "ts ! i = Writer wr (WForget n (key # keys) r)"
  shows "ginv cfg (map (forget key) (ts[i := Writer wr (WForget n keys r)])) s"
proof -
  have sh: "\<forall>t \<in> set ts. shaped t" and g: "gates_inv ts s" using inv by (simp_all add: ginv_def)
  have "shaped (Writer wr (WForget n (key # keys) r))" using bspec [OF sh nth_mem [OF i(1)]] i(2) by simp
  then have "shaped u" if "u \<in> set (ts[i := Writer wr (WForget n keys r)])" for u
    using that set_update_subset_insert [of ts i "Writer wr (WForget n keys r)"] sh by auto
  moreover have "gates_inv (ts[i := Writer wr (WForget n keys r)]) s"
    by (rule gates_same [OF g i(1)]) (use i needed_less in auto)
  ultimately show ?thesis using inv gates_map by (simp add: ginv_def)
qed

lemma ginv_cancel:
  assumes inv: "ginv cfg ts s" and i: "i < length ts" "ts ! i = Writer wr (WAcquire acquired (g # gs))"
  shows "ginv cfg (ts[i := Writer wr (WRelease (rev acquired) r)]) s"
proof -
  have sh: "\<forall>t \<in> set ts. shaped t" and gi: "gates_inv ts s" using inv by (simp_all add: ginv_def)
  have a: "acquired @ g # gs = needed_stripes (wr_keys wr)" using bspec [OF sh nth_mem [OF i(1)]] i(2) by simp
  have ok: "shaped (Writer wr (WRelease (rev acquired) r))"
    using a needed_sorted(2) [of "wr_keys wr"] by (auto simp flip: a)
  have "shaped u" if "u \<in> set (ts[i := Writer wr (WRelease (rev acquired) r)])" for u
    using that set_update_subset_insert [of ts i "Writer wr (WRelease (rev acquired) r)"] sh ok by auto
  moreover have "gates_inv (ts[i := Writer wr (WRelease (rev acquired) r)]) s"
    by (rule gates_same [OF gi i(1)]) (use i(2) holds_less [OF ok] in simp_all)
  ultimately show ?thesis using inv by (simp add: ginv_def)
qed

lemma ginv_step:
  assumes step: "cstep E cancel (ts, s) (ts', s')" and inv: "ginv cfg ts s"
  shows "ginv cfg ts' s'"
proof -
  have st: "static_ok cfg s" using inv by (simp add: ginv_def)
  note other = ginv_other [OF inv]
  from step show ?thesis
  proof cases
    case (read_local i key lp lp')
    then show ?thesis using local_step_quiet [OF st read_local(5)] by (auto intro!: other simp: quiet_def frame_def)
  next
    case (read_end i key state item ph)
    then show ?thesis using st by (auto intro!: other simp: read_end_def split: option.splits if_splits)
  next
    case (read_fetch i key r t)
    then show ?thesis using callsD [OF fetch_calls(1) [OF st read_fetch(5)]] by (auto intro!: other)
  next
    case (read_lead i key epoch)
    have "ginv cfg (ts[i := Reader key (RAwait (length ts))]) s" using read_lead st by (auto intro!: other)
    then show ?thesis using read_lead by (auto simp: ginv_def intro!: gates_append)
  next
    case (read_stale i key err item)
    then show ?thesis using quietD [OF cache_GetStale_quiet(1) [OF st read_stale(4)]] by (auto intro!: other)
  next
    case (flight i key epoch policy ph forgotten ph')
    have "static_ok cfg s' \<and> sv_gates s' = sv_gates s"
    proof (cases ph)
      case FFetch
      obtain r u where 1: "fetchUpstreamGet E key s = (r, u)" by (rule prod.exhaust)
      from callsD [OF fetch_calls(1) [OF st 1]] flight(5) FFetch 1 show ?thesis by (auto split: sum.splits)
    next
      case (FStore v)
      then have "s' = reconcileLocalIfCurrent E key v epoch policy s" using flight(5) by simp
      from reconcile_eff(1,2) [OF st this] show ?thesis by (simp add: frame_def)
    qed (use flight in simp)
    then show ?thesis using flight by (auto intro!: other)
  next
    case (batch i keys ph ph')
    have "static_ok cfg s' \<and> sv_gates s' = sv_gates s" using batch_static [OF st batch(6)] .
    then show ?thesis using batch by (auto intro!: other)
  next
    case (writer i wr ph ph')
    then show ?thesis using ginv_writer [OF inv] by blast
  next
    case (write_forget i wr n key keys r)
    then show ?thesis using ginv_forget [OF inv] by blast
  next
    case (write_cancelled i wr acquired g gs err)
    then show ?thesis using ginv_cancel [OF inv] by blast
  next
    case (purge i key b)
    obtain B where "bumped B s s'" using PurgeCache_eff(3) [OF st purge(4)] by blast
    then have "ginv cfg (ts[i := Ended]) s'"
      using purge PurgeCache_eff(1) [OF st purge(4)] by (auto intro!: other simp: bumped_def)
    then show ?thesis using purge by (auto simp: ginv_def gates_map)
  next
    case (pass i command args r)
    then show ?thesis using callsD [OF do_calls(1) [OF st pass(4) [unfolded PassThrough_def]]] by (auto intro!: other)
  qed (use st in \<open>auto intro!: other\<close>)
qed

section \<open>No deadlock\<close>

definition stuck :: "'w senv \<Rightarrow> (nat \<Rightarrow> go_error option) \<Rightarrow> cthread list \<times> 'w service \<Rightarrow> bool" where
  "stuck E cancel c \<longleftrightarrow> (\<forall>c'. \<not> cstep E cancel c c')"

lemma stuckD: "stuck E cancel c \<Longrightarrow> cstep E cancel c c' \<Longrightarrow> False"
  unfolding stuck_def by blast

text \<open>In a stuck state only writes waiting for a gate are unfinished.\<close>

lemma stuck_writer:
  assumes st: "stuck E cancel (ts, s)" and i: "i < length ts" "ts ! i = Writer wr ph"
  shows "blocked (sv_gates s) ph \<or> (\<exists>r. ph = WDone r)"
proof (rule ccontr)
  assume a: "\<not> ?thesis"
  obtain ph' s' where "writer_step E wr ph s = (ph', s')" by (rule prod.exhaust)
  then show False
    using a cstep.writer [OF i, of s E] cstep.write_forget [OF i(1)] i(2) stuckD [OF st] by metis
qed

lemma stuck_flight:
  assumes st: "stuck E cancel (ts, s)" and i: "i < length ts" "ts ! i = Flight key e p ph f"
  shows "\<exists>r. ph = FDone r"
proof (rule ccontr)
  assume a: "\<not> ?thesis"
  obtain ph' s' where "flight_step E key e p ph s = (ph', s')" by (rule prod.exhaust)
  then show False using a cstep.flight [OF i, of E s] stuckD [OF st] by blast
qed

lemma stuck_batch:
  assumes st: "stuck E cancel (ts, s)" and i: "i < length ts" "ts ! i = Batch keys ph"
  shows "(\<exists>r. ph = MDone r) \<or> ph = MPanic"
proof (rule ccontr)
  assume a: "\<not> ?thesis"
  obtain ph' s' where "batch_step E keys ph s = (ph', s')" by (rule prod.exhaust)
  then show False using a cstep.batch [OF i, of E s] stuckD [OF st] by blast
qed

lemma stuck_reader:
  assumes st: "stuck E cancel (ts, s)" and aw: "awaits ts" and i: "i < length ts" "ts ! i = Reader key ph"
  shows "\<exists>r. ph = RDone r"
proof (rule ccontr)
  assume a: "\<not> ?thesis"
  note no = stuckD [OF st]
  show False
  proof (cases ph)
    case RStart
    then show False using no cstep.read_nokey [of i ts] cstep.read_start [of i ts key] i by (cases "key = []") blast+
  next
    case (RLocal lp)
    obtain lp' s' where 1: "local_step E (Match (sv_policies s) key) key lp s = (lp', s')" by (rule prod.exhaust)
    show False
    proof (cases "\<exists>state item. lp = LEnd state item")
      case True
      then obtain state item where lp: "lp = LEnd state item" by blast
      obtain ph' s'' where "read_end E key (Match (sv_policies s) key) state item s = (ph', s'')" by (rule prod.exhaust)
      then show False using no cstep.read_end [of i ts key state item] i RLocal lp by blast
    next
      case False
      then show False using no cstep.read_local [of i ts key lp, OF _ _ _ 1] i RLocal by blast
    qed
  next
    case RFetch
    obtain r s' where "fetchUpstreamGet E key s = (r, s')" by (rule prod.exhaust)
    then show False using no cstep.read_fetch [of i ts key] i RFetch by blast
  next
    case REpoch
    then show False using no cstep.read_epoch [of i ts key] i by blast
  next
    case (RCall e)
    show False
    proof (cases "list_ex (joinable key) ts")
      case True
      then obtain f where "f < length ts" "joinable key (ts ! f)" by (auto simp: list_ex_length)
      then show False using no cstep.read_join [of i ts key e] i RCall by blast
    next
      case False
      then show False using no cstep.read_lead [of i ts key e] i RCall by blast
    qed
  next
    case (RAwait f)
    have "Reader key (RAwait f) \<in> set ts" using i RAwait by (metis nth_mem)
    then have f: "f < length ts" "is_flight key (ts ! f)" using aw by (auto simp: awaits_def)
    then obtain e p fp fg where t: "ts ! f = Flight key e p fp fg" by (cases "ts ! f") auto
    with stuck_flight [OF st f(1)] obtain r where r: "fp = FDone r" by blast
    show False
    proof (cases r)
      case (Inl err)
      then show False
        using no cstep.read_error [OF i(1) i(2) [unfolded RAwait] f(1) t [unfolded r Inl] refl] by blast
    next
      case (Inr v)
      then show False
        using no cstep.read_result [OF i(1) i(2) [unfolded RAwait] f(1) t [unfolded r Inr] refl] by blast
    qed
  next
    case (RStale err)
    obtain item s' where "cache_GetStale E key (cc_StaleGrace (cf_Cache (sv_cfg s))) s = (item, s')" by (rule prod.exhaust)
    then show False using no cstep.read_stale [of i ts key err] i RStale by blast
  qed (use a in blast)
qed

text \<open>The write that waits for the highest gate waits for one that holds it and waits for none.\<close>

lemma no_blocked:
  assumes st: "stuck E cancel (ts, s)" and inv: "ginv cfg ts s" and i: "i < length ts" "ts ! i = Writer wr ph"
  shows "\<not> blocked (sv_gates s) ph"
proof
  define W where "W = {g. \<exists>j wr acq gs. j < length ts \<and> ts ! j = Writer wr (WAcquire acq (g # gs)) \<and> sv_gates s ! g}"
  have sh: "shaped (ts ! j)" if "j < length ts" for j using inv that by (simp add: ginv_def)
  have less: "g < cacheEpochStripeCount" if w: "g \<in> W" for g
  proof -
    obtain j wr acq gs where j: "j < length ts" "ts ! j = Writer wr (WAcquire acq (g # gs))" using w by (auto simp: W_def)
    then have "acq @ g # gs = needed_stripes (wr_keys wr)" using sh [of j] by simp
    then show ?thesis using needed_less [of g "wr_keys wr"] by (metis in_set_conv_decomp)
  qed
  then have fin: "finite W" by (meson finite_lessThan finite_subset lessThan_iff subsetI)
  assume "blocked (sv_gates s) ph"
  then obtain acq h gs where "ph = WAcquire acq (h # gs)" "sv_gates s ! h"
    by (cases "(sv_gates s, ph)" rule: blocked.cases) auto
  then have "h \<in> W" using i unfolding W_def by blast
  then have "W \<noteq> {}" by blast
  define g where "g = Max W"
  have g: "g \<in> W" "\<And>h. h \<in> W \<Longrightarrow> h \<le> g" using Max_in [OF fin \<open>W \<noteq> {}\<close>] Max_ge [OF fin] by (auto simp: g_def)
  then have "sv_gates s ! g" by (auto simp: W_def)
  then obtain j where j: "j < length ts" "g \<in> holds (ts ! j)"
    using inv less [OF g(1)] by (auto simp: ginv_def gates_inv_def in_set_conv_nth)
  then obtain wr' ph' where w: "ts ! j = Writer wr' ph'" by (cases "ts ! j") auto
  have "\<nexists>r. ph' = WDone r" using j(2) w by auto
  then have "blocked (sv_gates s) ph'" using stuck_writer [OF st j(1) w] by blast
  then obtain acq h gs where ph': "ph' = WAcquire acq (h # gs)" "sv_gates s ! h"
    by (cases "(sv_gates s, ph')" rule: blocked.cases) auto
  then have "h \<in> W" using j w by (auto simp: W_def)
  moreover have "g < h"
  proof -
    have "acq @ h # gs = needed_stripes (wr_keys wr')" using sh [OF j(1)] w ph' by simp
    then have "sorted (acq @ h # gs)" "distinct (acq @ h # gs)" using needed_sorted [of "wr_keys wr'"] by simp_all
    moreover have "g \<in> set acq" using j(2) w ph' by simp
    ultimately show ?thesis by (auto simp: sorted_append order_le_less)
  qed
  ultimately show False using g(2) by fastforce
qed

lemma ginv_run:
  assumes "list_all fresh ts0" "(cstep E cancel)\<^sup>*\<^sup>* (ts0, New_service E cfg rec v c w) d"
  shows "ginv cfg (fst d) (snd d) \<and> awaits (fst d)"
  using assms(2)
proof (induction rule: rtranclp_induct)
  case base
  have "shaped t" "t \<noteq> Reader key (RAwait f)" if "t \<in> set ts0" for t key f
    using that assms(1) fresh_sel(1) by (auto simp: list_all_iff)
  then show ?case using fresh_gates [OF assms(1)] New_empty(1) by (auto simp: ginv_def awaits_def)
next
  case (step d d')
  then show ?case using ginv_step [of E cancel "fst d" "snd d" "fst d'" "snd d'"] awaits_step [of E cancel "fst d" "snd d" "fst d'" "snd d'"] by simp
qed

lemma stuck_finished:
  assumes st: "stuck E cancel (ts, s)" and inv: "ginv cfg ts s" "awaits ts" and i: "i < length ts"
  shows "finished (ts ! i) \<and> holds (ts ! i) = {}"
proof (cases "ts ! i")
  case (Reader key ph)
  then show ?thesis using stuck_reader [OF st inv(2) i] by auto
next
  case (Flight key e p ph f)
  then show ?thesis using stuck_flight [OF st i] by auto
next
  case (Batch keys ph)
  then show ?thesis using stuck_batch [OF st i] by auto
next
  case (Writer wr ph)
  then show ?thesis using stuck_writer [OF st i] no_blocked [OF st inv(1) i] by auto
next
  case (Purger key)
  obtain b s' where "PurgeCache key s = (b, s')" by (rule prod.exhaust)
  then show ?thesis using Purger cstep.purge [OF i] stuckD [OF st] by blast
next
  case (Passer command args)
  obtain b s' where "PassThrough E command args s = (b, s')" by (rule prod.exhaust)
  then show ?thesis using Passer cstep.pass [OF i] stuckD [OF st] by blast
qed simp

text \<open>
  C4: Concurrent clients always finish. No interleaving of GETs, MGETs, flights, writes of any number of
  keys, purges and pass-through commands runs forever, whatever the upstream answers; and none deadlocks: when
  no step is possible every call has returned (an MGET may have panicked on an upstream reply with too many
  values), every flight has ended and every mutation gate is open. This does not rely on contexts ending.
\<close>

theorem clients_finish:
  assumes "list_all fresh ts0"
  shows "wf {(c', c). cstep E cancel c c'} \<and>
    ((cstep E cancel)\<^sup>*\<^sup>* (ts0, New_service E cfg rec v c w) (ts, s) \<and> (\<forall>c'. \<not> cstep E cancel (ts, s) c') \<longrightarrow>
       list_all finished ts \<and> sv_gates s = replicate cacheEpochStripeCount False)"
proof -
  have "{(c', c). cstep E cancel c c'} \<subseteq> inv_image (mult below) (ranks \<circ> fst)"
    using step_rank by (force simp: inv_image_def)
  moreover have "wf (mult below)" by (rule wf_mult) auto
  ultimately have wf: "wf {(c', c). cstep E cancel c c'}" using wf_inv_image wf_subset by blast
  moreover have "list_all finished ts \<and> sv_gates s = replicate cacheEpochStripeCount False"
    if run: "(cstep E cancel)\<^sup>*\<^sup>* (ts0, New_service E cfg rec v c w) (ts, s)" and no: "\<forall>c'. \<not> cstep E cancel (ts, s) c'"
  proof -
    have inv: "ginv cfg ts s" "awaits ts" using ginv_run [OF assms run] by simp_all
    have st: "stuck E cancel (ts, s)" using no by (simp add: stuck_def)
    have f: "finished t \<and> holds t = {}" if "t \<in> set ts" for t
      using that stuck_finished [OF st inv] by (metis in_set_conv_nth)
    then have "\<not> sv_gates s ! g" if "g < cacheEpochStripeCount" for g using inv that by (auto simp: ginv_def gates_inv_def)
    then show ?thesis using f inv by (auto simp: list_all_iff ginv_def gates_inv_def intro!: nth_equalityI)
  qed
  ultimately show ?thesis by blast
qed

end
