(* ===== verification/ClientRuns.thy ===== *)
theory ClientRuns
  imports Progress
begin

text \<open>Executable schedules of concurrent clients and the runs they give.\<close>

fun read_move :: "'w senv \<Rightarrow> nat \<Rightarrow> bytes \<Rightarrow> cthread list \<Rightarrow> reader \<Rightarrow> 'w service \<Rightarrow> (cthread list \<times> 'w service) option" where
  "read_move E i key ts RStart s =
     Some (ts[i := Reader key (if key = [] then RDone (Inl (OtherError ''key is required'')) else RLocal LObserve)], s)"
| "read_move E i key ts (RLocal (LEnd state item)) s =
     (case read_end E key (Match (sv_policies s) key) state item s of (ph, s) \<Rightarrow> Some (ts[i := Reader key ph], s))"
| "read_move E i key ts (RLocal lp) s =
     (case local_step E (Match (sv_policies s) key) key lp s of (lp, s) \<Rightarrow> Some (ts[i := Reader key (RLocal lp)], s))"
| "read_move E i key ts RFetch s =
     (case fetchUpstreamGet E key s of (r, s) \<Rightarrow> Some (ts[i := Reader key (RDone r)], observeCache s))"
| "read_move E i key ts REpoch s = Some (ts[i := Reader key (RCall (cacheEpoch key s))], s)"
| "read_move E i key ts (RCall e) s =
     (case find (\<lambda>f. joinable key (ts ! f)) [0 ..< length ts] of
        Some f \<Rightarrow> Some (ts[i := Reader key (RAwait f)], s)
      | None \<Rightarrow> Some (ts[i := Reader key (RAwait (length ts))] @ [Flight key e (Match (sv_policies s) key) FFetch False], s))"
| "read_move E i key ts (RAwait f) s =
     (if f < length ts then
        (case ts ! f of
           Flight key' e p (FDone (Inr v)) fg \<Rightarrow> if key' = key then Some (ts[i := Reader key (RDone (Inr v))], observeCache s) else None
         | Flight key' e p (FDone (Inl err)) fg \<Rightarrow>
             if key' = key
             then Some (ts[i := Reader key (if cc_AllowStaleOnUpstreamError (cf_Cache (sv_cfg s)) then RStale err else RDone (Inl err))], s)
             else None
         | _ \<Rightarrow> None)
      else None)"
| "read_move E i key ts (RStale err) s =
     (case cache_GetStale E key (cc_StaleGrace (cf_Cache (sv_cfg s))) s of
        (item, s) \<Rightarrow> Some (ts[i := Reader key (RDone (case item of Some item \<Rightarrow> Inr (cached_value item) | None \<Rightarrow> Inl err))], s))"
| "read_move E i key ts (RDone r) s = None"

fun write_move :: "'w senv \<Rightarrow> nat \<Rightarrow> write_request \<Rightarrow> cthread list \<Rightarrow> writer \<Rightarrow> 'w service \<Rightarrow> (cthread list \<times> 'w service) option" where
  "write_move E i wr ts (WForget n (key # keys) r) s = Some (map (forget key) (ts[i := Writer wr (WForget n keys r)]), s)"
| "write_move E i wr ts (WDone r) s = None"
| "write_move E i wr ts ph s =
     (if blocked (sv_gates s) ph then None
      else case writer_step E wr ph s of (ph, s) \<Rightarrow> Some (ts[i := Writer wr ph], s))"

fun flight_move :: "'w senv \<Rightarrow> nat \<Rightarrow> bytes \<Rightarrow> u64 \<Rightarrow> decision \<Rightarrow> bool \<Rightarrow> cthread list \<Rightarrow> flight_phase \<Rightarrow> 'w service \<Rightarrow> (cthread list \<times> 'w service) option" where
  "flight_move E i key e p fg ts (FDone r) s = None"
| "flight_move E i key e p fg ts ph s =
     (case flight_step E key e p ph s of (ph, s) \<Rightarrow> Some (ts[i := Flight key e p ph fg], s))"

fun move :: "'w senv \<Rightarrow> nat \<Rightarrow> cthread list \<times> 'w service \<Rightarrow> (cthread list \<times> 'w service) option" where
  "move E i (ts, s) =
     (if i < length ts then
        (case ts ! i of
           Reader key ph \<Rightarrow> read_move E i key ts ph s
         | Writer wr ph \<Rightarrow> write_move E i wr ts ph s
         | Flight key e p ph fg \<Rightarrow> flight_move E i key e p fg ts ph s
         | Purger key \<Rightarrow> (case PurgeCache key s of (b, s) \<Rightarrow> Some (if key = [] then ts[i := Ended] else map (forget key) (ts[i := Ended]), s))
         | _ \<Rightarrow> None)
      else None)"

lemma read_move_step:
  assumes "read_move E i key ts ph s = Some c" "i < length ts" "ts ! i = Reader key ph"
  shows "cstep E cancel (ts, s) c"
proof (cases "(E, i, key, ts, ph, s)" rule: read_move.cases)
  case (6 E' i' key' ts' e s')
  then show ?thesis
    using assms cstep.read_lead [of i ts key e] cstep.read_join [of i ts key e]
    by (auto split: option.splits simp: find_None_iff find_Some_iff list_ex_length)
next
  case (7 E' i' key' ts' f s')
  then have i: "ts ! i = Reader key (RAwait f)" using assms(3) by simp
  obtain e p r fg where f: "f < length ts" "ts ! f = Flight key e p (FDone r) fg"
    using assms(1) 7 by (auto split: if_splits cthread.splits flight_phase.splits sum.splits)
  show ?thesis
  proof (cases r)
    case (Inl err)
    have "cstep E cancel (ts, s)
        (ts[i := Reader key (if cc_AllowStaleOnUpstreamError (cf_Cache (sv_cfg s)) then RStale err else RDone (Inl err))], s)"
      by (rule cstep.read_error [OF assms(2) i f(1) f(2) [unfolded Inl], where shared = False]) simp
    then show ?thesis using assms(1) 7 f Inl by simp
  next
    case (Inr v)
    have "cstep E cancel (ts, s) (ts[i := Reader key (RDone (Inr v))], observeCache s)"
      by (rule cstep.read_result [OF assms(2) i f(1) f(2) [unfolded Inr], where shared = False]) simp
    then show ?thesis using assms(1) 7 f Inr by simp
  qed
qed (use assms in \<open>auto intro: cstep.intros split: prod.splits\<close>)

lemma write_move_step:
  assumes "write_move E i wr ts ph s = Some c" "i < length ts" "ts ! i = Writer wr ph"
  shows "cstep E cancel (ts, s) c"
  using assms cstep.write_forget [of i ts wr] cstep.writer [of i ts wr ph s E]
  by (cases "(E, i, wr, ts, ph, s)" rule: write_move.cases) (auto split: prod.splits if_splits)

lemma flight_move_step:
  assumes "flight_move E i key e p fg ts ph s = Some c" "i < length ts" "ts ! i = Flight key e p ph fg"
  shows "cstep E cancel (ts, s) c"
  using assms cstep.flight [of i ts key e p ph fg E s] by (cases ph) (auto split: prod.splits)

lemma purge_move_step:
  assumes "i < length ts" "ts ! i = Purger key" "PurgeCache key s = (b, s')"
  shows "key = [] \<Longrightarrow> cstep E cancel (ts, s) (ts[i := Ended], s')"
    "key \<noteq> [] \<Longrightarrow> cstep E cancel (ts, s) (map (forget key) (ts[i := Ended]), s')"
  using cstep.purge [OF assms, of E cancel] by simp_all

lemma move_step: "move E i c = Some c' \<Longrightarrow> cstep E cancel c c'"
  by (cases c) (auto intro: read_move_step write_move_step flight_move_step purge_move_step split: if_splits cthread.splits prod.splits)

fun sched :: "'w senv \<Rightarrow> nat list \<Rightarrow> cthread list \<times> 'w service \<Rightarrow> (cthread list \<times> 'w service) option" where
  "sched E [] c = Some c"
| "sched E (i # is) c = (case move E i c of None \<Rightarrow> None | Some c' \<Rightarrow> sched E is c')"

fun calm_sched :: "'w senv \<Rightarrow> bytes \<Rightarrow> nat list \<Rightarrow> cthread list \<times> 'w service \<Rightarrow> (cthread list \<times> 'w service) option" where
  "calm_sched E key [] c = Some c"
| "calm_sched E key (i # is) c =
     (case move E i c of None \<Rightarrow> None | Some c' \<Rightarrow> if calm key (fst c') then calm_sched E key is c' else None)"

lemma sched_steps: "sched E is c = Some c' \<Longrightarrow> (cstep E cancel ^^ length is) c c'"
proof (induction "is" arbitrary: c)
  case (Cons i "is")
  then obtain d where d: "move E i c = Some d" "sched E is d = Some c'" by (auto split: option.splits)
  from relpowp_Suc_I2 [OF move_step [OF d(1)] Cons.IH [OF d(2)]] show ?case by simp
qed simp

lemma calm_steps: "calm_sched E key is c = Some c' \<Longrightarrow> (calm_step E cancel key ^^ length is) c c'"
proof (induction "is" arbitrary: c)
  case (Cons i "is")
  then obtain d where d: "move E i c = Some d" "calm key (fst d)" "calm_sched E key is d = Some c'"
    by (auto split: option.splits if_splits)
  have "calm_step E cancel key c d" using move_step [OF d(1)] d(2) by (simp add: calm_step_def)
  from relpowp_Suc_I2 [OF this Cons.IH [OF d(3)]] show ?case by simp
qed simp

section \<open>A read that overlaps a write\<close>

text \<open>
  A GET starts a flight that fetches the old value; a SET is sent and acknowledged; the flight stores its
  stale value; the SET writes its value through, forgets the flight and returns; then a second GET runs.
\<close>

definition set_request :: write_request where
  "set_request = \<lparr>wr_command = ''SET'', wr_args = [''k'', ''new''], wr_keys = [''k'']\<rparr>"

definition overlap :: "cthread list" where
  "overlap = [Reader ''k'' RStart, Writer set_request (WAcquire [] (needed_stripes [''k''])), Reader ''k'' RStart]"

definition old_service :: "(bytes \<times> bytes) list service" where
  "old_service = New_service mem_env (mem_config ''cache'') None [] [] [(''k'', ''old'')]"

definition during :: "nat list" where
  "during = [1, 1, 1, 1] @ replicate 9 0 @ [3, 1, 3] @ [1, 1, 1, 1, 1, 0]"

definition afterwards :: "nat list" where
  "afterwards = replicate 9 2 @ [4, 4, 2]"

definition overlap_run where
  "overlap_run =
     (case sched mem_env during (overlap, old_service) of
        None \<Rightarrow> None
      | Some c \<Rightarrow> map_option (Pair c) (calm_sched mem_env ''k'' afterwards c))"

lemma overlap_eval:
  "map_option (\<lambda>(c, d). (fst c ! 2, length (fst c), calm ''k'' (fst c), fst d ! 2, probation (snd d) ''k'',
       list_all (\<lambda>t. ''k'' \<notin> unsettled t) (fst d), list_all finished (fst d))) overlap_run =
   Some (Reader ''k'' RStart, 4, True, Reader ''k'' (RDone (Inr \<lparr>uv_Data = ''new'', uv_Exists = True, uv_PTTL = - 1\<rparr>)),
     Some (''new'', 1015000000), True, True)"
  by code_simp

lemma overlap_exists:
  obtains ts1 s1 ts2 s2 where
    "(cstep mem_env cancel ^^ 22) (overlap, old_service) (ts1, s1)" "length ts1 = 4" "ts1 ! 2 = Reader ''k'' RStart" "calm ''k'' ts1"
    "(calm_step mem_env cancel ''k'' ^^ 12) (ts1, s1) (ts2, s2)"
    "ts2 ! 2 = Reader ''k'' (RDone (Inr \<lparr>uv_Data = ''new'', uv_Exists = True, uv_PTTL = - 1\<rparr>))"
    "probation s2 ''k'' = Some (''new'', 1015000000)" "list_all (\<lambda>t. ''k'' \<notin> unsettled t) ts2" "list_all finished ts2"
proof -
  obtain c d where 1: "overlap_run = Some (c, d)" using overlap_eval by (cases overlap_run) auto
  then have c: "sched mem_env during (overlap, old_service) = Some c" "calm_sched mem_env ''k'' afterwards c = Some d"
    by (auto simp: overlap_run_def split: option.splits)
  have l: "length during = 22" "length afterwards = 12" by (simp_all add: during_def afterwards_def)
  show ?thesis
    using that [of "fst c" "snd c" "fst d" "snd d"] sched_steps [OF c(1)] calm_steps [OF c(2)] overlap_eval [unfolded 1] l by simp
qed

lemma calm_steps_cstep: "(calm_step E cancel key ^^ m) c d \<Longrightarrow> (cstep E cancel ^^ m) c d"
  by (rule relpowp_mono) (auto simp: calm_step_def)

lemma overlap_ok: "list_all fresh overlap" "list_all (faithful_thread mem_env map_of) overlap"
proof -
  show "list_all fresh overlap" by (simp add: overlap_def set_request_def)
  have "through u set_request r = Some (k, v) \<Longrightarrow> k = ''k'' \<and> v = ''new''" for u r k v
    by (auto simp: through_def set_request_def split: sum.splits reply.splits if_splits)
  then show "list_all (faithful_thread mem_env map_of) overlap"
    by (auto simp: overlap_def set_request_def mem_env_def mem_do_def)
qed

theorem cache_coherent_witness:
  "\<exists>ts s. (cstep mem_env (\<lambda>_. None) ^^ 34) (overlap, old_service) (ts, s) \<and>
     probation s ''k'' = Some (''new'', 1015000000) \<and> map_of (sv_world s) ''k'' = Some ''new''"
proof -
  obtain ts1 s1 ts2 s2 where r: "(cstep mem_env (\<lambda>_. None) ^^ 22) (overlap, old_service) (ts1, s1)"
      "(calm_step mem_env (\<lambda>_. None) ''k'' ^^ 12) (ts1, s1) (ts2, s2)" "probation s2 ''k'' = Some (''new'', 1015000000)"
      "list_all (\<lambda>t. ''k'' \<notin> unsettled t) ts2"
    by (rule overlap_exists) blast
  have run: "(cstep mem_env (\<lambda>_. None) ^^ 34) (overlap, old_service) (ts2, s2)"
    using relpowp_trans [OF r(1) calm_steps_cstep [OF r(2)]] by simp
  from cache_coherent [OF mem_kv overlap_ok run [unfolded old_service_def] _ r(4) disjI2 [OF r(3)]] run r(3) show ?thesis by auto
qed

theorem get_fresh_witness:
  "\<exists>ts1 s1 ts2 s2. (cstep mem_env (\<lambda>_. None) ^^ 22) (overlap, old_service) (ts1, s1) \<and>
     (calm_step mem_env (\<lambda>_. None) ''k'' ^^ 12) (ts1, s1) (ts2, s2) \<and>
     answer \<lparr>uv_Data = ''new'', uv_Exists = True, uv_PTTL = - 1\<rparr> = map_of (sv_world s2) ''k''"
proof -
  obtain ts1 s1 ts2 s2 where r: "(cstep mem_env (\<lambda>_. None) ^^ 22) (overlap, old_service) (ts1, s1)" "length ts1 = 4"
      "ts1 ! 2 = Reader ''k'' RStart" "calm ''k'' ts1" "(calm_step mem_env (\<lambda>_. None) ''k'' ^^ 12) (ts1, s1) (ts2, s2)"
      "ts2 ! 2 = Reader ''k'' (RDone (Inr \<lparr>uv_Data = ''new'', uv_Exists = True, uv_PTTL = - 1\<rparr>))"
    by (rule overlap_exists) blast
  have "answer \<lparr>uv_Data = ''new'', uv_Exists = True, uv_PTTL = - 1\<rparr> = map_of (sv_world s2) ''k''"
    by (rule get_fresh [OF mem_kv overlap_ok r(1) [unfolded old_service_def] _ r(3,4,5) _ r(6)]) (use r(2) in simp_all)
  with r show ?thesis by blast
qed

lemma finished_stuck:
  assumes "list_all finished ts"
  shows "\<not> cstep E cancel (ts, s) c"
proof
  assume "cstep E cancel (ts, s) c"
  moreover have "finished (ts ! i)" if "i < length ts" for i using assms that by (simp add: list_all_length)
  ultimately show False by cases (fastforce split: writer.splits flight_phase.splits batch.splits)+
qed

theorem clients_finish_witness:
  "\<exists>ts s. (cstep mem_env (\<lambda>_. None))\<^sup>*\<^sup>* (overlap, old_service) (ts, s) \<and> list_all finished ts \<and>
     sv_gates s = replicate cacheEpochStripeCount False"
proof -
  obtain ts1 s1 ts2 s2 where r: "(cstep mem_env (\<lambda>_. None) ^^ 22) (overlap, old_service) (ts1, s1)"
      "(calm_step mem_env (\<lambda>_. None) ''k'' ^^ 12) (ts1, s1) (ts2, s2)" "list_all finished ts2"
    by (rule overlap_exists) blast
  have run: "(cstep mem_env (\<lambda>_. None))\<^sup>*\<^sup>* (overlap, old_service) (ts2, s2)"
    using relpowp_imp_rtranclp [OF relpowp_trans [OF r(1) calm_steps_cstep [OF r(2)]]] .
  have "list_all finished ts2 \<and> sv_gates s2 = replicate cacheEpochStripeCount False"
    using clients_finish [OF overlap_ok(1), of mem_env "\<lambda>_. None" "mem_config ''cache''" None "[]" "[]" "[(''k'', ''old'')]" ts2 s2]
      run finished_stuck [OF r(3)] unfolding old_service_def by blast
  with run show ?thesis by blast
qed

end
