(* ===== verification/Solo.thy ===== *)
theory Solo
  imports Interleave
begin

text \<open>
  The steps of concurrent clients compose to the sequential methods: a read of the tiers and a write that
  run without interference execute \<^verbatim>\<open>observe\<close> with \<^verbatim>\<open>getFreshCachedInState\<close>, and \<^verbatim>\<open>ExecuteWrite\<close>.
\<close>

section \<open>Reading the tiers\<close>

inductive local_solo :: "'w senv \<Rightarrow> decision \<Rightarrow> bytes \<Rightarrow> local \<times> 'w service \<Rightarrow> local \<times> 'w service \<Rightarrow> bool"
  for E :: "'w senv" and policy :: decision and key :: bytes
where
  "local_step E policy key lp s = (lp', s') \<Longrightarrow> local_solo E policy key (lp, s) (lp', s')"

abbreviation local_runs where
  "local_runs E policy key \<equiv> (local_solo E policy key)\<^sup>*\<^sup>*"

lemma local_run:
  assumes "local_step E policy key lp s = (lp', s')" "local_runs E policy key (lp', s') c"
  shows "local_runs E policy key (lp, s) c"
  using local_solo.intros [OF assms(1)] assms(2) by (rule converse_rtranclp_into_rtranclp)

lemma apply_run:
  "fold apply_transition trs (b, s) = (b', s') \<Longrightarrow> local_runs E policy key (LApply st ob trs b, s) (LApply st ob [] b', s')"
proof (induction trs arbitrary: b s)
  case (Cons tr trs)
  obtain b1 s1 where 1: "apply_transition tr (b, s) = (b1, s1)" by (rule prod.exhaust)
  have "local_step E policy key (LApply st ob (tr # trs) b) s = (LApply st ob trs b1, s1)" by (simp add: 1)
  from local_run [OF this Cons.IH] Cons.prems 1 show ?case by simp
qed simp

lemma settle_run:
  "fold apply_transition trs (b, s) = (b', s') \<Longrightarrow>
    local_runs E policy key (LSettle st item ob trs b, s) (LSettle st item ob [] b', s')"
proof (induction trs arbitrary: b s)
  case (Cons tr trs)
  obtain b1 s1 where 1: "apply_transition tr (b, s) = (b1, s1)" by (rule prod.exhaust)
  have "local_step E policy key (LSettle st item ob (tr # trs) b) s = (LSettle st item ob trs b1, s1)" by (simp add: 1)
  from local_run [OF this Cons.IH] Cons.prems 1 show ?case by simp
qed simp

lemma handleObservation_publish:
  "fold apply_transition (o_Transitions ob) (False, s) = (b, s') \<Longrightarrow> handleObservation ob s = publish ob b s'"
  by (simp add: handleObservation_def applyTransitions_def publish_def Let_def)

lemma promote_candidate_locked:
  "promote_locked E key candidate s = (ob, stored, s') \<Longrightarrow>
    promote_candidate E key candidate s = (if stored then Some candidate else None, observeCache (handleObservation ob s'))"
  by (auto simp: promote_candidate_def promote_locked_def Let_def split: prod.splits if_splits)

lemma settled_run:
  assumes "promote_locked E key candidate s = (ob, stored, s')"
  shows "local_runs E policy key
      (LSettle st (if stored then Some candidate else None) ob (o_Transitions ob) False, s')
      (LEnd st (fst (promote_candidate E key candidate s)), snd (promote_candidate E key candidate s))"
proof -
  obtain b u where 1: "fold apply_transition (o_Transitions ob) (False, s') = (b, u)" by (rule prod.exhaust)
  define item where "item = (if stored then Some candidate else None)"
  have "local_step E policy key (LSettle st item ob [] b) u = (LEnd st item, observeCache (publish ob b u))" by simp
  then have "local_runs E policy key (LSettle st item ob [] b, u) (LEnd st item, observeCache (publish ob b u))"
    using local_run rtranclp.rtrancl_refl by metis
  then show ?thesis
    using rtranclp_trans [OF settle_run [OF 1]]
    by (simp add: promote_candidate_locked [OF assms] handleObservation_publish [OF 1] flip: item_def)
qed

lemma stripe_run:
  "local_runs E policy key (LStripe st, s) (LEnd st (fst (read_candidate E key s)), snd (read_candidate E key s))"
proof -
  obtain i1 s1 where 1: "(if IsHot (sv_tracker s) key then getFreshProtected E key s else (None, s)) = (i1, s1)" by (rule prod.exhaust)
  obtain i2 s2 where 2: "probationary_Get E key s1 = (i2, s2)" by (rule prod.exhaust)
  obtain lp u where 3: "stripe_section E key st s = (lp, u)" by (rule prod.exhaust)
  have "local_runs E policy key (lp, u) (LEnd st (fst (read_candidate E key s)), snd (read_candidate E key s))"
  proof (cases i1)
    case n1: None
    show ?thesis
    proof (cases i2)
      case (Some candidate)
      obtain ob stored v where 4: "promote_locked E key candidate s2 = (ob, stored, v)" by (rule prod_cases3)
      have "lp = LSettle st (if stored then Some candidate else None) ob (o_Transitions ob) False" "u = v"
        using 1 2 3 4 n1 Some by (auto simp: stripe_section_def)
      moreover have "read_candidate E key s = promote_candidate E key candidate s2"
        using 1 2 n1 Some by (simp add: read_candidate_def)
      ultimately show ?thesis using settled_run [OF 4] by simp
    qed (use 1 2 3 n1 in \<open>auto simp: stripe_section_def read_candidate_def\<close>)
  qed (use 1 3 in \<open>auto simp: stripe_section_def read_candidate_def\<close>)
  then show ?thesis by (rule local_run [rotated]) (simp add: 3)
qed

lemma fresh_run:
  assumes "getFreshCachedInState E key st s = (item, s')"
  shows "local_runs E policy key (LProtected st, s) (LEnd st item, s')"
proof -
  obtain i1 s1 where 1: "(if st = StateHot then getFreshProtected E key s else (None, s)) = (i1, s1)" by (rule prod.exhaust)
  obtain i2 s2 where 2: "probationary_Get E key s1 = (i2, s2)" by (rule prod.exhaust)
  show ?thesis
  proof (cases "i1 = None \<and> sv_probationary s1 \<noteq> None")
    case False
    then have "i1 = item" "s1 = s'" using assms 1 by (auto simp: getFreshCachedInState_def Let_def split: option.splits)
    then have "local_step E policy key (LProtected st) s = (LEnd st item, s')" using 1 False by auto
    from local_run [OF this] show ?thesis by simp
  next
    case True
    have a: "local_step E policy key (LProtected st) s = (LProbe st, s1)" using 1 True by auto
    show ?thesis
    proof (cases i2)
      case None
      then have b: "local_step E policy key (LProbe st) s1 = (LHot st, s2)" using 2 by simp
      have "(if IsHot (sv_tracker s2) key then getFreshProtected E key s2 else (None, s2)) = (item, s')"
        using assms 1 2 True None by (auto simp: getFreshCachedInState_def Let_def)
      then have c: "local_step E policy key (LHot st) s2 = (LEnd st item, s') \<or>
          local_step E policy key (LHot st) s2 = (LReread st, s2) \<and> local_step E policy key (LReread st) s2 = (LEnd st item, s')"
        by (auto split: if_splits)
      then have "local_runs E policy key (LHot st, s2) (LEnd st item, s')" using local_run rtranclp.rtrancl_refl by metis
      then show ?thesis using a b local_run by metis
    next
      case (Some x)
      then have b: "local_step E policy key (LProbe st) s1 = (LStripe st, s2)" using 2 by simp
      have "read_candidate E key s2 = (item, s')"
        using assms 1 2 True Some by (auto simp: getFreshCachedInState_def Let_def)
      then have "local_runs E policy key (LStripe st, s2) (LEnd st item, s')" using stripe_run [of E policy key st s2] by simp
      then show ?thesis using a b local_run by metis
    qed
  qed
qed

lemma local_solo_read:
  assumes "observe_policy E policy key s = (st, s1)" "read_local E policy key st s1 = (item, s2)"
  shows "local_runs E policy key (LObserve, s) (LEnd st item, s2)"
proof (cases "d_Mode policy = ModeDeny")
  case True
  then have "local_step E policy key LObserve s = (LEnd st item, s2)" using assms by (simp add: observe_policy_def read_local_def)
  from local_run [OF this] show ?thesis by simp
next
  case False
  let ?s = "s\<lparr>sv_ticks := Suc (sv_ticks s)\<rparr>"
  obtain ob t where ob: "ObserveWithState (en_arith E) (sv_tracker s) (en_clock E (sv_ticks s)) key = (ob, t)" by (rule prod.exhaust)
  obtain b u where f: "fold apply_transition (o_Transitions ob) (False, ?s\<lparr>sv_tracker := t\<rparr>) = (b, u)" by (rule prod.exhaust)
  have o: "st = o_State ob" "s1 = publish ob b u"
    using assms(1) False ob handleObservation_publish [OF f] by (auto simp: observe_policy_def observe_def Now_def)
  have "local_step E policy key LObserve s = (LApply st ob (o_Transitions ob) False, ?s\<lparr>sv_tracker := t\<rparr>)"
    using False ob o(1) by (simp add: Now_def)
  moreover have "local_runs E policy key (if d_Mode policy = ModeCache then LProtected st else LEnd st None, s1) (LEnd st item, s2)"
    using assms(2) fresh_run [of E key st s1 item s2 policy] by (auto simp: read_local_def split: if_splits)
  then have "local_runs E policy key (LApply st ob [] b, u) (LEnd st item, s2)" by (rule local_run [rotated]) (simp add: o(2))
  ultimately show ?thesis using local_run rtranclp_trans [OF apply_run [OF f]] by metis
qed

section \<open>Writes\<close>

inductive write_solo :: "'w senv \<Rightarrow> write_request \<Rightarrow> writer \<times> 'w service \<Rightarrow> writer \<times> 'w service \<Rightarrow> bool"
  for E :: "'w senv" and wr :: write_request
where
  "writer_step E wr ph s = (ph', s') \<Longrightarrow> write_solo E wr (ph, s) (ph', s')"

abbreviation write_runs where
  "write_runs E wr \<equiv> (write_solo E wr)\<^sup>*\<^sup>*"

lemma write_run:
  assumes "writer_step E wr ph s = (ph', s')" "write_runs E wr (ph', s') c"
  shows "write_runs E wr (ph, s) c"
  using write_solo.intros [OF assms(1)] assms(2) by (rule converse_rtranclp_into_rtranclp)

lemma acquire_run:
  "acquire_loop (\<lambda>_. None) gs acquired gates = (Inr acquired', gates') \<Longrightarrow> sv_gates s = gates \<Longrightarrow>
    acquired' = acquired @ gs \<and> write_runs E wr (WAcquire acquired gs, s) (WAcquire acquired' [], s\<lparr>sv_gates := gates'\<rparr>)"
proof (induction gs arbitrary: acquired gates s)
  case (Cons g gs)
  let ?s = "s\<lparr>sv_gates := gates[g := True]\<rparr>"
  have "acquire_loop (\<lambda>_. None) gs (acquired @ [g]) (gates[g := True]) = (Inr acquired', gates')" using Cons.prems(1) by simp
  then have "acquired' = (acquired @ [g]) @ gs \<and> write_runs E wr (WAcquire (acquired @ [g]) gs, ?s) (WAcquire acquired' [], ?s\<lparr>sv_gates := gates'\<rparr>)"
    by (rule Cons.IH) simp
  moreover have "writer_step E wr (WAcquire acquired (g # gs)) s = (WAcquire (acquired @ [g]) gs, ?s)" using Cons.prems(2) by simp
  ultimately show ?case using write_run by fastforce
next
  case Nil
  then have e: "s\<lparr>sv_gates := gates'\<rparr> = s" by (cases s) simp
  from Nil show ?case unfolding e by simp
qed

lemma drop_run:
  "fold invalidate_key keys (adv, n, s) = (adv', n', s') \<Longrightarrow> write_runs E wr (WDrop adv n keys, s) (WDrop adv' n' [], s')"
proof (induction keys arbitrary: adv n s)
  case (Cons key keys)
  obtain a b u where 1: "invalidate_key key (adv, n, s) = (a, b, u)" by (rule prod_cases3)
  have "writer_step E wr (WDrop adv n (key # keys)) s = (WDrop a b keys, u)" by (simp add: 1)
  from write_run [OF this Cons.IH] Cons.prems 1 show ?case by simp
qed simp

lemma clean_run:
  "fold invalidate_key keys (adv, n, s) = (adv', n', s') \<Longrightarrow> write_runs E wr (WClean adv n keys r, s) (WClean adv' n' [] r, s')"
proof (induction keys arbitrary: adv n s)
  case (Cons key keys)
  obtain a b u where 1: "invalidate_key key (adv, n, s) = (a, b, u)" by (rule prod_cases3)
  have "writer_step E wr (WClean adv n (key # keys) r) s = (WClean a b keys r, u)" by (simp add: 1)
  from write_run [OF this Cons.IH] Cons.prems 1 show ?case by simp
qed simp

lemma forget_run: "write_runs E wr (WForget n keys r, s) (WForget n [] r, s)"
proof (induction keys)
  case (Cons key keys)
  have "writer_step E wr (WForget n (key # keys) r) s = (WForget n keys r, s)" by simp
  from write_run [OF this Cons.IH] show ?case .
qed simp

lemma release_run: "write_runs E wr (WRelease gs r, s) (WDone r, s\<lparr>sv_gates := fold (\<lambda>i g. g[i := False]) gs (sv_gates s)\<rparr>)"
proof (induction gs arbitrary: s)
  case Nil
  have "writer_step E wr (WRelease [] r) s = (WDone r, s)" by simp
  from write_run [OF this] show ?case by simp
next
  case (Cons g gs)
  let ?s = "s\<lparr>sv_gates := (sv_gates s)[g := False]\<rparr>"
  have "writer_step E wr (WRelease (g # gs) r) s = (WRelease gs r, ?s)" by simp
  from write_run [OF this Cons.IH [of ?s]] show ?case by simp
qed

text \<open>The count of invalidated entries does not influence the loop.\<close>

lemma invalidate_count:
  "fold invalidate_key keys (adv, m, s) = (adv', m', s') \<Longrightarrow> fold invalidate_key keys (adv, k + m, s) = (adv', k + m', s')"
proof (induction keys arbitrary: adv m s)
  case (Cons key keys)
  obtain a b u where 1: "invalidate_key key (adv, m, s) = (a, b, u)" by (rule prod_cases3)
  then have "invalidate_key key (adv, k + m, s) = (a, k + b, u)"
    by (auto simp: invalidate_key_def Let_def split: prod.splits if_splits)
  with 1 Cons show ?case by simp
qed simp

lemma finish_run:
  assumes "finalizeWrite E (wr_command wr) (wr_args wr) (wr_keys wr) r s = (m, s')"
  shows "write_runs E wr (WFinish n r, s) (WForget (n + m) (wr_keys wr) r, s')"
proof (cases "through (en_unicode E) wr r")
  case (Some kv)
  then have "writeThroughSet E (fst kv) (snd kv) s = (m, s')"
    using assms by (auto simp: through_def finalizeWrite_def split: sum.splits reply.splits list.splits if_splits)
  with Some have "writer_step E wr (WFinish n r) s = (WForget (n + m) (wr_keys wr) r, s')" by (auto split: prod.splits)
  from write_run [OF this] show ?thesis by simp
next
  case None
  then have "invalidateCacheKeys (wr_keys wr) s = (m, s')"
    using assms by (auto simp: through_def finalizeWrite_def split: sum.splits reply.splits list.splits if_splits)
  then obtain adv where "fold invalidate_key (wr_keys wr) ([], 0, s) = (adv, m, s')"
    by (auto simp: invalidateCacheKeys_def split: prod.splits)
  from clean_run [OF invalidate_count [OF this, of n]] have "write_runs E wr (WClean [] n (wr_keys wr) r, s) (WClean adv (n + m) [] r, s')"
    by simp
  then have "write_runs E wr (WClean [] n (wr_keys wr) r, s) (WForget (n + m) (wr_keys wr) r, s')"
    by (rule rtranclp_trans) (rule write_run [OF _ rtranclp.rtrancl_refl], simp)
  moreover have "writer_step E wr (WFinish n r) s = (WClean [] n (wr_keys wr) r, s)" using None by simp
  ultimately show ?thesis using write_run by metis
qed

lemma write_solo_ExecuteWrite:
  assumes "ExecuteWrite E (\<lambda>_. None) (wr_command wr) (wr_args wr) (wr_keys wr) s = (r, s')"
  shows "write_runs E wr (WAcquire [] (needed_stripes (wr_keys wr)), s) (WDone r, s')"
proof -
  obtain a gates where 1: "acquire_loop (\<lambda>_. None) (needed_stripes (wr_keys wr)) [] (sv_gates s) = (a, gates)" by (rule prod.exhaust)
  have "\<exists>acq. acquire_loop (\<lambda>_. None) gs acq0 g0 = (Inr acq, snd (acquire_loop (\<lambda>_. None) gs acq0 g0))" for gs acq0 g0
    by (induction gs arbitrary: acq0 g0) simp_all
  then obtain acq where a: "a = Inr acq" using 1 by (metis fst_conv)
  note A = acquire_run [OF 1 [unfolded a] refl, of E wr]
  let ?s1 = "s\<lparr>sv_gates := gates\<rparr>"
  obtain adv n s2 where 2: "fold invalidate_key (wr_keys wr) ([], 0, ?s1) = (adv, n, s2)" by (rule prod_cases3)
  obtain r3 s3 where 3: "upstream_Do E (wr_command wr) (wr_args wr) s2 = (r3, s3)" by (rule prod.exhaust)
  obtain m s4 where 4: "finalizeWrite E (wr_command wr) (wr_args wr) (wr_keys wr) r3 s3 = (m, s4)" by (rule prod.exhaust)
  let ?s5 = "observeCache ((on_metrics (Invalidation ''write'') ^^ (n + m)) s4)"
  have e: "r = r3" "s' = releaseMutationStripes (needed_stripes (wr_keys wr)) ?s5"
    using assms 1 a A 2 3 4
    by (simp_all add: ExecuteWrite_def acquireMutationStripes_def invalidateCacheKeys_def Let_def)
  have "write_runs E wr (WAcquire acq [], ?s1) (WDrop adv n [], s2)"
    using drop_run [OF 2] by (rule write_run [rotated]) simp
  moreover have "write_runs E wr (WDrop adv n [], s2) (WFinish n r3, s3)" 
  proof -
    have "writer_step E wr (WDrop adv n []) s2 = (WSend n, s2)" "writer_step E wr (WSend n) s2 = (WFinish n r3, s3)" by (simp_all add: 3)
    then show ?thesis using write_run rtranclp.rtrancl_refl by metis
  qed
  moreover note finish_run [OF 4, of n] forget_run [of E wr "n + m" "wr_keys wr" r3 s4]
  moreover have "write_runs E wr (WForget (n + m) [] r3, s4) (WDone r3, s')"
  proof -
    have "writer_step E wr (WForget (n + m) [] r3) s4 = (WRelease (rev (needed_stripes (wr_keys wr))) r3, ?s5)" by simp
    from write_run [OF this release_run] show ?thesis using e(2) by (simp add: releaseMutationStripes_def)
  qed
  ultimately show ?thesis using A e(1) by (meson rtranclp_trans)
qed

end
