(* ===== verification/Workload.thy ===== *)
theory Workload
  imports
    Config
    "HOL-Library.Word"
begin

text \<open>
  The generated workload of \<^verbatim>\<open>slizenctl benchmark workload\<close> (\<^verbatim>\<open>cmd/slizenctl/benchmark.go\<close>): the
  configuration and its checks, the scenarios, the keys, the deterministic operation stream
  and the versioned values by which a stale reply is recognised.

  \<^verbatim>\<open>uint64\<close> values are 64-bit words and wrap; \<^verbatim>\<open>int\<close> values are integers, which the checked
  configurations keep far inside 64 bits. SHA-256 is the parameter \<open>sha\<close>; a remainder by zero,
  where Go panics, is \<open>None\<close>.
\<close>

unbundle bit_operations_syntax

section \<open>Scenarios and configuration\<close>

definition workloadScenarioAll :: bytes where "workloadScenarioAll = ''all''"
definition workloadScenarioUniform :: bytes where "workloadScenarioUniform = ''uniform''"
definition workloadScenarioSkew80 :: bytes where "workloadScenarioSkew80 = ''skew-80-20''"
definition workloadScenarioSkew99 :: bytes where "workloadScenarioSkew99 = ''skew-99-1''"
definition workloadScenarioMovingFlash :: bytes where "workloadScenarioMovingFlash = ''moving-flash''"

lemmas scenario_defs =
  workloadScenarioAll_def workloadScenarioUniform_def workloadScenarioSkew80_def
  workloadScenarioSkew99_def workloadScenarioMovingFlash_def

definition maxWorkloadConcurrency :: int where "maxWorkloadConcurrency = 1024"
definition maxWorkloadRequests :: int where "maxWorkloadRequests = 1000000"
definition maxWorkloadKeys :: int where "maxWorkloadKeys = 100000"
definition minWorkloadValueBytes :: int where "minWorkloadValueBytes = 16"
definition maxWorkloadValueBytes :: int where "maxWorkloadValueBytes = 1048576"
definition maxWorkloadDataset :: int where "maxWorkloadDataset = 268435456"
definition maxWorkloadDuration :: duration where "maxWorkloadDuration = 60 * minute"
definition maxWorkloadKeyPrefix :: int where "maxWorkloadKeyPrefix = 128"
definition seedPipelineBytes :: int where "seedPipelineBytes = 4194304"

lemmas workload_limits =
  maxWorkloadConcurrency_def maxWorkloadRequests_def maxWorkloadKeys_def minWorkloadValueBytes_def
  maxWorkloadValueBytes_def maxWorkloadDataset_def maxWorkloadKeyPrefix_def

record workload_config =
  wc_OriginAddr :: bytes
  wc_ProxyAddr :: bytes
  wc_AdminURL :: bytes
  wc_Scenario :: bytes
  wc_KeyPrefix :: bytes
  wc_KeyCount :: int
  wc_ValueSize :: int
  wc_ReadRatio :: int
  wc_Concurrency :: int
  wc_MaxRequests :: int
  wc_Duration :: duration
  wc_Seed :: int
  wc_FlashEvery :: int
  wc_Output :: bytes
  wc_JSONFile :: bytes

definition workloadScenarios :: "bytes list" where
  "workloadScenarios =
     [workloadScenarioUniform, workloadScenarioSkew80, workloadScenarioSkew99,
      workloadScenarioMovingFlash]"

definition isWorkloadScenario :: "bytes \<Rightarrow> bool" where
  "isWorkloadScenario scenario \<longleftrightarrow>
     scenario = workloadScenarioAll \<or> list_ex (\<lambda>candidate. scenario = candidate) workloadScenarios"

definition selectedWorkloadScenarios :: "bytes \<Rightarrow> bytes list" where
  "selectedWorkloadScenarios selection =
     (if selection = workloadScenarioAll then workloadScenarios else [selection])"

fun join_with :: "bytes \<Rightarrow> bytes list \<Rightarrow> bytes" where
  "join_with sep [] = []"
| "join_with sep [x] = x"
| "join_with sep (x # y # ys) = x @ sep @ join_with sep (y # ys)"

definition validateWorkloadConfig :: "workload_config \<Rightarrow> bytes option" where
  "validateWorkloadConfig cfg =
     (if \<not> isWorkloadScenario (wc_Scenario cfg)
      then Some (''scenario must be one of: '' @
        join_with '', '' (workloadScenarioAll # workloadScenarios))
      else if wc_OriginAddr cfg = [] \<or> wc_ProxyAddr cfg = [] \<or> wc_AdminURL cfg = []
      then Some ''origin, proxy, and admin addresses must not be empty''
      else if wc_KeyPrefix cfg = []
      then Some ''key-prefix must not be empty''
      else if maxWorkloadKeyPrefix < int (length (wc_KeyPrefix cfg))
      then Some (''key-prefix must not exceed '' @ show_int maxWorkloadKeyPrefix @ '' bytes'')
      else if wc_KeyCount cfg < 2 \<or> maxWorkloadKeys < wc_KeyCount cfg
      then Some (''keys must be between 2 and '' @ show_int maxWorkloadKeys)
      else if (wc_Scenario cfg = workloadScenarioAll \<or> wc_Scenario cfg = workloadScenarioSkew99)
        \<and> wc_KeyCount cfg < 100
      then Some ''keys must be at least 100 for all and skew-99-1 scenarios''
      else if wc_Scenario cfg = workloadScenarioSkew80 \<and> wc_KeyCount cfg < 5
      then Some ''keys must be at least 5 for the skew-80-20 scenario''
      else if wc_ValueSize cfg < minWorkloadValueBytes \<or> maxWorkloadValueBytes < wc_ValueSize cfg
      then Some (''value-size must be between '' @ show_int minWorkloadValueBytes @ '' and '' @
        show_int maxWorkloadValueBytes @ '' bytes'')
      else if maxWorkloadDataset <
        wc_KeyCount cfg * wc_ValueSize cfg * int (length (selectedWorkloadScenarios (wc_Scenario cfg)))
      then Some (''generated dataset must not exceed '' @ show_int maxWorkloadDataset @ '' bytes'')
      else if wc_ReadRatio cfg < 1 \<or> 100 < wc_ReadRatio cfg
      then Some ''read-ratio must be between 1 and 100 percent''
      else if wc_Concurrency cfg < 1 \<or> maxWorkloadConcurrency < wc_Concurrency cfg
      then Some (''concurrency must be between 1 and '' @ show_int maxWorkloadConcurrency)
      else if wc_MaxRequests cfg < 1 \<or> maxWorkloadRequests < wc_MaxRequests cfg
      then Some (''requests must be between 1 and '' @ show_int maxWorkloadRequests)
      else if wc_MaxRequests cfg < wc_Concurrency cfg
      then Some ''concurrency must not exceed requests''
      else if wc_Duration cfg \<le> 0 \<or> maxWorkloadDuration < wc_Duration cfg
      then Some (''duration must be greater than zero and at most '' @
        duration_string maxWorkloadDuration)
      else if wc_FlashEvery cfg < 1 \<or> maxWorkloadRequests < wc_FlashEvery cfg
      then Some (''flash-every must be between 1 and '' @ show_int maxWorkloadRequests)
      else if (wc_Scenario cfg = workloadScenarioAll \<or> wc_Scenario cfg = workloadScenarioMovingFlash)
        \<and> wc_MaxRequests cfg \<le> wc_FlashEvery cfg
      then Some ''flash-every must be less than requests for moving-flash workloads''
      else if wc_Output cfg \<noteq> ''text'' \<and> wc_Output cfg \<noteq> ''json''
      then Some ''output must be text or json''
      else None)"

section \<open>Keys\<close>

definition workloadIsolatedKeyPrefix :: "bytes \<Rightarrow> time \<Rightarrow> int \<Rightarrow> bytes" where
  "workloadIsolatedKeyPrefix pre started pid =
     pre @ '':run-'' @ show_int started @ ''-'' @ show_int pid"

text \<open>\<^verbatim>\<open>%06d\<close> of a non-negative number.\<close>

definition pad6 :: "nat \<Rightarrow> bytes" where
  "pad6 n = replicate (6 - length (show_nat n)) (CHR ''0'') @ show_nat n"

definition buildWorkloadKeys :: "bytes \<Rightarrow> bytes \<Rightarrow> int \<Rightarrow> bytes list" where
  "buildWorkloadKeys pre scenario count =
     map (\<lambda>i. pre @ '':'' @ scenario @ '':'' @ pad6 i) [0..<nat count]"

section \<open>The operation stream\<close>

definition deterministicWorkloadValue :: "int \<Rightarrow> u64 \<Rightarrow> u64 \<Rightarrow> u64" where
  "deterministicWorkloadValue seed operationIndex stream =
     (let v = word_of_int seed + 0x9e3779b97f4a7c15 * (operationIndex + 1) +
            0xd1b54a32d192ed03 * stream;
          v = (v XOR drop_bit 30 v) * 0xbf58476d1ce4e5b9;
          v = (v XOR drop_bit 27 v) * 0x94d049bb133111eb
      in v XOR drop_bit 31 v)"

text \<open>\<^verbatim>\<open>x % y\<close> and \<^verbatim>\<open>x / y\<close> on \<^verbatim>\<open>uint64\<close>, which panic on zero, and the conversion
  \<^verbatim>\<open>int(x)\<close>.\<close>

definition urem :: "u64 \<Rightarrow> u64 \<Rightarrow> u64 option" where
  "urem x y = (if y = 0 then None else Some (x mod y))"

definition udiv :: "u64 \<Rightarrow> u64 \<Rightarrow> u64 option" where
  "udiv x y = (if y = 0 then None else Some (x div y))"

definition to_int :: "u64 \<Rightarrow> int" where
  "to_int x = sint x"

definition skewed :: "int \<Rightarrow> int \<Rightarrow> bool \<Rightarrow> u64 \<Rightarrow> int option" where
  "skewed keyCount hotKeys hot keyValue =
     (if hot then map_option to_int (urem keyValue (word_of_int hotKeys))
      else map_option (\<lambda>x. hotKeys + to_int x) (urem keyValue (word_of_int (keyCount - hotKeys))))"

text \<open>The \<^verbatim>\<open>switch\<close> of \<^verbatim>\<open>workloadRequestAt\<close>.\<close>

definition scenario_key :: "bytes \<Rightarrow> workload_config \<Rightarrow> u64 \<Rightarrow> u64 \<Rightarrow> u64 \<Rightarrow> int option" where
  "scenario_key scenario cfg operationIndex choice keyValue =
     (let keys = word_of_int (wc_KeyCount cfg) in
      if scenario = workloadScenarioSkew80
      then skewed (wc_KeyCount cfg) (max 1 (wc_KeyCount cfg div 5)) (choice < 80) keyValue
      else if scenario = workloadScenarioSkew99
      then skewed (wc_KeyCount cfg) (max 1 (wc_KeyCount cfg div 100)) (choice < 99) keyValue
      else if scenario = workloadScenarioMovingFlash \<and> choice < 99
      then Option.bind (urem (deterministicWorkloadValue (wc_Seed cfg) 0 4) keys) (\<lambda>offset.
           Option.bind (udiv operationIndex (word_of_int (wc_FlashEvery cfg))) (\<lambda>window.
           map_option to_int (urem (offset + window) keys)))
      else map_option to_int (urem keyValue keys))"

definition workloadRequestAt :: "bytes \<Rightarrow> workload_config \<Rightarrow> u64 \<Rightarrow> (int \<times> bool) option" where
  "workloadRequestAt scenario cfg operationIndex =
     (let rd = deterministicWorkloadValue (wc_Seed cfg) operationIndex 1 mod 100
            < word_of_int (wc_ReadRatio cfg);
          choice = deterministicWorkloadValue (wc_Seed cfg) operationIndex 2 mod 100;
          keyValue = deterministicWorkloadValue (wc_Seed cfg) operationIndex 3
      in map_option (\<lambda>k. (k, rd)) (scenario_key scenario cfg operationIndex choice keyValue))"

section \<open>Versioned values\<close>

record workload_values =
  wv_size :: nat
  wv_digests :: "bytes list"

definition newWorkloadValues :: "(bytes \<Rightarrow> bytes) \<Rightarrow> bytes list \<Rightarrow> nat \<Rightarrow> workload_values" where
  "newWorkloadValues sha keys sz = \<lparr>wv_size = sz, wv_digests = map sha keys\<rparr>"

text \<open>\<^verbatim>\<open>binary.LittleEndian\<close>: \<open>PutUint64\<close> and \<open>Uint64\<close>.\<close>

primrec le_bytes :: "nat \<Rightarrow> nat \<Rightarrow> bytes" where
  "le_bytes 0 n = []"
| "le_bytes (Suc k) n = char_of (n mod 256) # le_bytes k (n div 256)"

definition le64 :: "u64 \<Rightarrow> bytes" where
  "le64 v = le_bytes 8 (unat v)"

primrec of_le :: "bytes \<Rightarrow> nat" where
  "of_le [] = 0"
| "of_le (c # cs) = of_char c + 256 * of_le cs"

definition uint64_le :: "bytes \<Rightarrow> u64" where
  "uint64_le bs = of_nat (of_le (take 8 bs))"

text \<open>\<^verbatim>\<open>copy(dst[off:], src)\<close>.\<close>

definition copy_at :: "nat \<Rightarrow> bytes \<Rightarrow> bytes \<Rightarrow> bytes" where
  "copy_at off src dst =
     take off dst @ take (length dst - off) src @ drop (off + length src) dst"

definition versionDigest :: "(bytes \<Rightarrow> bytes) \<Rightarrow> workload_values \<Rightarrow> nat \<Rightarrow> u64 \<Rightarrow> bytes" where
  "versionDigest sha v keyIndex version =
     sha (copy_at 32 (le64 version)
       (copy_at 0 (wv_digests v ! keyIndex) (replicate 40 (char_of (0 :: nat)))))"

function fill_loop :: "bytes \<Rightarrow> nat \<Rightarrow> bytes \<Rightarrow> bytes" where
  "fill_loop digest off dst =
     (if off < length dst then fill_loop digest (off + 32) (copy_at off digest dst) else dst)"
  by pat_completeness auto

termination
  by (relation "measure (\<lambda>(digest, off, dst). length dst - off)") (auto simp: copy_at_def)

lemma length_copy_at: "off + length src \<le> length dst \<or> off \<le> length dst
    \<Longrightarrow> length (copy_at off src dst) = length dst"
  by (auto simp: copy_at_def)

text \<open>\<open>dst\<close> is the whole backing array of the slice the caller passes.\<close>

definition Fill :: "(bytes \<Rightarrow> bytes) \<Rightarrow> workload_values \<Rightarrow> nat \<Rightarrow> u64 \<Rightarrow> bytes \<Rightarrow> bytes" where
  "Fill sha v keyIndex version dst =
     (let dst = (if length dst < wv_size v then replicate (wv_size v) (char_of (0 :: nat))
                 else take (wv_size v) dst);
          dst = fill_loop (versionDigest sha v keyIndex version) 0 dst;
          dst = copy_at 0 (le64 version) dst
      in copy_at 8 (take 8 (wv_digests v ! keyIndex)) dst)"

definition Matches :: "(bytes \<Rightarrow> bytes) \<Rightarrow> workload_values \<Rightarrow> nat \<Rightarrow> u64 \<Rightarrow> bytes \<Rightarrow> bool" where
  "Matches sha v keyIndex version val =
     (if length val \<noteq> wv_size v then False
      else if uint64_le (take 8 val) \<noteq> version
        \<or> take 8 (drop 8 val) \<noteq> take 8 (wv_digests v ! keyIndex) then False
      else let digest = versionDigest sha v keyIndex version
           in list_all (\<lambda>(i, b). b = digest ! ((i + 16) mod length digest))
                (List.enumerate 0 (drop 16 val)))"

end
