(* ===== verification/WorkloadProps.thy ===== *)
theory WorkloadProps
  imports Workload
begin

text \<open>
  Correctness of the generated workload: the checked configurations keep every generated key
  index in range, the keys of a phase are distinct, and a value is accepted for a key and a
  version exactly when it is the value generated for them.
\<close>

section \<open>Configurations\<close>

lemma valid_workload:
  assumes "validateWorkloadConfig cfg = None"
  shows "isWorkloadScenario (wc_Scenario cfg)"
    "2 \<le> wc_KeyCount cfg" "wc_KeyCount cfg \<le> 100000"
    "16 \<le> wc_ValueSize cfg"
    "wc_KeyCount cfg * wc_ValueSize cfg *
       int (length (selectedWorkloadScenarios (wc_Scenario cfg))) \<le> 268435456"
    "1 \<le> wc_Concurrency cfg" "wc_Concurrency cfg \<le> wc_MaxRequests cfg"
    "wc_MaxRequests cfg \<le> 1000000"
    "1 \<le> wc_FlashEvery cfg" "wc_FlashEvery cfg \<le> 1000000"
    "1 \<le> wc_ReadRatio cfg" "wc_ReadRatio cfg \<le> 100"
  using assms
  by (simp_all add: validateWorkloadConfig_def workload_limits split: if_splits)

section \<open>Key indices\<close>

lemma uint_of_small:
  assumes "0 \<le> n" "n \<le> 1000000"
  shows "uint (word_of_int n :: u64) = n"
proof -
  have "take_bit 64 n = n"
    using assms by (intro take_bit_int_eq_self) simp_all
  then show ?thesis
    by (simp add: uint_word_of_int_eq)
qed

lemma sint_of_small:
  fixes w :: u64
  assumes "uint w < 1000000"
  shows "sint w = uint w"
proof -
  have "signed_take_bit 63 (uint w) = uint w"
    using assms order_trans [OF _ uint_ge_0, of "- (2 ^ 63)" w]
    by (intro signed_take_bit_int_eq_self) simp_all
  then show ?thesis
    by (simp add: sint_uint)
qed

lemma to_int_rem:
  fixes x :: u64
  assumes "0 < n" "n \<le> 100000"
  shows "0 \<le> to_int (x mod word_of_int n)" "to_int (x mod word_of_int n) < n"
proof -
  have u: "uint (word_of_int n :: u64) = n"
    using assms by (intro uint_of_small) simp_all
  have m: "uint (x mod word_of_int n) = uint x mod n"
    by (simp only: uint_mod u)
  have b: "uint x mod n < n" "0 \<le> uint x mod n"
    using assms by (simp_all only: pos_mod_bound pos_mod_sign)
  have "sint (x mod word_of_int n) = uint x mod n"
    using sint_of_small [of "x mod word_of_int n"] b assms unfolding m by linarith
  with b show "0 \<le> to_int (x mod word_of_int n)" "to_int (x mod word_of_int n) < n"
    unfolding to_int_def by linarith+
qed

lemma word_of_int_pos:
  "0 < n \<Longrightarrow> n \<le> 1000000 \<Longrightarrow> (word_of_int n :: u64) \<noteq> 0"
  using uint_of_small [of n] by (metis less_le order.irrefl uint_0_eq)

lemma urem_range:
  assumes "0 < n" "n \<le> 100000"
  shows "\<exists>k. map_option to_int (urem x (word_of_int n)) = Some k \<and> 0 \<le> k \<and> k < n"
  using assms to_int_rem [OF assms, of x] word_of_int_pos [of n] by (simp add: urem_def)

lemma skewed_range:
  assumes "0 < hotKeys" "hotKeys < keyCount" "keyCount \<le> 100000"
  shows "\<exists>k. skewed keyCount hotKeys hot x = Some k \<and> 0 \<le> k \<and> k < keyCount"
  using assms urem_range [of hotKeys x] to_int_rem [of "keyCount - hotKeys" x]
    word_of_int_pos [of "keyCount - hotKeys"]
  by (auto simp: skewed_def urem_def)

lemma scenario_key_range:
  assumes v: "2 \<le> wc_KeyCount cfg" "wc_KeyCount cfg \<le> 100000"
    "1 \<le> wc_FlashEvery cfg" "wc_FlashEvery cfg \<le> 1000000"
  shows "\<exists>k. scenario_key scenario cfg i choice x = Some k \<and> 0 \<le> k \<and> k < wc_KeyCount cfg"
proof -
  have k: "0 < wc_KeyCount cfg" using v by simp
  have h: "0 < max 1 (wc_KeyCount cfg div n)" "max 1 (wc_KeyCount cfg div n) < wc_KeyCount cfg"
    if "1 < n" for n
    using v(1) that int_div_less_self [of "wc_KeyCount cfg" n] by auto
  obtain offset window where "urem (deterministicWorkloadValue (wc_Seed cfg) 0 4)
      (word_of_int (wc_KeyCount cfg)) = Some offset"
    "udiv i (word_of_int (wc_FlashEvery cfg)) = Some window"
    using v word_of_int_pos [of "wc_FlashEvery cfg"] word_of_int_pos [of "wc_KeyCount cfg"]
    by (simp add: udiv_def urem_def)
  then show ?thesis
    using urem_range [OF k v(2)] skewed_range [OF h [of 5] v(2)] skewed_range [OF h [of 100] v(2)]
    by (simp add: scenario_key_def Let_def del: map_option_eq_Some)
qed

text \<open>
  C39: For a configuration that passes the checks and a scenario it selects, every operation of the
  generated stream is defined (no remainder or division by zero) and addresses one of the
  configured keys.
\<close>

theorem workload_requests_in_range:
  assumes "validateWorkloadConfig cfg = None"
    and "scenario \<in> set (selectedWorkloadScenarios (wc_Scenario cfg))"
  shows "\<exists>k rd. workloadRequestAt scenario cfg i = Some (k, rd) \<and> 0 \<le> k \<and> k < wc_KeyCount cfg"
proof -
  obtain k where "scenario_key scenario cfg i
      (deterministicWorkloadValue (wc_Seed cfg) i 2 mod 100)
      (deterministicWorkloadValue (wc_Seed cfg) i 3) = Some k \<and> 0 \<le> k \<and> k < wc_KeyCount cfg"
    using scenario_key_range [OF valid_workload(2,3,9,10) [OF assms(1)]] by blast
  then show ?thesis
    by (simp add: workloadRequestAt_def)
qed

section \<open>Keys\<close>

lemma decimal_zeros: "decimal (replicate n (CHR ''0'') @ x) = decimal x"
  by (induction n) (simp_all add: decimal_def digit_val_def code_def)

lemma pad6_inj: "pad6 i = pad6 j \<Longrightarrow> i = j"
  using decimal_zeros show_nat_digits(3) unfolding pad6_def by (metis of_nat_eq_iff)

lemma workload_keys_distinct: "distinct (buildWorkloadKeys pre scenario n)"
  by (auto simp: buildWorkloadKeys_def distinct_map intro!: inj_onI dest: pad6_inj)

section \<open>Little-endian numbers\<close>

lemma length_le_bytes [simp]: "length (le_bytes k n) = k"
  by (induction k arbitrary: n) simp_all

lemma of_le_le_bytes: "of_le (le_bytes k n) = n mod 256 ^ k"
  by (induction k arbitrary: n) (simp_all add: mod_mult2_eq mult.commute)

lemma le_bytes_of_le: "le_bytes (length bs) (of_le bs) = bs"
  by (induction bs) (simp_all add: of_char_mod_256)

lemma of_le_less: "of_le bs < 256 ^ length bs"
proof (induction bs)
  case (Cons c cs)
  have "of_char c < (256 :: nat)" using range_nat_of_char by auto
  with Cons show ?case
    unfolding of_le.simps list.size(4) add_0_right add_Suc_right power_Suc by linarith
qed simp

lemma length_le64 [simp]: "length (le64 v) = 8"
  by (simp add: le64_def)

lemma uint64_le_le64: "uint64_le (le64 v) = v"
proof -
  have "unat v < 256 ^ 8"
    using unsigned_less [of v, where 'a = nat] by simp
  then show ?thesis
    by (simp add: uint64_le_def le64_def of_le_le_bytes)
qed

lemma le64_uint64_le: "length bs = 8 \<Longrightarrow> le64 (uint64_le bs) = bs"
proof -
  assume l: "length bs = 8"
  have "unat (of_nat (of_le bs) :: u64) = of_le bs"
    using of_le_less [of bs] l by (simp add: unsigned_of_nat take_bit_nat_eq_self)
  then show "le64 (uint64_le bs) = bs"
    using l le_bytes_of_le [of bs] by (simp add: le64_def uint64_le_def)
qed

lemma uint64_le_iff: "length bs = 8 \<Longrightarrow> uint64_le bs = v \<longleftrightarrow> bs = le64 v"
  using le64_uint64_le uint64_le_le64 by auto

section \<open>Values\<close>

lemma nth_copy_at:
  assumes "off \<le> length dst" "j < length dst"
  shows "copy_at off src dst ! j =
    (if off \<le> j \<and> j < off + length src then src ! (j - off) else dst ! j)"
  using assms by (auto simp: copy_at_def nth_append min_def)

lemma length_copy_at_eq [simp]: "off \<le> length dst \<Longrightarrow> length (copy_at off src dst) = length dst"
  by (rule length_copy_at) simp

declare fill_loop.simps [simp del]

lemma length_fill_loop [simp]: "length (fill_loop digest off dst) = length dst"
proof (induction digest off dst rule: fill_loop.induct)
  case (1 digest off dst)
  then show ?case by (subst fill_loop.simps) simp
qed

lemma nth_fill_loop:
  assumes "length digest = 32" "off mod 32 = 0" "j < length dst"
  shows "fill_loop digest off dst ! j = (if off \<le> j then digest ! (j mod 32) else dst ! j)"
  using assms
proof (induction digest off dst rule: fill_loop.induct)
  case (1 digest off dst)
  have "(off + k) mod 32 = k" if "k < 32" for k
    using that 1(3) mod_add_left_eq [of off 32 k] by simp
  then have mod_off: "j mod 32 = j - off" if "off \<le> j" "j < off + 32"
    using that by (metis le_add_diff_inverse less_diff_conv2 add.commute)
  show ?case
  proof (cases "off < length dst")
    case True
    then show ?thesis
      using 1 mod_off by (subst fill_loop.simps) (auto simp: nth_copy_at)
  next
    case False
    then show ?thesis
      using 1 by (subst fill_loop.simps) simp
  qed
qed

lemma length_Fill [simp]: "16 \<le> wv_size v \<Longrightarrow> length (Fill sha v i ver dst) = wv_size v"
  by (simp add: Fill_def Let_def)

lemma nth_Fill:
  assumes "16 \<le> wv_size v" "length (versionDigest sha v i ver) = 32"
    "length (wv_digests v ! i) = 32" "j < wv_size v"
  shows "Fill sha v i ver dst ! j =
    (if j < 8 then le64 ver ! j
     else if j < 16 then wv_digests v ! i ! (j - 8)
     else versionDigest sha v i ver ! (j mod 32))"
  using assms by (simp add: Fill_def Let_def nth_copy_at nth_fill_loop)

lemma Matches_nth:
  assumes "16 \<le> wv_size v" "length (versionDigest sha v i ver) = 32"
    "length (wv_digests v ! i) = 32"
  shows "Matches sha v i ver val \<longleftrightarrow>
    length val = wv_size v \<and> take 8 val = le64 ver \<and> take 8 (drop 8 val) = take 8 (wv_digests v ! i)
    \<and> (\<forall>j. 16 \<le> j \<and> j < wv_size v \<longrightarrow> val ! j = versionDigest sha v i ver ! (j mod 32))"
proof (cases "length val = wv_size v")
  case True
  have "(\<forall>j < wv_size v - 16. val ! (j + 16) = versionDigest sha v i ver ! ((j + 16) mod 32)) \<longleftrightarrow>
      (\<forall>j. 16 \<le> j \<and> j < wv_size v \<longrightarrow> val ! j = versionDigest sha v i ver ! (j mod 32))" (is "?l \<longleftrightarrow> ?r")
  proof
    assume l: ?l
    show ?r
    proof (intro allI impI)
      fix j assume "16 \<le> j \<and> j < wv_size v"
      then show "val ! j = versionDigest sha v i ver ! (j mod 32)"
        using l [rule_format, of "j - 16"] by (simp add: diff_less_mono)
    qed
  qed auto
  then show ?thesis
    using True assms
    by (auto simp: Matches_def Let_def uint64_le_iff list_all_length nth_enumerate_eq add.commute)
qed (simp add: Matches_def)

lemma eight_bytes:
  assumes "off + 8 \<le> length val" "8 \<le> length w"
  shows "take 8 (drop off val) = take 8 w \<longleftrightarrow> (\<forall>j < 8. val ! (off + j) = w ! j)"
  using assms by (auto simp: list_eq_iff_nth_eq)

lemma Matches_Fill_eq:
  assumes "16 \<le> wv_size v" "length (versionDigest sha v i ver) = 32"
    "length (wv_digests v ! i) = 32"
  shows "Matches sha v i ver val \<longleftrightarrow> val = Fill sha v i ver dst"
proof
  assume m: "Matches sha v i ver val"
  then have l: "length val = wv_size v" and a: "\<forall>j < 8. val ! j = le64 ver ! j"
    and b: "\<forall>j < 8. val ! (8 + j) = wv_digests v ! i ! j"
    and c: "\<forall>j. 16 \<le> j \<and> j < wv_size v \<longrightarrow> val ! j = versionDigest sha v i ver ! (j mod 32)"
    using assms eight_bytes [of 0 val "le64 ver"] eight_bytes [of 8 val "wv_digests v ! i"]
    by (simp_all add: Matches_nth)
  show "val = Fill sha v i ver dst"
  proof (rule nth_equalityI)
    fix j assume j: "j < length val"
    show "val ! j = Fill sha v i ver dst ! j"
    proof (cases "8 \<le> j \<and> j < 16")
      case True
      then obtain k where "j = 8 + k" "k < 8" using less_diff_conv2 [of 8 j 8] le_Suc_ex by auto
      then show ?thesis using j l b assms by (simp add: nth_Fill)
    next
      case False
      then show ?thesis using j l a c assms by (auto simp: nth_Fill)
    qed
  qed (use l assms in simp)
next
  assume "val = Fill sha v i ver dst"
  then show "Matches sha v i ver val"
    using assms eight_bytes [of 0 val "le64 ver"] eight_bytes [of 8 val "wv_digests v ! i"]
    by (simp add: Matches_nth nth_Fill)
qed

lemma workload_digests:
  assumes "\<forall>x. length (sha x) = 32" "i < length keys"
  shows "length (wv_digests (newWorkloadValues sha keys n) ! i) = 32"
    "length (versionDigest sha (newWorkloadValues sha keys n) i ver) = 32"
  using assms by (simp_all add: newWorkloadValues_def versionDigest_def)

text \<open>
  C17: For a checked configuration and a 32-byte digest function, \<^verbatim>\<open>Matches\<close> accepts a value for a
  key and a version exactly when it is what \<^verbatim>\<open>Fill\<close> generates for them, whatever buffer \<^verbatim>\<open>Fill\<close> was
  given; so the value of any other version of the key, such as a stale read, is always
  rejected.
\<close>

theorem workload_values_exact:
  assumes "validateWorkloadConfig cfg = None"
    and "\<forall>x. length (sha x) = 32" and "i < length keys"
    and "v = newWorkloadValues sha keys (nat (wc_ValueSize cfg))"
  shows "(Matches sha v i ver val \<longleftrightarrow> val = Fill sha v i ver dst) \<and>
    (Matches sha v i ver (Fill sha v i ver' dst) \<longleftrightarrow> ver = ver')"
proof -
  have s: "16 \<le> wv_size v"
    using valid_workload(4) [OF assms(1)] by (simp add: assms(4) newWorkloadValues_def nat_le_eq_zle)
  note d = workload_digests [OF assms(2,3), where n = "nat (wc_ValueSize cfg)", folded assms(4)]
  note m = Matches_Fill_eq [OF s d(2) d(1)]
  have "Matches sha v i ver' (Fill sha v i ver' dst)"
    using m by blast
  then have "take 8 (Fill sha v i ver' dst) = le64 ver'"
    using Matches_nth [OF s d(2) d(1)] by blast
  then have "Matches sha v i ver (Fill sha v i ver' dst) \<longleftrightarrow> ver = ver'"
    using Matches_nth [OF s d(2) d(1), of ver] uint64_le_le64 m by metis
  with m show ?thesis by blast
qed

section \<open>A concrete configuration\<close>

definition small_workload :: workload_config where
  "small_workload = \<lparr>wc_OriginAddr = ''o:1'', wc_ProxyAddr = ''p:2'', wc_AdminURL = ''a'',
     wc_Scenario = workloadScenarioSkew80, wc_KeyPrefix = ''b'', wc_KeyCount = 10, wc_ValueSize = 20,
     wc_ReadRatio = 95, wc_Concurrency = 2, wc_MaxRequests = 100, wc_Duration = second, wc_Seed = 1,
     wc_FlashEvery = 50, wc_Output = ''text'', wc_JSONFile = []\<rparr>"

lemma small_workload_valid: "validateWorkloadConfig small_workload = None"
  by code_simp

theorem workload_requests_in_range_witness:
  "\<exists>k rd. workloadRequestAt workloadScenarioSkew80 small_workload 7 = Some (k, rd) \<and> 0 \<le> k \<and> k < 10"
  using workload_requests_in_range [OF small_workload_valid, of workloadScenarioSkew80 7]
  by (simp add: small_workload_def selectedWorkloadScenarios_def scenario_defs)

theorem workload_values_exact_witness:
  "\<not> Matches (\<lambda>x. replicate 32 (CHR ''d'')) (newWorkloadValues (\<lambda>x. replicate 32 (CHR ''d'')) [''k''] 20)
     0 2 (Fill (\<lambda>x. replicate 32 (CHR ''d''))
       (newWorkloadValues (\<lambda>x. replicate 32 (CHR ''d'')) [''k''] 20) 0 1 [])"
  using workload_values_exact [OF small_workload_valid, of "\<lambda>x. replicate 32 (CHR ''d'')" 0 "[''k'']"
      "newWorkloadValues (\<lambda>x. replicate 32 (CHR ''d'')) [''k''] 20" 2 "[]" "[]" 1]
  by (simp add: small_workload_def)

end
