(* ===== verification/OriginInfo.thy ===== *)
theory OriginInfo
  imports
    GoStd
    "HOL-Library.Word"
begin

text \<open>
  Reading the origin's \<^verbatim>\<open>INFO\<close> replies (\<^verbatim>\<open>cmd/slizenctl/benchmark.go\<close>): the number of GET calls,
  the run identifier and the server version, and the snapshot that reads the run identifier
  before and after the counter. The origin client is the parameter \<open>info\<close>: a section name gives
  the text of the section or an error. Errors are the values of \<open>info_error\<close>.
\<close>

section \<open>\<^verbatim>\<open>strings.Split\<close>, \<^verbatim>\<open>strings.Cut\<close> and \<^verbatim>\<open>strconv.ParseUint\<close>\<close>

fun split_on :: "char \<Rightarrow> bytes \<Rightarrow> bytes list" where
  "split_on c [] = [[]]"
| "split_on c (x # xs) =
     (if x = c then [] # split_on c xs
      else case split_on c xs of [] \<Rightarrow> [[x]] | y # ys \<Rightarrow> (x # y) # ys)"

definition Cut :: "bytes \<Rightarrow> char \<Rightarrow> (bytes \<times> bytes) option" where
  "Cut s c = map_option (\<lambda>i. (take i s, drop (Suc i) s)) (index_byte c s)"

datatype num_error = ErrSyntax | ErrRange

fun uint_loop :: "int \<Rightarrow> bytes \<Rightarrow> num_error + u64" where
  "uint_loop n [] = Inr (word_of_int n)"
| "uint_loop n (c # cs) =
     (if \<not> is_digit c then Inl ErrSyntax
      else let n = 10 * n + digit_val c in
        if 2 ^ 64 \<le> n then Inl ErrRange else uint_loop n cs)"

definition ParseUint :: "bytes \<Rightarrow> num_error + u64" where
  "ParseUint s = (if s = [] then Inl ErrSyntax else uint_loop 0 s)"

section \<open>\<^verbatim>\<open>INFO commandstats\<close>\<close>

datatype info_error =
    InfoFailed bytes bytes
  | DuplicateGET
  | ParseCalls num_error bytes
  | MissingCalls
  | MissingCommandstats
  | MissingRunID
  | RunIDChanged

fun find_calls :: "bytes list \<Rightarrow> info_error + u64" where
  "find_calls [] = Inl MissingCalls"
| "find_calls (fld # flds) =
     (case Cut (TrimSpace fld) (CHR ''='') of
        None \<Rightarrow> find_calls flds
      | Some (name, val) \<Rightarrow>
          if name \<noteq> ''calls'' then find_calls flds
          else case ParseUint val of
              Inl e \<Rightarrow> Inl (ParseCalls e val)
            | Inr parsed \<Rightarrow> Inr parsed)"

fun calls_loop ::
    "unicode \<Rightarrow> bytes list \<Rightarrow> bool \<Rightarrow> bool \<Rightarrow> u64 \<Rightarrow> info_error + u64" where
  "calls_loop uc [] sawCommandstats sawGET calls =
     (if \<not> sawCommandstats then Inl MissingCommandstats else Inr calls)"
| "calls_loop uc (rawLine # lines) sawCommandstats sawGET calls =
     (let line = TrimSpace rawLine in
      if starts_with ''#'' line
      then calls_loop uc lines
        (sawCommandstats \<or> EqualFold uc (TrimSpace (drop 1 line)) ''Commandstats'') sawGET calls
      else if \<not> starts_with ''cmdstat_get:'' line
      then calls_loop uc lines sawCommandstats sawGET calls
      else if sawGET then Inl DuplicateGET
      else case find_calls (split_on (CHR '','') (drop (length ''cmdstat_get:'') line)) of
          Inl e \<Rightarrow> Inl e
        | Inr parsed \<Rightarrow> calls_loop uc lines sawCommandstats True parsed)"

definition parseOriginGETCalls :: "unicode \<Rightarrow> bytes \<Rightarrow> info_error + u64" where
  "parseOriginGETCalls uc text = calls_loop uc (split_on (CHR ''\<newline>'') text) False False 0"

section \<open>\<^verbatim>\<open>INFO server\<close>\<close>

fun run_id_loop :: "bytes list \<Rightarrow> info_error + bytes" where
  "run_id_loop [] = Inl MissingRunID"
| "run_id_loop (rawLine # lines) =
     (case Cut (TrimSpace rawLine) (CHR '':'') of
        None \<Rightarrow> run_id_loop lines
      | Some (name, val) \<Rightarrow>
          if name \<noteq> ''run_id'' then run_id_loop lines
          else if TrimSpace val = [] then Inl MissingRunID
          else Inr (TrimSpace val))"

definition parseOriginRunID :: "bytes \<Rightarrow> info_error + bytes" where
  "parseOriginRunID text = run_id_loop (split_on (CHR ''\<newline>'') text)"

fun version_fields :: "bytes list \<Rightarrow> (bytes \<rightharpoonup> bytes) \<Rightarrow> (bytes \<rightharpoonup> bytes)" where
  "version_fields [] flds = flds"
| "version_fields (rawLine # lines) flds =
     (let line = TrimSpace rawLine in
      if line = [] \<or> starts_with ''#'' line then version_fields lines flds
      else case Cut line (CHR '':'') of
          None \<Rightarrow> version_fields lines flds
        | Some (name, val) \<Rightarrow> version_fields lines (flds(name \<mapsto> TrimSpace val)))"

definition field_or_empty :: "(bytes \<rightharpoonup> bytes) \<Rightarrow> bytes \<Rightarrow> bytes" where
  "field_or_empty flds name = (case flds name of None \<Rightarrow> [] | Some v \<Rightarrow> v)"

definition parseOriginVersion :: "unicode \<Rightarrow> bytes \<Rightarrow> bytes" where
  "parseOriginVersion uc text =
     (let flds = version_fields (split_on (CHR ''\<newline>'') text) Map.empty;
          name = field_or_empty flds ''server_name'';
          version = field_or_empty flds ''redis_version'';
          valkey = field_or_empty flds ''valkey_version'';
          (name, version) =
            (if EqualFold uc name ''valkey'' then (name, valkey)
             else if name = [] \<and> valkey \<noteq> [] then (''Valkey'', valkey)
             else (name, version));
          name = (if name = [] \<and> version \<noteq> [] then ''Redis-compatible'' else name)
      in if name = [] then ''unknown''
         else if version = [] then name
         else name @ '' '' @ version)"

definition knownOriginRuntimeVersion :: "unicode \<Rightarrow> bytes \<Rightarrow> bool" where
  "knownOriginRuntimeVersion uc version \<longleftrightarrow>
     TrimSpace version \<noteq> [] \<and> \<not> EqualFold uc (TrimSpace version) ''unknown''"

section \<open>The counter snapshot\<close>

record origin_counter =
  oc_Calls :: u64
  oc_RunID :: bytes
  oc_Err :: "info_error option"

definition counter_error :: "info_error \<Rightarrow> origin_counter" where
  "counter_error e = \<lparr>oc_Calls = 0, oc_RunID = [], oc_Err = Some e\<rparr>"

definition readOriginGETCounter ::
    "unicode \<Rightarrow> (bytes \<Rightarrow> 'w \<Rightarrow> (bytes + bytes) \<times> 'w) \<Rightarrow> 'w \<Rightarrow> origin_counter \<times> 'w" where
  "readOriginGETCounter uc info w =
     (case info ''server'' w of
        (Inl e, w) \<Rightarrow> (counter_error (InfoFailed ''INFO server before commandstats: '' e), w)
      | (Inr serverBefore, w) \<Rightarrow>
     (case parseOriginRunID serverBefore of
        Inl e \<Rightarrow> (counter_error e, w)
      | Inr runIDBefore \<Rightarrow>
     (case info ''commandstats'' w of
        (Inl e, w) \<Rightarrow> (counter_error (InfoFailed ''INFO commandstats: '' e), w)
      | (Inr stats, w) \<Rightarrow>
     (case parseOriginGETCalls uc stats of
        Inl e \<Rightarrow> (counter_error e, w)
      | Inr calls \<Rightarrow>
     (case info ''server'' w of
        (Inl e, w) \<Rightarrow> (counter_error (InfoFailed ''INFO server after commandstats: '' e), w)
      | (Inr serverAfter, w) \<Rightarrow>
     (case parseOriginRunID serverAfter of
        Inl e \<Rightarrow> (counter_error e, w)
      | Inr runIDAfter \<Rightarrow>
          if runIDAfter \<noteq> runIDBefore then (counter_error RunIDChanged, w)
          else (\<lparr>oc_Calls = calls, oc_RunID = runIDBefore, oc_Err = None\<rparr>, w)))))))"

section \<open>Versions\<close>

record runtime_versions =
  rv_Slizenctl :: bytes
  rv_Slizen :: bytes
  rv_Commit :: bytes
  rv_Origin :: bytes
  rv_Go :: bytes
  rv_OperatingOS :: bytes
  rv_Arch :: bytes

text \<open>The build information and the runtime constants are the argument \<open>host\<close>.\<close>

definition collectRuntimeVersions ::
    "unicode \<Rightarrow> bytes \<times> bytes \<times> bytes \<times> bytes \<Rightarrow> bytes \<Rightarrow> bytes
     \<Rightarrow> (bytes \<Rightarrow> 'w \<Rightarrow> (bytes + bytes) \<times> 'w) \<Rightarrow> 'w \<Rightarrow> (runtime_versions \<times> bytes option) \<times> 'w" where
  "collectRuntimeVersions uc host version commit info w =
     (let (build, go, os, arch) = host;
          versions = \<lparr>rv_Slizenctl = build, rv_Slizen = version, rv_Commit = commit,
            rv_Origin = ''unknown'', rv_Go = go, rv_OperatingOS = os, rv_Arch = arch\<rparr>
      in case info ''server'' w of
           (Inl e, w) \<Rightarrow> ((versions, Some (''origin runtime version unavailable: '' @ e)), w)
         | (Inr text, w) \<Rightarrow>
             let versions = versions\<lparr>rv_Origin := parseOriginVersion uc text\<rparr>
             in if rv_Origin versions = ''unknown''
                then ((versions, Some ''origin runtime version unavailable: INFO server did not include a version''), w)
                else ((versions, None), w))"

end
