(* ===== verification/Evidence.thy ===== *)
theory Evidence
  imports
    OriginInfo
    Float64
begin

text \<open>
  The measured phases of the benchmarks and the evidence drawn from them
  (\<^verbatim>\<open>cmd/slizenctl/benchmark.go\<close>): latency percentiles, the deltas of the origin's and of
  Slizen's counters with the checks that they are isolated and monotone, the reduction of origin
  GETs and the summary of a scenario and of the hot-key run. \<^verbatim>\<open>uint64\<close> counters are 64-bit words;
  floating point takes the arithmetic as its first argument. A note is its text, followed by the
  error where the source formats one.
\<close>

section \<open>Phases and snapshots\<close>

record latency_distribution =
  ld_Samples :: u64
  ld_P50 :: rat
  ld_P95 :: rat
  ld_P99 :: rat

datatype remark = Note bytes | NoteErr bytes info_error

record benchmark_phase =
  bp_Name :: bytes
  bp_Address :: bytes
  bp_Requests :: u64
  bp_OperationAttempts :: u64
  bp_TerminationReason :: bytes
  bp_Reads :: u64
  bp_Writes :: u64
  bp_Failures :: u64
  bp_ValueMismatches :: u64
  bp_ValidationReads :: u64
  bp_ValidationFailures :: u64
  bp_ValidationMismatches :: u64
  bp_ElapsedSeconds :: rat
  bp_OpsPerSecond :: rat
  bp_P50 :: rat
  bp_P95 :: rat
  bp_P99 :: rat
  bp_ReadLatency :: "latency_distribution option"
  bp_WriteLatency :: "latency_distribution option"
  bp_ReadOrderingWait :: "latency_distribution option"
  bp_WriteOrderingWait :: "latency_distribution option"
  bp_FinalValidation :: "latency_distribution option"
  bp_UpstreamGETs :: u64
  bp_UpstreamGETsSource :: bytes
  bp_OriginRunID :: bytes
  bp_StatusUpstreamGETs :: u64
  bp_CacheHits :: u64
  bp_CacheMisses :: u64
  bp_MissesPolicyBypass :: u64
  bp_MissesNotAdmitted :: u64
  bp_MissesNotPresent :: u64
  bp_CacheHitRatio :: rat
  bp_Notes :: "remark list"

record status_snapshot =
  ss_Version :: bytes
  ss_Commit :: bytes
  ss_Mode :: bytes
  ss_KeyVisibility :: bytes
  ss_Uptime :: bytes
  ss_RequestsTotal :: u64
  ss_CacheHitsTotal :: u64
  ss_CacheMissesTotal :: u64
  ss_MissesPolicyBypass :: u64
  ss_MissesNotAdmitted :: u64
  ss_MissesNotPresent :: u64
  ss_UpstreamRequestsTotal :: u64
  ss_UpstreamGETsTotal :: u64
  ss_CoalescedRequestsTotal :: u64
  ss_InvalidationsTotal :: u64
  ss_PromotionsTotal :: u64
  ss_DemotionsTotal :: u64
  ss_CacheEntries :: int
  ss_CacheBytes :: int
  ss_HotKeys :: int

definition empty_phase :: benchmark_phase where
  "empty_phase = \<lparr>bp_Name = [], bp_Address = [], bp_Requests = 0, bp_OperationAttempts = 0,
     bp_TerminationReason = [], bp_Reads = 0, bp_Writes = 0, bp_Failures = 0, bp_ValueMismatches = 0,
     bp_ValidationReads = 0, bp_ValidationFailures = 0, bp_ValidationMismatches = 0,
     bp_ElapsedSeconds = 0, bp_OpsPerSecond = 0, bp_P50 = 0, bp_P95 = 0, bp_P99 = 0,
     bp_ReadLatency = None, bp_WriteLatency = None, bp_ReadOrderingWait = None,
     bp_WriteOrderingWait = None, bp_FinalValidation = None, bp_UpstreamGETs = 0,
     bp_UpstreamGETsSource = [], bp_OriginRunID = [], bp_StatusUpstreamGETs = 0, bp_CacheHits = 0,
     bp_CacheMisses = 0, bp_MissesPolicyBypass = 0, bp_MissesNotAdmitted = 0,
     bp_MissesNotPresent = 0, bp_CacheHitRatio = 0, bp_Notes = []\<rparr>"

definition add_note :: "remark \<Rightarrow> benchmark_phase \<Rightarrow> benchmark_phase" where
  "add_note n phase = phase\<lparr>bp_Notes := bp_Notes phase @ [n]\<rparr>"

definition originGETsSourceCommandstats :: bytes where
  "originGETsSourceCommandstats = ''origin_info_commandstats''"

definition originGETsSourceUnavailable :: bytes where
  "originGETsSourceUnavailable = ''unavailable''"

definition show_u64 :: "u64 \<Rightarrow> bytes" where
  "show_u64 n = show_nat (unat n)"

definition of_u64 :: "arith \<Rightarrow> u64 \<Rightarrow> rat" where
  "of_u64 a n = of_i64 a (uint n)"

section \<open>Latencies\<close>

definition Microseconds :: "duration \<Rightarrow> int" where
  "Microseconds d = (if d < 0 then - (- d div 1000) else d div 1000)"

definition percentileMillis :: "arith \<Rightarrow> duration list \<Rightarrow> int \<Rightarrow> rat" where
  "percentileMillis a ds percentile =
     (if ds = [] then 0
      else if percentile \<le> 0 then fdiv a (of_i64 a (Microseconds (hd ds))) 1000
      else if 100 \<le> percentile then fdiv a (of_i64 a (Microseconds (last ds))) 1000
      else
        let index = \<lceil>fmul a (fdiv a (of_i64 a percentile) 100) (of_i64 a (int (length ds)))\<rceil> - 1;
            index = (if index < 0 then 0 else index);
            index = (if int (length ds) \<le> index then int (length ds) - 1 else index)
        in fdiv a (of_i64 a (Microseconds (ds ! nat index))) 1000)"

definition latencyDistributionFor :: "arith \<Rightarrow> duration list \<Rightarrow> latency_distribution" where
  "latencyDistributionFor a ds =
     (let ds = sort ds
      in \<lparr>ld_Samples = of_nat (length ds), ld_P50 = percentileMillis a ds 50,
          ld_P95 = percentileMillis a ds 95, ld_P99 = percentileMillis a ds 99\<rparr>)"

definition latencyDistributionPointer ::
    "arith \<Rightarrow> duration list \<Rightarrow> latency_distribution option" where
  "latencyDistributionPointer a ds =
     (if ds = [] then None else Some (latencyDistributionFor a ds))"

section \<open>The origin's counter\<close>

definition applyOriginGETCounterDelta ::
    "benchmark_phase \<Rightarrow> origin_counter \<Rightarrow> origin_counter \<Rightarrow> bool \<times> benchmark_phase" where
  "applyOriginGETCounterDelta phase before' after' =
     (let phase = phase\<lparr>bp_UpstreamGETs := 0, bp_UpstreamGETsSource := originGETsSourceCommandstats\<rparr>
      in case oc_Err before' of
        Some e \<Rightarrow> (False, add_note
          (NoteErr ''physical origin GET evidence is unavailable before the phase: '' e)
          (phase\<lparr>bp_UpstreamGETsSource := originGETsSourceUnavailable\<rparr>))
      | None \<Rightarrow>
      case oc_Err after' of
        Some e \<Rightarrow> (False, add_note
          (NoteErr ''physical origin GET evidence is unavailable after the phase: '' e)
          (phase\<lparr>bp_UpstreamGETsSource := originGETsSourceUnavailable\<rparr>))
      | None \<Rightarrow>
      if oc_RunID before' = [] \<or> oc_RunID after' = []
      then (False, add_note
        (Note ''origin run_id was unavailable; restart continuity could not be verified'') phase)
      else if oc_RunID after' \<noteq> oc_RunID before'
      then (False, add_note
        (Note ''origin run_id changed during the phase; restart invalidated physical evidence'') phase)
      else if oc_Calls after' < oc_Calls before'
      then (False, add_note
        (Note (''origin INFO commandstats cmdstat_get calls decreased from '' @
          show_u64 (oc_Calls before') @ '' to '' @ show_u64 (oc_Calls after') @
          ''; reset or restart invalidated physical evidence'')) phase)
      else (True, phase\<lparr>bp_UpstreamGETs := oc_Calls after' - oc_Calls before',
        bp_OriginRunID := oc_RunID before'\<rparr>))"

definition validatePhysicalOriginGETIsolation ::
    "benchmark_phase \<Rightarrow> u64 \<Rightarrow> bytes \<Rightarrow> bool \<times> benchmark_phase" where
  "validatePhysicalOriginGETIsolation phase expected expectation =
     (if bp_UpstreamGETsSource phase \<noteq> originGETsSourceCommandstats then (False, phase)
      else if bp_UpstreamGETs phase = expected then (True, phase)
      else (False, add_note
        (Note (''physical origin GET counter changed by '' @ show_u64 (bp_UpstreamGETs phase) @
          '' while '' @ expectation @ '' was '' @ show_u64 expected @
          ''; retries or unrelated origin traffic invalidated isolation'')) phase))"

definition physicalEvidence ::
    "benchmark_phase \<Rightarrow> origin_counter \<Rightarrow> origin_counter \<Rightarrow> (benchmark_phase \<Rightarrow> u64) \<Rightarrow> bytes
     \<Rightarrow> bool \<times> benchmark_phase" where
  "physicalEvidence phase before' after' expected expectation =
     (case applyOriginGETCounterDelta phase before' after' of
        (True, phase) \<Rightarrow> validatePhysicalOriginGETIsolation phase (expected phase) expectation
      | (False, phase) \<Rightarrow> (False, phase))"

definition validateSameOriginRunID :: "benchmark_phase list \<Rightarrow> bool \<times> benchmark_phase list" where
  "validateSameOriginRunID phases =
     (case phases of
        [] \<Rightarrow> (True, phases)
      | [_] \<Rightarrow> (True, phases)
      | first # rest \<Rightarrow>
          if bp_OriginRunID first = []
          then (False, map (add_note
            (Note ''origin run_id continuity across comparison phases could not be verified'')) phases)
          else if list_all (\<lambda>phase. bp_OriginRunID phase = bp_OriginRunID first) rest
          then (True, phases)
          else (False, map (add_note
            (Note ''origin run_id changed between comparison phases; restart invalidated reduction evidence''))
            phases))"

section \<open>Slizen's counters\<close>

definition subtractUint64 :: "u64 \<Rightarrow> u64 \<Rightarrow> u64" where
  "subtractUint64 after' before' = (if after' < before' then 0 else after' - before')"

definition applyStatusDelta ::
    "arith \<Rightarrow> status_snapshot \<Rightarrow> status_snapshot \<Rightarrow> benchmark_phase \<Rightarrow> benchmark_phase" where
  "applyStatusDelta a before' after' phase =
     (let delta = (\<lambda>sel. subtractUint64 (sel after') (sel before'));
          phase = phase\<lparr>bp_StatusUpstreamGETs := delta ss_UpstreamGETsTotal,
            bp_CacheHits := delta ss_CacheHitsTotal,
            bp_CacheMisses := delta ss_CacheMissesTotal,
            bp_MissesPolicyBypass := delta ss_MissesPolicyBypass,
            bp_MissesNotAdmitted := delta ss_MissesNotAdmitted,
            bp_MissesNotPresent := delta ss_MissesNotPresent\<rparr>;
          denominator = bp_CacheHits phase + bp_CacheMisses phase
      in if 0 < denominator
         then phase\<lparr>bp_CacheHitRatio :=
           fdiv a (fmul a 100 (of_u64 a (bp_CacheHits phase))) (of_u64 a denominator)\<rparr>
         else phase)"

definition counters_decreased :: "status_snapshot \<Rightarrow> status_snapshot \<Rightarrow> bool" where
  "counters_decreased before' after' =
     list_ex (\<lambda>sel. sel after' < sel before')
       [ss_RequestsTotal, ss_CacheHitsTotal, ss_CacheMissesTotal, ss_MissesPolicyBypass,
        ss_MissesNotAdmitted, ss_MissesNotPresent, ss_UpstreamRequestsTotal, ss_UpstreamGETsTotal,
        ss_CoalescedRequestsTotal, ss_InvalidationsTotal, ss_PromotionsTotal, ss_DemotionsTotal]"

definition invalidStatusDeltaReason :: "status_snapshot \<Rightarrow> status_snapshot \<Rightarrow> bytes" where
  "invalidStatusDeltaReason before' after' =
     (if ss_Version after' \<noteq> ss_Version before' \<or> ss_Commit after' \<noteq> ss_Commit before'
        \<or> ss_Mode after' \<noteq> ss_Mode before' \<or> ss_KeyVisibility after' \<noteq> ss_KeyVisibility before'
      then ''Slizen status identity or mode changed during the phase; daemon restart or reconfiguration invalidated process-global evidence''
      else case (ParseDuration (ss_Uptime before'), ParseDuration (ss_Uptime after')) of
          (Some beforeUptime, Some afterUptime) \<Rightarrow>
            if afterUptime < beforeUptime
            then ''Slizen uptime decreased during the phase; daemon restart invalidated process-global evidence''
            else if counters_decreased before' after'
            then ''one or more Slizen status counters decreased during the phase; daemon restart or counter reset invalidated process-global evidence''
            else []
        | _ \<Rightarrow> ''Slizen uptime could not be parsed; daemon continuity could not be verified'')"

definition clear_status_delta :: "benchmark_phase \<Rightarrow> benchmark_phase" where
  "clear_status_delta phase = phase\<lparr>bp_StatusUpstreamGETs := 0, bp_CacheHits := 0, bp_CacheMisses := 0,
     bp_MissesPolicyBypass := 0, bp_MissesNotAdmitted := 0, bp_MissesNotPresent := 0,
     bp_CacheHitRatio := 0\<rparr>"

definition require :: "bool \<Rightarrow> bytes \<Rightarrow> bool \<times> benchmark_phase \<Rightarrow> bool \<times> benchmark_phase" where
  "require ok message = (\<lambda>(valid, phase). if ok then (valid, phase) else (False, add_note (Note message) phase))"

text \<open>
  \<^verbatim>\<open>applyHotKeyStatusDelta\<close> and \<^verbatim>\<open>applyWorkloadStatusDelta\<close> differ only in the count of reads they
  compare with: all requests of a hot-key phase, the reads of a workload phase.
\<close>

definition apply_status_evidence ::
    "arith \<Rightarrow> (benchmark_phase \<Rightarrow> u64) \<Rightarrow> benchmark_phase \<Rightarrow> status_snapshot \<Rightarrow> status_snapshot
     \<Rightarrow> bool \<times> benchmark_phase" where
  "apply_status_evidence a reads phase before' after' =
     (let reason = invalidStatusDeltaReason before' after' in
      if reason \<noteq> [] then (False, add_note (Note reason) (clear_status_delta phase))
      else
        let phase = applyStatusDelta a before' after' phase;
            expected = bp_Requests phase + bp_Failures phase;
            observed = ss_RequestsTotal after' - ss_RequestsTotal before';
            decisions = bp_CacheHits phase + bp_CacheMisses phase
        in require (bp_Failures phase \<noteq> 0 \<or> bp_StatusUpstreamGETs phase \<le> reads phase)
             (''Slizen upstream GET counter changed by '' @ show_u64 (bp_StatusUpstreamGETs phase) @
              '' during '' @ show_u64 (reads phase) @
              '' benchmark reads; process-global evidence is not isolated'')
           (require (bp_Failures phase \<noteq> 0 \<or> decisions = reads phase)
             (''Slizen cache counters recorded '' @ show_u64 decisions @ '' GET decisions during '' @
              show_u64 (reads phase) @ '' benchmark reads; process-global evidence is not isolated'')
           (require (observed = expected)
             (''Slizen process-global request counter changed by '' @ show_u64 observed @ '' during '' @
              show_u64 expected @
              '' benchmark operations; run Slizen quiescently and exclusively'')
           (True, phase))))"

definition applyHotKeyStatusDelta ::
    "arith \<Rightarrow> benchmark_phase \<Rightarrow> status_snapshot \<Rightarrow> status_snapshot \<Rightarrow> bool \<times> benchmark_phase" where
  "applyHotKeyStatusDelta a = apply_status_evidence a bp_Requests"

definition applyWorkloadStatusDelta ::
    "arith \<Rightarrow> benchmark_phase \<Rightarrow> status_snapshot \<Rightarrow> status_snapshot \<Rightarrow> bool \<times> benchmark_phase" where
  "applyWorkloadStatusDelta a = apply_status_evidence a bp_Reads"

section \<open>A workload scenario\<close>

definition workloadOriginGETReduction :: "arith \<Rightarrow> benchmark_phase \<Rightarrow> benchmark_phase \<Rightarrow> rat" where
  "workloadOriginGETReduction a origin slizen =
     (if 0 < bp_Failures origin \<or> 0 < bp_Failures slizen \<or> bp_Reads origin = 0 \<or> bp_Reads slizen = 0
        \<or> bp_UpstreamGETsSource origin \<noteq> originGETsSourceCommandstats
        \<or> bp_UpstreamGETsSource slizen \<noteq> originGETsSourceCommandstats
      then 0
      else
        let originRate = fdiv a (of_u64 a (bp_UpstreamGETs origin)) (of_u64 a (bp_Reads origin)) in
        if originRate = 0 then 0
        else
          let slizenRate = fdiv a (of_u64 a (bp_UpstreamGETs slizen)) (of_u64 a (bp_Reads slizen))
          in fmul a 100 (fsub a 1 (fdiv a slizenRate originRate)))"

record scenario_result =
  sr_Name :: bytes
  sr_Origin :: benchmark_phase
  sr_Slizen :: benchmark_phase
  sr_P50 :: rat
  sr_P95 :: rat
  sr_P99 :: rat
  sr_OriginGETReduction :: rat
  sr_CacheHitRatio :: rat
  sr_EvidenceValid :: bool
  sr_ProvedOriginGETReduction :: bool
  sr_Notes :: "bytes list"

definition note_if :: "bool \<Rightarrow> bytes \<Rightarrow> bytes list" where
  "note_if b n = (if b then [n] else [])"

definition summarizeWorkloadScenario ::
    "arith \<Rightarrow> bytes \<Rightarrow> benchmark_phase \<Rightarrow> benchmark_phase \<Rightarrow> bool \<Rightarrow> bool \<Rightarrow> scenario_result" where
  "summarizeWorkloadScenario a name origin slizen statusEvidenceValid physicalEvidenceValid =
     (let evidenceValid = (bp_Failures origin = 0 \<and> bp_Failures slizen = 0
            \<and> bp_ValueMismatches origin = 0 \<and> bp_ValueMismatches slizen = 0
            \<and> statusEvidenceValid \<and> physicalEvidenceValid);
          reduction = (if evidenceValid then workloadOriginGETReduction a origin slizen else 0);
          cacheHitRatio = (if evidenceValid then bp_CacheHitRatio slizen else 0);
          proved = (evidenceValid \<and> 0 < reduction \<and> 0 < bp_CacheHits slizen
            \<and> bp_UpstreamGETs slizen < bp_Reads slizen)
      in \<lparr>sr_Name = name, sr_Origin = origin, sr_Slizen = slizen, sr_P50 = bp_P50 slizen,
          sr_P95 = bp_P95 slizen, sr_P99 = bp_P99 slizen, sr_OriginGETReduction = reduction,
          sr_CacheHitRatio = cacheHitRatio, sr_EvidenceValid = evidenceValid,
          sr_ProvedOriginGETReduction = proved,
          sr_Notes =
            note_if (0 < bp_Failures origin \<or> 0 < bp_Failures slizen)
              ''origin GET reduction was suppressed because one or both phases recorded failed operations'' @
            note_if (0 < bp_ValueMismatches origin \<or> 0 < bp_ValueMismatches slizen)
              ''origin GET reduction was suppressed because one or both phases returned an unexpected value'' @
            note_if (\<not> statusEvidenceValid)
              ''origin GET reduction was suppressed because Slizen logical process-global counters did not provide isolated, monotonic evidence'' @
            note_if (\<not> physicalEvidenceValid)
              ''origin GET reduction was suppressed because INFO commandstats did not provide isolated, monotonic physical GET evidence'' @
            note_if (\<not> proved)
              ''this run did not prove origin GET reduction for the scenario''\<rparr>)"

text \<open>
  What \<^verbatim>\<open>runWorkloadBenchmark\<close> makes of one scenario: the two measured phases, the counter snapshots
  around each, Slizen's status around its phase and whether the origin's version is known.
\<close>

definition scenario_evidence ::
    "arith \<Rightarrow> bytes \<Rightarrow> bool \<Rightarrow> benchmark_phase \<Rightarrow> origin_counter \<times> origin_counter \<Rightarrow> benchmark_phase
     \<Rightarrow> status_snapshot \<times> status_snapshot \<Rightarrow> origin_counter \<times> origin_counter \<Rightarrow> scenario_result" where
  "scenario_evidence a scenario runtimeEvidenceValid originPhase originGETs slizenPhase status slizenGETs =
     (let (originPhysical, originPhase) =
            physicalEvidence originPhase (fst originGETs) (snd originGETs) bp_Reads ''direct phase reads'';
          (statusEvidenceValid, slizenPhase) =
            applyWorkloadStatusDelta a slizenPhase (fst status) (snd status);
          (slizenPhysical, slizenPhase) =
            physicalEvidence slizenPhase (fst slizenGETs) (snd slizenGETs) bp_StatusUpstreamGETs
              ''Slizen status upstream GET delta'';
          (continuity, phases) = validateSameOriginRunID [originPhase, slizenPhase]
      in summarizeWorkloadScenario a scenario (phases ! 0) (phases ! 1) statusEvidenceValid
           (originPhysical \<and> slizenPhysical \<and> continuity \<and> runtimeEvidenceValid))"

section \<open>The hot-key run\<close>

definition upstreamReduction :: "arith \<Rightarrow> benchmark_phase \<Rightarrow> benchmark_phase \<Rightarrow> rat" where
  "upstreamReduction a origin hot =
     (if bp_Requests origin = 0 \<or> bp_Requests hot = 0 \<or> 0 < bp_Failures origin \<or> 0 < bp_Failures hot
        \<or> 0 < bp_ValueMismatches origin \<or> 0 < bp_ValueMismatches hot
        \<or> bp_UpstreamGETsSource origin \<noteq> originGETsSourceCommandstats
        \<or> bp_UpstreamGETsSource hot \<noteq> originGETsSourceCommandstats
      then 0
      else
        let originRate = fdiv a (of_u64 a (bp_UpstreamGETs origin)) (of_u64 a (bp_Requests origin));
            hotRate = fdiv a (of_u64 a (bp_UpstreamGETs hot)) (of_u64 a (bp_Requests hot))
        in if originRate \<le> 0 then 0
           else max 0 (fmul a 100 (fsub a 1 (fdiv a hotRate originRate))))"

record hotkey_evidence =
  hk_Phases :: "benchmark_phase list"
  hk_UpstreamGetReduction :: rat
  hk_CacheHitRatio :: rat
  hk_EvidenceValid :: bool
  hk_ProvedReduction :: bool
  hk_Notes :: "bytes list"

text \<open>
  What \<^verbatim>\<open>runHotKeyBenchmark\<close> makes of its three measured phases. A phase is appended to the result
  when it has been evaluated; the comparison of run identifiers comes afterwards.
\<close>

definition hotkey_phase ::
    "arith \<Rightarrow> benchmark_phase \<Rightarrow> status_snapshot \<times> status_snapshot \<Rightarrow> origin_counter \<times> origin_counter
     \<Rightarrow> bool \<times> benchmark_phase" where
  "hotkey_phase a phase status gets =
     (let (statusEvidenceValid, phase) = applyHotKeyStatusDelta a phase (fst status) (snd status);
          (physicalEvidenceValid, phase) =
            physicalEvidence phase (fst gets) (snd gets) bp_StatusUpstreamGETs
              ''Slizen status upstream GET delta''
      in (statusEvidenceValid \<and> physicalEvidenceValid, phase))"

definition hotkey_evidence_of ::
    "arith \<Rightarrow> bytes \<Rightarrow> bool \<Rightarrow> bytes list \<Rightarrow> bytes list
     \<Rightarrow> benchmark_phase \<Rightarrow> origin_counter \<times> origin_counter
     \<Rightarrow> benchmark_phase \<Rightarrow> status_snapshot \<times> status_snapshot \<Rightarrow> origin_counter \<times> origin_counter
     \<Rightarrow> benchmark_phase \<Rightarrow> status_snapshot \<times> status_snapshot \<Rightarrow> origin_counter \<times> origin_counter
     \<Rightarrow> hotkey_evidence" where
  "hotkey_evidence_of a mode runtimeEvidenceValid versionNotes warmNotes
     originPhase originGETs coldPhase coldStatus coldGETs hotPhase hotStatus hotGETs =
     (let (originValid, originPhase) =
            physicalEvidence originPhase (fst originGETs) (snd originGETs) bp_Requests ''direct phase reads'';
          (coldValid, coldPhase) = hotkey_phase a coldPhase coldStatus coldGETs;
          coldPhase = add_note
            (Note ''cold phase caps requests to avoid intentionally warming the key'') coldPhase;
          coldPhase = (if mode = ''observe''
            then add_note (Note ''observe mode forwards reads and does not populate local cache'')
              (coldPhase\<lparr>bp_Name := ''slizen observe''\<rparr>)
            else coldPhase);
          (hotValid, hotPhase) = hotkey_phase a hotPhase hotStatus hotGETs;
          hotPhase = hotPhase\<lparr>bp_Notes := bp_Notes hotPhase @ map Note warmNotes\<rparr>;
          resultPhases = [originPhase, coldPhase, hotPhase];
          (continuity, phases) = validateSameOriginRunID [originPhase, coldPhase, hotPhase];
          evidenceValid = (runtimeEvidenceValid \<and> originValid \<and> coldValid \<and> hotValid \<and> continuity
            \<and> list_all (\<lambda>p. bp_Failures p = 0) phases \<and> list_all (\<lambda>p. bp_ValueMismatches p = 0) phases);
          cacheHitRatio = (if evidenceValid then bp_CacheHitRatio (phases ! 2) else 0);
          reduction = (if evidenceValid then upstreamReduction a (phases ! 0) (phases ! 2) else 0);
          proved = (evidenceValid \<and> 0 < reduction \<and> 0 < cacheHitRatio
            \<and> bp_UpstreamGETs (phases ! 2) < bp_Requests (phases ! 2))
      in \<lparr>hk_Phases = resultPhases, hk_UpstreamGetReduction = reduction,
          hk_CacheHitRatio = cacheHitRatio, hk_EvidenceValid = evidenceValid,
          hk_ProvedReduction = proved,
          hk_Notes = versionNotes @
            note_if (\<not> evidenceValid)
              ''benchmark evidence is invalid because physical origin commandstats or Slizen logical isolation checks failed'' @
            note_if (\<not> proved)
              ''benchmark did not prove upstream GET reduction for this run/configuration''\<rparr>)"

end
