(* ===== verification/EvidenceProps.thy ===== *)
theory EvidenceProps
  imports Evidence
begin

text \<open>
  What the benchmark reports mean. The percentiles computed in double precision are nearest-rank
  percentiles of the samples. A scenario or a hot-key run that claims a proved reduction rests on
  counters that were read without error from one origin process, never decreased and agree with
  the operations of the phase.
\<close>

section \<open>Doubles that are exact\<close>

lemma round64_exact:
  assumes "0 \<le> m" "m < 2 ^ 53" "- 1074 \<le> e"
  shows "round64 (of_int m * pow2 e) = of_int m * pow2 e"
proof (cases "m = 0")
  case True
  then show ?thesis by (simp add: round64_def)
next
  case False
  let ?x = "of_int m * pow2 e"
  have x: "0 < ?x" using False assms(1) by simp
  have "of_int m < (of_int (2 ^ 53) :: rat)" using assms(2) by (simp only: of_int_less_iff)
  then have hi: "?x < pow2 (53 + e)" by (simp add: pow2_add pow2_int)
  have "ilog2 ?x \<le> 52 + e"
  proof (rule ccontr)
    assume "\<not> ilog2 ?x \<le> 52 + e"
    then have "pow2 (53 + e) \<le> pow2 (ilog2 ?x)" by (intro pow2_mono) simp
    with ilog2_bounds(1) [OF x] hi show False by simp
  qed
  then have u: "ulp_exp ?x \<le> e" using assms(3) by (simp add: ulp_exp_def abs_of_pos [OF x])
  have "?x / pow2 (ulp_exp ?x) = of_int m * pow2 (e - ulp_exp ?x)"
    by (simp add: pow2_diff)
  also have "\<dots> = of_int (m * 2 ^ nat (e - ulp_exp ?x))"
    using u by (simp add: pow2_int)
  finally have "of_int (round_half_even (?x / pow2 (ulp_exp ?x))) = ?x / pow2 (ulp_exp ?x)"
    by (metis round_half_even_of_int(1))
  then show ?thesis
    using x less_imp_neq [OF pow2_pos(1) [of "ulp_exp ?x"]] by (simp add: round64_def)
qed

lemma round64_of_int: "0 \<le> n \<Longrightarrow> n < 2 ^ 53 \<Longrightarrow> round64 (of_int n) = of_int n"
  using round64_exact [of n 0] by (simp add: pow2_def)

lemma round64_of_128th:
  assumes "0 \<le> k" "k < 2 ^ 45"
  shows "round64 (of_int k + 1 / 128) = of_int k + 1 / 128"
proof -
  have "of_int (128 * k + 1) * pow2 (- 7) = of_int k + 1 / 128"
    by (simp add: pow2_def power_int_minus field_simps)
  then show ?thesis
    using round64_exact [of "128 * k + 1" "- 7"] assms by simp
qed

section \<open>Percentiles\<close>

definition percentile_rank :: "int \<Rightarrow> nat \<Rightarrow> nat" where
  "percentile_rank p n = nat \<lceil>of_int (p * int n) / (100 :: rat)\<rceil>"

lemma percent_constant:
  assumes "p \<in> {50, 95, 99}"
  shows "fdiv (f64 lg) (of_i64 (f64 lg) p) 100 \<le> of_int p / 100"
    "of_int p / 100 - 1 / 2 ^ 50 \<le> fdiv (f64 lg) (of_i64 (f64 lg) p) 100"
proof -
  have "round64 (round64 (of_int p) / 100) \<le> of_int p / 100"
    "of_int p / 100 - 1 / 2 ^ 50 \<le> round64 (round64 (of_int p) / 100)"
    if "p \<in> {50, 95, 99}" for p
  proof -
    have "round64 (1 / 2) = 1 / 2" "round64 (19 / 20) = 4278419646001971 / 4503599627370496"
      "round64 (99 / 100) = 4458563631096791 / 4503599627370496"
      by code_simp+
    with that round64_of_int [of p]
    show "round64 (round64 (of_int p) / 100) \<le> of_int p / 100"
      "of_int p / 100 - 1 / 2 ^ 50 \<le> round64 (round64 (of_int p) / 100)"
      by auto
  qed
  with assms show "fdiv (f64 lg) (of_i64 (f64 lg) p) 100 \<le> of_int p / 100"
    "of_int p / 100 - 1 / 2 ^ 50 \<le> fdiv (f64 lg) (of_i64 (f64 lg) p) 100"
    by (simp_all add: fdiv_def of_i64_def f64_def)
qed

lemma percentile_rank_bounds:
  assumes "0 < p" "p \<le> 100" "0 < n"
  shows "0 < percentile_rank p n" "percentile_rank p n \<le> n" "p * int n \<le> 100 * int (percentile_rank p n)"
    "100 * (int (percentile_rank p n) - 1) < p * int n"
proof -
  let ?q = "of_int (p * int n) / (100 :: rat)"
  have q: "0 < ?q" using assms by simp
  then have r: "int (percentile_rank p n) = \<lceil>?q\<rceil>" by (simp add: percentile_rank_def)
  have c: "of_int (int (percentile_rank p n)) - 1 < ?q" "?q \<le> of_int (int (percentile_rank p n))"
    unfolding r by linarith+
  then have "of_int (p * int n) \<le> (of_int (100 * int (percentile_rank p n)) :: rat)"
    "(of_int (100 * (int (percentile_rank p n) - 1)) :: rat) < of_int (p * int n)"
    by (simp_all add: field_simps)
  then show 1: "p * int n \<le> 100 * int (percentile_rank p n)" "100 * (int (percentile_rank p n) - 1) < p * int n"
    by (simp_all only: of_int_le_iff of_int_less_iff)
  show "0 < percentile_rank p n" using q unfolding percentile_rank_def by simp
  have "p * int n \<le> 100 * int n" using assms(2) by (intro mult_right_mono) simp_all
  with 1(2) have "100 * (int (percentile_rank p n) - 1) < 100 * int n" by (rule less_le_trans)
  then show "percentile_rank p n \<le> n" by simp
qed

lemma percentile_index:
  assumes p: "p \<in> {50, 95, 99}" and n: "0 < n" "n \<le> 2 ^ 40"
  shows "\<lceil>fmul (f64 lg) (fdiv (f64 lg) (of_i64 (f64 lg) p) 100) (of_i64 (f64 lg) (int n))\<rceil> = int (percentile_rank p n)"
proof -
  let ?c = "fdiv (f64 lg) (of_i64 (f64 lg) p) 100" and ?k = "int (percentile_rank p n)"
  define N where "N = (of_nat n :: rat)"
  have N: "0 < N" "N \<le> 2 ^ 40" using n of_nat_mono [OF n(2), where 'a = rat] by (simp_all add: N_def)
  have n': "int n \<le> 2 ^ 40" using of_nat_mono [OF n(2), where 'a = int] by simp
  have r: "0 < ?k" "?k \<le> int n" "p * int n \<le> 100 * ?k" "100 * (?k - 1) + 1 \<le> p * int n"
    using p n percentile_rank_bounds [of p n] by auto
  have up: "of_int p * N \<le> 100 * of_int ?k" and lo: "100 * (of_int ?k - 1) + 1 \<le> of_int p * N"
    using of_int_le_iff [where 'a = rat, THEN iffD2, OF r(3)] of_int_le_iff [where 'a = rat, THEN iffD2, OF r(4)]
    by (simp_all add: N_def)
  have "?c * N \<le> of_int p / 100 * N" using percent_constant(1) [OF p] N by (intro mult_right_mono) simp_all
  with up have hi: "?c * N \<le> of_int ?k" by (simp add: field_simps)
  have "(of_int p / 100 - 1 / 2 ^ 50) * N \<le> ?c * N"
    using percent_constant(2) [OF p] N by (intro mult_right_mono) simp_all
  with lo N have lower: "of_int (?k - 1) + 1 / 128 \<le> ?c * N" by (simp add: field_simps)
  have k: "0 \<le> ?k - 1" "?k - 1 < 2 ^ 45" "?k < 2 ^ 53" using r n' by simp_all
  have "round64 (?c * N) \<le> of_int ?k"
    using round64_mono [OF _ hi] round64_of_int [of ?k] k lower by simp
  moreover have "of_int (?k - 1) + 1 / 128 \<le> round64 (?c * N)"
    using round64_mono [OF _ lower] round64_of_128th [OF k(1,2)] k(1) by simp
  ultimately have "\<lceil>round64 (?c * N)\<rceil> = ?k" by (simp add: ceiling_eq_iff)
  moreover have "of_i64 (f64 lg) (int n) = N"
    using round64_of_int [of "int n"] n' by (simp add: of_i64_def f64_def N_def)
  ultimately show ?thesis by (simp add: fmul_def f64_def)
qed

definition millis :: "arith \<Rightarrow> duration \<Rightarrow> rat" where
  "millis a d = fdiv a (of_i64 a (Microseconds d)) 1000"

text \<open>At least \<open>p\<close> percent of the samples are at most \<open>v\<close>, and fewer are below it.\<close>

definition nearest_rank :: "int \<Rightarrow> duration list \<Rightarrow> duration \<Rightarrow> bool" where
  "nearest_rank p ds v \<longleftrightarrow> v \<in> set ds
     \<and> p * int (length ds) \<le> 100 * int (length (filter (\<lambda>d. d \<le> v) ds))
     \<and> 100 * int (length (filter (\<lambda>d. d < v) ds)) < p * int (length ds)"

lemma sorted_filter_bounds:
  fixes xs :: "int list"
  assumes "sorted xs" "k < length xs"
  shows "Suc k \<le> length (filter (\<lambda>d. d \<le> xs ! k) xs)" "length (filter (\<lambda>d. d < xs ! k) xs) \<le> k"
proof -
  have "filter (\<lambda>d. d \<le> xs ! k) (take (Suc k) xs) = take (Suc k) xs"
    using assms by (auto simp: filter_id_conv in_set_conv_nth sorted_nth_mono)
  then have "Suc k = length (filter (\<lambda>d. d \<le> xs ! k) (take (Suc k) xs))" using assms by simp
  also have "\<dots> \<le> length (filter (\<lambda>d. d \<le> xs ! k) (take (Suc k) xs @ drop (Suc k) xs))"
    unfolding filter_append length_append by simp
  finally show "Suc k \<le> length (filter (\<lambda>d. d \<le> xs ! k) xs)" by simp
  have "filter (\<lambda>d. d < xs ! k) (drop k xs) = []"
    using assms by (auto simp: filter_empty_conv in_set_conv_nth sorted_nth_mono not_less)
  then have "length (filter (\<lambda>d. d < xs ! k) (take k xs @ drop k xs)) \<le> length (take k xs)"
    unfolding filter_append using length_filter_le [of _ "take k xs"] by (simp del: length_take)
  then show "length (filter (\<lambda>d. d < xs ! k) xs) \<le> k" using assms by simp
qed

lemma sorted_nearest_rank:
  assumes "ds \<noteq> []" "0 < p" "p \<le> 100"
  shows "nearest_rank p ds (sort ds ! (percentile_rank p (length ds) - 1))"
proof -
  let ?r = "percentile_rank p (length ds)" and ?v = "sort ds ! (percentile_rank p (length ds) - 1)"
  note r = percentile_rank_bounds [OF assms(2,3), of "length ds"]
  have l: "?r - 1 < length (sort ds)" using r(1,2) assms(1) by simp
  have f: "length (filter Q (sort ds)) = length (filter Q ds)" for Q
    by (simp add: filter_sort)
  have "?r \<le> length (filter (\<lambda>d. d \<le> ?v) ds)" "length (filter (\<lambda>d. d < ?v) ds) < ?r"
    using sorted_filter_bounds [OF sorted_sort l] r(1) assms(1) by (simp_all add: f less_Suc_eq_le [symmetric])
  moreover have "?v \<in> set ds" using nth_mem [OF l] by simp
  ultimately show ?thesis
    using r(3,4) assms(1) by (simp add: nearest_rank_def)
qed

lemma percentile_value:
  assumes "p \<in> {50, 95, 99}" "ds \<noteq> []" "length ds \<le> 2 ^ 40"
  shows "percentileMillis (f64 lg) ds p = millis (f64 lg) (ds ! (percentile_rank p (length ds) - 1))"
proof -
  have r: "0 < percentile_rank p (length ds)" "percentile_rank p (length ds) \<le> length ds"
    using assms percentile_rank_bounds [of p "length ds"] by auto
  then have "nat (int (percentile_rank p (length ds)) - 1) = percentile_rank p (length ds) - 1" by simp
  then show ?thesis
    using percentile_index [OF assms(1), of "length ds" lg] assms r
    by (auto simp: percentileMillis_def millis_def Let_def)
qed

text \<open>
  C40: The 50th, 95th and 99th percentile a phase reports are the nearest-rank percentiles of its
  samples, converted to milliseconds: the rounding of the double-precision index computation never
  moves the rank, for up to \<open>2 ^ 40\<close> samples.
\<close>

theorem latency_percentiles:
  assumes "ds \<noteq> []" "length ds \<le> 2 ^ 40"
  shows "\<exists>v50 v95 v99. nearest_rank 50 ds v50 \<and> nearest_rank 95 ds v95 \<and> nearest_rank 99 ds v99 \<and>
    latencyDistributionFor (f64 lg) ds = \<lparr>ld_Samples = of_nat (length ds),
      ld_P50 = millis (f64 lg) v50, ld_P95 = millis (f64 lg) v95, ld_P99 = millis (f64 lg) v99\<rparr>"
proof -
  have "sort ds \<noteq> []" using assms(1) by (metis set_empty set_sort)
  then have "percentileMillis (f64 lg) (sort ds) p = millis (f64 lg) (sort ds ! (percentile_rank p (length ds) - 1))"
    if "p \<in> {50, 95, 99}" for p
    using percentile_value [OF that, of "sort ds" lg] assms by simp
  then show ?thesis
    using sorted_nearest_rank [OF assms(1)]
    by (intro exI [of _ "sort ds ! (percentile_rank 50 (length ds) - 1)"] exI [of _ "sort ds ! (percentile_rank 95 (length ds) - 1)"]
        exI [of _ "sort ds ! (percentile_rank 99 (length ds) - 1)"])
      (simp add: latencyDistributionFor_def Let_def)
qed

theorem latency_percentiles_witness:
  "\<exists>v50 v95 v99. nearest_rank 50 [7, 5, 6 :: int] v50 \<and> nearest_rank 95 [7, 5, 6] v95
     \<and> nearest_rank 99 [7, 5, 6] v99 \<and>
    latencyDistributionFor (f64 id) [7, 5, 6] = \<lparr>ld_Samples = 3,
      ld_P50 = millis (f64 id) v50, ld_P95 = millis (f64 id) v95, ld_P99 = millis (f64 id) v99\<rparr>"
  using latency_percentiles [of "[7, 5, 6]" id] by simp

section \<open>Counters that can be trusted\<close>

text \<open>Two readings of one origin process, both complete, whose counter did not decrease.\<close>

definition same_origin :: "origin_counter \<Rightarrow> origin_counter \<Rightarrow> bool" where
  "same_origin b c \<longleftrightarrow> oc_Err b = None \<and> oc_Err c = None \<and> oc_RunID b \<noteq> []
     \<and> oc_RunID c = oc_RunID b \<and> oc_Calls b \<le> oc_Calls c"

text \<open>Two status snapshots of one daemon whose counters did not decrease.\<close>

definition same_daemon :: "status_snapshot \<Rightarrow> status_snapshot \<Rightarrow> bool" where
  "same_daemon b c \<longleftrightarrow> ss_Version c = ss_Version b \<and> ss_Commit c = ss_Commit b \<and> ss_Mode c = ss_Mode b
     \<and> ss_KeyVisibility c = ss_KeyVisibility b
     \<and> (\<exists>u v. ParseDuration (ss_Uptime b) = Some u \<and> ParseDuration (ss_Uptime c) = Some v \<and> u \<le> v)
     \<and> ss_RequestsTotal b \<le> ss_RequestsTotal c \<and> ss_CacheHitsTotal b \<le> ss_CacheHitsTotal c
     \<and> ss_CacheMissesTotal b \<le> ss_CacheMissesTotal c \<and> ss_MissesPolicyBypass b \<le> ss_MissesPolicyBypass c
     \<and> ss_MissesNotAdmitted b \<le> ss_MissesNotAdmitted c \<and> ss_MissesNotPresent b \<le> ss_MissesNotPresent c
     \<and> ss_UpstreamRequestsTotal b \<le> ss_UpstreamRequestsTotal c \<and> ss_UpstreamGETsTotal b \<le> ss_UpstreamGETsTotal c
     \<and> ss_CoalescedRequestsTotal b \<le> ss_CoalescedRequestsTotal c \<and> ss_InvalidationsTotal b \<le> ss_InvalidationsTotal c
     \<and> ss_PromotionsTotal b \<le> ss_PromotionsTotal c \<and> ss_DemotionsTotal b \<le> ss_DemotionsTotal c"

lemma no_counter_decreased:
  "\<not> counters_decreased b c \<longleftrightarrow>
     ss_RequestsTotal b \<le> ss_RequestsTotal c \<and> ss_CacheHitsTotal b \<le> ss_CacheHitsTotal c \<and>
     ss_CacheMissesTotal b \<le> ss_CacheMissesTotal c \<and> ss_MissesPolicyBypass b \<le> ss_MissesPolicyBypass c \<and>
     ss_MissesNotAdmitted b \<le> ss_MissesNotAdmitted c \<and> ss_MissesNotPresent b \<le> ss_MissesNotPresent c \<and>
     ss_UpstreamRequestsTotal b \<le> ss_UpstreamRequestsTotal c \<and> ss_UpstreamGETsTotal b \<le> ss_UpstreamGETsTotal c \<and>
     ss_CoalescedRequestsTotal b \<le> ss_CoalescedRequestsTotal c \<and> ss_InvalidationsTotal b \<le> ss_InvalidationsTotal c \<and>
     ss_PromotionsTotal b \<le> ss_PromotionsTotal c \<and> ss_DemotionsTotal b \<le> ss_DemotionsTotal c"
  by (simp add: counters_decreased_def not_less)

lemma physicalEvidence_valid:
  "physicalEvidence ph b c ex t = (True, ph') \<longleftrightarrow> same_origin b c
     \<and> ph' = ph\<lparr>bp_UpstreamGETsSource := originGETsSourceCommandstats,
         bp_UpstreamGETs := oc_Calls c - oc_Calls b, bp_OriginRunID := oc_RunID b\<rparr>
     \<and> oc_Calls c - oc_Calls b = ex ph'"
  by (auto simp: physicalEvidence_def applyOriginGETCounterDelta_def Let_def same_origin_def
      validatePhysicalOriginGETIsolation_def split: option.splits if_splits)

lemma no_invalid_reason: "invalidStatusDeltaReason b c = [] \<longleftrightarrow> same_daemon b c"
  by (auto simp: invalidStatusDeltaReason_def same_daemon_def no_counter_decreased [symmetric] split: option.splits)

lemma require_valid: "require ok m x = (True, ph) \<longleftrightarrow> ok \<and> x = (True, ph)"
  by (auto simp: require_def split: prod.splits)

lemma status_evidence_valid:
  "apply_status_evidence a reads ph b c = (True, ph') \<longleftrightarrow>
     same_daemon b c \<and> ph' = applyStatusDelta a b c ph
     \<and> ss_RequestsTotal c - ss_RequestsTotal b = bp_Requests ph' + bp_Failures ph'
     \<and> (bp_Failures ph' = 0 \<longrightarrow> bp_CacheHits ph' + bp_CacheMisses ph' = reads ph'
          \<and> bp_StatusUpstreamGETs ph' \<le> reads ph')"
  by (auto simp: apply_status_evidence_def Let_def no_invalid_reason require_valid)

lemma applyStatusDelta_fields [simp]:
  "bp_Requests (applyStatusDelta a b c ph) = bp_Requests ph"
  "bp_Reads (applyStatusDelta a b c ph) = bp_Reads ph"
  "bp_Failures (applyStatusDelta a b c ph) = bp_Failures ph"
  "bp_ValueMismatches (applyStatusDelta a b c ph) = bp_ValueMismatches ph"
  by (simp_all add: applyStatusDelta_def Let_def)

lemma same_daemon_delta:
  assumes "same_daemon b c"
  shows "bp_CacheHits (applyStatusDelta a b c ph) = ss_CacheHitsTotal c - ss_CacheHitsTotal b"
    "bp_CacheMisses (applyStatusDelta a b c ph) = ss_CacheMissesTotal c - ss_CacheMissesTotal b"
    "bp_StatusUpstreamGETs (applyStatusDelta a b c ph) = ss_UpstreamGETsTotal c - ss_UpstreamGETsTotal b"
proof -
  have "\<not> ss_CacheHitsTotal c < ss_CacheHitsTotal b" "\<not> ss_CacheMissesTotal c < ss_CacheMissesTotal b"
    "\<not> ss_UpstreamGETsTotal c < ss_UpstreamGETsTotal b"
    using assms unfolding same_daemon_def not_less by blast+
  then show "bp_CacheHits (applyStatusDelta a b c ph) = ss_CacheHitsTotal c - ss_CacheHitsTotal b"
    "bp_CacheMisses (applyStatusDelta a b c ph) = ss_CacheMissesTotal c - ss_CacheMissesTotal b"
    "bp_StatusUpstreamGETs (applyStatusDelta a b c ph) = ss_UpstreamGETsTotal c - ss_UpstreamGETsTotal b"
    by (simp_all add: applyStatusDelta_def Let_def subtractUint64_def)
qed

lemma same_run_ids:
  "validateSameOriginRunID [p, q] = (True, phases) \<longleftrightarrow>
     bp_OriginRunID p \<noteq> [] \<and> bp_OriginRunID q = bp_OriginRunID p \<and> phases = [p, q]"
  "validateSameOriginRunID [p, q, r] = (True, phases) \<longleftrightarrow>
     bp_OriginRunID p \<noteq> [] \<and> bp_OriginRunID q = bp_OriginRunID p \<and> bp_OriginRunID r = bp_OriginRunID p
     \<and> phases = [p, q, r]"
  by (auto simp: validateSameOriginRunID_def)

section \<open>The percentage\<close>

lemma round64_100: "round64 100 = 100"
  using round64_of_int [of 100] by simp

lemma round64_nonpos: assumes "y \<le> 0" shows "round64 y \<le> 0"
proof -
  have "y / pow2 (ulp_exp y) \<le> 0" using assms by (simp add: divide_nonpos_pos)
  then have "round_half_even (y / pow2 (ulp_exp y)) \<le> 0"
    using round_half_even_mono [of _ 0] by simp
  then show ?thesis by (simp add: round64_def mult_nonpos_nonneg)
qed

lemma reduction_le_100:
  assumes "0 \<le> x" shows "round64 (100 * round64 (1 - x)) \<le> 100"
proof (cases "x \<le> 1")
  case True
  then have "round64 (1 - x) \<le> 1" "0 \<le> round64 (1 - x)"
    using assms ieee.r_le_1 [of "1 - x"] ieee.r_nonneg [of "1 - x"] by simp_all
  then show ?thesis
    using round64_mono [of "100 * round64 (1 - x)" 100] by (simp add: round64_100)
next
  case False
  then have "100 * round64 (1 - x) \<le> 0" using round64_nonpos [of "1 - x"] by simp
  then have "round64 (100 * round64 (1 - x)) \<le> 0" by (rule round64_nonpos)
  then show ?thesis by simp
qed

lemma of_u64_nonneg: "0 \<le> of_u64 (f64 lg) n"
  using ieee.r_nonneg [of "of_int (uint n)"] by (simp add: of_u64_def of_i64_def f64_def del: of_int_uint)

lemma fdiv_nonneg: "0 \<le> x \<Longrightarrow> 0 \<le> y \<Longrightarrow> 0 \<le> fdiv (f64 lg) x y"
  by (simp add: fdiv_def f64_def ieee.r_nonneg)

lemma reduction_fle_100: "0 \<le> x \<Longrightarrow> fmul (f64 lg) 100 (fsub (f64 lg) 1 x) \<le> 100"
  using reduction_le_100 by (simp add: fmul_def fsub_def f64_def)

lemma workload_reduction_le_100: "workloadOriginGETReduction (f64 lg) p q \<le> 100"
  by (simp add: workloadOriginGETReduction_def Let_def reduction_fle_100 fdiv_nonneg of_u64_nonneg)

lemma upstream_reduction_le_100: "upstreamReduction (f64 lg) p q \<le> 100"
  by (simp add: upstreamReduction_def Let_def reduction_fle_100 fdiv_nonneg of_u64_nonneg)

section \<open>A proved reduction\<close>

lemma summarize_fields:
  "sr_EvidenceValid (summarizeWorkloadScenario a sc p q v w) \<longleftrightarrow>
     bp_Failures p = 0 \<and> bp_Failures q = 0 \<and> bp_ValueMismatches p = 0 \<and> bp_ValueMismatches q = 0 \<and> v \<and> w"
  "sr_ProvedOriginGETReduction (summarizeWorkloadScenario a sc p q v w) \<longleftrightarrow>
     sr_EvidenceValid (summarizeWorkloadScenario a sc p q v w)
     \<and> 0 < sr_OriginGETReduction (summarizeWorkloadScenario a sc p q v w)
     \<and> 0 < bp_CacheHits q \<and> bp_UpstreamGETs q < bp_Reads q"
  "sr_OriginGETReduction (summarizeWorkloadScenario a sc p q v w) =
     (if sr_EvidenceValid (summarizeWorkloadScenario a sc p q v w)
      then workloadOriginGETReduction a p q else 0)"
  unfolding summarizeWorkloadScenario_def Let_def scenario_result.select_convs by (rule refl)+

lemma scenario_evidence_parts:
  obtains v1 p' v2 q' v3 q'' v4 ps where
    "physicalEvidence p pb pc bp_Reads ''direct phase reads'' = (v1, p')"
    "apply_status_evidence a bp_Reads q sb sc' = (v2, q')"
    "physicalEvidence q' qb qc bp_StatusUpstreamGETs ''Slizen status upstream GET delta'' = (v3, q'')"
    "validateSameOriginRunID [p', q''] = (v4, ps)"
    "scenario_evidence a sc ok p (pb, pc) q (sb, sc') (qb, qc) =
       summarizeWorkloadScenario a sc (ps ! 0) (ps ! 1) v2 (v1 \<and> v3 \<and> v4 \<and> ok)"
proof -
  obtain v1 p' where 1: "physicalEvidence p pb pc bp_Reads ''direct phase reads'' = (v1, p')" by fastforce
  obtain v2 q' where 2: "apply_status_evidence a bp_Reads q sb sc' = (v2, q')" by fastforce
  obtain v3 q'' where 3: "physicalEvidence q' qb qc bp_StatusUpstreamGETs
    ''Slizen status upstream GET delta'' = (v3, q'')" by fastforce
  obtain v4 ps where 4: "validateSameOriginRunID [p', q''] = (v4, ps)" by fastforce
  have "scenario_evidence a sc ok p (pb, pc) q (sb, sc') (qb, qc) =
       summarizeWorkloadScenario a sc (ps ! 0) (ps ! 1) v2 (v1 \<and> v3 \<and> v4 \<and> ok)"
    unfolding scenario_evidence_def applyWorkloadStatusDelta_def fst_conv snd_conv 1 2 Let_def prod.case 3 4
    by (rule refl)
  with 1 2 3 4 show thesis by (rule that)
qed

text \<open>
  C10: A workload scenario that claims a proved reduction of origin GETs rests on sound evidence:
  both phases ran without a failed operation or an unexpected value; all four readings of the
  origin's GET counter came from one origin process and it never decreased; the direct phase sent
  exactly as many GETs as it made reads; Slizen's daemon was not restarted, counted every request
  of the phase and no other, decided a hit or a miss for every read, and itself counted the GETs
  the origin received. The origin received fewer GETs than Slizen answered reads, so fewer per
  read than in the direct phase, and the reported percentage is in \<open>(0, 100]\<close>.
\<close>

theorem workload_proof_sound:
  assumes "r = scenario_evidence (f64 lg) sc ok p (pb, pc) q (sb, sc') (qb, qc)"
    and "sr_ProvedOriginGETReduction r"
  shows "ok \<and> bp_Failures p = 0 \<and> bp_ValueMismatches p = 0 \<and> bp_Failures q = 0 \<and> bp_ValueMismatches q = 0
    \<and> same_origin pb pc \<and> same_origin qb qc \<and> oc_RunID qb = oc_RunID pb \<and> same_daemon sb sc'
    \<and> oc_Calls pc - oc_Calls pb = bp_Reads p
    \<and> oc_Calls qc - oc_Calls qb = ss_UpstreamGETsTotal sc' - ss_UpstreamGETsTotal sb
    \<and> ss_RequestsTotal sc' - ss_RequestsTotal sb = bp_Requests q
    \<and> (ss_CacheHitsTotal sc' - ss_CacheHitsTotal sb) + (ss_CacheMissesTotal sc' - ss_CacheMissesTotal sb)
        = bp_Reads q
    \<and> 0 < ss_CacheHitsTotal sc' - ss_CacheHitsTotal sb
    \<and> oc_Calls qc - oc_Calls qb < bp_Reads q
    \<and> 0 < sr_OriginGETReduction r \<and> sr_OriginGETReduction r \<le> 100"
proof -
  obtain v1 p' v2 q' v3 q'' v4 ps where e:
    "physicalEvidence p pb pc bp_Reads ''direct phase reads'' = (v1, p')"
    "apply_status_evidence (f64 lg) bp_Reads q sb sc' = (v2, q')"
    "physicalEvidence q' qb qc bp_StatusUpstreamGETs ''Slizen status upstream GET delta'' = (v3, q'')"
    "validateSameOriginRunID [p', q''] = (v4, ps)"
    and r: "r = summarizeWorkloadScenario (f64 lg) sc (ps ! 0) (ps ! 1) v2 (v1 \<and> v3 \<and> v4 \<and> ok)"
    unfolding assms(1) by (rule scenario_evidence_parts)
  have v: "v1 = True" "v2 = True" "v3 = True" "v4 = True" "ok"
    and z: "bp_Failures (ps ! 0) = 0" "bp_ValueMismatches (ps ! 0) = 0" "bp_Failures (ps ! 1) = 0"
      "bp_ValueMismatches (ps ! 1) = 0" "0 < sr_OriginGETReduction r" "0 < bp_CacheHits (ps ! 1)"
      "bp_UpstreamGETs (ps ! 1) < bp_Reads (ps ! 1)" "sr_OriginGETReduction r \<le> 100"
    using assms(2) workload_reduction_le_100 unfolding r summarize_fields
    by (simp_all del: One_nat_def split: if_splits)
  note f = e [unfolded v physicalEvidence_valid status_evidence_valid same_run_ids]
  have ps: "ps ! 0 = p'" "ps ! 1 = q''" and d: "same_daemon sb sc'"
    using f(4) f(2) [THEN conjunct1] by simp_all
  note p'_eq = f(1) [THEN conjunct2, THEN conjunct1]
    and q'_eq = f(2) [THEN conjunct2, THEN conjunct1]
    and q''_eq = f(3) [THEN conjunct2, THEN conjunct1]
  have p': "bp_Failures p' = bp_Failures p" "bp_ValueMismatches p' = bp_ValueMismatches p"
    "bp_Reads p' = bp_Reads p" "bp_OriginRunID p' = oc_RunID pb"
    by (simp_all add: p'_eq)
  have q': "bp_Failures q' = bp_Failures q" "bp_ValueMismatches q' = bp_ValueMismatches q"
    "bp_Reads q' = bp_Reads q" "bp_Requests q' = bp_Requests q"
    by (simp_all add: q'_eq)
  have q'': "bp_Failures q'' = bp_Failures q" "bp_ValueMismatches q'' = bp_ValueMismatches q"
    "bp_Reads q'' = bp_Reads q" "bp_CacheHits q'' = bp_CacheHits q'"
    "bp_UpstreamGETs q'' = oc_Calls qc - oc_Calls qb" "bp_OriginRunID q'' = oc_RunID qb"
    "bp_StatusUpstreamGETs q'' = bp_StatusUpstreamGETs q'"
    by (simp_all add: q''_eq q')
  have dd: "bp_CacheHits q' = ss_CacheHitsTotal sc' - ss_CacheHitsTotal sb"
    "bp_CacheMisses q' = ss_CacheMissesTotal sc' - ss_CacheMissesTotal sb"
    "bp_StatusUpstreamGETs q' = ss_UpstreamGETsTotal sc' - ss_UpstreamGETsTotal sb"
    unfolding q'_eq by (rule same_daemon_delta [OF d])+
  note z' = z [unfolded ps p' q'' dd]
  have "oc_Calls pc - oc_Calls pb = bp_Reads p"
    using f(1) [THEN conjunct2, THEN conjunct2] unfolding p' .
  moreover have "oc_Calls qc - oc_Calls qb = ss_UpstreamGETsTotal sc' - ss_UpstreamGETsTotal sb"
    using f(3) [THEN conjunct2, THEN conjunct2] unfolding q'' dd .
  moreover have "ss_RequestsTotal sc' - ss_RequestsTotal sb = bp_Requests q"
    using f(2) [THEN conjunct2, THEN conjunct2, THEN conjunct1] z'(3) unfolding q' by simp
  moreover have "(ss_CacheHitsTotal sc' - ss_CacheHitsTotal sb) +
      (ss_CacheMissesTotal sc' - ss_CacheMissesTotal sb) = bp_Reads q"
    using f(2) [THEN conjunct2, THEN conjunct2, THEN conjunct2] z'(3) unfolding q' dd by blast
  moreover have "oc_RunID qb = oc_RunID pb"
    using f(4) unfolding p' q'' by blast
  ultimately show ?thesis
    using z' v(5) d f(1) [THEN conjunct1] f(3) [THEN conjunct1] by blast
qed

section \<open>Concrete runs\<close>

definition run_phase :: "bytes \<Rightarrow> u64 \<Rightarrow> benchmark_phase" where
  "run_phase name n = empty_phase\<lparr>bp_Name := name, bp_Requests := n, bp_Reads := n\<rparr>"

definition counter_at :: "bytes \<Rightarrow> u64 \<Rightarrow> origin_counter" where
  "counter_at run n = \<lparr>oc_Calls = n, oc_RunID = run, oc_Err = None\<rparr>"

definition status_at :: "bytes \<Rightarrow> u64 \<Rightarrow> u64 \<Rightarrow> status_snapshot" where
  "status_at up hits gets = \<lparr>ss_Version = ''1'', ss_Commit = [], ss_Mode = ''cache'',
     ss_KeyVisibility = ''hash'', ss_Uptime = up, ss_RequestsTotal = hits + gets, ss_CacheHitsTotal = hits,
     ss_CacheMissesTotal = gets, ss_MissesPolicyBypass = 0, ss_MissesNotAdmitted = gets,
     ss_MissesNotPresent = 0, ss_UpstreamRequestsTotal = gets, ss_UpstreamGETsTotal = gets,
     ss_CoalescedRequestsTotal = 0, ss_InvalidationsTotal = 0, ss_PromotionsTotal = 0,
     ss_DemotionsTotal = 0, ss_CacheEntries = 1, ss_CacheBytes = 10, ss_HotKeys = 1\<rparr>"

definition good_scenario :: scenario_result where
  "good_scenario = scenario_evidence (f64 id) ''uniform'' True
     (run_phase ''origin direct'' 10) (counter_at ''a'' 0, counter_at ''a'' 10)
     (run_phase ''slizen'' 10) (status_at ''1s'' 0 0, status_at ''2s'' 8 2)
     (counter_at ''a'' 10, counter_at ''a'' 12)"

lemma good_scenario_proved: "sr_ProvedOriginGETReduction good_scenario"
  by code_simp

theorem workload_proof_sound_witness:
  "oc_Calls (counter_at ''a'' 12) - oc_Calls (counter_at ''a'' 10) < bp_Reads (run_phase ''slizen'' 10)
   \<and> 0 < sr_OriginGETReduction good_scenario \<and> sr_OriginGETReduction good_scenario \<le> 100"
  using workload_proof_sound [OF good_scenario_def good_scenario_proved] by blast

text \<open>
  The hot-key run appends each phase to its result before the run identifiers of the phases are
  compared: an origin restart between two phases invalidates the evidence, but the note that says
  so reaches none of the reported phases.
\<close>

definition restarted_hotkey :: hotkey_evidence where
  "restarted_hotkey = hotkey_evidence_of (f64 id) ''cache'' True [] []
     (run_phase ''origin direct'' 10) (counter_at ''a'' 0, counter_at ''a'' 10)
     (run_phase ''slizen cold'' 2) (status_at ''1s'' 0 0, status_at ''2s'' 0 2)
     (counter_at ''b'' 10, counter_at ''b'' 12)
     (run_phase ''slizen hot'' 10) (status_at ''2s'' 0 2, status_at ''3s'' 10 2)
     (counter_at ''b'' 12, counter_at ''b'' 12)"

lemma hotkey_restart_note_lost:
  "\<not> hk_EvidenceValid restarted_hotkey \<and>
   map bp_Notes (hk_Phases restarted_hotkey) =
     [[], [Note ''cold phase caps requests to avoid intentionally warming the key''], []]"
  by code_simp

end
