(* ===== verification/WorkloadRun.thy ===== *)
theory WorkloadRun
  imports
    WorkloadProps
    Evidence
begin

text \<open>
  A measured workload phase (\<^verbatim>\<open>runRedisWorkloadWithClients\<close> and \<^verbatim>\<open>validateWrittenWorkloadValues\<close> of
  \<^verbatim>\<open>cmd/slizenctl/benchmark.go\<close>). The workers run concurrently: a worker either sees that the time
  is over, takes the next operation index from the shared counter, or executes the operation it
  took. An operation holds the lock of its key from reading the expected version to the reply, so
  it is one step; operations are executed in any order, whatever the order of their indices. The
  Redis client is a parameter, and the measured times are part of the events.

  \<open>workload_step\<close> also returns what the client answered, which the code does not keep.
\<close>

section \<open>Workers\<close>

record worker_result =
  wr_latencies :: "duration list"
  wr_readLatencies :: "duration list"
  wr_writeLatencies :: "duration list"
  wr_readWaits :: "duration list"
  wr_writeWaits :: "duration list"
  wr_reads :: u64
  wr_writes :: u64
  wr_failures :: u64
  wr_mismatches :: u64

definition no_result :: worker_result where
  "no_result = \<lparr>wr_latencies = [], wr_readLatencies = [], wr_writeLatencies = [], wr_readWaits = [],
     wr_writeWaits = [], wr_reads = 0, wr_writes = 0, wr_failures = 0, wr_mismatches = 0\<rparr>"

record timing =
  tm_elapsed :: duration
  tm_command :: duration
  tm_wait :: duration

record 'w kv_client =
  kv_Get :: "bytes \<Rightarrow> 'w \<Rightarrow> (bytes + bytes) \<times> 'w"
  kv_Set :: "bytes \<Rightarrow> bytes \<Rightarrow> 'w \<Rightarrow> bytes option \<times> 'w"

text \<open>The tail of the loop body: what a worker records of an operation.\<close>

definition record_failure :: "bool \<Rightarrow> worker_result \<Rightarrow> worker_result" where
  "record_failure valueMismatch wr = wr\<lparr>wr_failures := wr_failures wr + 1,
     wr_mismatches := (if valueMismatch then wr_mismatches wr + 1 else wr_mismatches wr)\<rparr>"

definition record_read :: "timing \<Rightarrow> worker_result \<Rightarrow> worker_result" where
  "record_read tm wr = wr\<lparr>wr_latencies := wr_latencies wr @ [tm_elapsed tm],
     wr_readLatencies := wr_readLatencies wr @ [tm_command tm],
     wr_readWaits := wr_readWaits wr @ [tm_wait tm], wr_reads := wr_reads wr + 1\<rparr>"

definition record_write :: "timing \<Rightarrow> worker_result \<Rightarrow> worker_result" where
  "record_write tm wr = wr\<lparr>wr_latencies := wr_latencies wr @ [tm_elapsed tm],
     wr_writeLatencies := wr_writeLatencies wr @ [tm_command tm],
     wr_writeWaits := wr_writeWaits wr @ [tm_wait tm], wr_writes := wr_writes wr + 1\<rparr>"

datatype obs = Got nat bytes | GetFailed nat | Wrote nat bytes | SetFailed nat

record 'w harness =
  hn_client :: "'w kv_client"
  hn_sha :: "bytes \<Rightarrow> bytes"
  hn_keys :: "bytes list"
  hn_values :: workload_values
  hn_scenario :: bytes
  hn_cfg :: workload_config

definition read_operation ::
    "'w harness \<Rightarrow> timing \<Rightarrow> nat \<Rightarrow> u64 \<Rightarrow> worker_result \<Rightarrow> 'w \<Rightarrow> obs \<times> worker_result \<times> 'w" where
  "read_operation h tm k expectedVersion wr w =
     (case kv_Get (hn_client h) (hn_keys h ! k) w of
        (Inl e, w) \<Rightarrow> (GetFailed k, record_failure False wr, w)
      | (Inr val, w) \<Rightarrow>
          if \<not> Matches (hn_sha h) (hn_values h) k expectedVersion val
          then (Got k val, record_failure True wr, w)
          else (Got k val, record_read tm wr, w))"

definition write_operation ::
    "'w harness \<Rightarrow> timing \<Rightarrow> nat \<Rightarrow> u64 \<Rightarrow> worker_result \<Rightarrow> 'w \<Rightarrow> obs \<times> worker_result \<times> u64 \<times> 'w" where
  "write_operation h tm k version wr w =
     (let nextVersion = version + 1;
          val = Fill (hn_sha h) (hn_values h) k nextVersion (replicate (wv_size (hn_values h)) (char_of (0 :: nat)))
      in case kv_Set (hn_client h) (hn_keys h ! k) val w of
           (Some e, w) \<Rightarrow> (SetFailed k, record_failure False wr, version, w)
         | (None, w) \<Rightarrow> (Wrote k val, record_write tm wr, nextVersion, w))"

section \<open>The concurrent loop\<close>

datatype worker_phase = Looping | Holding u64 | Returned

record 'w run =
  rn_issued :: u64
  rn_at :: "worker_phase list"
  rn_workers :: "worker_result list"
  rn_versions :: "u64 list"
  rn_world :: 'w

datatype run_event = Expire nat | Issue nat | Execute nat timing

definition start_run :: "'w harness \<Rightarrow> 'w \<Rightarrow> 'w run" where
  "start_run h w =
     (let n = nat (wc_Concurrency (hn_cfg h))
      in \<lparr>rn_issued = 0, rn_at = replicate n Looping, rn_workers = replicate n no_result,
          rn_versions = replicate (length (hn_keys h)) 0, rn_world = w\<rparr>)"

definition issue :: "'w harness \<Rightarrow> nat \<Rightarrow> 'w run \<Rightarrow> 'w run" where
  "issue h i r =
     (let operationIndex = rn_issued r
      in r\<lparr>rn_issued := operationIndex + 1,
           rn_at := (rn_at r)[i :=
             if word_of_int (wc_MaxRequests (hn_cfg h)) \<le> operationIndex then Returned
             else Holding operationIndex]\<rparr>)"

definition execute :: "'w harness \<Rightarrow> nat \<Rightarrow> timing \<Rightarrow> nat \<Rightarrow> bool \<Rightarrow> 'w run \<Rightarrow> obs \<times> 'w run" where
  "execute h i tm k rd r =
     (if rd then
        case read_operation h tm k (rn_versions r ! k) (rn_workers r ! i) (rn_world r) of
          (ob, wr, w) \<Rightarrow> (ob, r\<lparr>rn_at := (rn_at r)[i := Looping],
            rn_workers := (rn_workers r)[i := wr], rn_world := w\<rparr>)
      else
        case write_operation h tm k (rn_versions r ! k) (rn_workers r ! i) (rn_world r) of
          (ob, wr, version, w) \<Rightarrow> (ob, r\<lparr>rn_at := (rn_at r)[i := Looping],
            rn_workers := (rn_workers r)[i := wr],
            rn_versions := (rn_versions r)[k := version], rn_world := w\<rparr>))"

text \<open>One step of one worker; \<open>None\<close> if the worker is not at that point of its loop.\<close>

fun workload_step :: "'w harness \<Rightarrow> run_event \<Rightarrow> 'w run \<Rightarrow> (obs list \<times> 'w run) option" where
  "workload_step h (Expire i) r =
     (if i < length (rn_at r) \<and> rn_at r ! i = Looping
      then Some ([], r\<lparr>rn_at := (rn_at r)[i := Returned]\<rparr>) else None)"
| "workload_step h (Issue i) r =
     (if i < length (rn_at r) \<and> rn_at r ! i = Looping then Some ([], issue h i r) else None)"
| "workload_step h (Execute i tm) r =
     (if \<not> i < length (rn_at r) then None
      else case rn_at r ! i of
          Holding operationIndex \<Rightarrow>
            (case workloadRequestAt (hn_scenario h) (hn_cfg h) operationIndex of
               None \<Rightarrow> None
             | Some (k, rd) \<Rightarrow>
                 if 0 \<le> k \<and> k < int (length (hn_keys h))
                 then (case execute h i tm (nat k) rd r of (ob, r) \<Rightarrow> Some ([ob], r))
                 else None)
        | _ \<Rightarrow> None)"

fun workload_steps :: "'w harness \<Rightarrow> run_event list \<Rightarrow> 'w run \<Rightarrow> (obs list \<times> 'w run) option" where
  "workload_steps h [] r = Some ([], r)"
| "workload_steps h (ev # evs) r =
     (case workload_step h ev r of
        None \<Rightarrow> None
      | Some (os, r) \<Rightarrow> map_option (\<lambda>(os', r). (os @ os', r)) (workload_steps h evs r))"

definition all_returned :: "'w run \<Rightarrow> bool" where
  "all_returned r \<longleftrightarrow> list_all (\<lambda>p. p = Returned) (rn_at r)"

section \<open>Final validation\<close>

definition changed_keys :: "u64 list \<Rightarrow> (nat \<times> u64) list" where
  "changed_keys versions = filter (\<lambda>(i, version). 0 < version) (List.enumerate 0 versions)"

definition validation_timeout :: "duration \<Rightarrow> duration" where
  "validation_timeout d = min (max d (10 * second)) minute"

definition validation_read ::
    "'w harness \<Rightarrow> nat \<times> u64 \<Rightarrow> duration \<Rightarrow> worker_result \<Rightarrow> 'w \<Rightarrow> obs \<times> worker_result \<times> 'w" where
  "validation_read h key elapsed wr w =
     (case kv_Get (hn_client h) (hn_keys h ! fst key) w of
        (Inl e, w) \<Rightarrow> (GetFailed (fst key), record_failure False wr, w)
      | (Inr val, w) \<Rightarrow>
          if \<not> Matches (hn_sha h) (hn_values h) (fst key) (snd key) val
          then (Got (fst key) val, record_failure True wr, w)
          else (Got (fst key) val, wr\<lparr>wr_latencies := wr_latencies wr @ [elapsed],
            wr_readLatencies := wr_readLatencies wr @ [elapsed], wr_reads := wr_reads wr + 1\<rparr>, w))"

text \<open>Each attempted position with the worker that took it and the measured time.\<close>

fun validation_loop ::
    "'w harness \<Rightarrow> ((nat \<times> u64) \<times> nat \<times> duration) list \<Rightarrow> worker_result list \<Rightarrow> 'w
     \<Rightarrow> obs list \<times> worker_result list \<times> 'w" where
  "validation_loop h [] wrs w = ([], wrs, w)"
| "validation_loop h ((key, i, elapsed) # rest) wrs w =
     (case validation_read h key elapsed (wrs ! i) w of
        (ob, wr, w) \<Rightarrow>
          (case validation_loop h rest (wrs[i := wr]) w of (os, wrs, w) \<Rightarrow> (ob # os, wrs, w)))"

definition merge_results :: "worker_result list \<Rightarrow> worker_result" where
  "merge_results wrs = no_result\<lparr>wr_latencies := concat (map wr_latencies wrs),
     wr_readLatencies := concat (map wr_readLatencies wrs), wr_reads := sum_list (map wr_reads wrs),
     wr_failures := sum_list (map wr_failures wrs), wr_mismatches := sum_list (map wr_mismatches wrs)\<rparr>"

definition validateWrittenWorkloadValues ::
    "'w harness \<Rightarrow> nat \<Rightarrow> (nat \<times> duration) list \<Rightarrow> u64 list \<Rightarrow> 'w
     \<Rightarrow> obs list \<times> (bytes + worker_result \<times> u64) \<times> 'w" where
  "validateWrittenWorkloadValues h clients sched versions w =
     (let changed = changed_keys versions in
      if changed = [] then ([], Inr (no_result, 0), w)
      else
        let workerCount = min clients (length changed) in
        case validation_loop h (zip changed sched) (replicate workerCount no_result) w of
          (os, wrs, w) \<Rightarrow>
            let attempted = min (length changed) (length sched) in
            if attempted \<noteq> length changed
            then (os, Inl (''final write-generation validation timed out after checking '' @
              show_nat attempted @ '' of '' @ show_nat (length changed) @ '' keys''), w)
            else (os, Inr (merge_results wrs, of_nat attempted), w))"

section \<open>The phase\<close>

definition workloadTerminationReason :: "u64 \<Rightarrow> int \<Rightarrow> bytes" where
  "workloadTerminationReason operationAttempts maxRequests =
     (if word_of_int maxRequests \<le> operationAttempts then ''request_limit'' else ''duration_limit'')"

text \<open>\<^verbatim>\<open>strings.ReplaceAll(s, "_", " ")\<close>.\<close>

definition spaces_for_underscores :: "bytes \<Rightarrow> bytes" where
  "spaces_for_underscores = map (\<lambda>c. if c = CHR ''_'' then CHR '' '' else c)"

definition workload_phase ::
    "arith \<Rightarrow> 'w harness \<Rightarrow> bytes \<Rightarrow> bytes \<Rightarrow> worker_result list \<Rightarrow> worker_result \<Rightarrow> u64 \<Rightarrow> duration
     \<Rightarrow> bytes option \<times> benchmark_phase" where
  "workload_phase a h name addr workers validation validationReads elapsed =
     (let reads = sum_list (map wr_reads workers);
          writes = sum_list (map wr_writes workers);
          operationFailures = sum_list (map wr_failures workers);
          valueMismatches = sum_list (map wr_mismatches workers);
          all = (\<lambda>sel. concat (map sel workers));
          latencies = all wr_latencies @ wr_latencies validation;
          operationAttempts = reads + writes + operationFailures;
          reason = workloadTerminationReason operationAttempts (wc_MaxRequests (hn_cfg h));
          requests = reads + wr_reads validation + writes;
          aggregate = latencyDistributionFor a latencies;
          phase = empty_phase\<lparr>bp_Name := name, bp_Address := addr, bp_Requests := requests,
            bp_OperationAttempts := operationAttempts, bp_TerminationReason := reason,
            bp_Reads := reads + wr_reads validation, bp_Writes := writes,
            bp_Failures := operationFailures + wr_failures validation,
            bp_ValueMismatches := valueMismatches + wr_mismatches validation,
            bp_ValidationReads := validationReads, bp_ValidationFailures := wr_failures validation,
            bp_ValidationMismatches := wr_mismatches validation, bp_ElapsedSeconds := seconds a elapsed,
            bp_P50 := ld_P50 aggregate, bp_P95 := ld_P95 aggregate, bp_P99 := ld_P99 aggregate,
            bp_ReadLatency := latencyDistributionPointer a (all wr_readLatencies),
            bp_WriteLatency := latencyDistributionPointer a (all wr_writeLatencies),
            bp_ReadOrderingWait := latencyDistributionPointer a (all wr_readWaits),
            bp_WriteOrderingWait := latencyDistributionPointer a (all wr_writeWaits),
            bp_FinalValidation := latencyDistributionPointer a (wr_readLatencies validation)\<rparr>;
          phase = add_note (Note (''measured operation issuance stopped at the '' @
            spaces_for_underscores reason @ '' after '' @ show_u64 operationAttempts @ '' operations'')) phase;
          phase = (if 0 < validationReads
            then add_note (Note (''validated the final write generation for '' @ show_u64 validationReads @ '' keys'')) phase
            else phase);
          phase = (if 0 < elapsed
            then phase\<lparr>bp_OpsPerSecond := fdiv a (of_u64 a requests) (seconds a elapsed)\<rparr> else phase)
      in (if requests = 0 then Some ''phase completed without a successful operation'' else None, phase))"

text \<open>
  The whole phase along a schedule: the events of the workers until every one has returned, then
  the validation. \<open>None\<close> if the events are not such a schedule.
\<close>

definition runRedisWorkloadWithClients ::
    "arith \<Rightarrow> 'w harness \<Rightarrow> bytes \<Rightarrow> bytes \<Rightarrow> nat \<Rightarrow> run_event list \<Rightarrow> (nat \<times> duration) list \<Rightarrow> duration \<Rightarrow> 'w
     \<Rightarrow> (obs list \<times> (bytes + bytes option \<times> benchmark_phase) \<times> 'w) option" where
  "runRedisWorkloadWithClients a h name addr clients evs sched elapsed w =
     (if int clients \<noteq> wc_Concurrency (hn_cfg h)
      then Some ([], Inl (''workload client count '' @ show_nat clients @ '' does not match concurrency '' @
        show_int (wc_Concurrency (hn_cfg h))), w)
      else case workload_steps h evs (start_run h w) of
        None \<Rightarrow> None
      | Some (os, r) \<Rightarrow>
          if \<not> all_returned r
            \<or> list_ex (\<lambda>(i, d). min clients (length (changed_keys (rn_versions r))) \<le> i) sched
          then None
          else case validateWrittenWorkloadValues h clients sched (rn_versions r) (rn_world r) of
              (os', Inl e, w) \<Rightarrow> Some (os @ os', Inl e, w)
            | (os', Inr (validation, validationReads), w) \<Rightarrow>
                Some (os @ os',
                  Inr (workload_phase a h name addr (rn_workers r) validation validationReads elapsed), w))"

end
