(* ===== verification/WorkloadRunProps.thy ===== *)
theory WorkloadRunProps
  imports WorkloadRun
begin

text \<open>
  The measured phase against a reference checker. The checker sees every reply of the client in
  the order the operations were executed, remembers the last value whose write was acknowledged
  for each key, and judges a reply by comparing it with that value. The workers of the benchmark
  keep only a version number per key and tally in parallel; their totals are the checker's.
\<close>

section \<open>The reference checker\<close>

type_synonym checker = "(nat \<Rightarrow> bytes) \<times> nat \<times> nat \<times> nat \<times> nat"

fun reference :: "checker \<Rightarrow> obs \<Rightarrow> checker" where
  "reference (m, rd, wt, fl, mm) (Got k v) =
     (if v = m k then (m, rd + 1, wt, fl, mm) else (m, rd, wt, fl + 1, mm + 1))"
| "reference (m, rd, wt, fl, mm) (GetFailed k) = (m, rd, wt, fl + 1, mm)"
| "reference (m, rd, wt, fl, mm) (Wrote k v) = (m(k := v), rd, wt + 1, fl, mm)"
| "reference (m, rd, wt, fl, mm) (SetFailed k) = (m, rd, wt, fl + 1, mm)"

definition seeded :: "'w harness \<Rightarrow> checker" where
  "seeded h = (\<lambda>k. Fill (hn_sha h) (hn_values h) k 0 [], 0, 0, 0, 0)"

definition checks :: "'w harness \<Rightarrow> obs list \<Rightarrow> checker" where
  "checks h os = foldl reference (seeded h) os"

definition proper :: "'w harness \<Rightarrow> bool" where
  "proper h \<longleftrightarrow> validateWorkloadConfig (hn_cfg h) = None
     \<and> hn_scenario h \<in> set (selectedWorkloadScenarios (wc_Scenario (hn_cfg h)))
     \<and> (\<forall>x. length (hn_sha h x) = 32) \<and> int (length (hn_keys h)) = wc_KeyCount (hn_cfg h)
     \<and> hn_values h = newWorkloadValues (hn_sha h) (hn_keys h) (nat (wc_ValueSize (hn_cfg h)))"

lemma proper_Matches:
  assumes "proper h" "k < length (hn_keys h)"
  shows "Matches (hn_sha h) (hn_values h) k version val \<longleftrightarrow>
    val = Fill (hn_sha h) (hn_values h) k version dst"
proof -
  have "16 \<le> wv_size (hn_values h)"
    using assms(1) valid_workload(4) [of "hn_cfg h"]
    by (simp add: proper_def newWorkloadValues_def nat_le_eq_zle)
  moreover have "length (wv_digests (hn_values h) ! k) = 32"
    "length (versionDigest (hn_sha h) (hn_values h) k version) = 32"
    using workload_digests [of "hn_sha h" k "hn_keys h"] assms by (simp_all add: proper_def)
  ultimately show ?thesis by (intro Matches_Fill_eq) simp_all
qed

lemma proper_Fill:
  assumes "proper h" "k < length (hn_keys h)"
  shows "Fill (hn_sha h) (hn_values h) k version dst = Fill (hn_sha h) (hn_values h) k version dst'"
  using proper_Matches [OF assms] by blast

section \<open>Tallies\<close>

definition added :: "worker_result \<Rightarrow> nat \<times> nat \<times> nat \<times> nat \<Rightarrow> worker_result \<Rightarrow> bool" where
  "added wr d wr' \<longleftrightarrow> (case d of (dr, dw, df, dm) \<Rightarrow>
     wr_reads wr' = wr_reads wr + of_nat dr \<and> wr_writes wr' = wr_writes wr + of_nat dw
     \<and> wr_failures wr' = wr_failures wr + of_nat df \<and> wr_mismatches wr' = wr_mismatches wr + of_nat dm)"

definition tallies :: "worker_result list \<Rightarrow> nat \<times> nat \<times> nat \<times> nat \<Rightarrow> bool" where
  "tallies wrs n \<longleftrightarrow> (case n of (rd, wt, fl, mm) \<Rightarrow>
     sum_list (map wr_reads wrs) = of_nat rd \<and> sum_list (map wr_writes wrs) = of_nat wt
     \<and> sum_list (map wr_failures wrs) = of_nat fl \<and> sum_list (map wr_mismatches wrs) = of_nat mm)"

lemma sum_list_replaced:
  fixes f :: "'a \<Rightarrow> 'b::ab_group_add"
  shows "i < length xs \<Longrightarrow> sum_list (map f (xs[i := y])) = sum_list (map f xs) + (f y - f (xs ! i))"
proof (induction xs arbitrary: i)
  case (Cons x xs)
  then show ?case by (cases i) (simp_all add: algebra_simps)
qed simp

lemma tallies_added:
  assumes "tallies wrs (rd, wt, fl, mm)" "i < length wrs" "added (wrs ! i) (dr, dw, df, dm) wr"
  shows "tallies (wrs[i := wr]) (rd + dr, wt + dw, fl + df, mm + dm)"
  using assms by (simp add: tallies_def added_def sum_list_replaced)

lemma tallies_none: "tallies (replicate n no_result) (0, 0, 0, 0)"
  by (simp add: tallies_def no_result_def sum_list_replicate)

lemma added_records:
  "added wr (0, 0, 1, 1) (record_failure True wr)"
  "added wr (0, 0, 1, 0) (record_failure False wr)"
  "added wr (1, 0, 0, 0) (record_read tm wr)"
  "added wr (0, 1, 0, 0) (record_write tm wr)"
  by (simp_all add: added_def record_failure_def record_read_def record_write_def)

section \<open>Operations\<close>

text \<open>What one more reply does to the checker and to the tally of a worker.\<close>

definition judged :: "(nat \<Rightarrow> bytes) \<Rightarrow> (nat \<Rightarrow> bytes) \<Rightarrow> obs \<Rightarrow> worker_result \<Rightarrow> worker_result \<Rightarrow> bool" where
  "judged m m' ob wr wr' \<longleftrightarrow> (\<exists>dr dw df dm. added wr (dr, dw, df, dm) wr' \<and> dr + dw + df = 1 \<and>
     (\<forall>rd wt fl mm. reference (m, rd, wt, fl, mm) ob = (m', rd + dr, wt + dw, fl + df, mm + dm)))"

lemma judgedI:
  assumes "added wr (dr, dw, df, dm) wr'" "dr + dw + df = 1"
    and "\<And>rd wt fl mm. reference (m, rd, wt, fl, mm) ob = (m', rd + dr, wt + dw, fl + df, mm + dm)"
  shows "judged m m' ob wr wr'"
  using assms unfolding judged_def by blast

lemma judged_unexpected: "val \<noteq> m k \<Longrightarrow> judged m m (Got k val) wr (record_failure True wr)"
  by (rule judgedI [OF added_records(1)]) simp_all

lemma judged_expected:
  assumes "added wr (1, 0, 0, 0) wr'"
  shows "judged m m (Got k (m k)) wr wr'"
  by (rule judgedI [OF assms]) simp_all

lemma judged_failed:
  "judged m m (GetFailed k) wr (record_failure False wr)"
  "judged m m (SetFailed k) wr (record_failure False wr)"
  by (rule judgedI [OF added_records(2)]; simp)+

lemma judged_written: "judged m (m(k := val)) (Wrote k val) wr (record_write tm wr)"
  by (rule judgedI [OF added_records(4)]) simp_all

lemma read_operation_judged:
  assumes "proper h" "k < length (hn_keys h)" "m k = Fill (hn_sha h) (hn_values h) k version dst"
    and "read_operation h tm k version wr w = (ob, wr', w')"
  shows "judged m m ob wr wr'"
proof -
  have "Matches (hn_sha h) (hn_values h) k version val \<longleftrightarrow> val = m k" for val
    unfolding assms(3) by (rule proper_Matches [OF assms(1,2)])
  then show ?thesis
    using assms(4) judged_unexpected [of _ m k wr] judged_expected [OF added_records(3), of m k wr tm]
      judged_failed(1) [of m k wr]
    by (auto simp: read_operation_def split: prod.splits sum.splits if_splits)
qed

lemma write_operation_judged:
  assumes "proper h" "k < length (hn_keys h)" "m k = Fill (hn_sha h) (hn_values h) k version dst"
    and "write_operation h tm k version wr w = (ob, wr', version', w')"
  shows "\<exists>m'. judged m m' ob wr wr' \<and> (\<forall>j. j \<noteq> k \<longrightarrow> m' j = m j)
    \<and> m' k = Fill (hn_sha h) (hn_values h) k version' dst"
proof (cases "kv_Set (hn_client h) (hn_keys h ! k) (Fill (hn_sha h) (hn_values h) k (version + 1)
    (replicate (wv_size (hn_values h)) (char_of (0 :: nat)))) w")
  case (Pair res w'')
  then show ?thesis
    using assms(3,4) judged_written judged_failed(2) [of m k wr] proper_Fill [OF assms(1,2)]
    by (cases res) (fastforce simp: write_operation_def Let_def)+
qed

section \<open>The concurrent loop\<close>

definition holding :: "worker_phase list \<Rightarrow> int" where
  "holding ps = sum_list (map (\<lambda>p. case p of Holding _ \<Rightarrow> 1 | _ \<Rightarrow> 0) ps)"

definition returned :: "worker_phase list \<Rightarrow> int" where
  "returned ps = sum_list (map (\<lambda>p. case p of Returned \<Rightarrow> 1 | _ \<Rightarrow> 0) ps)"

lemma holding_update:
  "i < length ps \<Longrightarrow> holding (ps[i := p]) = holding ps
     + ((case p of Holding _ \<Rightarrow> 1 | _ \<Rightarrow> 0) - (case ps ! i of Holding _ \<Rightarrow> 1 | _ \<Rightarrow> 0))"
  unfolding holding_def by (rule sum_list_replaced)

lemma returned_update:
  "i < length ps \<Longrightarrow> returned (ps[i := p]) = returned ps
     + ((case p of Returned \<Rightarrow> 1 | _ \<Rightarrow> 0) - (case ps ! i of Returned \<Rightarrow> 1 | _ \<Rightarrow> 0))"
  unfolding returned_def by (rule sum_list_replaced)

lemma returned_le: "returned ps \<le> int (length ps)"
  by (induction ps) (auto simp: returned_def split: worker_phase.splits)

lemma returned_nonneg: "0 \<le> returned ps"
  by (induction ps) (auto simp: returned_def split: worker_phase.splits)

lemma holding_start [simp]: "holding (replicate n Looping) = 0" "returned (replicate n Looping) = 0"
  by (simp_all add: holding_def returned_def sum_list_replicate)

lemma holding_end: "list_all (\<lambda>p. p = Returned) ps \<Longrightarrow> holding ps = 0"
  by (induction ps) (simp_all add: holding_def)

definition agrees :: "'w harness \<Rightarrow> checker \<Rightarrow> 'w run \<Rightarrow> bool" where
  "agrees h c r \<longleftrightarrow> (case c of (m, rd, wt, fl, mm) \<Rightarrow>
     int (length (rn_at r)) = wc_Concurrency (hn_cfg h)
     \<and> length (rn_workers r) = length (rn_at r) \<and> length (rn_versions r) = length (hn_keys h)
     \<and> (\<forall>k < length (hn_keys h). m k = Fill (hn_sha h) (hn_values h) k (rn_versions r ! k) [])
     \<and> tallies (rn_workers r) (rd, wt, fl, mm)
     \<and> int (rd + wt + fl) + holding (rn_at r) = min (uint (rn_issued r)) (wc_MaxRequests (hn_cfg h))
     \<and> uint (rn_issued r) \<le> wc_MaxRequests (hn_cfg h) + returned (rn_at r))"

lemma agrees_start:
  assumes "proper h" shows "agrees h (seeded h) (start_run h w)"
proof -
  have "1 \<le> wc_Concurrency (hn_cfg h)" "1 \<le> wc_MaxRequests (hn_cfg h)"
    using valid_workload(6,7) [of "hn_cfg h"] assms by (simp_all add: proper_def)
  then show ?thesis
    by (simp add: agrees_def seeded_def start_run_def Let_def tallies_none)
qed

lemma agrees_expire:
  assumes "agrees h c r" "i < length (rn_at r)" "rn_at r ! i = Looping"
  shows "agrees h c (r\<lparr>rn_at := (rn_at r)[i := Returned]\<rparr>)"
  using assms by (auto simp: agrees_def holding_update returned_update)

lemma agrees_issue:
  assumes "proper h" "agrees h c r" "i < length (rn_at r)" "rn_at r ! i = Looping"
  shows "agrees h c (issue h i r)"
proof -
  have b: "1 \<le> wc_MaxRequests (hn_cfg h)" "wc_MaxRequests (hn_cfg h) \<le> 1000000"
    "wc_Concurrency (hn_cfg h) \<le> 1000000"
    using valid_workload(6,7,8) [of "hn_cfg h"] assms(1) by (simp_all add: proper_def)
  have small: "uint (rn_issued r) \<le> 2000000"
    using assms(2) b returned_le [of "rn_at r"] by (auto simp: agrees_def)
  have succ: "uint (rn_issued r + 1) = uint (rn_issued r) + 1"
  proof -
    have "(uint (rn_issued r) + 1) mod 2 ^ 64 = uint (rn_issued r) + 1"
      using small uint_ge_0 [of "rn_issued r"] by (intro mod_pos_pos_trivial) simp_all
    then show ?thesis by (simp add: uint_word_ariths)
  qed
  have le: "word_of_int (wc_MaxRequests (hn_cfg h)) \<le> rn_issued r \<longleftrightarrow>
      wc_MaxRequests (hn_cfg h) \<le> uint (rn_issued r)"
    unfolding word_le_def using uint_of_small [of "wc_MaxRequests (hn_cfg h)"] b by simp
  show ?thesis
    using assms(2-4) succ le returned_nonneg [of "rn_at r"]
    by (auto simp: agrees_def issue_def Let_def holding_update returned_update)
qed

lemma agrees_judged:
  assumes "agrees h (m, rd, wt, fl, mm) r" "i < length (rn_at r)" "rn_at r ! i = Holding n"
    and "judged m m' ob (rn_workers r ! i) wr"
    and "length vs = length (hn_keys h)"
    and "\<forall>k < length (hn_keys h). m' k = Fill (hn_sha h) (hn_values h) k (vs ! k) []"
  shows "agrees h (reference (m, rd, wt, fl, mm) ob) (r\<lparr>rn_at := (rn_at r)[i := Looping],
    rn_workers := (rn_workers r)[i := wr], rn_versions := vs, rn_world := w\<rparr>)"
proof -
  obtain dr dw df dm where d: "added (rn_workers r ! i) (dr, dw, df, dm) wr" "dr + dw + df = 1"
    "reference (m, rd, wt, fl, mm) ob = (m', rd + dr, wt + dw, fl + df, mm + dm)"
    using assms(4) unfolding judged_def by blast
  have t: "tallies ((rn_workers r)[i := wr]) (rd + dr, wt + dw, fl + df, mm + dm)"
    using tallies_added [OF _ _ d(1)] assms(1,2) by (simp add: agrees_def)
  have "int (rd + dr + (wt + dw) + (fl + df)) = int (rd + wt + fl) + 1"
    using d(2) by simp
  then show ?thesis
    using assms(1-3,5,6) t by (simp add: agrees_def d(3) holding_update returned_update)
qed

lemma agrees_execute:
  assumes "proper h" "agrees h c r" "i < length (rn_at r)" "rn_at r ! i = Holding n"
    "k < length (hn_keys h)" "execute h i tm k rd r = (ob, r')"
  shows "agrees h (reference c ob) r'"
proof -
  obtain m rd' wt fl mm where c: "c = (m, rd', wt, fl, mm)" by (cases c) blast
  note a = assms(2) [unfolded c]
  have f: "\<forall>k < length (hn_keys h). m k = Fill (hn_sha h) (hn_values h) k (rn_versions r ! k) []"
    and l: "length (rn_versions r) = length (hn_keys h)"
    using a by (simp_all add: agrees_def)
  have fk: "m k = Fill (hn_sha h) (hn_values h) k (rn_versions r ! k) []" using f assms(5) by blast
  show ?thesis
  proof (cases rd)
    case True
    obtain ob' wr w where o: "read_operation h tm k (rn_versions r ! k) (rn_workers r ! i) (rn_world r) = (ob', wr, w)"
      by (metis surj_pair)
    from agrees_judged [OF a assms(3,4) read_operation_judged [where m = m, OF assms(1,5) fk o] l f, of w]
    show ?thesis using True assms(6) o by (simp add: execute_def c)
  next
    case False
    obtain ob' wr v w where o: "write_operation h tm k (rn_versions r ! k) (rn_workers r ! i) (rn_world r) = (ob', wr, v, w)"
      by (metis surj_pair)
    obtain m' where m': "judged m m' ob' (rn_workers r ! i) wr" "\<forall>j. j \<noteq> k \<longrightarrow> m' j = m j"
      "m' k = Fill (hn_sha h) (hn_values h) k v []"
      using write_operation_judged [where m = m, OF assms(1,5) fk o] by blast
    have "\<forall>j < length (hn_keys h). m' j = Fill (hn_sha h) (hn_values h) j ((rn_versions r)[k := v] ! j) []"
      using m'(2,3) f l assms(5) by (auto simp: nth_list_update)
    from agrees_judged [OF a assms(3,4) m'(1) _ this, of w]
    show ?thesis using False assms(6) o l by (simp add: execute_def c)
  qed
qed

lemma agrees_step:
  assumes "proper h" "agrees h c r" "workload_step h ev r = Some (os, r')"
  shows "agrees h (foldl reference c os) r'"
proof (cases ev)
  case (Expire i)
  then show ?thesis using assms(3) agrees_expire [OF assms(2)] by (auto split: if_splits)
next
  case (Issue i)
  then show ?thesis using assms(3) agrees_issue [OF assms(1,2)] by (auto split: if_splits)
next
  case (Execute i tm)
  then obtain n k rd where "i < length (rn_at r)" "rn_at r ! i = Holding n" "0 \<le> k" "k < int (length (hn_keys h))"
    and e: "(case execute h i tm (nat k) rd r of (ob, r) \<Rightarrow> Some ([ob], r)) = Some (os, r')"
    using assms(3) by (auto split: if_splits worker_phase.splits option.splits prod.splits)
  moreover obtain ob where "execute h i tm (nat k) rd r = (ob, r')" "os = [ob]"
    using e by (auto split: prod.splits)
  ultimately show ?thesis
    using agrees_execute [OF assms(1,2), of i n "nat k" tm rd ob r'] by (simp add: nat_less_iff)
qed

lemma agrees_steps:
  assumes "proper h" "agrees h c r" "workload_steps h evs r = Some (os, r')"
  shows "agrees h (foldl reference c os) r'"
  using assms(2,3)
proof (induction evs arbitrary: c r os)
  case (Cons ev evs)
  then obtain os1 r1 os2 where "workload_step h ev r = Some (os1, r1)" "workload_steps h evs r1 = Some (os2, r')"
    "os = os1 @ os2"
    by (auto split: option.splits)
  then show ?case
    using Cons.IH [of "foldl reference c os1" r1 os2] agrees_step [OF assms(1) Cons.prems(1)] by simp
qed simp

section \<open>Final validation\<close>

lemma changed_keys_bounds:
  assumes "(k, version) \<in> set (changed_keys versions)"
  shows "k < length versions" "version = versions ! k"
  using assms by (auto simp: changed_keys_def in_set_enumerate_eq)

lemma length_changed_keys: "length (changed_keys versions) \<le> length versions"
  unfolding changed_keys_def using length_filter_le [of _ "List.enumerate 0 versions"] by simp

lemma validation_read_judged:
  assumes "proper h" "k < length (hn_keys h)" "m k = Fill (hn_sha h) (hn_values h) k version []"
    and "validation_read h (k, version) elapsed wr w = (ob, wr', w')"
  shows "judged m m ob wr wr'"
proof -
  have "Matches (hn_sha h) (hn_values h) k version val \<longleftrightarrow> val = m k" for val
    unfolding assms(3) by (rule proper_Matches [OF assms(1,2)])
  moreover have "added wr (1, 0, 0, 0) (wr\<lparr>wr_latencies := wr_latencies wr @ [elapsed],
      wr_readLatencies := wr_readLatencies wr @ [elapsed], wr_reads := wr_reads wr + 1\<rparr>)"
    by (simp add: added_def)
  ultimately show ?thesis
    using assms(4) judged_unexpected [of _ m k wr] judged_expected [of wr _ m k]
      judged_failed(1) [of m k wr]
    by (auto simp: validation_read_def split: prod.splits sum.splits if_splits)
qed

lemma validation_read_no_write:
  assumes "validation_read h key elapsed wr w = (ob, wr', w')"
    and "reference (m, 0, 0, 0, 0) ob = (m', a, b, c, e)"
  shows "b = 0"
  using assms by (auto simp: validation_read_def split: prod.splits sum.splits if_splits)

lemma validation_loop_judged:
  assumes "proper h"
    and "\<forall>((k, version), i, d) \<in> set ks. k < length (hn_keys h) \<and> i < length wrs
      \<and> m k = Fill (hn_sha h) (hn_values h) k version []"
    and "validation_loop h ks wrs w = (os, wrs', w')"
  shows "\<exists>dr df dm. dr + df = length ks
    \<and> (\<forall>rd wt fl mm. foldl reference (m, rd, wt, fl, mm) os = (m, rd + dr, wt, fl + df, mm + dm))
    \<and> (\<forall>rd wt fl mm. tallies wrs (rd, wt, fl, mm) \<longrightarrow> tallies wrs' (rd + dr, wt, fl + df, mm + dm))"
  using assms(2,3)
proof (induction ks arbitrary: wrs w os)
  case Nil
  then show ?case by (intro exI [of _ 0]) simp
next
  case (Cons x ks)
  obtain k version i d where x: "x = ((k, version), i, d)" by (metis surj_pair)
  obtain ob wr w1 where rd: "validation_read h (k, version) d (wrs ! i) w = (ob, wr, w1)" by (metis surj_pair)
  obtain os2 where vl: "validation_loop h ks (wrs[i := wr]) w1 = (os2, wrs', w')" "os = ob # os2"
    using Cons.prems(2) rd by (auto simp: x split: prod.splits)
  have i: "i < length wrs" "k < length (hn_keys h)" "m k = Fill (hn_sha h) (hn_values h) k version []"
    using Cons.prems(1) by (auto simp: x)
  obtain a b c e where j: "added (wrs ! i) (a, b, c, e) wr" "a + b + c = 1"
    "\<forall>rd wt fl mm. reference (m, rd, wt, fl, mm) ob = (m, rd + a, wt + b, fl + c, mm + e)"
    using validation_read_judged [where m = m, OF assms(1) i(2,3) rd] unfolding judged_def by blast
  have b: "b = 0" using validation_read_no_write [OF rd, of m m a b c e] j(3) by simp
  obtain dr df dm where ih: "dr + df = length ks"
    "\<forall>rd wt fl mm. foldl reference (m, rd, wt, fl, mm) os2 = (m, rd + dr, wt, fl + df, mm + dm)"
    "\<forall>rd wt fl mm. tallies (wrs[i := wr]) (rd, wt, fl, mm) \<longrightarrow> tallies wrs' (rd + dr, wt, fl + df, mm + dm)"
    using Cons.IH [OF _ vl(1)] Cons.prems(1) by fastforce
  show ?case
    using j(2,3) b ih tallies_added [OF _ i(1) j(1)] vl(2)
    by (intro exI [of _ "a + dr"] exI [of _ "c + df"] exI [of _ "e + dm"]) (auto simp: add.assoc [symmetric])
qed

lemma validation_judged:
  assumes "proper h" and len: "length versions = length (hn_keys h)"
    and m: "\<forall>k < length (hn_keys h). m k = Fill (hn_sha h) (hn_values h) k (versions ! k) []"
    and sched: "\<forall>(i, d) \<in> set sched. i < min clients (length (changed_keys versions))"
    and run: "validateWrittenWorkloadValues h clients sched versions w = (os, Inr (validation, n), w')"
  shows "\<exists>dr df dm. dr + df \<le> length (hn_keys h)
    \<and> (\<forall>rd wt fl mm. foldl reference (m, rd, wt, fl, mm) os = (m, rd + dr, wt, fl + df, mm + dm))
    \<and> wr_reads validation = of_nat dr \<and> wr_failures validation = of_nat df
    \<and> wr_mismatches validation = of_nat dm"
proof (cases "changed_keys versions = []")
  case True
  then show ?thesis
    using run by (intro exI [of _ 0]) (auto simp: validateWrittenWorkloadValues_def no_result_def)
next
  case False
  let ?ks = "zip (changed_keys versions) sched"
    and ?wrs = "replicate (min clients (length (changed_keys versions))) no_result"
  obtain wrs where vl: "validation_loop h ?ks ?wrs w = (os, wrs, w')"
    and v: "validation = merge_results wrs"
    using run False
    by (auto simp: validateWrittenWorkloadValues_def Let_def split: prod.splits if_splits)
  have "k < length (hn_keys h) \<and> m k = Fill (hn_sha h) (hn_values h) k version []"
    if "(k, version) \<in> set (changed_keys versions)" for k version
    using changed_keys_bounds [OF that] m len by simp
  then have "\<forall>((k, version), i, d) \<in> set ?ks. k < length (hn_keys h) \<and> i < length ?wrs
      \<and> m k = Fill (hn_sha h) (hn_values h) k version []"
    using sched by (fastforce dest: set_zip_leftD set_zip_rightD)
  then obtain dr df dm where d: "dr + df = length ?ks"
    "\<forall>rd wt fl mm. foldl reference (m, rd, wt, fl, mm) os = (m, rd + dr, wt, fl + df, mm + dm)"
    "\<forall>rd wt fl mm. tallies ?wrs (rd, wt, fl, mm) \<longrightarrow> tallies wrs (rd + dr, wt, fl + df, mm + dm)"
    using validation_loop_judged [OF assms(1) _ vl] by blast
  have "tallies wrs (dr, 0, df, dm)" using d(3) tallies_none by fastforce
  moreover have "dr + df \<le> length (hn_keys h)"
    using d(1) length_changed_keys [of versions] len by simp
  ultimately show ?thesis
    using d(2) by (intro exI [of _ dr] exI [of _ df] exI [of _ dm]) (simp add: v merge_results_def tallies_def)
qed

section \<open>The phase\<close>

lemma workload_phase_fields:
  assumes "workload_phase a h name addr workers validation n elapsed = (err, phase)"
  shows "bp_Reads phase = sum_list (map wr_reads workers) + wr_reads validation"
    "bp_Writes phase = sum_list (map wr_writes workers)"
    "bp_Requests phase = sum_list (map wr_reads workers) + wr_reads validation + sum_list (map wr_writes workers)"
    "bp_Failures phase = sum_list (map wr_failures workers) + wr_failures validation"
    "bp_ValueMismatches phase = sum_list (map wr_mismatches workers) + wr_mismatches validation"
    "bp_OperationAttempts phase = sum_list (map wr_reads workers) + sum_list (map wr_writes workers)
       + sum_list (map wr_failures workers)"
  using assms by (auto simp: workload_phase_def Let_def add_note_def)

lemma unat_of_small: "n \<le> 2000000 \<Longrightarrow> unat (of_nat n :: u64) = n"
  by (simp add: unsigned_of_nat take_bit_nat_eq_self)

lemma mismatch_is_failure: "foldl reference (m, rd, wt, fl, mm) os = (m', rd', wt', fl', mm') \<Longrightarrow>
    mm \<le> fl \<Longrightarrow> mm' \<le> fl'"
proof (induction os arbitrary: m rd wt fl mm)
  case (Cons ob os)
  show ?case
    by (cases ob) (use Cons in \<open>auto split: if_splits\<close>)
qed simp

text \<open>
  C9: For a checked configuration, seeded keys and any interleaving of the workers, the totals a
  completed workload phase reports are those of a checker that sees the replies one by one and
  remembers the last acknowledged value of every key: reads answered with that value, acknowledged
  writes, failed operations, and replies with any other value. In particular a phase reports no
  unexpected value exactly if every GET it completed returned the last acknowledged value. At most
  the configured number of operations is issued.
\<close>

theorem workload_phase_checked:
  assumes "proper h"
    and "runRedisWorkloadWithClients a h name addr clients evs sched elapsed w = Some (os, Inr (err, phase), w')"
    and "checks h os = (m, rd, wt, fl, mm)"
  shows "unat (bp_Reads phase) = rd \<and> unat (bp_Writes phase) = wt \<and> unat (bp_Failures phase) = fl
    \<and> unat (bp_ValueMismatches phase) = mm \<and> unat (bp_Requests phase) = rd + wt
    \<and> uint (bp_OperationAttempts phase) \<le> wc_MaxRequests (hn_cfg h)"
proof -
  obtain os1 r os2 validation n where r: "workload_steps h evs (start_run h w) = Some (os1, r)" "all_returned r"
    and sched: "\<forall>(i, d) \<in> set sched. i < min clients (length (changed_keys (rn_versions r)))"
    and v: "validateWrittenWorkloadValues h clients sched (rn_versions r) (rn_world r) = (os2, Inr (validation, n), w')"
    and os: "os = os1 @ os2"
    and ph: "workload_phase a h name addr (rn_workers r) validation n elapsed = (err, phase)"
    using assms(2) by (auto simp: runRedisWorkloadWithClients_def list_ex_iff not_le
        split: if_splits option.splits prod.splits sum.splits)
  obtain m1 rd1 wt1 fl1 mm1 where c1: "foldl reference (seeded h) os1 = (m1, rd1, wt1, fl1, mm1)"
    by (metis surj_pair)
  have a: "agrees h (m1, rd1, wt1, fl1, mm1) r"
    using agrees_steps [OF assms(1) agrees_start [OF assms(1)] r(1)] by (simp add: c1)
  then have f: "length (rn_versions r) = length (hn_keys h)"
      "\<forall>k < length (hn_keys h). m1 k = Fill (hn_sha h) (hn_values h) k (rn_versions r ! k) []"
    and t: "tallies (rn_workers r) (rd1, wt1, fl1, mm1)"
    and n: "int (rd1 + wt1 + fl1) \<le> wc_MaxRequests (hn_cfg h)"
    using holding_end [of "rn_at r"] r(2) by (auto simp: agrees_def all_returned_def)
  obtain dr df dm where d: "dr + df \<le> length (hn_keys h)"
    "\<forall>rd wt fl mm. foldl reference (m1, rd, wt, fl, mm) os2 = (m1, rd + dr, wt, fl + df, mm + dm)"
    "wr_reads validation = of_nat dr" "wr_failures validation = of_nat df" "wr_mismatches validation = of_nat dm"
    using validation_judged [OF assms(1) f sched v] by blast
  have c: "rd = rd1 + dr" "wt = wt1" "fl = fl1 + df" "mm = mm1 + dm"
    using assms(3) d(2) by (simp_all add: checks_def os c1)
  have "mm \<le> fl"
    using mismatch_is_failure [of _ 0 0 0 0 os] assms(3) by (simp add: checks_def seeded_def)
  moreover have b: "rd1 + wt1 + fl1 \<le> 1000000" "length (hn_keys h) \<le> 100000"
    using n valid_workload(3,8) [of "hn_cfg h"] assms(1) by (simp_all add: proper_def)
  ultimately have s: "rd + wt \<le> 2000000" "fl \<le> 2000000" "mm \<le> 2000000" "rd1 + wt1 + fl1 \<le> 2000000"
    using d(1) c by simp_all
  have w: "bp_Reads phase = of_nat rd" "bp_Writes phase = of_nat wt" "bp_Failures phase = of_nat fl"
    "bp_ValueMismatches phase = of_nat mm" "bp_Requests phase = of_nat (rd + wt)"
    "bp_OperationAttempts phase = of_nat (rd1 + wt1 + fl1)"
    using t by (simp_all add: workload_phase_fields [OF ph] tallies_def d(3-5) c)
  have "uint (bp_OperationAttempts phase) = int (rd1 + wt1 + fl1)"
    unfolding w(6) using unat_of_small [OF s(4)] by (metis uint_nat)
  then show ?thesis
    using n s unat_of_small [OF s(1)] unat_of_small unfolding w(1-5) by (simp del: of_nat_add)
qed

section \<open>A concrete phase\<close>

definition store_client :: "(bytes \<times> bytes) list kv_client" where
  "store_client = \<lparr>
     kv_Get = (\<lambda>k w. (case map_of w k of None \<Rightarrow> Inl ''nil'' | Some v \<Rightarrow> Inr v, w)),
     kv_Set = (\<lambda>k v w. (None, (k, v) # w))\<rparr>"

definition small_harness :: "(bytes \<times> bytes) list harness" where
  "small_harness =
     (let sha = (\<lambda>x. take 32 (x @ replicate 32 (CHR ''d'')));
          keys = buildWorkloadKeys ''b'' workloadScenarioSkew80 10
      in \<lparr>hn_client = store_client, hn_sha = sha, hn_keys = keys,
          hn_values = newWorkloadValues sha keys 20, hn_scenario = workloadScenarioSkew80,
          hn_cfg = small_workload\<lparr>wc_ReadRatio := 50\<rparr>\<rparr>)"

definition small_store :: "(bytes \<times> bytes) list" where
  "small_store = map (\<lambda>i. (hn_keys small_harness ! i,
     Fill (hn_sha small_harness) (hn_values small_harness) i 0 [])) [0..<10]"

definition some_time :: timing where
  "some_time = \<lparr>tm_elapsed = 5000, tm_command = 3000, tm_wait = 1000\<rparr>"

definition small_run :: "(obs list \<times> (bytes + bytes option \<times> benchmark_phase) \<times> (bytes \<times> bytes) list) option" where
  "small_run = runRedisWorkloadWithClients (exact id) small_harness ''origin direct'' ''o:1'' 2
     [Issue 0, Issue 1, Execute 1 some_time, Issue 1, Execute 0 some_time, Expire 0,
      Execute 1 some_time, Expire 1] [(0, 2000), (0, 2000), (0, 2000)] second small_store"

lemma small_run_completes: "(case small_run of Some (os, Inr p, w) \<Rightarrow> True | _ \<Rightarrow> False)"
  by code_simp

lemma small_harness_proper: "proper small_harness"
  unfolding proper_def
proof (intro conjI)
  show "validateWorkloadConfig (hn_cfg small_harness) = None" by code_simp
  show "hn_scenario small_harness \<in> set (selectedWorkloadScenarios (wc_Scenario (hn_cfg small_harness)))"
    by code_simp
qed (simp_all add: small_harness_def Let_def small_workload_def buildWorkloadKeys_def min_def)

theorem workload_phase_checked_witness:
  "\<exists>os err phase w m rd wt fl mm. small_run = Some (os, Inr (err, phase), w)
     \<and> checks small_harness os = (m, rd, wt, fl, mm) \<and> unat (bp_Reads phase) = rd
     \<and> unat (bp_ValueMismatches phase) = mm"
proof -
  obtain os err phase w where r: "small_run = Some (os, Inr (err, phase), w)"
    using small_run_completes by (auto split: option.splits prod.splits sum.splits)
  obtain m rd wt fl mm where c: "checks small_harness os = (m, rd, wt, fl, mm)" by (metis surj_pair)
  show ?thesis
    using workload_phase_checked [OF small_harness_proper r [unfolded small_run_def] c] r c by blast
qed

end
