(* ===== verification/Spec2Isabelle.thy ===== *)
theory Spec2Isabelle
  imports CachePolicy LruCache HotnessFloat ConfigProps Compatibility MetricsProps HighWater AuditProps
    ProxyRuns DrainSteps ClientRuns Solo WorkloadProps EvidenceProps WorkloadRunProps
begin

text \<open>
  A verification of Slizen, an adaptive read cache in front of Redis or Valkey. Clients speak RESP to
  the proxy; the proxy classifies each command by a compiled-in catalogue and hands reads, writes
  and other commands to the service; the service answers reads from two cache tiers or from the
  upstream, decides by the hotness tracker which keys deserve a place, and invalidates on writes.
  \<^verbatim>\<open>slizenctl\<close> checks command lists against the catalogue and benchmarks the daemon.

  \<^bold>\<open>Conventions.\<close> Go strings and byte slices are lists of characters, times and durations are integers
  in nanoseconds, \<^verbatim>\<open>uint64\<close> values are 64-bit words that wrap, \<^verbatim>\<open>float64\<close> values are rationals rounded
  after every operation by an arithmetic that is an argument. Go maps are association lists, errors
  are values of a sum or option type, panics are a flag or \<open>None\<close>. Code outside the repository is an
  argument: the clock, the upstream client, go-redis, the TOML decoder, the environment, HMAC and
  SHA-256, the Unicode tables. The state of every component is a record, and every method is a
  function from the state to its results and the new state.

  \<^bold>\<open>Shared.\<close> \<open>Prelude\<close>: types, Go maps, list lemmas. \<open>GoStd\<close>: the standard library functions the
  code calls. \<open>Float64\<close>: IEEE rounding; the locale \<open>rounding\<close> states what the code relies on and is
  interpreted for IEEE and for exact arithmetic. \<open>GoHeap\<close>: \<^verbatim>\<open>container/heap\<close> with the locale
  \<open>ranked_heap\<close>, interpreted in \<open>Scorer\<close>.

  \<^bold>\<open>Cache policy\<close> (\<^verbatim>\<open>internal/cachepolicy\<close>), theory \<open>CachePolicy\<close>: the matcher built by \<^verbatim>\<open>New\<close>
  resolves every key by longest-prefix matching.

  \<^bold>\<open>LRU cache\<close> (\<^verbatim>\<open>internal/cache\<close>), theory \<open>LruCache\<close>: map, recency list and counters as the code
  has them; every sequence of operations refines an abstract LRU list, the limits hold, eviction
  takes the least recent entries, expiry and grace are exact. The locale \<open>cache_store\<close> is what the
  service relies on, interpreted on the model.

  \<^bold>\<open>Hotness tracker\<close> (\<^verbatim>\<open>internal/hotness\<close>): model in \<open>Hotness\<close> and \<open>Scorer\<close>. \<open>Catchup\<close>: the closed-form
  catch-up over elapsed windows equals advancing window by window. \<open>HotnessInv\<close>, \<open>HotnessReplay\<close>,
  \<open>HotnessProps\<close>: bounds, exact HOT count, the returned transitions replay the states, the bounded
  heap returns the top of the ranking. \<open>HotnessFloat\<close>: soundness of the early promotion and of the
  logarithm estimate in double precision.

  \<^bold>\<open>Configuration\<close> (\<^verbatim>\<open>internal/config\<close>), theories \<open>Config\<close> and \<open>ConfigProps\<close>: defaults, overlay of file and
  environment, validation characterised without its accumulators, secrets absent from the summary.

  \<^bold>\<open>Compatibility\<close> (\<^verbatim>\<open>internal/compatibility\<close>, \<^verbatim>\<open>cmd/slizenctl/compatibility.go\<close>), theory
  \<open>Compatibility\<close>: the catalogue, its binary search, the report, the gate and the commands its message names.

  \<^bold>\<open>Metrics\<close> (\<^verbatim>\<open>internal/metrics\<close>), theories \<open>Metrics\<close>, \<open>MetricsProps\<close>, \<open>HighWater\<close>: totals agree with the
  exported counters; the lock-free high-water mark is exact under every interleaving.

  \<^bold>\<open>Upstream and key identifiers\<close> (\<^verbatim>\<open>internal/upstream\<close>, \<^verbatim>\<open>internal/privacy\<close>), theory \<open>Upstream\<close>.

  \<^bold>\<open>Service\<close> (\<^verbatim>\<open>internal/service\<close>): model in \<open>Service\<close> and \<open>ServiceOps\<close>, code equations in \<open>ServiceEval\<close>.
  \<open>ServiceInv\<close> with the locale \<open>demotion_log\<close>, \<open>ServiceKeeps\<close>, \<open>ServiceRuns\<close>, \<open>ServiceProps\<close>: tiers,
  budget and observe mode over every run, and transparency of reads when the upstream is a key-value
  store. \<open>AuditProps\<close>: which keys the audit report lists, what it says and advises about each, and when
  it is truncated or complete.

  \<^bold>\<open>Concurrent clients of the service.\<close> \<open>Interleave\<close> splits GET, MGET, shared flights, writes, purges and
  pass-through commands into their critical sections, atomic accesses and upstream calls, as the
  step relation \<open>cstep\<close> on a list of threads; the singleflight library is the documented contract of
  \<^verbatim>\<open>DoChan\<close> and \<^verbatim>\<open>Forget\<close>. \<open>InterleaveEff\<close>, \<open>Coherence\<close>, \<open>CoherenceRuns\<close> and \<open>CoherenceProps\<close> show that
  the cache is coherent, \<open>FreshReads\<close> that a GET without an overlapping write answers the stored
  value, \<open>Progress\<close> that no interleaving deadlocks or runs forever, \<open>Solo\<close> that an undisturbed thread
  executes the sequential method. \<open>ClientRuns\<close> evaluates a scheduled run with overlapping clients. A
  purge with its \<^verbatim>\<open>Forget\<close> is one step, and an MGET that panics on a malformed reply ends its thread.

  \<^bold>\<open>Proxy\<close> (\<^verbatim>\<open>internal/proxy\<close>): \<open>Proxy\<close> models command handling and replies; \<open>ProxyProps\<close>
  shows one reply per command and agreement with the catalogue. \<open>ProxyRuns\<close> runs client commands through
  the Redis client against a store whose keys expire: only a key that has expired can still be answered
  with the value last written to it. The documented behaviour of go-redis and Redis it relies on is
  \<open>redis_reads\<close>, \<open>redis_writes\<close> and \<open>redis_expiry\<close>; all writes pass through the proxy. \<open>Drain\<close>,
  \<open>DrainList\<close>, \<open>DrainSteps\<close>: the drain tracker, its linked list, and its safety and termination under
  every interleaving.

  \<^bold>\<open>Benchmarks\<close> (\<^verbatim>\<open>cmd/slizenctl/benchmark.go\<close>): \<open>Workload\<close> and \<open>WorkloadProps\<close> model configuration
  checks, keys, the operation stream and the versioned values. \<open>OriginInfo\<close> parses \<^verbatim>\<open>INFO\<close> replies.
  \<open>Evidence\<close> and \<open>EvidenceProps\<close> model phases, counter deltas and verdicts: percentiles are nearest-rank
  and a proved reduction rests on sound evidence. \<open>WorkloadRun\<close> and \<open>WorkloadRunProps\<close> run the
  concurrent workers against a client and refine a reference checker.

  \<^bold>\<open>Bounds.\<close> No definition uses fuel: loops are recursive functions with termination proofs, and
  concurrent loops are steps whose interleavings are shown to end. Epoch counters are 64-bit words;
  the coherence theorems are about runs of fewer than \<open>2 ^ 64\<close> steps, in which no epoch wraps. Percentiles are exact for up to
  \<open>2 ^ 40\<close> samples. Overflow of \<^verbatim>\<open>float64\<close> to infinity is outside the arithmetic: the values stay below
  \<open>2 ^ 93\<close>.

  \<^bold>\<open>Not modelled.\<close> The listener, accept loop and shutdown of the proxy server, and the process of
  \<^verbatim>\<open>slizend\<close>: sockets, signals and goroutines of the Go runtime. The admin HTTP handlers and the
  remaining \<^verbatim>\<open>slizenctl\<close> commands: routing, flags, HTTP and JSON around modelled results. Of the
  benchmarks, the hot-key GET load, seeding, warm-up and text output. Build information and the test
  doubles.
\<close>

end
